(* ===== verification/GoPrelude.thy ===== *)
theory GoPrelude
  imports Main "HOL-Library.Char_ord" "HOL-Library.Monad_Syntax"
begin

text \<open>
  The part of Go's standard library that every component uses: strings as byte lists
  (package \<open>strings\<close>, \<open>bytes\<close>), decimal conversion (package \<open>strconv\<close>), and the collections
  of simplification rules the component theories share. A Go \<open>string\<close> or \<open>[]byte\<close> is an
  Isabelle \<open>string\<close>: a \<open>char\<close> is one byte, \<open>length\<close> counts bytes. A Go \<open>nil\<close> slice and an empty
  slice are both the empty list. A Go pointer that is only tested against \<open>nil\<close> and read is an
  \<open>option\<close>.
\<close>

named_theorems go_defs \<open>definitions a property of a component unfolds\<close>
named_theorems go_split \<open>one-step facts about the string operations\<close>

type_synonym bytes = string

section \<open>Byte classes\<close>

abbreviation ord :: "char \<Rightarrow> nat" where
  "ord c \<equiv> of_char c"

definition is_digit :: "char \<Rightarrow> bool" where
  "is_digit c \<longleftrightarrow> 48 \<le> ord c \<and> ord c \<le> 57"

definition is_hex :: "char \<Rightarrow> bool" where
  "is_hex c \<longleftrightarrow> is_digit c \<or> (65 \<le> ord c \<and> ord c \<le> 70) \<or> (97 \<le> ord c \<and> ord c \<le> 102)"

text \<open>Whitespace of \<open>strings.TrimSpace\<close>, \<open>strings.Fields\<close> and \<open>bytes.TrimSpace\<close> on ASCII bytes:
  tab, line feed, vertical tab, form feed, carriage return, space.\<close>

definition is_space :: "char \<Rightarrow> bool" where
  "is_space c \<longleftrightarrow> (9 \<le> ord c \<and> ord c \<le> 13) \<or> ord c = 32"

definition lower_char :: "char \<Rightarrow> char" where
  "lower_char c = (if 65 \<le> ord c \<and> ord c \<le> 90 then char_of (ord c + 32) else c)"

definition upper_char :: "char \<Rightarrow> char" where
  "upper_char c = (if 97 \<le> ord c \<and> ord c \<le> 122 then char_of (ord c - 32) else c)"

text \<open>\<open>strings.ToLower\<close>, \<open>strings.ToUpper\<close> and \<open>strings.EqualFold\<close> on ASCII bytes; the bytes of a
  longer UTF-8 sequence are kept as they are.\<close>

definition to_lower :: "string \<Rightarrow> string" where
  "to_lower s = map lower_char s"

definition to_upper :: "string \<Rightarrow> string" where
  "to_upper s = map upper_char s"

definition equal_fold :: "string \<Rightarrow> string \<Rightarrow> bool" where
  "equal_fold s t \<longleftrightarrow> to_lower s = to_lower t"

section \<open>Searching\<close>

definition has_prefix :: "string \<Rightarrow> string \<Rightarrow> bool" where
  "has_prefix p s \<longleftrightarrow> take (length p) s = p"

definition has_suffix :: "string \<Rightarrow> string \<Rightarrow> bool" where
  "has_suffix p s \<longleftrightarrow> length p \<le> length s \<and> drop (length s - length p) s = p"

definition trim_prefix :: "string \<Rightarrow> string \<Rightarrow> string" where
  "trim_prefix p s = (if has_prefix p s then drop (length p) s else s)"

text \<open>\<open>strings.Index\<close> and \<open>strings.LastIndex\<close>, with \<open>None\<close> for \<open>-1\<close>.\<close>

fun str_index :: "string \<Rightarrow> string \<Rightarrow> nat option" where
  "str_index p [] = (if p = [] then Some 0 else None)"
| "str_index p (c # s) =
     (if has_prefix p (c # s) then Some 0 else map_option Suc (str_index p s))"

fun last_index :: "string \<Rightarrow> string \<Rightarrow> nat option" where
  "last_index p [] = (if p = [] then Some 0 else None)"
| "last_index p (c # s) =
     (case last_index p s of
        Some i \<Rightarrow> Some (Suc i)
      | None \<Rightarrow> if has_prefix p (c # s) then Some 0 else None)"

definition str_contains :: "string \<Rightarrow> string \<Rightarrow> bool" where
  "str_contains s p \<longleftrightarrow> str_index p s \<noteq> None"

section \<open>Splitting, joining, trimming\<close>

fun split_char :: "char \<Rightarrow> string \<Rightarrow> string list" where
  "split_char d [] = [[]]"
| "split_char d (c # s) =
     (if c = d then [] # split_char d s
      else (case split_char d s of [] \<Rightarrow> [[c]] | x # xs \<Rightarrow> (c # x) # xs))"

text \<open>\<open>strings.SplitN(s, d, 2)\<close>: the parts around the first separator, if there is one.\<close>

fun split_once :: "char \<Rightarrow> string \<Rightarrow> (string \<times> string) option" where
  "split_once d [] = None"
| "split_once d (c # s) =
     (if c = d then Some ([], s) else map_option (\<lambda>(a, b). (c # a, b)) (split_once d s))"

fun join :: "string \<Rightarrow> string list \<Rightarrow> string" where
  "join sep [] = []"
| "join sep [x] = x"
| "join sep (x # y # xs) = x @ sep @ join sep (y # xs)"

definition trim_left_by :: "(char \<Rightarrow> bool) \<Rightarrow> string \<Rightarrow> string" where
  "trim_left_by P s = dropWhile P s"

definition trim_right_by :: "(char \<Rightarrow> bool) \<Rightarrow> string \<Rightarrow> string" where
  "trim_right_by P s = rev (dropWhile P (rev s))"

definition trim_by :: "(char \<Rightarrow> bool) \<Rightarrow> string \<Rightarrow> string" where
  "trim_by P s = trim_right_by P (trim_left_by P s)"

definition trim_space :: "string \<Rightarrow> string" where
  "trim_space s = trim_by is_space s"

text \<open>\<open>strings.Fields\<close>: the maximal runs of bytes that are not whitespace.\<close>

fun fields_aux :: "string \<Rightarrow> string \<Rightarrow> string list" where
  "fields_aux cur [] = (if cur = [] then [] else [rev cur])"
| "fields_aux cur (c # s) =
     (if is_space c then (if cur = [] then fields_aux [] s else rev cur # fields_aux [] s)
      else fields_aux (c # cur) s)"

definition fields :: "string \<Rightarrow> string list" where
  "fields s = fields_aux [] s"

section \<open>Decimal conversion\<close>

definition digit_char :: "nat \<Rightarrow> char" where
  "digit_char d = char_of (48 + d)"

definition digit_val :: "char \<Rightarrow> nat" where
  "digit_val c = ord c - 48"

text \<open>\<open>strconv.FormatUint(n, 10)\<close> and \<open>strconv.Itoa\<close>.\<close>

fun nat_str :: "nat \<Rightarrow> string" where
  "nat_str n = (if n < 10 then [digit_char n] else nat_str (n div 10) @ [digit_char (n mod 10)])"

declare nat_str.simps [simp del]

definition int_str :: "int \<Rightarrow> string" where
  "int_str i = (if i < 0 then CHR ''-'' # nat_str (nat (- i)) else nat_str (nat i))"

definition digits_val :: "string \<Rightarrow> nat" where
  "digits_val s = foldl (\<lambda>n c. 10 * n + digit_val c) 0 s"

definition max_int64 :: int where "max_int64 = 9223372036854775807"
definition min_int64 :: int where "min_int64 = -9223372036854775808"

text \<open>\<open>strconv.Atoi\<close>: the value (0 on a syntax error, the nearest bound on a range error) and
  whether there was an error.\<close>

definition atoi :: "string \<Rightarrow> int \<times> bool" where
  "atoi s =
     (let (neg, t) = (case s of [] \<Rightarrow> (False, [])
                      | c # r \<Rightarrow> if c = CHR ''-'' then (True, r)
                                 else if c = CHR ''+'' then (False, r) else (False, s));
          v = (if neg then - int (digits_val t) else int (digits_val t))
      in if t = [] \<or> \<not> list_all is_digit t then (0, True)
         else if v < min_int64 then (min_int64, True)
         else if max_int64 < v then (max_int64, True)
         else (v, False))"

section \<open>Lemmas\<close>

lemma has_prefix_append [simp]: "has_prefix p (p @ s)"
  by (simp add: has_prefix_def)

lemma has_prefix_Nil [simp]: "has_prefix [] s"
  by (simp add: has_prefix_def)

lemma has_prefix_iff: "has_prefix p s \<longleftrightarrow> (\<exists>t. s = p @ t)"
  unfolding has_prefix_def by (metis append_eq_conv_conj append_take_drop_id)

lemma has_prefix_Cons [simp]: "has_prefix (c # p) (d # s) \<longleftrightarrow> c = d \<and> has_prefix p s"
  by (auto simp: has_prefix_def)

lemma has_prefix_Cons_Nil [simp]: "has_prefix (c # p) [] = False"
  by (simp add: has_prefix_def)

lemma str_index_Some_split: "str_index p s = Some i \<Longrightarrow> \<exists>a b. s = a @ p @ b \<and> length a = i"
proof (induction s arbitrary: i)
  case Nil
  then show ?case by (auto split: if_splits)
next
  case (Cons c s)
  show ?case
  proof (cases "has_prefix p (c # s)")
    case True
    with Cons.prems have "i = 0" by simp
    moreover from True obtain t where "c # s = [] @ p @ t" by (auto simp: has_prefix_iff)
    ultimately show ?thesis by (metis list.size(3))
  next
    case False
    with Cons.prems obtain j where "str_index p s = Some j" "i = Suc j" by auto
    with Cons.IH obtain a b where "s = a @ p @ b" "length a = j" by blast
    with \<open>i = Suc j\<close> have "c # s = (c # a) @ p @ b \<and> length (c # a) = i" by simp
    then show ?thesis by blast
  qed
qed

lemma str_index_None: "str_index p s = None \<longleftrightarrow> \<not> (\<exists>a b. s = a @ p @ b)"
proof (induction s)
  case Nil
  then show ?case by auto
next
  case (Cons c s)
  have "(\<exists>a b. c # s = a @ p @ b) \<longleftrightarrow> has_prefix p (c # s) \<or> (\<exists>a b. s = a @ p @ b)"
    by (metis (no_types, opaque_lifting) append_Cons append_Nil has_prefix_iff list.exhaust list.inject)
  with Cons show ?case by simp
qed

lemma str_contains_iff: "str_contains s p \<longleftrightarrow> (\<exists>a b. s = a @ p @ b)"
  using str_index_None [of p s] by (auto simp: str_contains_def)

lemma split_char_not_Nil [simp]: "split_char d s \<noteq> []"
  by (induction s) (auto split: list.splits)

lemma split_char_no_sep: "d \<notin> set s \<Longrightarrow> split_char d s = [s]"
  by (induction s) auto

lemma split_char_append_sep:
  "d \<notin> set s \<Longrightarrow> split_char d (s @ d # t) = s # split_char d t"
  by (induction s) auto

lemma split_char_join:
  "xs \<noteq> [] \<Longrightarrow> \<forall>x \<in> set xs. d \<notin> set x \<Longrightarrow> split_char d (join [d] xs) = xs"
proof (induction xs)
  case Nil
  then show ?case by simp
next
  case (Cons x xs)
  then show ?case
    by (cases xs) (simp_all add: split_char_no_sep split_char_append_sep)
qed

lemma split_once_append: "d \<notin> set a \<Longrightarrow> split_once d (a @ d # b) = Some (a, b)"
  by (induction a) auto

lemma split_once_None: "split_once d s = None \<longleftrightarrow> d \<notin> set s"
  by (induction s) auto

lemma is_digit_digit_char [simp]: "d < 10 \<Longrightarrow> is_digit (digit_char d)"
  by (simp add: is_digit_def digit_char_def)

lemma digit_val_digit_char [simp]: "d < 10 \<Longrightarrow> digit_val (digit_char d) = d"
  by (simp add: digit_val_def digit_char_def)

lemma nat_str_not_Nil [simp]: "nat_str n \<noteq> []"
  by (subst nat_str.simps) simp

lemma nat_str_digits: "list_all is_digit (nat_str n)"
proof (induction n rule: nat_str.induct)
  case (1 n)
  then show ?case by (subst nat_str.simps) auto
qed

lemma digits_val_snoc: "digits_val (s @ [c]) = 10 * digits_val s + digit_val c"
  by (simp add: digits_val_def)

text \<open>Printing a number and reading it back.\<close>

lemma digits_val_nat_str [simp]: "digits_val (nat_str n) = n"
proof (induction n rule: nat_str.induct)
  case (1 n)
  show ?case
  proof (cases "n < 10")
    case True
    then show ?thesis by (subst nat_str.simps) (simp add: digits_val_def)
  next
    case False
    with 1 show ?thesis by (subst nat_str.simps) (simp add: digits_val_snoc)
  qed
qed

lemma nat_str_inj [simp]: "nat_str m = nat_str n \<longleftrightarrow> m = n"
  by (metis digits_val_nat_str)

lemma digit_not_char:
  "is_digit c \<Longrightarrow> c \<noteq> CHR ''-''" "is_digit c \<Longrightarrow> c \<noteq> CHR ''+''" "is_digit c \<Longrightarrow> c \<noteq> CHR ''.''"
  "is_digit c \<Longrightarrow> c \<noteq> CHR '':''" "is_digit c \<Longrightarrow> c \<noteq> CHR '' ''"
  by (auto simp: is_digit_def)

lemma set_nat_str: "c \<in> set (nat_str n) \<Longrightarrow> is_digit c"
  using nat_str_digits by (metis list_all_iff)

lemma nat_str_hd_digit: "nat_str n = c # r \<Longrightarrow> is_digit c"
  using set_nat_str [of c n] by simp

lemma atoi_nat_str: "int n \<le> max_int64 \<Longrightarrow> atoi (nat_str n) = (int n, False)"
proof (cases "nat_str n")
  case Nil
  then show ?thesis by simp
next
  case (Cons c r)
  assume le: "int n \<le> max_int64"
  have "is_digit c" using Cons by (rule nat_str_hd_digit)
  then have "c \<noteq> CHR ''-''" "c \<noteq> CHR ''+''" by (auto dest: digit_not_char)
  moreover have "digits_val (c # r) = n" using Cons digits_val_nat_str by metis
  moreover have "list_all is_digit (c # r)" using Cons nat_str_digits by metis
  ultimately show ?thesis using le Cons
    by (simp add: atoi_def Let_def min_int64_def)
qed

section \<open>Lemmas: cutting and trimming\<close>

lemma split_once_shorter: "split_once d s = Some (a, b) \<Longrightarrow> length b < length s"
  by (induction s arbitrary: a b) (fastforce split: if_splits)+

lemma split_once_app:
  "split_once d (a @ b) = (case split_once d a of
       Some (u, v) \<Rightarrow> Some (u, v @ b)
     | None \<Rightarrow> map_option (\<lambda>(u, v). (a @ u, v)) (split_once d b))"
proof (induction a)
  case Nil
  then show ?case by (cases "split_once d b") auto
next
  case (Cons c a)
  then show ?case by (cases "split_once d b"; cases "split_once d a") auto
qed

lemma split_char_once:
  "split_char d s = (case split_once d s of None \<Rightarrow> [s] | Some (a, b) \<Rightarrow> a # split_char d b)"
  by (induction s) (auto split: option.splits list.splits)

lemma dropWhile_idem: "\<not> P (hd s) \<or> s = [] \<Longrightarrow> dropWhile P s = s"
  by (cases s) auto

lemma trim_by_trimmed:
  "trim_by P s = [] \<or> (\<not> P (hd (trim_by P s)) \<and> \<not> P (last (trim_by P s)))"
proof -
  let ?l = "dropWhile P s"
  obtain u where u: "?l = rev (dropWhile P (rev ?l)) @ u" "list_all P u"
    by (metis dropWhile_eq_drop list_all_iff rev_append rev_rev_ident set_rev set_takeWhileD takeWhile_dropWhile_id)
  have "\<not> P (last t)" if "t = rev (dropWhile P (rev ?l))" "t \<noteq> []" for t
    using that hd_dropWhile [of P "rev ?l"] by (metis last_rev rev_is_Nil_conv)
  moreover have "\<not> P (hd t)" if "t = rev (dropWhile P (rev ?l))" "t \<noteq> []" for t
    using that u hd_dropWhile [of P s] by (metis append_is_Nil_conv hd_append2)
  ultimately show ?thesis by (auto simp: trim_by_def trim_right_by_def trim_left_by_def)
qed

lemma trim_by_id: "s = [] \<or> (\<not> P (hd s) \<and> \<not> P (last s)) \<Longrightarrow> trim_by P s = s"
  by (auto simp: trim_by_def trim_right_by_def trim_left_by_def dropWhile_idem hd_rev)

lemma trim_by_idem [simp]: "trim_by P (trim_by P s) = trim_by P s"
  by (rule trim_by_id) (rule trim_by_trimmed)

lemma set_trim_by: "set (trim_by P s) \<subseteq> set s"
  by (auto simp: trim_by_def trim_right_by_def trim_left_by_def dest!: set_dropWhileD [of _ P "rev _"])
    (auto dest: set_dropWhileD)

lemma split_once_parts: "split_once d s = Some (a, b) \<Longrightarrow> s = a @ d # b \<and> d \<notin> set a"
  by (induction s arbitrary: a b) (auto split: if_splits)

lemma trim_sub: "c \<notin> set s \<Longrightarrow> c \<notin> set (trim_space s)"
  using set_trim_by [of is_space s] by (auto simp: trim_space_def)

lemma split_char_parts: "p \<in> set (split_char d s) \<Longrightarrow> d \<notin> set p"
  by (induction s arbitrary: p) (auto split: if_splits list.splits)

lemma join_hd_last:
  "xs \<noteq> [] \<Longrightarrow> \<forall>x \<in> set xs. x \<noteq> [] \<Longrightarrow> hd (join d xs) = hd (hd xs) \<and> last (join d xs) = last (last xs) \<and> join d xs \<noteq> []"
  by (induction d xs rule: join.induct) auto

end
