(* ===== verification/OrderedMap.thy ===== *)
theory OrderedMap
  imports GoPrelude
begin

text \<open>
  Go maps have no order, so the code that needs one keeps a slice of keys beside the map:
  \<open>subMap/subOrder\<close>, \<open>resultMap/resultOrder\<close>, \<open>seriesMap/seriesOrder\<close>, \<open>pairMap/pairOrder\<close>,
  \<open>lastByID/idOrder\<close>, \<open>points/order\<close>, \<open>accumulators/deviceOrder\<close>. A key is appended to the slice
  when it is first stored. The pair is modelled once here; the interface \<open>ordered_store\<close> states what
  the clients rely on and \<open>om\<close> is its interpretation by the pair.
\<close>

type_synonym ('k, 'v) omap = "('k \<Rightarrow> 'v option) \<times> 'k list"

definition om_empty :: "('k, 'v) omap" where
  "om_empty = (\<lambda>_. None, [])"

definition om_get :: "('k, 'v) omap \<Rightarrow> 'k \<Rightarrow> 'v option" where
  "om_get s k = fst s k"

definition om_keys :: "('k, 'v) omap \<Rightarrow> 'k list" where
  "om_keys s = snd s"

text \<open>\<open>if _, ok := m[k]; !ok { order = append(order, k) }; m[k] = v\<close>\<close>

definition om_put :: "'k \<Rightarrow> 'v \<Rightarrow> ('k, 'v) omap \<Rightarrow> ('k, 'v) omap" where
  "om_put k v s = ((fst s)(k := Some v), if fst s k = None then snd s @ [k] else snd s)"

text \<open>\<open>for k, v := range m { ... }\<close> where each pass changes only its own entry (the map holds
  pointers): the order in which Go visits the keys makes no difference.\<close>

definition om_map :: "('k \<Rightarrow> 'v \<Rightarrow> 'v) \<Rightarrow> ('k, 'v) omap \<Rightarrow> ('k, 'v) omap" where
  "om_map f s = (\<lambda>k. map_option (f k) (fst s k), snd s)"

text \<open>\<open>for _, k := range order { out = append(out, m[k]) }\<close>\<close>

definition om_values :: "('k, 'v) omap \<Rightarrow> 'v list" where
  "om_values s = map (\<lambda>k. the (fst s k)) (snd s)"

definition om_wf :: "('k, 'v) omap \<Rightarrow> bool" where
  "om_wf s \<longleftrightarrow> distinct (snd s) \<and> (\<forall>k. k \<in> set (snd s) \<longleftrightarrow> fst s k \<noteq> None)"

text \<open>The keys of a list in the order of their first appearance.\<close>

fun first_seen :: "'k list \<Rightarrow> 'k list" where
  "first_seen [] = []"
| "first_seen (x # xs) = x # filter (\<lambda>y. y \<noteq> x) (first_seen xs)"

section \<open>The interface\<close>

locale ordered_store =
  fixes empty :: "'s"
    and get :: "'s \<Rightarrow> 'k \<Rightarrow> 'v option"
    and put :: "'k \<Rightarrow> 'v \<Rightarrow> 's \<Rightarrow> 's"
    and keys :: "'s \<Rightarrow> 'k list"
    and wf :: "'s \<Rightarrow> bool"
  assumes get_empty: "get empty k = None"
    and keys_empty: "keys empty = []"
    and wf_empty: "wf empty"
    and get_put: "get (put k v s) j = (if j = k then Some v else get s j)"
    and keys_put: "keys (put k v s) = (if get s k = None then keys s @ [k] else keys s)"
    and wf_put: "wf s \<Longrightarrow> wf (put k v s)"
    and wf_keys: "wf s \<Longrightarrow> distinct (keys s)"
    and wf_dom: "wf s \<Longrightarrow> k \<in> set (keys s) \<longleftrightarrow> get s k \<noteq> None"
begin

lemma put_idem_keys: "get s k \<noteq> None \<Longrightarrow> keys (put k v s) = keys s"
  by (simp add: keys_put)

lemma set_keys_put: "wf s \<Longrightarrow> set (keys (put k v s)) = insert k (set (keys s))"
  using wf_dom by (auto simp: keys_put)

lemma wf_fold: "wf s \<Longrightarrow> wf (fold (\<lambda>x. put (kf x) (vf x)) xs s)"
  by (induction xs arbitrary: s) (auto intro: wf_put)

lemma get_fold_notin:
  "k \<notin> kf ` set xs \<Longrightarrow> get (fold (\<lambda>x. put (kf x) (vf x)) xs s) k = get s k"
  by (induction xs arbitrary: s) (auto simp: get_put)

lemma get_fold_last:
  "k \<in> kf ` set xs \<Longrightarrow>
   get (fold (\<lambda>x. put (kf x) (vf x)) xs s) k = Some (vf (last (filter (\<lambda>x. kf x = k) xs)))"
proof (induction xs arbitrary: s)
  case Nil
  then show ?case by simp
next
  case (Cons x xs)
  show ?case
  proof (cases "k \<in> kf ` set xs")
    case True
    then have "filter (\<lambda>x. kf x = k) xs \<noteq> []" by (auto simp: filter_empty_conv)
    with Cons.IH [OF True] show ?thesis by simp
  next
    case False
    then have "filter (\<lambda>x. kf x = k) xs = []" by (auto simp: filter_empty_conv)
    with False Cons.prems show ?thesis by (auto simp: get_fold_notin get_put)
  qed
qed

lemma keys_fold:
  "wf s \<Longrightarrow> keys (fold (\<lambda>x. put (kf x) (vf x)) xs s) =
     keys s @ filter (\<lambda>k. k \<notin> set (keys s)) (first_seen (map kf xs))"
proof (induction xs arbitrary: s)
  case Nil
  then show ?case by simp
next
  case (Cons x xs)
  let ?s = "put (kf x) (vf x) s"
  have "keys (fold (\<lambda>x. put (kf x) (vf x)) (x # xs) s) =
      keys ?s @ filter (\<lambda>k. k \<notin> set (keys ?s)) (first_seen (map kf xs))"
    using Cons.IH [OF wf_put [OF Cons.prems]] by simp
  then show ?case
    using wf_dom [OF Cons.prems, of "kf x"] set_keys_put [OF Cons.prems, of "kf x" "vf x"]
    by (auto simp: keys_put conj_commute intro!: arg_cong [where f = "\<lambda>p. filter p (first_seen (map kf xs))"])
qed

end

text \<open>A client that folds a stream of items into the entry of each item's key: the entry of a key is
  the fold over that key's items alone, whatever is interleaved.\<close>

locale ordered_accumulator = ordered_store empty get put keys wf
  for empty :: "'s" and get :: "'s \<Rightarrow> 'k \<Rightarrow> 'v option" and put :: "'k \<Rightarrow> 'v \<Rightarrow> 's \<Rightarrow> 's"
    and keys :: "'s \<Rightarrow> 'k list" and wf :: "'s \<Rightarrow> bool" +
  fixes key :: "'x \<Rightarrow> 'k"
    and upd :: "'x \<Rightarrow> 'v option \<Rightarrow> 'v"
    and feed :: "'x \<Rightarrow> 's \<Rightarrow> 's"
  assumes feed_eq: "feed x s = put (key x) (upd x (get s (key x))) s"
begin

lemma wf_feed: "wf s \<Longrightarrow> wf (fold feed xs s)"
proof (induction xs arbitrary: s)
  case (Cons x xs)
  then show ?case by (simp add: feed_eq [of x s] wf_put)
qed simp

lemma get_feed:
  "get (fold feed xs s) k = fold (\<lambda>x v. Some (upd x v)) (filter (\<lambda>x. key x = k) xs) (get s k)"
proof (induction xs arbitrary: s)
  case (Cons x xs)
  show ?case by (simp add: Cons.IH feed_eq [of x s] get_put)
qed simp

lemma keys_feed_empty: "keys (fold feed xs empty) = first_seen (map key xs)"
proof -
  have gen: "wf s \<Longrightarrow> keys (fold feed xs s) =
      keys s @ filter (\<lambda>k. k \<notin> set (keys s)) (first_seen (map key xs))" for s
  proof (induction xs arbitrary: s)
    case Nil
    then show ?case by simp
  next
    case (Cons x xs)
    let ?s = "put (key x) (upd x (get s (key x))) s"
    have "keys (fold feed (x # xs) s) =
        keys ?s @ filter (\<lambda>k. k \<notin> set (keys ?s)) (first_seen (map key xs))"
      using Cons.IH [OF wf_put [OF Cons.prems]] by (simp add: feed_eq [of x s])
    then show ?case
      using wf_dom [OF Cons.prems, of "key x"]
        set_keys_put [OF Cons.prems, of "key x" "upd x (get s (key x))"]
      by (auto simp: keys_put conj_commute
          intro!: arg_cong [where f = "\<lambda>p. filter p (first_seen (map key xs))"])
  qed
  have "keys (fold feed xs empty) =
      keys empty @ filter (\<lambda>k. k \<notin> set (keys empty)) (first_seen (map key xs))"
    by (rule gen [OF wf_empty])
  then show ?thesis by (simp add: keys_empty)
qed

end

section \<open>The interpretation\<close>

interpretation om: ordered_store om_empty om_get om_put om_keys om_wf
  by unfold_locales (auto simp: om_empty_def om_get_def om_put_def om_keys_def om_wf_def)

lemma om_wf_map [simp]: "om_wf (om_map f s) = om_wf s"
  by (simp add: om_wf_def om_map_def)

lemma om_keys_map [simp]: "om_keys (om_map f s) = om_keys s"
  by (simp add: om_keys_def om_map_def)

lemma om_get_map [simp]: "om_get (om_map f s) k = map_option (f k) (om_get s k)"
  by (simp add: om_get_def om_map_def)

lemma om_values_eq: "om_values s = map (\<lambda>k. the (om_get s k)) (om_keys s)"
  by (simp add: om_values_def om_get_def om_keys_def)

lemma length_om_values [simp]: "length (om_values s) = length (om_keys s)"
  by (simp add: om_values_eq)

lemma in_om_values: "om_wf s \<Longrightarrow> v \<in> set (om_values s) \<longleftrightarrow> (\<exists>k. om_get s k = Some v)"
  unfolding om_values_eq using om.wf_dom [of s] by force

lemma set_first_seen [simp]: "set (first_seen xs) = set xs"
  by (induction xs) auto

lemma distinct_first_seen [simp]: "distinct (first_seen xs)"
  by (induction xs) auto

lemma first_seen_distinct: "distinct xs \<Longrightarrow> first_seen xs = xs"
  by (induction xs) (auto simp: filter_id_conv)

lemma first_seen_append: "first_seen (xs @ ys) = first_seen xs @ filter (\<lambda>y. y \<notin> set xs) (first_seen ys)"
  by (induction xs) (auto simp: conj_commute intro: filter_cong)

lemmas om_simps = om.get_put om.keys_put om.get_empty om.keys_empty om.wf_empty

end
