(* ===== verification/GoTime.thy ===== *)
theory GoTime
  imports GoPrelude
begin

text \<open>
  Package \<open>time\<close> as the program uses it. A \<open>time.Time\<close> is the number of nanoseconds since the Unix
  epoch in UTC, an unbounded integer (Go keeps seconds and nanoseconds apart, so it does not overflow
  in the years the program meets); a \<open>time.Duration\<close> is a 64-bit count of nanoseconds, and
  \<open>time_sub\<close> saturates like \<open>Time.Sub\<close>. Monotonic clock readings and locations are not modelled.
\<close>

type_synonym time = int
type_synonym duration = int

text \<open>The zero \<open>time.Time{}\<close>: January 1, year 1.\<close>

definition zero_time :: time where
  "zero_time = -62135596800 * 10 ^ 9"

definition is_zero :: "time \<Rightarrow> bool" where
  "is_zero t \<longleftrightarrow> t = zero_time"

definition clamp64 :: "int \<Rightarrow> int" where
  "clamp64 d = max min_int64 (min max_int64 d)"

text \<open>\<open>t.Sub(u)\<close>\<close>

definition time_sub :: "time \<Rightarrow> time \<Rightarrow> duration" where
  "time_sub t u = clamp64 (t - u)"

text \<open>Go's integer division truncates toward zero.\<close>

definition trunc_div :: "int \<Rightarrow> int \<Rightarrow> int" where
  "trunc_div a b = sgn a * sgn b * (\<bar>a\<bar> div \<bar>b\<bar>)"

definition dur_micro :: "duration \<Rightarrow> int" where
  "dur_micro d = trunc_div d 1000"

definition dur_milli :: "duration \<Rightarrow> int" where
  "dur_milli d = trunc_div d 1000000"

definition ms :: "int \<Rightarrow> duration" where "ms n = n * 10 ^ 6"
definition sec :: "int \<Rightarrow> duration" where "sec n = n * 10 ^ 9"

section \<open>Dates\<close>

text \<open>The day number of a civil date in the proleptic Gregorian calendar, day 0 the first of January
  1970; the month is in 1..12, the day any integer (\<open>time.Date\<close> normalises days past the month).\<close>

definition days_civil :: "int \<Rightarrow> int \<Rightarrow> int \<Rightarrow> int" where
  "days_civil y m d =
     (let y' = (if m \<le> 2 then y - 1 else y);
          era = y' div 400;
          yoe = y' - era * 400;
          mp = (m + 9) mod 12;
          doy = (153 * mp + 2) div 5 + d - 1;
          doe = yoe * 365 + yoe div 4 - yoe div 100 + doy
      in era * 146097 + doe - 719468)"

text \<open>\<open>time.Date(y, m, d, h, mi, s, ns, time.UTC)\<close>: every field may be out of its range.\<close>

definition time_date :: "int \<Rightarrow> int \<Rightarrow> int \<Rightarrow> int \<Rightarrow> int \<Rightarrow> int \<Rightarrow> int \<Rightarrow> time" where
  "time_date y m d h mi s ns =
     (let y' = y + (m - 1) div 12; m' = (m - 1) mod 12 + 1
      in (days_civil y' m' d * 86400 + h * 3600 + mi * 60 + s) * 10 ^ 9 + ns)"

definition leap :: "int \<Rightarrow> bool" where
  "leap y \<longleftrightarrow> y mod 4 = 0 \<and> (y mod 100 \<noteq> 0 \<or> y mod 400 = 0)"

definition days_in :: "int \<Rightarrow> int \<Rightarrow> int" where
  "days_in y m = (if m = 2 then (if leap y then 29 else 28)
     else if m = 4 \<or> m = 6 \<or> m = 9 \<or> m = 11 then 30 else 31)"

section \<open>Lemmas\<close>

lemma clamp64_bounds [simp]: "min_int64 \<le> clamp64 d" "clamp64 d \<le> max_int64"
  by (auto simp: clamp64_def min_int64_def max_int64_def)

lemma clamp64_id: "min_int64 \<le> d \<Longrightarrow> d \<le> max_int64 \<Longrightarrow> clamp64 d = d"
  by (simp add: clamp64_def)

lemma time_sub_self [simp]: "time_sub t t = 0"
  by (simp add: time_sub_def clamp64_def min_int64_def max_int64_def)

lemma time_sub_nonneg: "u \<le> t \<Longrightarrow> 0 \<le> time_sub t u"
  by (auto simp: time_sub_def clamp64_def max_int64_def)

lemma time_sub_pos: "0 < time_sub t u \<longleftrightarrow> u < t"
  by (auto simp: time_sub_def clamp64_def max_int64_def min_int64_def)

lemma time_sub_mono: "t \<le> t' \<Longrightarrow> time_sub t u \<le> time_sub t' u"
  by (auto simp: time_sub_def clamp64_def)

lemma trunc_div_nonneg: "0 \<le> a \<Longrightarrow> 0 < b \<Longrightarrow> trunc_div a b = a div b"
  by (cases "a = 0") (auto simp: trunc_div_def sgn_if)

lemma time_date_carry: "time_date y (m + 12) d h mi s ns = time_date (y + 1) m d h mi s ns"
proof -
  have "y + (m + 12 - 1) div 12 = y + 1 + (m - 1) div 12" "(m + 12 - 1) mod 12 = (m - 1) mod 12"
    using div_add_self2 [of 12 "m - 1"] mod_add_self2 [of "m - 1" 12] by simp_all
  then show ?thesis by (simp only: time_date_def)
qed

lemma time_date_epoch: "time_date 1970 1 1 0 0 0 0 = 0"
  by (simp add: time_date_def days_civil_def)

lemma time_date_zero: "time_date 1 1 1 0 0 0 0 = zero_time"
  by (simp add: time_date_def days_civil_def zero_time_def)

end
