(* ===== verification/Json.thy ===== *)
theory Json
  imports Complex_Main GoPrelude
begin

text \<open>
  Go's \<open>encoding/json\<close> as the program uses it. A \<open>json.RawMessage\<close> is the text of a JSON value, a
  \<open>string\<close>. \<open>json_step\<close> is the validating scanner (\<open>scanner.go\<close>: one transition per byte over a
  stack of open objects and arrays); \<open>decode\<close> gives one level of a valid text, with the texts of its
  members or elements; the \<open>un_*\<close> functions are \<open>json.Unmarshal\<close> into the Go types the program
  decodes into, \<open>None\<close> for an error. \<open>marshal_map\<close> is \<open>json.Marshal\<close> of a
  \<open>map[string]json.RawMessage\<close>: keys sorted, HTML characters escaped, the values compacted.
  Not modelled: the nesting limit of 10000, the merging of two members that fold to the same struct
  field (the last one wins here), non-ASCII case folding of struct field names.
\<close>

section \<open>The scanner\<close>

datatype jctx = CKey | CVal | CArr

datatype jst =
    BeginValueOrEmpty | BeginValue | BeginStringOrEmpty | BeginString | EndValue | EndTop
  | InString | InEsc | InU nat | Neg | Num1 | Num0 | Dot | Dot0 | Exp | ExpSign | Exp0
  | Lit string | Bad

type_synonym scanner = "jst \<times> jctx list"

definition is_ws :: "char \<Rightarrow> bool" where
  "is_ws c \<longleftrightarrow> ord c = 32 \<or> ord c = 9 \<or> ord c = 10 \<or> ord c = 13"

fun end_value :: "char \<Rightarrow> jctx list \<Rightarrow> scanner" where
  "end_value c [] = (if is_ws c then (EndTop, []) else (Bad, []))"
| "end_value c (k # ks) =
     (if is_ws c then (EndValue, k # ks)
      else (case k of
          CKey \<Rightarrow> if c = CHR '':'' then (BeginValue, CVal # ks) else (Bad, k # ks)
        | CVal \<Rightarrow> if c = CHR '','' then (BeginString, CKey # ks)
                  else if c = CHR ''}'' then (if ks = [] then EndTop else EndValue, ks)
                  else (Bad, k # ks)
        | CArr \<Rightarrow> if c = CHR '','' then (BeginValue, CArr # ks)
                  else if c = CHR '']'' then (if ks = [] then EndTop else EndValue, ks)
                  else (Bad, k # ks)))"

definition begin_value :: "char \<Rightarrow> jctx list \<Rightarrow> scanner" where
  "begin_value c ks =
     (if is_ws c then (BeginValue, ks)
      else if c = CHR ''{'' then (BeginStringOrEmpty, CKey # ks)
      else if c = CHR ''['' then (BeginValueOrEmpty, CArr # ks)
      else if c = CHR 0x22 then (InString, ks)
      else if c = CHR ''-'' then (Neg, ks)
      else if c = CHR ''0'' then (Num0, ks)
      else if c = CHR ''t'' then (Lit ''rue'', ks)
      else if c = CHR ''f'' then (Lit ''alse'', ks)
      else if c = CHR ''n'' then (Lit ''ull'', ks)
      else if is_digit c then (Num1, ks)
      else (Bad, ks))"

definition begin_string :: "char \<Rightarrow> jctx list \<Rightarrow> scanner" where
  "begin_string c ks =
     (if is_ws c then (BeginString, ks)
      else if c = CHR 0x22 then (InString, ks) else (Bad, ks))"

definition num0 :: "char \<Rightarrow> jctx list \<Rightarrow> scanner" where
  "num0 c ks =
     (if c = CHR ''.'' then (Dot, ks)
      else if c = CHR ''e'' \<or> c = CHR ''E'' then (Exp, ks)
      else end_value c ks)"

definition exp_sign :: "char \<Rightarrow> jctx list \<Rightarrow> scanner" where
  "exp_sign c ks = (if is_digit c then (Exp0, ks) else (Bad, ks))"

fun json_step :: "scanner \<Rightarrow> char \<Rightarrow> scanner" where
  "json_step (BeginValueOrEmpty, ks) c =
     (if is_ws c then (BeginValueOrEmpty, ks)
      else if c = CHR '']'' then end_value c ks else begin_value c ks)"
| "json_step (BeginValue, ks) c = begin_value c ks"
| "json_step (BeginStringOrEmpty, ks) c =
     (if is_ws c then (BeginStringOrEmpty, ks)
      else if c = CHR ''}'' then end_value c (case ks of [] \<Rightarrow> [] | k # r \<Rightarrow> CVal # r)
      else begin_string c ks)"
| "json_step (BeginString, ks) c = begin_string c ks"
| "json_step (EndValue, ks) c = end_value c ks"
| "json_step (EndTop, ks) c = (if is_ws c then (EndTop, ks) else (Bad, ks))"
| "json_step (InString, ks) c =
     (if c = CHR 0x22 then (EndValue, ks)
      else if c = CHR 0x5C then (InEsc, ks)
      else if ord c < 32 then (Bad, ks) else (InString, ks))"
| "json_step (InEsc, ks) c =
     (if c \<in> set [CHR ''b'', CHR ''f'', CHR ''n'', CHR ''r'', CHR ''t'', CHR 0x5C, CHR ''/'', CHR 0x22]
      then (InString, ks)
      else if c = CHR ''u'' then (InU 3, ks) else (Bad, ks))"
| "json_step (InU n, ks) c =
     (if is_hex c then (if n = 0 then InString else InU (n - 1), ks) else (Bad, ks))"
| "json_step (Neg, ks) c =
     (if c = CHR ''0'' then (Num0, ks) else if is_digit c then (Num1, ks) else (Bad, ks))"
| "json_step (Num1, ks) c = (if is_digit c then (Num1, ks) else num0 c ks)"
| "json_step (Num0, ks) c = num0 c ks"
| "json_step (Dot, ks) c = (if is_digit c then (Dot0, ks) else (Bad, ks))"
| "json_step (Dot0, ks) c =
     (if is_digit c then (Dot0, ks)
      else if c = CHR ''e'' \<or> c = CHR ''E'' then (Exp, ks) else end_value c ks)"
| "json_step (Exp, ks) c =
     (if c = CHR ''+'' \<or> c = CHR ''-'' then (ExpSign, ks) else exp_sign c ks)"
| "json_step (ExpSign, ks) c = exp_sign c ks"
| "json_step (Exp0, ks) c = (if is_digit c then (Exp0, ks) else end_value c ks)"
| "json_step (Lit [], ks) c = (Bad, ks)"
| "json_step (Lit (x # xs), ks) c =
     (if c = x then (if xs = [] then EndValue else Lit xs, ks) else (Bad, ks))"
| "json_step (Bad, ks) c = (Bad, ks)"

definition json_run :: "scanner \<Rightarrow> string \<Rightarrow> scanner" where
  "json_run = foldl json_step"

text \<open>\<open>json.Valid\<close>: the scanner is at the end of a top-level value once the end of input has been
  announced, which the scanner does by a final space.\<close>

definition json_valid :: "string \<Rightarrow> bool" where
  "json_valid s \<longleftrightarrow> fst (json_run (BeginValue, []) (s @ '' '')) = EndTop"

section \<open>One level of a text\<close>

text \<open>Bracket depth, inside a string, after a backslash. \<open>None\<close>: a closing bracket with none open.\<close>

type_synonym balance = "nat \<times> bool \<times> bool"

fun bal_step :: "balance \<Rightarrow> char \<Rightarrow> balance option" where
  "bal_step (d, ins, esc) c =
     (if esc then Some (d, ins, False)
      else if ins then
        (if c = CHR 0x5C then Some (d, True, True)
         else if c = CHR 0x22 then Some (d, False, False) else Some (d, True, False))
      else if c = CHR 0x22 then Some (d, True, False)
      else if c = CHR ''{'' \<or> c = CHR ''['' then Some (Suc d, False, False)
      else if c = CHR ''}'' \<or> c = CHR '']'' then
        (if d = 0 then None else Some (d - 1, False, False))
      else Some (d, False, False))"

abbreviation bal0 :: balance where
  "bal0 \<equiv> (0, False, False)"

text \<open>Split at the separators outside brackets and strings.\<close>

fun split_top :: "char \<Rightarrow> balance \<Rightarrow> string \<Rightarrow> string list" where
  "split_top sep b [] = [[]]"
| "split_top sep b (c # cs) =
     (if c = sep \<and> b = bal0 then [] # split_top sep b cs
      else (case bal_step b c of
          None \<Rightarrow> [c # cs]
        | Some b' \<Rightarrow> (case split_top sep b' cs of
             [] \<Rightarrow> [[c]] | x # xs \<Rightarrow> (c # x) # xs)))"

definition trim_ws :: "string \<Rightarrow> string" where
  "trim_ws s = trim_by is_ws s"

section \<open>Strings\<close>

definition byte :: "nat \<Rightarrow> char" where
  "byte n = char_of n"

definition in_rng :: "char \<Rightarrow> nat \<Rightarrow> nat \<Rightarrow> bool" where
  "in_rng c lo hi \<longleftrightarrow> lo \<le> ord c \<and> ord c \<le> hi"

text \<open>\<open>utf8.DecodeRune\<close>: the number of bytes of the well-formed sequence at the front, 0 if there is
  none (the decoder then takes one byte and yields U+FFFD).\<close>

fun utf8_len :: "string \<Rightarrow> nat" where
  "utf8_len [] = 0"
| "utf8_len (c # s) =
     (if ord c < 128 then 1
      else if in_rng c 194 223 then
        (case s of a # _ \<Rightarrow> if in_rng a 128 191 then 2 else 0 | _ \<Rightarrow> 0)
      else if in_rng c 224 239 then
        (case s of a # b # _ \<Rightarrow>
           if in_rng a (if ord c = 224 then 160 else 128) (if ord c = 237 then 159 else 191)
              \<and> in_rng b 128 191 then 3 else 0
         | _ \<Rightarrow> 0)
      else if in_rng c 240 244 then
        (case s of a # b # d # _ \<Rightarrow>
           if in_rng a (if ord c = 240 then 144 else 128) (if ord c = 244 then 143 else 191)
              \<and> in_rng b 128 191 \<and> in_rng d 128 191 then 4 else 0
         | _ \<Rightarrow> 0)
      else 0)"

definition rune_error :: "string" where
  "rune_error = [byte 239, byte 191, byte 189]"

text \<open>\<open>utf8.AppendRune\<close>\<close>

definition encode_rune :: "nat \<Rightarrow> string" where
  "encode_rune r =
     (if r < 128 then [byte r]
      else if r < 2048 then [byte (192 + r div 64), byte (128 + r mod 64)]
      else if (55296 \<le> r \<and> r < 57344) \<or> 1114111 < r then rune_error
      else if r < 65536 then
        [byte (224 + r div 4096), byte (128 + (r div 64) mod 64), byte (128 + r mod 64)]
      else [byte (240 + r div 262144), byte (128 + (r div 4096) mod 64),
            byte (128 + (r div 64) mod 64), byte (128 + r mod 64)])"

definition hex_val :: "char \<Rightarrow> nat" where
  "hex_val c = (if is_digit c then ord c - 48 else if ord c < 97 then ord c - 55 else ord c - 87)"

definition hex4 :: "char \<Rightarrow> char \<Rightarrow> char \<Rightarrow> char \<Rightarrow> nat" where
  "hex4 a b c d = 4096 * hex_val a + 256 * hex_val b + 16 * hex_val c + hex_val d"

definition esc_char :: "char \<Rightarrow> char" where
  "esc_char c =
     (if c = CHR ''b'' then CHR 0x08 else if c = CHR ''f'' then CHR 0x0C
      else if c = CHR ''n'' then CHR 0x0A else if c = CHR ''r'' then CHR 0x0D
      else if c = CHR ''t'' then CHR 0x09 else c)"

definition is_high :: "nat \<Rightarrow> bool" where "is_high r \<longleftrightarrow> 55296 \<le> r \<and> r < 56320"
definition is_low :: "nat \<Rightarrow> bool" where "is_low r \<longleftrightarrow> 56320 \<le> r \<and> r < 57344"

text \<open>The body of a string literal (what is between the quotes) as a Go string: escapes resolved,
  surrogate pairs joined, a lone surrogate or an ill-formed byte replaced by U+FFFD.\<close>

function unescape :: "string \<Rightarrow> string" where
  "unescape [] = []"
| "unescape (c # s) =
     (if c = CHR 0x5C then
        (case s of
           [] \<Rightarrow> []
         | e # t \<Rightarrow>
           if e = CHR ''u'' then
             (case t of a # b # x # y # t' \<Rightarrow>
                (let r = hex4 a b x y in
                 if is_high r then
                   (case t' of
                      p # q # a2 # b2 # x2 # y2 # t2 \<Rightarrow>
                        if p = CHR 0x5C \<and> q = CHR ''u'' \<and> is_low (hex4 a2 b2 x2 y2)
                        then encode_rune ((r - 55296) * 1024 + (hex4 a2 b2 x2 y2 - 56320) + 65536)
                             @ unescape t2
                        else rune_error @ unescape t'
                    | _ \<Rightarrow> rune_error @ unescape t')
                 else if is_low r then rune_error @ unescape t'
                 else encode_rune r @ unescape t')
              | _ \<Rightarrow> [])
           else esc_char e # unescape t)
      else (let n = utf8_len (c # s) in
            if n = 0 then rune_error @ unescape s
            else take n (c # s) @ unescape (drop (n - 1) s)))"
  by pat_completeness auto
termination by (relation "measure length") (auto split: if_splits)

declare unescape.simps [simp del]

text \<open>The Go string a quoted literal denotes.\<close>

definition unquote :: "string \<Rightarrow> string" where
  "unquote s = unescape (butlast (tl s))"

definition hex_digit :: "nat \<Rightarrow> char" where
  "hex_digit n = (if n < 10 then char_of (48 + n) else char_of (87 + n))"

definition u00 :: "char \<Rightarrow> string" where
  "u00 c = [CHR 0x5C, CHR ''u'', CHR ''0'', CHR ''0'', hex_digit (ord c div 16), hex_digit (ord c mod 16)]"

text \<open>How one ASCII byte of a string is written by \<open>json.Marshal\<close> (with HTML escaping).\<close>

definition quote_char :: "char \<Rightarrow> string" where
  "quote_char c =
     (if c = CHR 0x22 \<or> c = CHR 0x5C then [CHR 0x5C, c]
      else if c = CHR 0x08 then [CHR 0x5C, CHR ''b'']
      else if c = CHR 0x0C then [CHR 0x5C, CHR ''f'']
      else if c = CHR 0x0A then [CHR 0x5C, CHR ''n'']
      else if c = CHR 0x0D then [CHR 0x5C, CHR ''r'']
      else if c = CHR 0x09 then [CHR 0x5C, CHR ''t'']
      else if ord c < 32 \<or> c = CHR ''<'' \<or> c = CHR ''>'' \<or> c = CHR ''&'' then u00 c
      else [c])"

text \<open>\<open>\\u2028\<close> and \<open>\\u2029\<close>, written for the line and paragraph separators.\<close>

definition u202 :: "char \<Rightarrow> string" where
  "u202 c = [CHR 0x5C, CHR ''u'', CHR ''2'', CHR ''0'', CHR ''2'', c]"

function quote_body :: "string \<Rightarrow> string" where
  "quote_body [] = []"
| "quote_body (c # s) =
     (if ord c < 128 then quote_char c @ quote_body s
      else (let n = utf8_len (c # s) in
        if n = 0 then [CHR 0x5C, CHR ''u'', CHR ''f'', CHR ''f'', CHR ''f'', CHR ''d''] @ quote_body s
        else if take 3 (c # s) = [byte 226, byte 128, byte 168] then u202 (CHR ''8'') @ quote_body (drop 2 s)
        else if take 3 (c # s) = [byte 226, byte 128, byte 169] then u202 (CHR ''9'') @ quote_body (drop 2 s)
        else take n (c # s) @ quote_body (drop (n - 1) s)))"
  by pat_completeness auto
termination by (relation "measure length") auto

declare quote_body.simps [simp del]

definition quote :: "string \<Rightarrow> string" where
  "quote s = CHR 0x22 # quote_body s @ [CHR 0x22]"

section \<open>Decoding one level\<close>

datatype jv = JNull | JBool bool | JNum string | JStr string
  | JArr "string list" | JObj "(string \<times> string) list"

definition mk_member :: "string \<Rightarrow> string \<times> string" where
  "mk_member m = (case split_top (CHR '':'') bal0 m of
       k # v # _ \<Rightarrow> (unquote (trim_ws k), trim_ws v)
     | _ \<Rightarrow> ([], []))"

definition decode_valid :: "string \<Rightarrow> jv" where
  "decode_valid t = (case t of
       [] \<Rightarrow> JNull
     | c # r \<Rightarrow>
       if c = CHR ''{'' then
         (if trim_ws (butlast r) = [] then JObj []
          else JObj (map mk_member (split_top (CHR '','') bal0 (butlast r))))
       else if c = CHR ''['' then
         (if trim_ws (butlast r) = [] then JArr []
          else JArr (map trim_ws (split_top (CHR '','') bal0 (butlast r))))
       else if c = CHR 0x22 then JStr (unquote t)
       else if c = CHR ''t'' then JBool True
       else if c = CHR ''f'' then JBool False
       else if c = CHR ''n'' then JNull
       else JNum t)"

definition decode :: "string \<Rightarrow> jv option" where
  "decode s = (if json_valid s then Some (decode_valid (trim_ws s)) else None)"

section \<open>Unmarshal\<close>

type_synonym jobj = "(string \<times> string) list"

text \<open>\<open>var m map[string]json.RawMessage\<close>: \<open>null\<close> gives a nil map.\<close>

definition un_map :: "string \<Rightarrow> jobj option" where
  "un_map s = (case decode s of Some (JObj kvs) \<Rightarrow> Some kvs | Some JNull \<Rightarrow> Some [] | _ \<Rightarrow> None)"

text \<open>\<open>v, ok := m[k]\<close>: of two members with one name the later is kept.\<close>

definition jget :: "jobj \<Rightarrow> string \<Rightarrow> string option" where
  "jget m k = map_of (rev m) k"

text \<open>The value of the struct field with JSON name \<open>k\<close>: names are matched without regard to case.\<close>

definition jfield :: "jobj \<Rightarrow> string \<Rightarrow> string option" where
  "jfield m k = map_of (rev (map (\<lambda>(a, b). (to_lower a, b)) m)) (to_lower k)"

text \<open>\<open>var xs []json.RawMessage\<close>\<close>

definition un_array :: "string \<Rightarrow> string list option" where
  "un_array s = (case decode s of Some (JArr xs) \<Rightarrow> Some xs | Some JNull \<Rightarrow> Some [] | _ \<Rightarrow> None)"

fun all_some :: "'a option list \<Rightarrow> 'a list option" where
  "all_some [] = Some []"
| "all_some (x # xs) = (case x of None \<Rightarrow> None | Some a \<Rightarrow> map_option (Cons a) (all_some xs))"

text \<open>\<open>var xs []T\<close>\<close>

definition un_list :: "(string \<Rightarrow> 'a option) \<Rightarrow> string \<Rightarrow> 'a list option" where
  "un_list f s = (case un_array s of None \<Rightarrow> None | Some xs \<Rightarrow> all_some (map f xs))"

text \<open>\<open>var p *T\<close> as the value at \<open>s\<close>\<close>

definition un_ptr :: "(string \<Rightarrow> 'a option) \<Rightarrow> string \<Rightarrow> 'a option option" where
  "un_ptr f s = (case decode s of None \<Rightarrow> None | Some JNull \<Rightarrow> Some None
     | Some _ \<Rightarrow> map_option Some (f s))"

text \<open>A struct field of pointer type: \<open>nil\<close> when absent or null.\<close>

definition fld_ptr :: "(string \<Rightarrow> 'a option) \<Rightarrow> jobj \<Rightarrow> string \<Rightarrow> 'a option option" where
  "fld_ptr f m k = (case jfield m k of None \<Rightarrow> Some None | Some s \<Rightarrow> un_ptr f s)"

text \<open>A struct field of a type whose zero value is \<open>z\<close>: absent or null leaves it.\<close>

definition fld_val :: "(string \<Rightarrow> 'a option) \<Rightarrow> 'a \<Rightarrow> jobj \<Rightarrow> string \<Rightarrow> 'a option" where
  "fld_val f z m k = (case fld_ptr f m k of None \<Rightarrow> None | Some None \<Rightarrow> Some z | Some (Some v) \<Rightarrow> Some v)"

text \<open>A struct field of type \<open>json.RawMessage\<close>: empty when absent, the text (also of null) otherwise.\<close>

definition fld_raw :: "jobj \<Rightarrow> string \<Rightarrow> string" where
  "fld_raw m k = (case jfield m k of None \<Rightarrow> [] | Some s \<Rightarrow> s)"

definition un_string :: "string \<Rightarrow> string option" where
  "un_string s = (case decode s of Some (JStr v) \<Rightarrow> Some v | _ \<Rightarrow> None)"

definition un_bool :: "string \<Rightarrow> bool option" where
  "un_bool s = (case decode s of Some (JBool b) \<Rightarrow> Some b | _ \<Rightarrow> None)"

definition max_uint64 :: int where "max_uint64 = 18446744073709551615"

text \<open>\<open>int\<close> and \<open>uint\<close>: an integer literal in range.\<close>

definition un_uint :: "string \<Rightarrow> nat option" where
  "un_uint s = (case decode s of
       Some (JNum t) \<Rightarrow> if list_all is_digit t \<and> int (digits_val t) \<le> max_uint64 then Some (digits_val t) else None
     | _ \<Rightarrow> None)"

definition un_int :: "string \<Rightarrow> int option" where
  "un_int s = (case decode s of
       Some (JNum t) \<Rightarrow> (case atoi t of (v, err) \<Rightarrow> if err then None else Some v)
     | _ \<Rightarrow> None)"

text \<open>A number literal: its text up to the fraction, the fraction digits, the exponent.\<close>

definition lit_exponent :: "string \<Rightarrow> int" where
  "lit_exponent t = (case t of
       [] \<Rightarrow> 0
     | c # r \<Rightarrow> if c = CHR ''-'' then - int (digits_val r)
               else if c = CHR ''+'' then int (digits_val r) else int (digits_val t))"

definition is_exp_char :: "char \<Rightarrow> bool" where
  "is_exp_char c \<longleftrightarrow> c = CHR ''e'' \<or> c = CHR ''E''"

definition pow10 :: "int \<Rightarrow> rat" where
  "pow10 e = (if 0 \<le> e then 10 ^ nat e else 1 / 10 ^ nat (- e))"

text \<open>The exact value of a number literal. Go rounds it to the nearest \<open>float64\<close>; the model keeps the
  exact rational.\<close>

definition lit_value :: "string \<Rightarrow> rat" where
  "lit_value t =
     (let (neg, u) = (case t of c # r \<Rightarrow> if c = CHR ''-'' then (True, r) else (False, t) | [] \<Rightarrow> (False, []));
          m = takeWhile (\<lambda>c. \<not> is_exp_char c) u;
          e = lit_exponent (drop 1 (dropWhile (\<lambda>c. \<not> is_exp_char c) u));
          ip = takeWhile (\<lambda>c. c \<noteq> CHR ''.'') m;
          fp = drop 1 (dropWhile (\<lambda>c. c \<noteq> CHR ''.'') m);
          v = (of_nat (digits_val (ip @ fp)) :: rat) * pow10 (e - int (length fp))
      in if neg then - v else v)"

definition un_float :: "string \<Rightarrow> rat option" where
  "un_float s = (case decode s of Some (JNum t) \<Rightarrow> Some (lit_value t) | _ \<Rightarrow> None)"

text \<open>\<open>json.Number\<close>: a number keeps its text; a string is accepted when it spells a number.\<close>

definition un_number :: "string \<Rightarrow> string option" where
  "un_number s = (case decode s of
       Some (JNum t) \<Rightarrow> Some t
     | Some (JStr v) \<Rightarrow> (case decode v of
          Some (JNum t) \<Rightarrow> if t = v then Some v else None
        | _ \<Rightarrow> None)
     | _ \<Rightarrow> None)"

text \<open>\<open>json.Unmarshal(raw, &id)\<close> with \<open>var id json.Number\<close>: null leaves the empty string.\<close>

definition un_number_val :: "string \<Rightarrow> string option" where
  "un_number_val s = (case decode s of Some JNull \<Rightarrow> Some [] | _ \<Rightarrow> un_number s)"

definition un_bool_val :: "string \<Rightarrow> bool option" where
  "un_bool_val s = (case decode s of Some JNull \<Rightarrow> Some False | _ \<Rightarrow> un_bool s)"

section \<open>Marshal of a map of raw texts\<close>

fun compact_from :: "bool \<Rightarrow> bool \<Rightarrow> string \<Rightarrow> string" where
  "compact_from ins esc [] = []"
| "compact_from ins esc (c # s) =
     (if c = CHR ''<'' \<or> c = CHR ''>'' \<or> c = CHR ''&'' then u00 c @ compact_from ins False s
      else if c = byte 226 \<and> take 2 s = [byte 128, byte 168] then
        u202 (CHR ''8'') @ compact_from ins False (drop 2 s)
      else if c = byte 226 \<and> take 2 s = [byte 128, byte 169] then
        u202 (CHR ''9'') @ compact_from ins False (drop 2 s)
      else if ins then
        c # compact_from (esc \<or> c \<noteq> CHR 0x22) (\<not> esc \<and> c = CHR 0x5C) s
      else if is_ws c then compact_from False False s
      else c # compact_from (c = CHR 0x22) False s)"

definition compact :: "string \<Rightarrow> string" where
  "compact s = compact_from False False s"

text \<open>Keys are sorted by their bytes and each appears once.\<close>

fun str_less :: "string \<Rightarrow> string \<Rightarrow> bool" where
  "str_less [] [] = False"
| "str_less [] (y # ys) = True"
| "str_less (x # xs) [] = False"
| "str_less (x # xs) (y # ys) = (ord x < ord y \<or> (x = y \<and> str_less xs ys))"

fun ins_member :: "string \<Rightarrow> string \<Rightarrow> jobj \<Rightarrow> jobj" where
  "ins_member k v [] = [(k, v)]"
| "ins_member k v ((a, b) # m) =
     (if k = a then (k, v) # m
      else if str_less k a then (k, v) # (a, b) # m
      else (a, b) # ins_member k v m)"

definition sort_members :: "jobj \<Rightarrow> jobj" where
  "sort_members m = fold (\<lambda>(k, v). ins_member k v) m []"

definition member_text :: "string \<times> string \<Rightarrow> string" where
  "member_text kv = quote (fst kv) @ CHR '':'' # compact (snd kv)"

definition obj_text :: "jobj \<Rightarrow> string" where
  "obj_text m = CHR ''{'' # join '','' (map member_text m) @ ''}''"

definition marshal_map :: "jobj \<Rightarrow> string" where
  "marshal_map m = obj_text (sort_members m)"

text \<open>\<open>m[k] = v\<close>\<close>

definition jput :: "string \<Rightarrow> string \<Rightarrow> jobj \<Rightarrow> jobj" where
  "jput k v m = m @ [(k, v)]"

end
