(* ===== verification/Model.thy ===== *)
theory Model
  imports GoTime Json
begin

text \<open>
  Package \<open>internal/model\<close>: the decoded message every component exchanges, its summary, traces and
  devices, and the enumerations. \<open>Direction\<close> and \<open>ShipMsgType\<close> are string types in the code (rows
  read back from the database or a file may hold any text), so they are strings here with the code's
  constants. Integers are unbounded: identifiers and counts come from the database and from slice
  lengths. A nil \<open>json.RawMessage\<close> is the empty text. Field names carry the struct's initials.
\<close>

section \<open>Enumerations\<close>

type_synonym direction = string
type_synonym ship_msg_type = string

definition DirectionIncoming :: direction where "DirectionIncoming = ''incoming''"
definition DirectionOutgoing :: direction where "DirectionOutgoing = ''outgoing''"
definition DirectionUnknown :: direction where "DirectionUnknown = ''unknown''"

definition ShipMsgTypeInit :: ship_msg_type where "ShipMsgTypeInit = ''init''"
definition ShipMsgTypeConnectionHello :: ship_msg_type where
  "ShipMsgTypeConnectionHello = ''connectionHello''"
definition ShipMsgTypeProtocolHandshake :: ship_msg_type where
  "ShipMsgTypeProtocolHandshake = ''messageProtocolHandshake''"
definition ShipMsgTypeConnectionPinState :: ship_msg_type where
  "ShipMsgTypeConnectionPinState = ''connectionPinState''"
definition ShipMsgTypeAccessMethods :: ship_msg_type where
  "ShipMsgTypeAccessMethods = ''accessMethods''"
definition ShipMsgTypeData :: ship_msg_type where "ShipMsgTypeData = ''data''"
definition ShipMsgTypeConnectionClose :: ship_msg_type where
  "ShipMsgTypeConnectionClose = ''connectionClose''"
definition ShipMsgTypeUnknown :: ship_msg_type where "ShipMsgTypeUnknown = ''unknown''"

lemmas ship_types = ShipMsgTypeInit_def ShipMsgTypeConnectionHello_def
  ShipMsgTypeProtocolHandshake_def ShipMsgTypeConnectionPinState_def ShipMsgTypeAccessMethods_def
  ShipMsgTypeData_def ShipMsgTypeConnectionClose_def ShipMsgTypeUnknown_def

lemmas directions = DirectionIncoming_def DirectionOutgoing_def DirectionUnknown_def

definition ShipHeaderInit :: nat where "ShipHeaderInit = 0"
definition ShipHeaderCMI :: nat where "ShipHeaderCMI = 1"
definition ShipHeaderControl :: nat where "ShipHeaderControl = 2"

definition ShipMsgTypeFromHeaderByte :: "char \<Rightarrow> ship_msg_type" where
  "ShipMsgTypeFromHeaderByte b =
     (if ord b = ShipHeaderInit then ShipMsgTypeInit
      else if ord b = ShipHeaderCMI then ShipMsgTypeUnknown
      else ShipMsgTypeUnknown)"

section \<open>Messages\<close>

record message =
  m_id :: int
  m_trace :: int
  m_seq :: int
  m_time :: time
  m_dir :: direction
  m_src_addr :: string
  m_dst_addr :: string
  m_raw :: bytes
  m_raw_hex :: string
  m_norm :: string
  m_type :: ship_msg_type
  m_ship :: string
  m_spine :: string
  m_classifier :: string
  m_fn :: string
  m_ctr :: string
  m_ref :: string
  m_dev_src :: string
  m_dev_dst :: string
  m_ent_src :: string
  m_ent_dst :: string
  m_feat_src :: string
  m_feat_dst :: string
  m_error :: string

record summary =
  s_id :: int
  s_trace :: int
  s_seq :: int
  s_time :: time
  s_dir :: direction
  s_type :: ship_msg_type
  s_classifier :: string
  s_fn :: string
  s_ctr :: string
  s_ref :: string
  s_dev_src :: string
  s_dev_dst :: string
  s_src_addr :: string
  s_dst_addr :: string

text \<open>The zero value of the struct.\<close>

definition empty_message :: message where
  "empty_message = \<lparr>m_id = 0, m_trace = 0, m_seq = 0, m_time = zero_time, m_dir = [],
     m_src_addr = [], m_dst_addr = [], m_raw = [], m_raw_hex = [], m_norm = [], m_type = [],
     m_ship = [], m_spine = [], m_classifier = [], m_fn = [], m_ctr = [], m_ref = [],
     m_dev_src = [], m_dev_dst = [], m_ent_src = [], m_ent_dst = [], m_feat_src = [],
     m_feat_dst = [], m_error = []\<rparr>"

definition ToSummary :: "message \<Rightarrow> summary" where
  "ToSummary m = \<lparr>s_id = m_id m, s_trace = m_trace m, s_seq = m_seq m, s_time = m_time m,
     s_dir = m_dir m, s_type = m_type m, s_classifier = m_classifier m, s_fn = m_fn m,
     s_ctr = m_ctr m, s_ref = m_ref m, s_dev_src = m_dev_src m, s_dev_dst = m_dev_dst m,
     s_src_addr = m_src_addr m, s_dst_addr = m_dst_addr m\<rparr>"

section \<open>Traces and devices\<close>

record trace =
  t_id :: int
  t_name :: string
  t_descr :: string
  t_started :: time
  t_stopped :: "time option"
  t_count :: int
  t_created :: time
  t_skipped :: int

definition IsRecording :: "trace \<Rightarrow> bool" where
  "IsRecording t \<longleftrightarrow> t_stopped t = None"

record device =
  d_id :: int
  d_trace :: int
  d_addr :: string
  d_ski :: string
  d_brand :: string
  d_model :: string
  d_type :: string
  d_first :: time
  d_last :: time

section \<open>Hexadecimal\<close>

text \<open>\<open>hex.EncodeToString\<close>\<close>

definition hex_byte :: "char \<Rightarrow> string" where
  "hex_byte c = [hex_digit (ord c div 16), hex_digit (ord c mod 16)]"

definition hex_encode :: "bytes \<Rightarrow> string" where
  "hex_encode s = concat (map hex_byte s)"

text \<open>\<open>hex.DecodeString\<close>\<close>

fun hex_decode :: "string \<Rightarrow> bytes option" where
  "hex_decode [] = Some []"
| "hex_decode [c] = None"
| "hex_decode (a # b # s) =
     (if is_hex a \<and> is_hex b
      then map_option (Cons (char_of (16 * hex_val a + hex_val b))) (hex_decode s) else None)"

section \<open>Lemmas\<close>

lemma hex_digit_pair:
  assumes "n < 256"
  shows "is_hex (hex_digit (n div 16)) \<and> is_hex (hex_digit (n mod 16))
    \<and> 16 * hex_val (hex_digit (n div 16)) + hex_val (hex_digit (n mod 16)) = n"
proof -
  have d: "is_hex (hex_digit k) \<and> hex_val (hex_digit k) = k" if "k < 16" for k
    using that by (auto simp: is_hex_def hex_digit_def is_digit_def hex_val_def)
  have "n div 16 < 16" "n mod 16 < 16" using assms by auto
  then show ?thesis using d [of "n div 16"] d [of "n mod 16"] by simp
qed

lemma hex_decode_encode: "hex_decode (hex_encode s) = Some s"
  by (induction s) (simp_all add: hex_encode_def hex_byte_def hex_digit_pair)

end
