(* ===== verification/Metrics.thy ===== *)
theory Metrics
  imports OrderedMap Model
begin

text \<open>
  \<open>internal/analysis/metrics.go\<close>: heartbeat intervals per pair of devices. A \<open>float64\<close> is an exact
  rational here; the standard deviation is the real square root. Numbers are printed by \<open>fmt_fixed\<close>,
  which rounds the exact value (ties to even) where Go rounds the nearest \<open>float64\<close>.
\<close>

type_synonym pair_key = "string \<times> string"

definition pairKeyStr :: "pair_key \<Rightarrow> string" where
  "pairKeyStr k = fst k @ [CHR '' '', byte 226, byte 134, byte 146, CHR '' ''] @ snd k"

definition devicePairFromMsg :: "message \<Rightarrow> pair_key option" where
  "devicePairFromMsg m =
     (let (src, dst) = (if m_dev_src m = [] \<and> m_dev_dst m = [] then (m_src_addr m, m_dst_addr m)
                        else (m_dev_src m, m_dev_dst m))
      in if src = [] \<or> dst = [] then None else Some (src, dst))"

record gap =
  g_from_id :: int
  g_to_id :: int
  g_from :: time
  g_to :: time
  g_dur :: duration

type_synonym point = "time \<times> int"

definition heartbeat_fn :: string where
  "heartbeat_fn = ''DeviceDiagnosisHeartbeatData''"

definition heartbeat_point :: "message \<Rightarrow> (pair_key \<times> point) option" where
  "heartbeat_point m = (if m_fn m \<noteq> heartbeat_fn then None
     else map_option (\<lambda>p. (p, (m_time m, m_id m))) (devicePairFromMsg m))"

definition add_point :: "pair_key \<times> point \<Rightarrow> (pair_key, point list) omap \<Rightarrow> (pair_key, point list) omap" where
  "add_point kp s = om_put (fst kp) ((case om_get s (fst kp) of None \<Rightarrow> [] | Some ps \<Rightarrow> ps) @ [snd kp]) s"

fun gaps_of :: "point list \<Rightarrow> gap list" where
  "gaps_of (p # q # ps) =
     \<lparr>g_from_id = snd p, g_to_id = snd q, g_from = fst p, g_to = fst q,
      g_dur = time_sub (fst q) (fst p)\<rparr> # gaps_of (q # ps)"
| "gaps_of _ = []"

text \<open>The pairs in the order of their first heartbeat, each with its gaps (none for a pair that is
  missing from the code's map).\<close>

definition collectHeartbeatGapsByPair :: "message list \<Rightarrow> (pair_key \<times> gap list) list" where
  "collectHeartbeatGapsByPair msgs =
     (let points = fold add_point (List.map_filter heartbeat_point msgs) om_empty
      in map (\<lambda>k. (k, gaps_of (the (om_get points k)))) (om_keys points))"

record jitter =
  j_pair :: string
  j_mean :: rat
  j_std :: real
  j_min :: rat
  j_max :: rat
  j_count :: nat

definition gap_ms :: "gap \<Rightarrow> rat" where
  "gap_ms g = of_int (dur_milli (g_dur g))"

definition mean_of :: "rat list \<Rightarrow> rat" where
  "mean_of xs = fold (+) xs 0 / of_nat (length xs)"

definition variance_of :: "rat list \<Rightarrow> rat" where
  "variance_of xs = fold (\<lambda>x s. s + (x - mean_of xs) * (x - mean_of xs)) xs 0 / of_nat (length xs)"

definition jitter_of :: "pair_key \<Rightarrow> gap list \<Rightarrow> jitter" where
  "jitter_of k gs =
     (let ivs = map gap_ms gs in
      \<lparr>j_pair = pairKeyStr k, j_mean = mean_of ivs, j_std = sqrt (of_rat (variance_of ivs)),
       j_min = fold (\<lambda>iv m. if iv < m then iv else m) ivs (hd ivs),
       j_max = fold (\<lambda>iv m. if m < iv then iv else m) ivs (hd ivs),
       j_count = length gs\<rparr>)"

definition computeHeartbeatJitter :: "message list \<Rightarrow> jitter list" where
  "computeHeartbeatJitter msgs =
     map (\<lambda>(k, gs). jitter_of k gs) (filter (\<lambda>(k, gs). gs \<noteq> []) (collectHeartbeatGapsByPair msgs))"

definition ComputeHeartbeatMetrics :: "message list \<Rightarrow> jitter list" where
  "ComputeHeartbeatMetrics msgs = computeHeartbeatJitter msgs"

section \<open>Export\<close>

definition round_even :: "'a :: floor_ceiling \<Rightarrow> int" where
  "round_even y = (let f = \<lfloor>y\<rfloor>; r = y - of_int f in
     if 2 * r < 1 then f else if 1 < 2 * r then f + 1 else if even f then f else f + 1)"

text \<open>\<open>strconv.FormatFloat(x, 'f', k, 64)\<close> and \<open>%.kf\<close>, for a positive \<open>k\<close>.\<close>

definition fmt_fixed :: "nat \<Rightarrow> 'a :: floor_ceiling \<Rightarrow> string" where
  "fmt_fixed k x =
     (let n = nat (round_even (\<bar>x\<bar> * 10 ^ k));
          fp = nat_str (n mod 10 ^ k)
      in (if x < 0 then ''-'' else []) @ nat_str (n div 10 ^ k) @ ''.''
         @ replicate (k - length fp) (CHR ''0'') @ fp)"

definition csv_line :: "jitter \<Rightarrow> string" where
  "csv_line j = j_pair j @ '','' @ fmt_fixed 1 (j_mean j) @ '','' @ fmt_fixed 1 (j_std j) @ '',''
     @ fmt_fixed 1 (j_min j) @ '','' @ fmt_fixed 1 (j_max j) @ '','' @ nat_str (j_count j) @ [CHR 0x0A]"

definition FormatHeartbeatCSV :: "jitter list \<Rightarrow> string" where
  "FormatHeartbeatCSV js =
     ''devicePair,meanIntervalMs,stdDevMs,minIntervalMs,maxIntervalMs,sampleCount'' @ [CHR 0x0A]
     @ concat (map csv_line js)"

section \<open>Lemmas\<close>

interpretation hb: ordered_accumulator om_empty om_get om_put om_keys om_wf
    fst "\<lambda>kp v. (case v of None \<Rightarrow> [] | Some ps \<Rightarrow> ps) @ [snd kp]" add_point
  by unfold_locales (simp add: add_point_def)

lemma fold_append_points:
  "fold (\<lambda>x v. Some ((case v of None \<Rightarrow> [] | Some ps \<Rightarrow> ps) @ [snd x])) xs v =
     (if xs = [] then v else Some ((case v of None \<Rightarrow> [] | Some ps \<Rightarrow> ps) @ map snd xs))"
  by (induction xs arbitrary: v) auto

definition heartbeats :: "message list \<Rightarrow> (pair_key \<times> point) list" where
  "heartbeats msgs = List.map_filter heartbeat_point msgs"

definition heartbeats_of :: "pair_key \<Rightarrow> message list \<Rightarrow> point list" where
  "heartbeats_of k msgs = map snd (filter (\<lambda>kp. fst kp = k) (heartbeats msgs))"

lemma points_get:
  assumes "k \<in> fst ` set (heartbeats msgs)"
  shows "om_get (fold add_point (heartbeats msgs) om_empty) k = Some (heartbeats_of k msgs)"
proof -
  have "filter (\<lambda>kp. fst kp = k) (heartbeats msgs) \<noteq> []" using assms by (auto simp: filter_empty_conv)
  then show ?thesis
    using hb.get_feed [of "heartbeats msgs" om_empty k]
    by (simp add: fold_append_points heartbeats_of_def om.get_empty)
qed

lemma collect_eq:
  "collectHeartbeatGapsByPair msgs =
     map (\<lambda>k. (k, gaps_of (heartbeats_of k msgs))) (first_seen (map fst (heartbeats msgs)))"
  by (simp add: collectHeartbeatGapsByPair_def Let_def heartbeats_def [symmetric] hb.keys_feed_empty points_get)

lemma gaps_of_length [simp]: "length (gaps_of ps) = length ps - 1"
  by (induction ps rule: gaps_of.induct) auto

lemma gaps_of_nth:
  "Suc i < length ps \<Longrightarrow> gaps_of ps ! i =
     \<lparr>g_from_id = snd (ps ! i), g_to_id = snd (ps ! Suc i), g_from = fst (ps ! i), g_to = fst (ps ! Suc i),
      g_dur = time_sub (fst (ps ! Suc i)) (fst (ps ! i))\<rparr>"
proof (induction ps arbitrary: i rule: gaps_of.induct)
  case (1 p q ps)
  then show ?case by (cases i) auto
qed auto

lemma fold_plus_sum: "fold (+) (xs :: rat list) a = a + sum_list xs"
  by (induction xs arbitrary: a) auto

lemma fold_min_le: "fold (\<lambda>iv m. if iv < m then iv else m) xs (a :: rat) \<le> a \<and>
    (\<forall>x \<in> set xs. fold (\<lambda>iv m. if iv < m then iv else m) xs a \<le> x)"
proof (induction xs arbitrary: a)
  case (Cons x xs)
  show ?case using Cons [of x] Cons [of a] by (cases "x < a") force+
qed simp

lemma fold_max_ge: "a \<le> fold (\<lambda>iv m. if m < iv then iv else m) xs (a :: rat) \<and>
    (\<forall>x \<in> set xs. x \<le> fold (\<lambda>iv m. if m < iv then iv else m) xs a)"
proof (induction xs arbitrary: a)
  case (Cons x xs)
  show ?case using Cons [of x] Cons [of a] by (cases "a < x") force+
qed simp

lemma fold_min_in: "fold (\<lambda>iv m. if iv < m then iv else m) xs (a :: rat) \<in> insert a (set xs)"
proof (induction xs arbitrary: a)
  case (Cons x xs)
  show ?case using Cons [of x] Cons [of a] by (cases "x < a") auto
qed simp

lemma fold_max_in: "fold (\<lambda>iv m. if m < iv then iv else m) xs (a :: rat) \<in> insert a (set xs)"
proof (induction xs arbitrary: a)
  case (Cons x xs)
  show ?case using Cons [of x] Cons [of a] by (cases "a < x") auto
qed simp

lemma sum_list_bounds:
  "\<forall>x \<in> set xs. (lo :: rat) \<le> x \<and> x \<le> hi \<Longrightarrow>
     of_nat (length xs) * lo \<le> sum_list xs \<and> sum_list xs \<le> of_nat (length xs) * hi"
  by (induction xs) (auto simp: algebra_simps)

lemma mean_bounds:
  assumes "xs \<noteq> []" and "\<forall>x \<in> set xs. (lo :: rat) \<le> x \<and> x \<le> hi"
  shows "lo \<le> mean_of xs \<and> mean_of xs \<le> hi"
proof -
  have "0 < (of_nat (length xs) :: rat)" using assms(1) by simp
  then show ?thesis using sum_list_bounds [OF assms(2)]
    by (simp add: mean_of_def fold_plus_sum pos_le_divide_eq pos_divide_le_eq mult.commute)
qed

lemma variance_eq: "variance_of xs = mean_of (map (\<lambda>x. (x - mean_of xs) ^ 2) xs)"
proof -
  have "fold (\<lambda>x s. s + (x - c) * (x - c)) xs a = fold (+) (map (\<lambda>x. (x - c) ^ 2) xs) (a :: rat)" for c a
    by (induction xs arbitrary: a) (auto simp: power2_eq_square add.commute)
  then show ?thesis by (simp add: variance_of_def mean_of_def)
qed

lemma variance_bounds:
  assumes "xs \<noteq> []" and b: "\<forall>x \<in> set xs. (lo :: rat) \<le> x \<and> x \<le> hi"
  shows "0 \<le> variance_of xs \<and> variance_of xs \<le> (hi - lo) ^ 2"
proof -
  note m = mean_bounds [OF assms]
  have "(x - mean_of xs) ^ 2 \<le> (hi - lo) ^ 2" if "x \<in> set xs" for x
  proof -
    have "\<bar>x - mean_of xs\<bar> \<le> \<bar>hi - lo\<bar>" using m b that by fastforce
    then show ?thesis by (simp add: abs_le_square_iff)
  qed
  then show ?thesis unfolding variance_eq using assms(1) by (intro mean_bounds) auto
qed

section \<open>Properties\<close>

text \<open>The gaps of a pair are those between its own consecutive heartbeats, whatever is interleaved:
  the pairs come in the order of their first heartbeat, each once, and the i-th gap of a pair cites
  the i-th and the next heartbeat of that pair and the time between them.\<close>

theorem heartbeat_gaps:
  "map fst (collectHeartbeatGapsByPair msgs) = first_seen (map fst (heartbeats msgs)) \<and>
   (\<forall>(k, gs) \<in> set (collectHeartbeatGapsByPair msgs).
      length gs = length (heartbeats_of k msgs) - 1 \<and>
      (\<forall>i < length gs.
         let p = heartbeats_of k msgs ! i; q = heartbeats_of k msgs ! Suc i in
         gs ! i = \<lparr>g_from_id = snd p, g_to_id = snd q, g_from = fst p, g_to = fst q,
                   g_dur = time_sub (fst q) (fst p)\<rparr>))"
  unfolding collect_eq by (auto simp: comp_def gaps_of_nth Let_def)

definition beat :: "int \<Rightarrow> time \<Rightarrow> string \<Rightarrow> message" where
  "beat i t dst = empty_message\<lparr>m_id := i, m_time := t, m_fn := heartbeat_fn,
     m_dev_src := ''a'', m_dev_dst := dst\<rparr>"

theorem heartbeat_gaps_witness:
  "collectHeartbeatGapsByPair [beat 1 0 ''b'', beat 2 (sec 1) ''c'', beat 3 (sec 4) ''b''] =
     [((''a'', ''b''), [\<lparr>g_from_id = 1, g_to_id = 3, g_from = 0, g_to = sec 4, g_dur = sec 4\<rparr>]),
      ((''a'', ''c''), [])]"
proof -
  let ?ms = "[beat 1 0 ''b'', beat 2 (sec 1) ''c'', beat 3 (sec 4) ''b'']"
  let ?r = "collectHeartbeatGapsByPair ?ms"
  have h: "heartbeats ?ms = [((''a'', ''b''), (0, 1)), ((''a'', ''c''), (sec 1, 2)), ((''a'', ''b''), (sec 4, 3))]"
    by (simp add: heartbeats_def List.map_filter_def heartbeat_point_def beat_def devicePairFromMsg_def)
  have p: "heartbeats_of (''a'', ''b'') ?ms = [(0, 1), (sec 4, 3)]" "heartbeats_of (''a'', ''c'') ?ms = [(sec 1, 2)]"
    by (simp_all add: heartbeats_of_def h)
  have f: "map fst ?r = [(''a'', ''b''), (''a'', ''c'')]" using heartbeat_gaps [of ?ms] by (simp add: h)
  then obtain g1 g2 where r: "?r = [((''a'', ''b''), g1), ((''a'', ''c''), g2)]" by auto
  have d: "time_sub (sec 4) 0 = sec 4"
    by (simp add: time_sub_def sec_def clamp64_def min_int64_def max_int64_def)
  have "length g1 = 1 \<and> length g2 = 0 \<and> g1 ! 0 = \<lparr>g_from_id = 1, g_to_id = 3, g_from = 0, g_to = sec 4, g_dur = sec 4\<rparr>"
    using heartbeat_gaps [of ?ms] unfolding r by (auto simp: p d)
  then show ?thesis unfolding r by (cases g1) auto
qed

text \<open>The figures of a pair are consistent: at least one interval was measured, the mean lies
  between the smallest and the largest interval, both of which occur, and the standard deviation is
  not negative and at most their distance.\<close>

theorem jitter_bounds:
  assumes "j \<in> set (ComputeHeartbeatMetrics msgs)"
  shows "0 < j_count j \<and> j_min j \<le> j_mean j \<and> j_mean j \<le> j_max j
    \<and> 0 \<le> j_std j \<and> j_std j \<le> of_rat (j_max j - j_min j)"
proof -
  obtain k gs where gs: "gs \<noteq> []" and j: "j = jitter_of k gs"
    using assms by (auto simp: ComputeHeartbeatMetrics_def computeHeartbeatJitter_def)
  let ?ivs = "map gap_ms gs"
  have ne: "?ivs \<noteq> []" using gs by simp
  have all: "\<forall>x \<in> set ?ivs. j_min j \<le> x \<and> x \<le> j_max j"
    using fold_min_le [of ?ivs "hd ?ivs"] fold_max_ge [of "hd ?ivs" ?ivs] by (simp add: j jitter_of_def Let_def)
  then have "j_min j \<le> j_max j" using ne by (metis list.set_sel(1) order_trans)
  then have lem: "0 \<le> (of_rat (j_max j - j_min j) :: real)" by (simp add: zero_le_of_rat_iff)
  note v = variance_bounds [OF ne all]
  have "(of_rat (variance_of ?ivs) :: real) \<le> of_rat ((j_max j - j_min j) ^ 2)"
    using v by (simp add: of_rat_less_eq)
  then have "sqrt (of_rat (variance_of ?ivs)) \<le> of_rat (j_max j - j_min j)"
    using lem by (intro real_le_lsqrt) (simp_all add: of_rat_power)
  then show ?thesis using mean_bounds [OF ne all] v gs
    by (simp add: j jitter_of_def Let_def zero_le_of_rat_iff)
qed

theorem jitter_bounds_witness:
  "\<exists>j. ComputeHeartbeatMetrics [beat 1 0 ''b'', beat 3 (sec 4) ''b''] = [j] \<and> j_min j \<le> j_mean j"
proof -
  let ?ms = "[beat 1 0 ''b'', beat 3 (sec 4) ''b'']"
  have h: "heartbeats ?ms = [((''a'', ''b''), (0, 1)), ((''a'', ''b''), (sec 4, 3))]"
    by (simp add: heartbeats_def List.map_filter_def heartbeat_point_def beat_def devicePairFromMsg_def)
  obtain j where j: "ComputeHeartbeatMetrics ?ms = [j]"
    by (simp add: ComputeHeartbeatMetrics_def computeHeartbeatJitter_def collect_eq h heartbeats_of_def)
  then have "j \<in> set (ComputeHeartbeatMetrics ?ms)" by simp
  from jitter_bounds [OF this] j show ?thesis by blast
qed

end
