(* ===== verification/JsonFacts.thy ===== *)
theory JsonFacts
  imports Json
begin

text \<open>
  Facts about the JSON scanner: a run over a text can be framed by any open objects and arrays, so
  a valid value stays valid where a value is expected; the scanner refines the balance check (bracket
  depth and string state); a text put together from valid values decodes to those values.
\<close>

section \<open>Runs\<close>

lemma json_run_Nil [simp]: "json_run q [] = q"
  by (simp add: json_run_def)

lemma json_run_Cons [simp]: "json_run q (c # s) = json_run (json_step q c) s"
  by (simp add: json_run_def)

lemma json_run_append [simp]: "json_run q (s @ t) = json_run (json_run q s) t"
  by (simp add: json_run_def)

lemma json_run_Bad [simp]: "json_run (Bad, ks) s = (Bad, ks)"
  by (induction s) auto

lemma json_run_not_Bad: "fst (json_run (json_step q c) s) \<noteq> Bad \<Longrightarrow> fst (json_step q c) \<noteq> Bad"
  by (metis fst_conv json_run_Bad prod.exhaust_sel)

text \<open>The state inside an open object or array that corresponds to a state at top level.\<close>

definition frame :: "jctx list \<Rightarrow> scanner \<Rightarrow> scanner" where
  "frame st q = (if fst q = EndTop then EndValue else fst q, snd q @ st)"

lemma end_value_frame:
  "st \<noteq> [] \<Longrightarrow> fst (end_value c ks) \<noteq> Bad \<Longrightarrow>
   end_value c (ks @ st) = frame st (end_value c ks)"
  by (cases ks; cases st) (auto simp: frame_def split: jctx.splits if_splits)

lemma json_step_frame:
  assumes st: "st \<noteq> []" and ok: "fst (json_step q c) \<noteq> Bad"
  shows "json_step (frame st q) c = frame st (json_step q c)"
proof -
  obtain p ks where q: "q = (p, ks)" by (cases q)
  show ?thesis
  proof (cases p)
    case BeginStringOrEmpty
    then show ?thesis using st ok q
      by (cases ks; cases st)
        (auto simp: frame_def begin_string_def split: if_splits)
  next
    case EndTop
    then show ?thesis using st ok q
      by (cases ks; cases st) (auto simp: frame_def split: if_splits)
  next
    case (Lit l)
    then show ?thesis using ok q by (cases l) (auto simp: frame_def split: if_splits)
  qed (use st ok q in \<open>auto simp: frame_def begin_value_def begin_string_def num0_def exp_sign_def
        end_value_frame [unfolded frame_def] split: if_splits\<close>)
qed

lemma json_run_frame:
  "st \<noteq> [] \<Longrightarrow> fst (json_run q s) \<noteq> Bad \<Longrightarrow> json_run (frame st q) s = frame st (json_run q s)"
proof (induction s arbitrary: q)
  case Nil
  then show ?case by simp
next
  case (Cons c s)
  have "fst (json_step q c) \<noteq> Bad" using Cons.prems json_run_not_Bad by simp
  then have "json_step (frame st q) c = frame st (json_step q c)"
    using Cons.prems(1) json_step_frame by blast
  then show ?case using Cons by simp
qed

section \<open>Complete values\<close>

text \<open>States in which the bytes read so far are a whole value (a number can still go on).\<close>

definition value_done :: "jst \<Rightarrow> bool" where
  "value_done p \<longleftrightarrow> p \<in> {EndValue, EndTop, Num1, Num0, Dot0, Exp0}"

text \<open>Bytes that end a number.\<close>

definition delim :: "char \<Rightarrow> bool" where
  "delim c \<longleftrightarrow> is_ws c \<or> c = CHR '','' \<or> c = CHR '']'' \<or> c = CHR ''}'' \<or> c = CHR '':''"

lemma delim_facts:
  "delim c \<Longrightarrow> \<not> is_digit c" "delim c \<Longrightarrow> c \<noteq> CHR ''.''" "delim c \<Longrightarrow> c \<noteq> CHR ''e''"
  "delim c \<Longrightarrow> c \<noteq> CHR ''E''"
  by (auto simp: delim_def is_ws_def is_digit_def)

lemma delim_consts [simp]:
  "delim (CHR '','')" "delim (CHR '']'')" "delim (CHR ''}'')" "delim (CHR '':'')" "delim (CHR '' '')"
  by (auto simp: delim_def is_ws_def)

lemma is_ws_consts [simp]:
  "\<not> is_ws (CHR '','')" "\<not> is_ws (CHR '']'')" "\<not> is_ws (CHR ''}'')" "\<not> is_ws (CHR '':'')"
  "\<not> is_ws (CHR ''{'')" "\<not> is_ws (CHR ''['')" "\<not> is_ws (CHR 0x22)" "is_ws (CHR '' '')"
  by (auto simp: is_ws_def)

lemma value_done_delim:
  "value_done p \<Longrightarrow> p \<noteq> EndTop \<Longrightarrow> delim c \<Longrightarrow> json_step (p, ks) c = end_value c ks"
  by (auto simp: value_done_def num0_def delim_facts)

lemma end_value_ws_top: "fst (end_value (CHR '' '') ks) = EndTop \<Longrightarrow> ks = []"
  by (cases ks) auto

text \<open>\<open>EndTop\<close> is only reached with nothing open.\<close>

lemma end_value_top: "fst (end_value c ks) = EndTop \<Longrightarrow> snd (end_value c ks) = []"
  by (cases ks) (auto split: if_splits jctx.splits)

lemma json_step_top:
  assumes "fst q = EndTop \<Longrightarrow> snd q = []" and "fst (json_step q c) = EndTop"
  shows "snd (json_step q c) = []"
proof -
  obtain p ks where q: "q = (p, ks)" by (cases q)
  show ?thesis
  proof (cases p)
    case BeginStringOrEmpty
    then show ?thesis using assms q end_value_top
      by (auto simp: begin_string_def split: if_splits)
  next
    case (Lit l)
    then show ?thesis using assms q by (cases l) (auto split: if_splits)
  qed (use assms q end_value_top in \<open>auto simp: begin_value_def begin_string_def num0_def exp_sign_def
        split: if_splits\<close>)
qed

lemma json_run_top:
  "(fst q = EndTop \<Longrightarrow> snd q = []) \<Longrightarrow> fst (json_run q s) = EndTop \<Longrightarrow> snd (json_run q s) = []"
proof (induction s arbitrary: q)
  case (Cons c s)
  then show ?case using json_step_top [of q c] by simp
qed simp

lemma step_space_top:
  assumes "fst (json_step (p, ks) (CHR '' '')) = EndTop"
  shows "value_done p \<and> (p \<noteq> EndTop \<longrightarrow> ks = [])"
proof (cases p)
  case (Lit l)
  then show ?thesis using assms by (cases l) (auto split: if_splits)
qed (use assms end_value_ws_top in \<open>auto simp: value_done_def begin_value_def begin_string_def num0_def
      exp_sign_def is_digit_def is_hex_def split: if_splits\<close>)

lemma json_valid_done:
  assumes "json_valid s"
  obtains p where "json_run (BeginValue, []) s = (p, [])" and "value_done p"
proof -
  obtain p ks where q: "json_run (BeginValue, []) s = (p, ks)" by (cases "json_run (BeginValue, []) s")
  with assms have e: "fst (json_step (p, ks) (CHR '' '')) = EndTop"
    by (simp add: json_valid_def)
  then have c: "value_done p" and ks: "p \<noteq> EndTop \<longrightarrow> ks = []" by (auto dest: step_space_top)
  have "p = EndTop \<longrightarrow> ks = []"
    using json_run_top [of "(BeginValue, [])" s] q by simp
  with ks have "ks = []" by blast
  with q c that show ?thesis by simp
qed

lemma done_json_valid:
  assumes "json_run (BeginValue, []) s = (p, [])" and "value_done p"
  shows "json_valid s"
  using assms by (cases "p = EndTop") (auto simp: json_valid_def value_done_delim)

text \<open>A valid text where a value is expected, and the delimiter after it.\<close>

lemma value_in_context:
  assumes v: "json_valid v" and st: "st \<noteq> []" and c: "delim c"
  shows "json_run (BeginValue, st) (v @ [c]) = end_value c st"
proof -
  from v obtain p where run: "json_run (BeginValue, []) v = (p, [])" and cp: "value_done p"
    by (rule json_valid_done)
  have "p \<noteq> Bad" using cp by (auto simp: value_done_def)
  then have "json_run (frame st (BeginValue, [])) v = frame st (p, [])"
    using json_run_frame [OF st, of "(BeginValue, [])" v] run by simp
  moreover have "frame st (BeginValue, []) = (BeginValue, st)" by (simp add: frame_def)
  moreover have "json_step (frame st (p, [])) c = end_value c st"
  proof (cases "p = EndTop")
    case True
    then show ?thesis by (simp add: frame_def)
  next
    case False
    then show ?thesis using cp c by (simp add: frame_def value_done_delim)
  qed
  ultimately show ?thesis by simp
qed

lemma json_valid_not_Nil: "\<not> json_valid []"
  by (simp add: json_valid_def begin_value_def)

lemma begin_or_empty:
  "fst (json_run (BeginValue, ks) v) \<notin> {BeginValue, Bad} \<Longrightarrow>
   json_run (BeginValueOrEmpty, ks) v = json_run (BeginValue, ks) v"
proof (induction v)
  case Nil
  then show ?case by simp
next
  case (Cons c v)
  show ?case
  proof (cases "is_ws c")
    case True
    with Cons show ?thesis by (simp add: begin_value_def)
  next
    case False
    have "c \<noteq> CHR '']''"
      using Cons.prems by (auto simp: begin_value_def is_digit_def)
    with False show ?thesis by simp
  qed
qed

section \<open>The scanner and the balance of brackets and strings\<close>

fun in_str :: "jst \<Rightarrow> bool" where
  "in_str InString = True"
| "in_str InEsc = True"
| "in_str (InU n) = True"
| "in_str p = False"

definition bal_of :: "scanner \<Rightarrow> balance" where
  "bal_of q = (length (snd q), in_str (fst q), fst q = InEsc)"

text \<open>The literals \<open>true\<close>, \<open>false\<close> and \<open>null\<close> contain letters only.\<close>

definition lit_ok :: "scanner \<Rightarrow> bool" where
  "lit_ok q \<longleftrightarrow> (\<forall>l. fst q = Lit l \<longrightarrow> set l \<subseteq> set ''aelrsu'')"

lemma end_value_not_lit: "fst (end_value c ks) \<noteq> Lit l"
  by (cases ks) (auto split: jctx.splits)

lemma end_value_not_str: "\<not> in_str (fst (end_value c ks))" "fst (end_value c ks) \<noteq> InEsc"
  by (cases ks; auto split: jctx.splits)+

lemma lit_ok_step: "lit_ok q \<Longrightarrow> lit_ok (json_step q c)"
proof -
  assume q: "lit_ok q"
  obtain p ks where [simp]: "q = (p, ks)" by (cases q)
  show ?thesis
  proof (cases p)
    case (Lit l)
    then show ?thesis using q by (cases l) (auto simp: lit_ok_def)
  qed (use q end_value_not_lit in \<open>auto simp: lit_ok_def begin_value_def begin_string_def num0_def
        exp_sign_def split: if_splits\<close>)
qed

lemma lit_ok_begin [simp]: "lit_ok (BeginValue, ks)"
  by (simp add: lit_ok_def)

definition structural :: "char \<Rightarrow> bool" where
  "structural c \<longleftrightarrow> c \<in> set [CHR 0x22, CHR ''{'', CHR ''['', CHR ''}'', CHR '']'']"

lemma bal_plain: "\<not> structural c \<Longrightarrow> bal_step (d, False, False) c = Some (d, False, False)"
  by (simp add: structural_def)

lemma structural_cases: "structural c \<Longrightarrow> \<not> is_ws c \<and> \<not> is_digit c"
  unfolding structural_def by (elim set_ConsD [THEN disjE]; simp add: is_ws_def is_digit_def)

lemma bal_ws: "is_ws c \<Longrightarrow> bal_step (d, False, False) c = Some (d, False, False)"
  using structural_cases bal_plain by blast

lemma bal_digit: "is_digit c \<Longrightarrow> bal_step (d, False, False) c = Some (d, False, False)"
  using structural_cases bal_plain by blast

lemma ws_not_digit: "is_ws c \<Longrightarrow> \<not> is_digit c"
  by (auto simp: is_ws_def is_digit_def)

lemma end_value_bal:
  assumes "fst (end_value c ks) \<noteq> Bad"
  shows "bal_step (length ks, False, False) c = Some (bal_of (end_value c ks))"
proof (cases "is_ws c")
  case True
  then show ?thesis by (cases ks) (simp_all add: bal_ws bal_of_def del: bal_step.simps)
next
  case False
  with assms obtain k r where ks: "ks = k # r" by (cases ks) auto
  show ?thesis
  proof (cases k)
    case CKey
    then have "c = CHR '':''" using assms False ks by (simp split: if_splits)
    then show ?thesis using CKey ks by (simp add: bal_of_def)
  next
    case CVal
    then have "c = CHR '','' \<or> c = CHR ''}''" using assms False ks by (simp split: if_splits)
    then show ?thesis using CVal ks by (auto simp: bal_of_def)
  next
    case CArr
    then have "c = CHR '','' \<or> c = CHR '']''" using assms False ks by (simp split: if_splits)
    then show ?thesis using CArr ks by (auto simp: bal_of_def)
  qed
qed

lemma begin_value_bal:
  assumes "fst (begin_value c ks) \<noteq> Bad"
  shows "bal_step (length ks, False, False) c = Some (bal_of (begin_value c ks))"
proof (cases "structural c")
  case True
  then have "c = CHR 0x22 \<or> c = CHR ''{'' \<or> c = CHR ''[''"
    using assms by (auto simp: structural_def begin_value_def is_digit_def)
  then show ?thesis by (auto simp: bal_of_def begin_value_def)
next
  case False
  then have "snd (begin_value c ks) = ks \<and> \<not> in_str (fst (begin_value c ks))
      \<and> fst (begin_value c ks) \<noteq> InEsc"
    by (simp add: begin_value_def structural_def)
  then show ?thesis using False by (simp add: bal_plain bal_of_def del: bal_step.simps)
qed

lemma begin_string_bal:
  assumes "fst (begin_string c ks) \<noteq> Bad"
  shows "bal_step (length ks, False, False) c = Some (bal_of (begin_string c ks))"
proof (cases "is_ws c")
  case True
  then show ?thesis by (simp add: begin_string_def bal_of_def bal_ws del: bal_step.simps)
next
  case False
  then have "c = CHR 0x22" using assms by (simp add: begin_string_def split: if_splits)
  then show ?thesis by (simp add: begin_string_def bal_of_def)
qed

lemma num0_bal:
  assumes "fst (num0 c ks) \<noteq> Bad"
  shows "bal_step (length ks, False, False) c = Some (bal_of (num0 c ks))"
proof (cases "c = CHR ''.'' \<or> c = CHR ''e'' \<or> c = CHR ''E''")
  case True
  then show ?thesis by (auto simp: num0_def bal_of_def)
next
  case False
  then show ?thesis using assms end_value_bal [of c ks] by (simp add: num0_def del: bal_step.simps)
qed

lemma json_step_bal:
  assumes "lit_ok q" and "fst (json_step q c) \<noteq> Bad"
  shows "bal_step (bal_of q) c = Some (bal_of (json_step q c))"
proof -
  obtain p ks where q: "q = (p, ks)" by (cases q)
  have digit: "is_digit c \<Longrightarrow> bal_step (length ks, False, False) c = Some (length ks, False, False)"
    by (rule bal_digit)
  have sgn: "c = CHR ''+'' \<or> c = CHR ''-'' \<or> c = CHR ''e'' \<or> c = CHR ''E'' \<or> c = CHR ''0'' \<Longrightarrow>
      bal_step (length ks, False, False) c = Some (length ks, False, False)"
    by auto
  have hex: "is_hex c \<Longrightarrow> c \<noteq> CHR 0x22 \<and> c \<noteq> CHR 0x5C"
    by (auto simp: is_hex_def is_digit_def)
  note bals = digit sgn bal_ws [of c "length ks"] end_value_bal [of c ks] begin_value_bal [of c ks]
    begin_string_bal [of c ks] num0_bal [of c ks]
  show ?thesis
  proof (cases p)
    case (Lit l)
    then show ?thesis using assms q
      by (cases l) (auto simp: bal_of_def lit_ok_def split: if_splits)
  next
    case BeginStringOrEmpty
    then show ?thesis
    proof (cases "c = CHR ''}'' \<and> \<not> is_ws c")
      case True
      then show ?thesis using assms q BeginStringOrEmpty by (cases ks) (simp_all add: bal_of_def)
    next
      case False
      then show ?thesis using assms q BeginStringOrEmpty bals
        by (auto simp: bal_of_def simp del: bal_step.simps split: if_splits)
    qed
  next
    case InString
    then show ?thesis using assms q by (simp add: bal_of_def split: if_splits)
  next
    case InEsc
    then show ?thesis using assms q by (simp add: bal_of_def split: if_splits)
  next
    case (InU n)
    then show ?thesis using assms q hex by (auto simp: bal_of_def split: if_splits)
  qed (use assms q bals in \<open>auto simp: bal_of_def exp_sign_def simp del: bal_step.simps split: if_splits\<close>)
qed

text \<open>The balance after a text that has no separator outside brackets and strings.\<close>

fun solid :: "char \<Rightarrow> balance \<Rightarrow> string \<Rightarrow> balance option" where
  "solid sep b [] = Some b"
| "solid sep b (c # s) =
     (if c = sep \<and> b = bal0 then None
      else (case bal_step b c of None \<Rightarrow> None | Some b' \<Rightarrow> solid sep b' s))"

lemma solid_append:
  "solid sep b (s @ t) = (case solid sep b s of None \<Rightarrow> None | Some b' \<Rightarrow> solid sep b' t)"
  by (induction s arbitrary: b) (auto split: option.splits)

lemma sep_not_digit [simp]: "is_digit (CHR '','') = False" "is_digit (CHR '':'') = False"
  by (simp_all add: is_digit_def)

lemma sep_bad:
  assumes "\<not> in_str p" and "lit_ok (p, [])"
  shows "fst (json_step (p, []) (CHR '','')) = Bad" "fst (json_step (p, []) (CHR '':'')) = Bad"
proof -
  have "fst (json_step (p, []) (CHR '','')) = Bad \<and> fst (json_step (p, []) (CHR '':'')) = Bad"
  proof (cases p)
    case (Lit l)
    then show ?thesis using assms(2) by (cases l) (auto simp: lit_ok_def)
  qed (use assms(1) in \<open>simp_all add: begin_value_def begin_string_def num0_def exp_sign_def\<close>)
  then show "fst (json_step (p, []) (CHR '','')) = Bad" "fst (json_step (p, []) (CHR '':'')) = Bad"
    by simp_all
qed

lemma step_no_sep:
  assumes "lit_ok q" and "fst (json_step q c) \<noteq> Bad" and "bal_of q = bal0"
  shows "c \<noteq> CHR '','' \<and> c \<noteq> CHR '':''"
proof -
  obtain p where q: "q = (p, [])" and p: "\<not> in_str p" using assms(3)
    by (cases q) (auto simp: bal_of_def)
  show ?thesis using assms(1,2) sep_bad [OF p] q by blast
qed

lemma json_run_solid:
  assumes "sep = CHR '','' \<or> sep = CHR '':''"
  shows "lit_ok q \<Longrightarrow> fst (json_run q s) \<noteq> Bad \<Longrightarrow> solid sep (bal_of q) s = Some (bal_of (json_run q s))"
proof (induction s arbitrary: q)
  case Nil
  then show ?case by simp
next
  case (Cons c s)
  from Cons.prems have ok: "fst (json_step q c) \<noteq> Bad" using json_run_not_Bad by simp
  have ns: "\<not> (c = sep \<and> bal_of q = bal0)"
  proof
    assume "c = sep \<and> bal_of q = bal0"
    then show False using step_no_sep [OF Cons.prems(1) ok] assms by blast
  qed
  have "solid sep (bal_of (json_step q c)) s = Some (bal_of (json_run q (c # s)))"
    using Cons.IH [OF lit_ok_step [OF Cons.prems(1)]] Cons.prems(2) by simp
  with ns show ?case
    unfolding solid.simps json_step_bal [OF Cons.prems(1) ok] by simp
qed

lemma value_solid:
  assumes "json_valid v" and "sep = CHR '','' \<or> sep = CHR '':''"
  shows "solid sep bal0 v = Some bal0"
proof -
  from assms(1) obtain p where run: "json_run (BeginValue, []) v = (p, [])" and p: "value_done p"
    by (rule json_valid_done)
  then have "p \<noteq> Bad" by (auto simp: value_done_def)
  then have "solid sep (bal_of (BeginValue, [])) v = Some (bal_of (p, []))"
    using json_run_solid [OF assms(2), of "(BeginValue, [])" v] run by simp
  moreover have "bal_of (p, []) = bal0" using p by (auto simp: bal_of_def value_done_def)
  ultimately show ?thesis by (simp add: bal_of_def)
qed

lemma split_top_not_Nil [simp]: "split_top sep b s \<noteq> []"
  by (cases s) (auto split: option.splits list.splits)

lemma split_top_solid:
  "solid sep b v = Some b' \<Longrightarrow>
   split_top sep b (v @ r) = (v @ hd (split_top sep b' r)) # tl (split_top sep b' r)"
  by (induction v arbitrary: b) (auto split: option.splits if_splits)

lemma split_top_join:
  "vs \<noteq> [] \<Longrightarrow> \<forall>v \<in> set vs. solid sep bal0 v = Some bal0 \<Longrightarrow> split_top sep bal0 (join [sep] vs) = vs"
proof (induction vs)
  case Nil
  then show ?case by simp
next
  case (Cons v vs)
  then have v: "solid sep bal0 v = Some bal0" by simp
  show ?case
  proof (cases vs)
    case Nil
    then show ?thesis using split_top_solid [OF v, of "[]"] by simp
  next
    case (Cons w ws)
    then have "split_top sep bal0 (join [sep] vs) = vs" using Cons.IH Cons.prems by simp
    with \<open>vs = w # ws\<close> show ?thesis
      using split_top_solid [OF v, of "sep # join [sep] vs"] by simp
  qed
qed

section \<open>Trimming\<close>

lemma trim_by_ends: "\<not> P c \<Longrightarrow> \<not> P d \<Longrightarrow> trim_by P (c # s @ [d]) = c # s @ [d]"
  by (simp add: trim_by_def trim_left_by_def trim_right_by_def)

lemma trim_by_Nil_iff: "trim_by P s = [] \<longleftrightarrow> list_all P s"
proof
  assume "trim_by P s = []"
  then have all: "\<forall>c \<in> set (dropWhile P s). P c"
    by (simp add: trim_by_def trim_left_by_def trim_right_by_def)
  have "dropWhile P s = []"
    using all hd_dropWhile [of P s] list.set_sel(1) [of "dropWhile P s"] by blast
  then show "list_all P s" by (induction s) (auto split: if_splits)
next
  assume "list_all P s"
  then have "dropWhile P s = []" by (induction s) auto
  then show "trim_by P s = []"
    unfolding trim_by_def trim_left_by_def trim_right_by_def by (simp only: rev.simps dropWhile.simps)
qed

lemma run_all_ws: "list_all is_ws s \<Longrightarrow> json_run (BeginValue, ks) s = (BeginValue, ks)"
  by (induction s) (auto simp: begin_value_def)

lemma valid_not_all_ws: "json_valid v \<Longrightarrow> \<not> list_all is_ws v"
  by (auto simp: json_valid_def run_all_ws begin_value_def)

section \<open>Arrays put together from values\<close>

lemma array_tail_run:
  "vs \<noteq> [] \<Longrightarrow> \<forall>v \<in> set vs. json_valid v \<Longrightarrow>
   json_run (BeginValue, CArr # st) (join '','' vs @ '']'') = end_value (CHR '']'') (CArr # st)"
proof (induction vs)
  case Nil
  then show ?case by simp
next
  case (Cons v vs)
  then have v: "json_valid v" by simp
  show ?case
  proof (cases vs)
    case Nil
    then show ?thesis using value_in_context [OF v, of "CArr # st" "CHR '']''"] by simp
  next
    case (Cons w ws)
    then have "json_run (BeginValue, CArr # st) (join '','' vs @ '']'') = end_value (CHR '']'') (CArr # st)"
      using Cons.IH Cons.prems by simp
    with \<open>vs = w # ws\<close> show ?thesis
      using value_in_context [OF v, of "CArr # st" "CHR '','' "] by simp
  qed
qed

lemma array_run:
  assumes "\<forall>v \<in> set vs. json_valid v"
  shows "json_run (BeginValue, ks) (''['' @ join '','' vs @ '']'') = end_value (CHR '']'') (CArr # ks)"
proof (cases "vs = []")
  case True
  then show ?thesis by (simp add: begin_value_def)
next
  case False
  let ?t = "join '','' vs @ '']''"
  have run: "json_run (BeginValue, CArr # ks) ?t = end_value (CHR '']'') (CArr # ks)"
    using array_tail_run [OF False assms] .
  then have "fst (json_run (BeginValue, CArr # ks) ?t) \<notin> {BeginValue, Bad}" by simp
  then have "json_run (BeginValueOrEmpty, CArr # ks) ?t = end_value (CHR '']'') (CArr # ks)"
    using begin_or_empty [of "CArr # ks" ?t] run by simp
  then show ?thesis by (simp add: begin_value_def)
qed

lemma array_valid:
  assumes "\<forall>v \<in> set vs. json_valid v"
  shows "json_valid (''['' @ join '','' vs @ '']'')"
  using array_run [OF assms, of "[]"] by (intro done_json_valid) (auto simp: value_done_def)

lemma join_not_all_ws: "vs \<noteq> [] \<Longrightarrow> \<forall>v \<in> set vs. \<not> list_all is_ws v \<Longrightarrow> \<not> list_all is_ws (join '','' vs)"
  by (cases vs rule: list.exhaust; cases "tl vs") auto

theorem decode_array:
  assumes "\<forall>v \<in> set vs. json_valid v"
  shows "decode (''['' @ join '','' vs @ '']'') = Some (JArr (map trim_ws vs))"
proof -
  have trim: "trim_ws (''['' @ join '','' vs @ '']'') = ''['' @ join '','' vs @ '']''"
    using trim_by_ends [of is_ws "CHR ''[''" "CHR '']''" "join '','' vs"] by (simp add: trim_ws_def)
  have body: "trim_ws (join '','' vs) = [] \<longleftrightarrow> vs = []"
    using join_not_all_ws [of vs] valid_not_all_ws assms
    by (auto simp: trim_ws_def trim_by_Nil_iff)
  have "vs \<noteq> [] \<Longrightarrow> split_top (CHR '','') bal0 (join '','' vs) = vs"
    using split_top_join [of vs "CHR '',''"] value_solid assms by simp
  then show ?thesis
    using array_valid [OF assms] trim body
    by (auto simp: decode_def decode_valid_def)
qed

section \<open>String literals\<close>

definition ascii :: "string \<Rightarrow> bool" where
  "ascii s \<longleftrightarrow> list_all (\<lambda>c. ord c < 128) s"

lemma ascii_simps [simp]: "ascii []" "ascii (c # s) \<longleftrightarrow> ord c < 128 \<and> ascii s"
  by (simp_all add: ascii_def)

lemma quote_body_ascii: "ascii s \<Longrightarrow> quote_body s = concat (map quote_char s)"
  by (induction s) (simp_all add: quote_body.simps)

lemma is_hex_digit [simp]: "n < 16 \<Longrightarrow> is_hex (hex_digit n)"
  by (auto simp: is_hex_def hex_digit_def is_digit_def)

lemma hex_val_digit [simp]: "n < 16 \<Longrightarrow> hex_val (hex_digit n) = n"
  by (auto simp: hex_val_def hex_digit_def is_digit_def)

lemma ord_less: "ord c < 256"
  by (metis of_char_mod_256 mod_less_divisor zero_less_numeral)

lemma u00_run: "json_run (InString, ks) (u00 c) = (InString, ks)"
proof -
  have "ord c div 16 < 16" using ord_less [of c] by presburger
  moreover have "is_hex (CHR ''0'')" by (simp add: is_hex_def is_digit_def)
  ultimately show ?thesis by (simp add: u00_def)
qed

lemma quote_char_run: "json_run (InString, ks) (quote_char c) = (InString, ks)"
  by (simp add: quote_char_def u00_run)

lemma quote_body_run: "ascii s \<Longrightarrow> json_run (InString, ks) (quote_body s) = (InString, ks)"
  unfolding quote_body_ascii by (induction s) (simp_all add: quote_char_run quote_body_ascii)

lemma quote_run:
  "ascii k \<Longrightarrow> json_run (InString, ks) (quote_body k @ [CHR 0x22]) = (EndValue, ks)"
  by (simp add: quote_body_run)

lemma utf8_len_ascii [simp]: "ord c < 128 \<Longrightarrow> utf8_len (c # s) = 1"
  by simp

lemma encode_rune_ascii: "ord c < 128 \<Longrightarrow> encode_rune (ord c) = [c]"
  by (simp add: encode_rune_def byte_def)

lemma unescape_u00:
  assumes "ord c < 128"
  shows "unescape (u00 c @ r) = c # unescape r"
proof -
  have "hex4 (CHR ''0'') (CHR ''0'') (hex_digit (ord c div 16)) (hex_digit (ord c mod 16)) = ord c"
  proof -
    have "hex_val (CHR ''0'') = 0" by (simp add: hex_val_def is_digit_def)
    then show ?thesis using assms by (simp add: hex4_def)
  qed
  then show ?thesis
    using assms by (simp add: u00_def unescape.simps is_high_def is_low_def encode_rune_ascii)
qed

lemma unescape_plain:
  "ord c < 128 \<Longrightarrow> c \<noteq> CHR 0x5C \<Longrightarrow> unescape (c # r) = c # unescape r"
  by (subst unescape.simps) simp

lemma unescape_esc: "e \<noteq> CHR ''u'' \<Longrightarrow> unescape (CHR 0x5C # e # r) = esc_char e # unescape r"
  by (subst unescape.simps) simp

lemma unescape_quote_char:
  assumes "ord c < 128"
  shows "unescape (quote_char c @ r) = c # unescape r"
  using assms
  by (simp add: quote_char_def unescape_u00 unescape_plain unescape_esc esc_char_def)

lemma unescape_quote_body: "ascii s \<Longrightarrow> unescape (quote_body s) = s"
  unfolding quote_body_ascii
  by (induction s) (simp_all add: unescape_quote_char unescape.simps(1) quote_body_ascii)

theorem unquote_quote: "ascii s \<Longrightarrow> unquote (quote s) = s"
  by (simp add: unquote_def quote_def unescape_quote_body)

lemma quote_solid:
  assumes "ascii k" and "sep = CHR '','' \<or> sep = CHR '':''"
  shows "solid sep bal0 (quote k) = Some bal0"
proof -
  have "json_run (BeginString, []) (quote k) = (EndValue, [])"
    using quote_run [OF assms(1), of "[]"] by (simp add: quote_def begin_string_def)
  then have "solid sep (bal_of (BeginString, [])) (quote k) = Some (bal_of (EndValue, []))"
    using json_run_solid [OF assms(2), of "(BeginString, [])" "quote k"] by (simp add: lit_ok_def)
  then show ?thesis by (simp add: bal_of_def)
qed

lemma quote_valid: "ascii k \<Longrightarrow> json_valid (quote k)"
  using quote_run [of k "[]"]
  by (intro done_json_valid [of _ EndValue]) (simp_all add: quote_def begin_value_def value_done_def is_digit_def)

lemma trim_quote: "trim_ws (quote k) = quote k"
  using trim_by_ends [of is_ws "CHR 0x22" "CHR 0x22" "quote_body k"]
  by (simp add: trim_ws_def quote_def)

lemma decode_quote: "ascii k \<Longrightarrow> decode (quote k) = Some (JStr k)"
  using quote_valid [of k] trim_quote [of k] unquote_quote [of k]
  by (simp add: decode_def decode_valid_def quote_def)

lemma un_string_quote: "ascii k \<Longrightarrow> un_string (quote k) = Some k"
  by (simp add: un_string_def decode_quote)

section \<open>Objects put together from values\<close>

text \<open>The text of an object with the members \<open>m\<close>, the values as they are.\<close>

definition plain_member :: "string \<times> string \<Rightarrow> string" where
  "plain_member kv = quote (fst kv) @ CHR '':'' # snd kv"

definition plain_obj :: "jobj \<Rightarrow> string" where
  "plain_obj m = CHR ''{'' # join '','' (map plain_member m) @ ''}''"

definition ok_member :: "string \<times> string \<Rightarrow> bool" where
  "ok_member kv \<longleftrightarrow> ascii (fst kv) \<and> json_valid (snd kv)"

lemma member_run:
  assumes "ok_member kv" and "delim c"
  shows "json_run (BeginString, CKey # st) (plain_member kv @ [c]) = end_value c (CVal # st)"
proof -
  have "json_run (BeginString, CKey # st) (quote (fst kv) @ '':'') = (BeginValue, CVal # st)"
    using quote_run [of "fst kv" "CKey # st"] assms(1)
    by (simp add: quote_def begin_string_def ok_member_def)
  then show ?thesis
    using value_in_context [of "snd kv" "CVal # st" c] assms
    by (simp add: plain_member_def ok_member_def)
qed

lemma members_run:
  "m \<noteq> [] \<Longrightarrow> \<forall>kv \<in> set m. ok_member kv \<Longrightarrow>
   json_run (BeginString, CKey # st) (join '','' (map plain_member m) @ ''}'') = end_value (CHR ''}'') (CVal # st)"
proof (induction m)
  case Nil
  then show ?case by simp
next
  case (Cons kv m)
  then have kv: "ok_member kv" by simp
  show ?case
  proof (cases m)
    case Nil
    then show ?thesis using member_run [OF kv, of "CHR ''}''" st] by simp
  next
    case (Cons kw ms)
    then have "json_run (BeginString, CKey # st) (join '','' (map plain_member m) @ ''}'') =
        end_value (CHR ''}'') (CVal # st)"
      using Cons.IH Cons.prems by simp
    with \<open>m = kw # ms\<close> show ?thesis
      using member_run [OF kv, of "CHR '',''" st] by simp
  qed
qed

lemma plain_member_Cons: "\<exists>r. plain_member kv = CHR 0x22 # r"
  by (simp add: plain_member_def quote_def)

lemma obj_run:
  assumes "\<forall>kv \<in> set m. ok_member kv"
  shows "json_run (BeginValue, ks) (plain_obj m) = end_value (CHR ''}'') (CVal # ks)"
proof (cases m)
  case Nil
  then show ?thesis by (simp add: plain_obj_def begin_value_def)
next
  case (Cons kv ms)
  obtain r where r: "join '','' (map plain_member m) @ ''}'' = CHR 0x22 # r"
    using plain_member_Cons [of kv] Cons by (cases ms) auto
  have "json_run (BeginStringOrEmpty, CKey # ks) (CHR 0x22 # r) =
      json_run (BeginString, CKey # ks) (CHR 0x22 # r)"
    by (simp add: begin_string_def)
  moreover have "json_run (BeginString, CKey # ks) (CHR 0x22 # r) = end_value (CHR ''}'') (CVal # ks)"
    using members_run [OF _ assms, of ks] Cons unfolding r by simp
  moreover have "json_run (BeginValue, ks) (plain_obj m) = json_run (BeginStringOrEmpty, CKey # ks) (CHR 0x22 # r)"
    unfolding plain_obj_def r by (simp add: begin_value_def)
  ultimately show ?thesis by simp
qed

lemma obj_valid: "\<forall>kv \<in> set m. ok_member kv \<Longrightarrow> json_valid (plain_obj m)"
  using obj_run [of m "[]"] by (intro done_json_valid [of _ EndTop]) (auto simp: value_done_def)

lemma member_solid:
  assumes "ok_member kv"
  shows "solid (CHR '','') bal0 (plain_member kv) = Some bal0"
  using assms quote_solid [of "fst kv" "CHR '',''"] value_solid [of "snd kv" "CHR '',''"]
  by (simp add: plain_member_def ok_member_def solid_append)

lemma mk_plain_member:
  assumes "ok_member kv"
  shows "mk_member (plain_member kv) = (fst kv, trim_ws (snd kv))"
proof -
  have "split_top (CHR '':'') bal0 (plain_member kv) = [quote (fst kv), snd kv]"
    using split_top_join [of "[quote (fst kv), snd kv]" "CHR '':''"]
      assms quote_solid [of "fst kv" "CHR '':''"] value_solid [of "snd kv" "CHR '':''"]
    by (simp add: plain_member_def ok_member_def)
  then show ?thesis using assms by (simp add: mk_member_def trim_quote unquote_quote ok_member_def)
qed

theorem decode_obj:
  assumes "\<forall>kv \<in> set m. ok_member kv"
  shows "decode (plain_obj m) = Some (JObj (map (\<lambda>kv. (fst kv, trim_ws (snd kv))) m))"
proof -
  have trim: "trim_ws (plain_obj m) = plain_obj m"
    using trim_by_ends [of is_ws "CHR ''{''" "CHR ''}''" "join '','' (map plain_member m)"]
    by (simp add: trim_ws_def plain_obj_def)
  have ne: "\<forall>s \<in> set (map plain_member m). \<not> list_all is_ws s"
    using plain_member_Cons by (auto simp: plain_member_def quote_def)
  have body: "trim_ws (join '','' (map plain_member m)) = [] \<longleftrightarrow> m = []"
    using join_not_all_ws [OF _ ne] by (auto simp: trim_ws_def trim_by_Nil_iff)
  have "m \<noteq> [] \<Longrightarrow> split_top (CHR '','') bal0 (join '','' (map plain_member m)) = map plain_member m"
    using split_top_join [of "map plain_member m" "CHR '',''"] member_solid assms by simp
  moreover have "map (mk_member \<circ> plain_member) m = map (\<lambda>kv. (fst kv, trim_ws (snd kv))) m"
    using assms mk_plain_member by simp
  ultimately show ?thesis
    using obj_valid [OF assms] trim body
    by (auto simp: decode_def decode_valid_def plain_obj_def)
qed

section \<open>Compaction\<close>

text \<open>The scanner after the original text and after the compacted one: the same state, but that
  dropped white space leaves a number open which it would have ended.\<close>

definition compact_rel :: "scanner \<Rightarrow> scanner \<Rightarrow> bool" where
  "compact_rel q q' \<longleftrightarrow> q = q' \<or>
     (snd q = snd q' \<and> fst q \<in> {EndValue, EndTop} \<and> value_done (fst q') \<and> fst q' \<noteq> EndTop
      \<and> (fst q = EndTop \<longleftrightarrow> snd q = []))"

lemma compact_rel_refl [simp]: "compact_rel q q"
  by (simp add: compact_rel_def)

lemma end_value_delim: "fst (end_value c ks) \<noteq> Bad \<Longrightarrow> delim c"
  by (cases ks) (auto simp: delim_def split: jctx.splits if_splits)

lemma compact_rel_step:
  assumes "compact_rel q q'" and "fst (json_step q c) \<noteq> Bad" and "\<not> is_ws c"
  shows "compact_rel (json_step q c) (json_step q' c)"
proof (cases "q = q'")
  case False
  obtain p ks p' where q: "q = (p, ks)" "q' = (p', ks)" and p: "p \<in> {EndValue, EndTop}"
    and p': "value_done p'" "p' \<noteq> EndTop" and top: "p = EndTop \<longleftrightarrow> ks = []"
    using assms(1) False by (cases q; cases q') (auto simp: compact_rel_def)
  have "p = EndValue" using p assms(2,3) q by auto
  then have "json_step q c = end_value c ks" using q by simp
  moreover have "delim c" using calculation assms(2) end_value_delim by simp
  ultimately show ?thesis using value_done_delim [OF p'] q by simp
qed simp

lemma ws_step:
  assumes "is_ws c" and "fst (json_step q c) \<noteq> Bad" and "\<not> in_str (fst q)" and "lit_ok q"
    and "fst q = EndTop \<Longrightarrow> snd q = []"
  shows "json_step q c = q \<or> (value_done (fst q) \<and> fst q \<noteq> EndTop \<and> json_step q c = end_value c (snd q))"
proof -
  obtain p ks where q: "q = (p, ks)" by (cases q)
  have "is_ws c \<Longrightarrow> \<not> is_digit c" by (rule ws_not_digit)
  moreover have "c \<noteq> CHR ''0'' \<and> c \<noteq> CHR ''e'' \<and> c \<noteq> CHR ''E'' \<and> c \<noteq> CHR ''.'' \<and> c \<noteq> CHR ''+'' \<and> c \<noteq> CHR ''-''"
    using assms(1) by (auto simp: is_ws_def)
  ultimately show ?thesis
  proof (cases p)
    case (Lit l)
    then show ?thesis using assms q by (cases l) (auto simp: lit_ok_def is_ws_def split: if_splits)
  qed (use assms q in \<open>simp_all add: begin_value_def begin_string_def num0_def exp_sign_def
        value_done_def\<close>)
qed

lemma compact_rel_ws:
  assumes "compact_rel q q'" and "is_ws c" and "fst (json_step q c) \<noteq> Bad" and "\<not> in_str (fst q)"
    and "lit_ok q" and "fst q = EndTop \<Longrightarrow> snd q = []"
  shows "compact_rel (json_step q c) q'"
proof -
  have ev: "end_value c ks = (if ks = [] then EndTop else EndValue, ks)" for ks
    using assms(2) by (cases ks) simp_all
  consider "json_step q c = q"
    | "value_done (fst q)" "fst q \<noteq> EndTop" "json_step q c = end_value c (snd q)"
    using ws_step assms by blast
  then show ?thesis
  proof cases
    case 1
    then show ?thesis using assms(1) by simp
  next
    case 2
    then show ?thesis using assms(1) ev [of "snd q"]
      by (cases q; cases q') (auto simp: compact_rel_def)
  qed
qed

text \<open>The bytes compaction rewrites occur in strings only.\<close>

definition html_byte :: "char \<Rightarrow> bool" where
  "html_byte c \<longleftrightarrow> c \<in> set [CHR ''<'', CHR ''>'', CHR ''&'', byte 226]"

lemma byte_consts:
  "byte 226 = CHR 0xE2" "byte 128 = CHR 0x80" "byte 168 = CHR 0xA8" "byte 169 = CHR 0xA9"
  by (simp_all add: byte_def char_of_eq_iff)

lemma html_facts: "html_byte c \<Longrightarrow> \<not> is_ws c \<and> \<not> is_digit c \<and> \<not> is_hex c \<and> 32 \<le> ord c"
  by (auto simp: html_byte_def byte_consts is_ws_def is_digit_def is_hex_def)

lemma html_ne:
  "html_byte c \<Longrightarrow> x \<in> set [CHR '']'', CHR ''}'', CHR ''{'', CHR ''['', CHR 0x22, CHR ''-'', CHR ''0'',
     CHR ''t'', CHR ''f'', CHR ''n'', CHR ''.'', CHR ''e'', CHR ''E'', CHR ''+'', CHR '','', CHR '':''] \<Longrightarrow> c \<noteq> x"
  by (auto simp: html_byte_def byte_consts)

lemma html_end_value: "html_byte c \<Longrightarrow> fst (end_value c ks) = Bad"
  using html_ne [of c] html_facts [of c] by (cases ks) (simp_all split: jctx.splits)

lemma html_outside_bad:
  assumes "html_byte c" and "\<not> in_str p" and "lit_ok (p, ks)"
  shows "fst (json_step (p, ks) c) = Bad"
proof -
  note ne = html_ne [OF assms(1)]
  have al: "c \<notin> set ''aelrsu''" using assms(1) by (auto simp: html_byte_def byte_consts)
  note facts = html_facts [OF assms(1)] html_end_value [OF assms(1)]
  show ?thesis
  proof (cases p)
    case (Lit l)
    then show ?thesis using assms(3) al by (cases l) (auto simp: lit_ok_def)
  qed (use assms(2) facts ne in \<open>simp_all add: begin_value_def begin_string_def num0_def exp_sign_def\<close>)
qed

lemma in_str_html:
  assumes "html_byte c" and "in_str (fst q)" and "fst (json_step q c) \<noteq> Bad"
  shows "fst q = InString" and "json_step q c = q"
proof -
  obtain p ks where q: "q = (p, ks)" by (cases q)
  have "c \<notin> set [CHR ''b'', CHR ''f'', CHR ''n'', CHR ''r'', CHR ''t'', CHR 0x5C, CHR ''/'', CHR 0x22, CHR ''u'']"
    using assms(1) by (auto simp: html_byte_def byte_consts)
  then have "p = InString \<and> json_step q c = q"
    using assms q html_facts [OF assms(1)] by (cases p) (simp_all split: if_splits)
  then show "fst q = InString" and "json_step q c = q" using q by (auto simp del: json_step.simps)
qed

lemma u202_run: "d = CHR ''8'' \<or> d = CHR ''9'' \<Longrightarrow> json_run (InString, ks) (u202 d) = (InString, ks)"
  by (auto simp: u202_def is_hex_def is_digit_def)

definition scan_ok :: "scanner \<Rightarrow> bool" where
  "scan_ok q \<longleftrightarrow> lit_ok q \<and> (fst q = EndTop \<longrightarrow> snd q = [])"

lemma scan_ok_step: "scan_ok q \<Longrightarrow> scan_ok (json_step q c)"
  using lit_ok_step json_step_top by (auto simp: scan_ok_def)

lemma in_str_step:
  assumes "lit_ok q" and "fst (json_step q c) \<noteq> Bad"
  shows "in_str (fst (json_step q c)) \<longleftrightarrow> (if in_str (fst q) then fst q = InEsc \<or> c \<noteq> CHR 0x22 else c = CHR 0x22)"
    and "fst (json_step q c) = InEsc \<longleftrightarrow> in_str (fst q) \<and> fst q \<noteq> InEsc \<and> c = CHR 0x5C"
  using json_step_bal [OF assms] by (auto simp: bal_of_def split: if_splits)

lemma compact_rel_str: "compact_rel q q' \<Longrightarrow> in_str (fst q) \<Longrightarrow> q' = q"
  by (auto simp: compact_rel_def)

lemma sep3_run:
  assumes "fst q = InString" and "ord d \<ge> 128"
  shows "json_run q (byte 128 # d # s) = json_run q s"
proof -
  have "d \<noteq> CHR 0x22" "d \<noteq> CHR 0x5C" using assms(2) by auto
  then show ?thesis using assms by (cases q) (simp add: byte_consts)
qed

lemma compact_run:
  "fst (json_run q s) \<noteq> Bad \<Longrightarrow> compact_rel q q' \<Longrightarrow> scan_ok q \<Longrightarrow>
   compact_rel (json_run q s) (json_run q' (compact_from (in_str (fst q)) (fst q = InEsc) s))"
proof (induction "in_str (fst q)" "fst q = InEsc" s arbitrary: q q' rule: compact_from.induct)
  case 1
  then show ?case by simp
next
  case (2 c s)
  have lit: "lit_ok q" using "2.prems"(3) by (simp add: scan_ok_def)
  have nb: "fst (json_step q c) \<noteq> Bad" using "2.prems"(1) json_run_not_Bad by simp
  have nb2: "fst (json_run (json_step q c) s) \<noteq> Bad" using "2.prems"(1) by simp
  have ok: "scan_ok (json_step q c)" using "2.prems"(3) by (rule scan_ok_step)
  show ?case
  proof (cases "html_byte c")
    case True
    then have ins: "in_str (fst q)"
      using html_outside_bad [of c "fst q" "snd q"] lit nb by auto
    note ish = in_str_html [OF True ins nb]
    have q': "q' = q" using compact_rel_str "2.prems"(2) ins by blast
    obtain ks where q: "q = (InString, ks)" using ish by (cases q) auto
    have nb3: "fst (json_run q s) \<noteq> Bad" using nb2 ish by simp
    have run: "json_run q (c # s) = json_run q s" using ish by simp
    consider (esc) "c = CHR ''<'' \<or> c = CHR ''>'' \<or> c = CHR ''&''"
      | (s8) "c = byte 226" "take 2 s = [byte 128, byte 168]"
      | (s9) "c = byte 226" "take 2 s = [byte 128, byte 169]"
      | (oth) "c = byte 226" "take 2 s \<noteq> [byte 128, byte 168]" "take 2 s \<noteq> [byte 128, byte 169]"
      using True by (auto simp: html_byte_def)
    then show ?thesis
    proof cases
      case esc
      then show ?thesis
        using "2.hyps"(1) [of q q] "2.prems"(3) nb3 run q q' u00_run [of ks c] by auto
    next
      case s8
      then have s: "s = byte 128 # byte 168 # drop 2 s" by (metis append_Cons append_Nil append_take_drop_id)
      have "json_run q (byte 128 # byte 168 # drop 2 s) = json_run q (drop 2 s)"
        by (rule sep3_run) (simp_all add: q byte_consts)
      then have "json_run q s = json_run q (drop 2 s)" using s by simp
      then show ?thesis
        using "2.hyps"(2) [of q q] "2.prems"(3) nb3 run q q' s8 u202_run [of "CHR ''8''" ks]
        by (auto simp: byte_consts)
    next
      case s9
      then have s: "s = byte 128 # byte 169 # drop 2 s" by (metis append_Cons append_Nil append_take_drop_id)
      have "json_run q (byte 128 # byte 169 # drop 2 s) = json_run q (drop 2 s)"
        by (rule sep3_run) (simp_all add: q byte_consts)
      then have "json_run q s = json_run q (drop 2 s)" using s by simp
      then show ?thesis
        using "2.hyps"(3) [of q q] "2.prems"(3) nb3 run q q' s9 u202_run [of "CHR ''9''" ks]
        by (auto simp: byte_consts)
    next
      case oth
      then show ?thesis
        using "2.hyps"(4) [of q q] "2.prems"(3) nb3 ish q' q
        by (simp add: byte_consts)
    qed
  next
    case False
    then have nc: "\<not> (c = CHR ''<'' \<or> c = CHR ''>'' \<or> c = CHR ''&'')" "c \<noteq> byte 226"
      by (auto simp: html_byte_def)
    note st = in_str_step [OF lit nb]
    show ?thesis
    proof (cases "in_str (fst q)")
      case True
      then have "q' = q" using compact_rel_str "2.prems"(2) by blast
      then show ?thesis
        using "2.hyps"(4) [of "json_step q c" "json_step q c"] nc True st nb2 ok by simp
    next
      case out: False
      then have ne: "fst q \<noteq> InEsc" by auto
      show ?thesis
      proof (cases "is_ws c")
        case True
        have "compact_rel (json_step q c) q'"
          using compact_rel_ws "2.prems"(2,3) True nb out lit by (auto simp: scan_ok_def)
        moreover have "c \<noteq> CHR 0x22" using True by auto
        ultimately show ?thesis
          using "2.hyps"(5) [of "json_step q c" q'] nc True out ne st nb2 ok by simp
      next
        case False
        then have "compact_rel (json_step q c) (json_step q' c)"
          using compact_rel_step "2.prems"(2) nb by blast
        then show ?thesis
          using "2.hyps"(6) [of "json_step q c" "json_step q' c"] nc False out ne st nb2 ok by simp
      qed
    qed
  qed
qed

theorem compact_valid:
  assumes "json_valid v"
  shows "json_valid (compact v)"
proof -
  from assms obtain p where run: "json_run (BeginValue, []) v = (p, [])" and p: "value_done p"
    by (rule json_valid_done)
  then have "compact_rel (p, []) (json_run (BeginValue, []) (compact v))"
    using compact_run [of "(BeginValue, [])" v "(BeginValue, [])"]
    by (auto simp: compact_def scan_ok_def value_done_def)
  then obtain p' where "json_run (BeginValue, []) (compact v) = (p', [])" "value_done p'"
    using p by (cases "json_run (BeginValue, []) (compact v)") (auto simp: compact_rel_def)
  then show ?thesis by (rule done_json_valid)
qed

section \<open>Marshalled maps\<close>

lemma str_less_irrefl: "\<not> str_less s s"
  by (induction s) auto

lemma str_less_trans: "str_less a b \<Longrightarrow> str_less b c \<Longrightarrow> str_less a c"
proof (induction a c arbitrary: b rule: str_less.induct)
  case (2 y ys)
  then show ?case by (cases b) auto
next
  case (4 x xs y ys)
  then obtain z zs where b: "b = z # zs" by (cases b) auto
  show ?case
  proof (cases "x = z \<and> z = y")
    case True
    then show ?thesis using 4 b by auto
  next
    case False
    then show ?thesis using "4.prems" b by auto
  qed
qed (auto elim: str_less.elims)

lemma str_less_total: "a \<noteq> b \<Longrightarrow> str_less a b \<or> str_less b a"
proof (induction a b rule: str_less.induct)
  case (4 x xs y ys)
  have "x = y \<or> ord x < ord y \<or> ord y < ord x"
    using char_of_char by (metis linorder_neqE_nat)
  then show ?case using 4 by auto
qed auto

definition sorted_keys :: "jobj \<Rightarrow> bool" where
  "sorted_keys m \<longleftrightarrow> sorted_wrt (\<lambda>a b. str_less (fst a) (fst b)) m"

lemma keys_ins_member: "fst ` set (ins_member k v m) = insert k (fst ` set m)"
  by (induction k v m rule: ins_member.induct) auto

lemma sorted_ins_member: "sorted_keys m \<Longrightarrow> sorted_keys (ins_member k v m)"
proof (induction k v m rule: ins_member.induct)
  case (2 k v a b m)
  have s: "sorted_keys m" and a: "\<forall>x \<in> fst ` set m. str_less a x"
    using "2.prems" by (auto simp: sorted_keys_def)
  show ?case
  proof (cases "k = a \<or> str_less k a")
    case True
    then show ?thesis using s a str_less_trans by (auto simp: sorted_keys_def)
  next
    case False
    then have "str_less a k" using str_less_total by blast
    then have "\<forall>x \<in> fst ` set (ins_member k v m). str_less a x" using a by (simp add: keys_ins_member)
    then show ?thesis using False 2 s by (auto simp: sorted_keys_def)
  qed
qed (simp add: sorted_keys_def)

lemma sorted_keys_distinct: "sorted_keys m \<Longrightarrow> distinct (map fst m)"
  unfolding sorted_keys_def
proof (induction m)
  case (Cons kv m)
  then show ?case using str_less_irrefl by fastforce
qed simp

lemma sort_members_gen:
  "sorted_keys m0 \<Longrightarrow> sorted_keys (fold (\<lambda>(k, v). ins_member k v) m m0)
     \<and> fst ` set (fold (\<lambda>(k, v). ins_member k v) m m0) = fst ` set m0 \<union> fst ` set m"
proof (induction m arbitrary: m0)
  case (Cons kv m)
  obtain k v where kv: "kv = (k, v)" by (cases kv)
  show ?case using Cons.IH [OF sorted_ins_member [OF Cons.prems, of k v]] kv
    by (simp add: keys_ins_member)
qed simp

lemma sorted_sort_members: "sorted_keys (sort_members m)"
  using sort_members_gen [of "[]" m] by (simp add: sort_members_def sorted_keys_def)

lemma keys_sort_members: "fst ` set (sort_members m) = fst ` set m"
  using sort_members_gen [of "[]" m] by (simp add: sort_members_def sorted_keys_def)

lemma map_of_ins_member: "map_of (ins_member k v m) = (map_of m)(k \<mapsto> v)"
  by (induction k v m rule: ins_member.induct) (auto simp: fun_eq_iff)

lemma map_of_sort_gen:
  "map_of (fold (\<lambda>(k, v). ins_member k v) m m0) = map_of m0 ++ map_of (rev m)"
proof (induction m arbitrary: m0)
  case (Cons kv m)
  then show ?case by (cases kv) (simp add: map_of_ins_member map_add_def fun_eq_iff split: option.splits)
qed simp

lemma map_of_sort_members: "map_of (sort_members m) = map_of (rev m)"
  by (simp add: sort_members_def map_of_sort_gen)

lemma map_of_rev_distinct: "distinct (map fst m) \<Longrightarrow> map_of (rev m) = map_of m"
  by (rule map_of_inject_set [THEN iffD2]) (simp_all add: rev_map [symmetric])

lemma jget_sort_members: "jget (sort_members m) k = jget m k"
  using map_of_rev_distinct [OF sorted_keys_distinct [OF sorted_sort_members [of m]]]
  by (simp add: jget_def map_of_sort_members)

lemma in_ins_member: "x \<in> set (ins_member k v m) \<Longrightarrow> x = (k, v) \<or> x \<in> set m"
  by (induction k v m rule: ins_member.induct) (auto split: if_splits)

lemma in_sort_members: "x \<in> set (sort_members m) \<Longrightarrow> x \<in> set m"
proof -
  have "x \<in> set (fold (\<lambda>(k, v). ins_member k v) m m0) \<Longrightarrow> x \<in> set m0 \<union> set m" for m0
    by (induction m arbitrary: m0) (auto dest: in_ins_member)
  from this [of "[]"] show "x \<in> set (sort_members m) \<Longrightarrow> x \<in> set m" by (simp add: sort_members_def)
qed

lemma marshal_plain: "marshal_map m = plain_obj (map (\<lambda>kv. (fst kv, compact (snd kv))) (sort_members m))"
proof -
  have "map member_text (sort_members m) =
      map plain_member (map (\<lambda>kv. (fst kv, compact (snd kv))) (sort_members m))"
    by (simp add: member_text_def plain_member_def)
  then show ?thesis unfolding marshal_map_def obj_text_def plain_obj_def by (simp only:)
qed

lemma ok_compacted:
  "\<forall>kv \<in> set m. ok_member kv \<Longrightarrow>
   \<forall>kv \<in> set (map (\<lambda>kv. (fst kv, compact (snd kv))) (sort_members m)). ok_member kv"
  using compact_valid in_sort_members by (fastforce simp: ok_member_def)

text \<open>A marshalled map is a valid text and decodes to a map with the same keys and the compacted
  values.\<close>

lemma marshal_valid: "\<forall>kv \<in> set m. ok_member kv \<Longrightarrow> json_valid (marshal_map m)"
  unfolding marshal_plain by (rule obj_valid) (rule ok_compacted)

lemma map_of_map_snd: "map_of (map (\<lambda>kv. (fst kv, f (snd kv))) m) k = map_option f (map_of m k)"
  by (induction m) auto

lemma jget_map_snd: "jget (map (\<lambda>kv. (fst kv, f (snd kv))) m) k = map_option f (jget m k)"
  by (simp add: jget_def rev_map map_of_map_snd)

theorem un_map_marshal:
  assumes "\<forall>kv \<in> set m. ok_member kv"
  obtains m' where "un_map (marshal_map m) = Some m'"
    and "\<And>k. jget m' k = map_option (\<lambda>v. trim_ws (compact v)) (jget m k)"
proof
  show "un_map (marshal_map m) =
      Some (map (\<lambda>kv. (fst kv, (trim_ws \<circ> compact) (snd kv))) (sort_members m))"
    by (simp add: un_map_def marshal_plain decode_obj [OF ok_compacted [OF assms]])
  show "jget (map (\<lambda>kv. (fst kv, (trim_ws \<circ> compact) (snd kv))) (sort_members m)) k =
      map_option (\<lambda>v. trim_ws (compact v)) (jget m k)" for k
    unfolding jget_map_snd jget_sort_members by (simp add: comp_def)
qed

end
