(* ===== verification/Spineparse.thy ===== *)
theory Spineparse
  imports Model JsonFacts
begin

text \<open>
  Package \<open>internal/spineparse\<close>: what the API and the analyses read out of a SPINE payload. Payloads are
  JSON texts. An \<open>error\<close> result is \<open>None\<close>; \<open>nil\<close> slices are empty lists. A struct decoded from JSON is
  read from the members of its object (\<open>un_map\<close>, where \<open>null\<close> gives the zero struct).

  \<open>ParseDiscoveryEntities\<close> keeps pointers into a slice that is still being appended to. The model keeps
  the backing arrays: an append beyond the capacity copies the elements to a new array, and a pointer
  taken earlier keeps naming the element of the old one. How far \<open>append\<close> grows the capacity is the
  parameter \<open>grow\<close>; the Go runtime doubles small ones, \<open>go_grow\<close>.
\<close>

section \<open>Structs\<close>

definition fld_struct :: "jobj \<Rightarrow> string \<Rightarrow> jobj option" where
  "fld_struct m k = (case jfield m k of None \<Rightarrow> Some [] | Some s \<Rightarrow> un_map s)"

definition or_empty :: "string option \<Rightarrow> string" where
  "or_empty x = (case x of None \<Rightarrow> [] | Some s \<Rightarrow> s)"

section \<open>ExtractCmdArray\<close>

definition dg_payload :: "string \<Rightarrow> jobj option" where
  "dg_payload s = do { m \<leftarrow> un_map s; d \<leftarrow> fld_struct m ''datagram''; fld_struct d ''payload'' }"

definition ExtractCmdArray :: "string \<Rightarrow> string list option" where
  "ExtractCmdArray s =
     (case do { p \<leftarrow> dg_payload s; fld_val un_array [] p ''cmd'' } of
        Some (c # cs) \<Rightarrow> Some (c # cs)
      | _ \<Rightarrow>
        (case dg_payload s of
           None \<Rightarrow> None
         | Some p \<Rightarrow>
           (let raw = fld_raw p ''cmd''; t = trim_space raw
            in if t \<noteq> [] \<and> hd t = CHR ''{'' then Some [raw] else Some [])))"

section \<open>Scaled numbers\<close>

definition un_scaled :: "string \<Rightarrow> (rat option \<times> int option) option" where
  "un_scaled s = do { m \<leftarrow> un_map s; n \<leftarrow> fld_ptr un_float m ''number'';
     k \<leftarrow> fld_ptr un_int m ''scale''; Some (n, k) }"

text \<open>\<open>None\<close> is the result \<open>0, false\<close>.\<close>

definition ScaledNumberToFloat :: "string \<Rightarrow> rat option" where
  "ScaledNumberToFloat raw = (case un_scaled raw of
       Some (Some n, k) \<Rightarrow> Some (n * pow10 (case k of None \<Rightarrow> 0 | Some e \<Rightarrow> e))
     | _ \<Rightarrow> None)"

section \<open>ExtractGenericData\<close>

record extraction =
  x_cmd :: string
  x_array :: string
  x_id :: string
  x_classifiers :: "string list"
  x_active :: string

record data_item =
  i_id :: string
  i_value :: rat
  i_active :: "bool option"

text \<open>The entries of a data array; a single object counts as an array of one.\<close>

definition data_entries :: "string \<Rightarrow> jobj list option" where
  "data_entries raw = (case un_list un_map raw of
       Some es \<Rightarrow> Some es
     | None \<Rightarrow> map_option (\<lambda>e. [e]) (un_map raw))"

definition entry_active :: "extraction \<Rightarrow> jobj \<Rightarrow> bool option" where
  "entry_active d e = (if x_active d = [] then None
     else case jget e (x_active d) of None \<Rightarrow> None | Some a \<Rightarrow> un_bool_val a)"

definition entry_item :: "extraction \<Rightarrow> jobj \<Rightarrow> data_item option" where
  "entry_item d e = do {
     idr \<leftarrow> jget e (x_id d);
     n \<leftarrow> un_number_val idr;
     vr \<leftarrow> jget e ''value'';
     v \<leftarrow> ScaledNumberToFloat vr;
     Some \<lparr>i_id = n, i_value = v, i_active = entry_active d e\<rparr> }"

definition cmd_entries :: "extraction \<Rightarrow> string \<Rightarrow> jobj list option" where
  "cmd_entries d cmd = do {
     m \<leftarrow> un_map cmd;
     raw \<leftarrow> jget m (x_cmd d);
     l \<leftarrow> un_map raw;
     arr \<leftarrow> jget l (x_array d);
     data_entries arr }"

definition cmd_items :: "extraction \<Rightarrow> string \<Rightarrow> data_item list" where
  "cmd_items d cmd = (case cmd_entries d cmd of None \<Rightarrow> []
     | Some es \<Rightarrow> List.map_filter (entry_item d) es)"

definition ExtractGenericData :: "string \<Rightarrow> extraction \<Rightarrow> data_item list" where
  "ExtractGenericData s d = (case ExtractCmdArray s of None \<Rightarrow> []
     | Some cmds \<Rightarrow> concat (map (cmd_items d) cmds))"

section \<open>ExtractResultStatus\<close>

definition result_error :: "string \<Rightarrow> int option option" where
  "result_error rd = do { m \<leftarrow> un_map rd; fld_ptr un_int m ''errorNumber'' }"

fun result_status :: "string list \<Rightarrow> string" where
  "result_status [] = []"
| "result_status (c # cs) =
     (case do { m \<leftarrow> un_map c; rd \<leftarrow> jget m ''resultData''; result_error rd } of
        None \<Rightarrow> result_status cs
      | Some None \<Rightarrow> ''accepted''
      | Some (Some n) \<Rightarrow> if n = 0 then ''accepted'' else ''rejected'')"

definition ExtractResultStatus :: "string \<Rightarrow> string" where
  "ExtractResultStatus s = (if s = [] then []
     else case ExtractCmdArray s of None \<Rightarrow> [] | Some cmds \<Rightarrow> result_status cmds)"

section \<open>ParseDiscoveryEntities\<close>

record disc_feature =
  f_address :: string
  f_type :: string
  f_role :: string
  f_functions :: "string list"

record disc_entity =
  e_address :: string
  e_type :: string
  e_features :: "disc_feature list"

text \<open>The description of an entity: the text of its address if it has one, and its type.\<close>

type_synonym entity_info = "(string option \<times> string option) option"
type_synonym feature_info =
  "((string \<times> int option) option \<times> string option \<times> string option \<times> string option list) option"

definition un_entity_info :: "string \<Rightarrow> entity_info option" where
  "un_entity_info s = do { m \<leftarrow> un_map s;
     fld_ptr (\<lambda>t. do { d \<leftarrow> un_map t;
         a \<leftarrow> fld_ptr (\<lambda>u. map_option (\<lambda>x. fld_raw x ''entity'') (un_map u)) d ''entityAddress'';
         ty \<leftarrow> fld_ptr un_string d ''entityType'';
         Some (a, ty) }) m ''description'' }"

definition un_feature_info :: "string \<Rightarrow> feature_info option" where
  "un_feature_info s = do { m \<leftarrow> un_map s;
     fld_ptr (\<lambda>t. do { d \<leftarrow> un_map t;
         a \<leftarrow> fld_ptr (\<lambda>u. do { x \<leftarrow> un_map u; n \<leftarrow> fld_ptr un_int x ''feature'';
                Some (fld_raw x ''entity'', n) }) d ''featureAddress'';
         ty \<leftarrow> fld_ptr un_string d ''featureType'';
         r \<leftarrow> fld_ptr un_string d ''role'';
         fs \<leftarrow> fld_val (un_list (\<lambda>u. do { x \<leftarrow> un_map u; fld_ptr un_string x ''function'' })) []
                d ''supportedFunction'';
         Some (a, ty, r, fs) }) m ''description'' }"

definition un_discovery :: "string \<Rightarrow> (entity_info list \<times> feature_info list) option" where
  "un_discovery raw = do { m \<leftarrow> un_map raw;
     es \<leftarrow> fld_val (un_list un_entity_info) [] m ''entityInformation'';
     fs \<leftarrow> fld_val (un_list un_feature_info) [] m ''featureInformation'';
     Some (es, fs) }"

definition mk_entity :: "entity_info \<Rightarrow> disc_entity option" where
  "mk_entity ei = (case ei of
       Some (Some a, ty) \<Rightarrow> Some \<lparr>e_address = a, e_type = or_empty ty, e_features = []\<rparr>
     | _ \<Rightarrow> None)"

definition mk_feature :: "feature_info \<Rightarrow> (string \<times> disc_feature) option" where
  "mk_feature fi = (case fi of
       Some (Some (a, n), ty, r, fs) \<Rightarrow>
         Some (a, \<lparr>f_address = (case n of None \<Rightarrow> [] | Some k \<Rightarrow> int_str k),
                   f_type = or_empty ty, f_role = or_empty r,
                   f_functions = List.map_filter (\<lambda>x. x) fs\<rparr>)
     | _ \<Rightarrow> None)"

text \<open>The backing arrays of the slice \<open>entities\<close> (the newest last), its capacity, and \<open>entityMap\<close>
  with its pointers: array and index.\<close>

record slice_heap =
  sh_arrays :: "disc_entity list list"
  sh_cap :: nat
  sh_map :: "string \<Rightarrow> (nat \<times> nat) option"

definition sh_empty :: slice_heap where
  "sh_empty = \<lparr>sh_arrays = [[]], sh_cap = 0, sh_map = \<lambda>_. None\<rparr>"

definition append_entity :: "(nat \<Rightarrow> nat) \<Rightarrow> disc_entity \<Rightarrow> slice_heap \<Rightarrow> slice_heap" where
  "append_entity grow e h =
     (let old = last (sh_arrays h);
          fits = (length old < sh_cap h);
          arrs = (if fits then butlast (sh_arrays h) @ [old @ [e]] else sh_arrays h @ [old @ [e]])
      in \<lparr>sh_arrays = arrs,
          sh_cap = (if fits then sh_cap h else grow (sh_cap h)),
          sh_map = (sh_map h)(e_address e \<mapsto> (length arrs - 1, length old))\<rparr>)"

definition add_feature :: "string \<times> disc_feature \<Rightarrow> slice_heap \<Rightarrow> slice_heap" where
  "add_feature kf h = (case sh_map h (fst kf) of
       None \<Rightarrow> h
     | Some (a, i) \<Rightarrow>
         (let arr = sh_arrays h ! a; e = arr ! i
          in h\<lparr>sh_arrays := (sh_arrays h)[a := arr[i := e\<lparr>e_features := e_features e @ [snd kf]\<rparr>]]\<rparr>))"

definition build_entities ::
  "(nat \<Rightarrow> nat) \<Rightarrow> entity_info list \<Rightarrow> feature_info list \<Rightarrow> disc_entity list" where
  "build_entities grow eis fis =
     (let h1 = fold (\<lambda>ei h. case mk_entity ei of None \<Rightarrow> h | Some e \<Rightarrow> append_entity grow e h) eis sh_empty;
          h2 = fold (\<lambda>fi h. case mk_feature fi of None \<Rightarrow> h | Some kf \<Rightarrow> add_feature kf h) fis h1
      in last (sh_arrays h2))"

fun discovery_cmds :: "(nat \<Rightarrow> nat) \<Rightarrow> string list \<Rightarrow> disc_entity list" where
  "discovery_cmds grow [] = []"
| "discovery_cmds grow (c # cs) =
     (case do { m \<leftarrow> un_map c; raw \<leftarrow> jget m ''nodeManagementDetailedDiscoveryData''; un_discovery raw } of
        None \<Rightarrow> discovery_cmds grow cs
      | Some (eis, fis) \<Rightarrow> build_entities grow eis fis)"

definition ParseDiscoveryEntities :: "(nat \<Rightarrow> nat) \<Rightarrow> string \<Rightarrow> disc_entity list" where
  "ParseDiscoveryEntities grow s =
     (case ExtractCmdArray s of None \<Rightarrow> [] | Some cmds \<Rightarrow> discovery_cmds grow cmds)"

text \<open>How the Go runtime grows a short slice of this element type.\<close>

definition go_grow :: "nat \<Rightarrow> nat" where
  "go_grow c = (if c = 0 then 1 else 2 * c)"

section \<open>The growing slice\<close>

lemma fold_map_filter:
  "fold (\<lambda>x h. case f x of None \<Rightarrow> h | Some y \<Rightarrow> g y h) xs h = fold g (List.map_filter f xs) h"
  by (induction xs arbitrary: h) (auto simp: List.map_filter_def split: option.splits)

text \<open>Capacity and number of the newest array after \<open>n\<close> appends.\<close>

fun cap_after :: "(nat \<Rightarrow> nat) \<Rightarrow> nat \<Rightarrow> nat" where
  "cap_after grow 0 = 0"
| "cap_after grow (Suc n) = (if n < cap_after grow n then cap_after grow n else grow (cap_after grow n))"

fun arr_after :: "(nat \<Rightarrow> nat) \<Rightarrow> nat \<Rightarrow> nat" where
  "arr_after grow 0 = 0"
| "arr_after grow (Suc n) = (if n < cap_after grow n then arr_after grow n else Suc (arr_after grow n))"

definition grows :: "(nat \<Rightarrow> nat) \<Rightarrow> bool" where
  "grows g \<longleftrightarrow> (\<forall>c. c < g c)"

lemma grows_go_grow: "grows go_grow"
  by (auto simp: grows_def go_grow_def)

lemma le_cap_after: "grows g \<Longrightarrow> n \<le> cap_after g n"
proof (induction n)
  case (Suc n)
  then have "n \<le> cap_after g n" and "cap_after g n < g (cap_after g n)" by (auto simp: grows_def)
  then show ?case by auto
qed simp

lemma arr_after_stays: "i \<le> n \<Longrightarrow> n \<le> cap_after g i \<Longrightarrow> arr_after g n = arr_after g i \<and> cap_after g n = cap_after g i"
proof (induction n)
  case (Suc n)
  then show ?case by (cases "i = Suc n") auto
qed simp

lemma arr_after_mono: "i \<le> n \<Longrightarrow> arr_after g i \<le> arr_after g n"
  by (rule lift_Suc_mono_le [of "arr_after g"]) auto

text \<open>A pointer taken at the \<open>i\<close>-th append is into the newest array iff the later ones fitted.\<close>

lemma arr_after_eq:
  assumes "grows g" and "i \<le> n"
  shows "arr_after g n = arr_after g i \<longleftrightarrow> n \<le> cap_after g i"
proof
  assume eq: "arr_after g n = arr_after g i"
  show "n \<le> cap_after g i"
  proof (rule ccontr)
    let ?c = "cap_after g i"
    assume big: "\<not> n \<le> ?c"
    have ic: "i \<le> ?c" using assms(1) by (rule le_cap_after)
    then have "arr_after g ?c = arr_after g i \<and> cap_after g ?c = ?c" using arr_after_stays [of i ?c] by simp
    then have "arr_after g (Suc ?c) = Suc (arr_after g i)" by simp
    moreover have "arr_after g (Suc ?c) \<le> arr_after g n" using big by (intro arr_after_mono) simp
    ultimately show False using eq by simp
  qed
qed (use arr_after_stays assms in blast)

text \<open>The pointer \<open>entityMap\<close> holds for a key after the entities \<open>es\<close>.\<close>

fun last_pos :: "string \<Rightarrow> disc_entity list \<Rightarrow> nat option" where
  "last_pos k [] = None"
| "last_pos k (e # es) = (case last_pos k es of Some i \<Rightarrow> Some (Suc i)
     | None \<Rightarrow> if e_address e = k then Some 0 else None)"

lemma last_pos_snoc:
  "last_pos k (es @ [e]) = (if e_address e = k then Some (length es) else last_pos k es)"
  by (induction es) (auto split: option.splits)

lemma last_pos_None: "last_pos k es = None \<longleftrightarrow> k \<notin> e_address ` set es"
  by (induction es) (auto split: option.splits)

lemma last_pos_Some: "last_pos k es = Some i \<Longrightarrow> i < length es \<and> e_address (es ! i) = k"
  by (induction es arbitrary: i) (auto split: option.splits if_splits)

lemma last_pos_later:
  "last_pos k es = Some i \<Longrightarrow> i < j \<Longrightarrow> j < length es \<Longrightarrow> e_address (es ! j) \<noteq> k"
proof (induction es arbitrary: i j)
  case (Cons e es)
  then obtain j' where j: "j = Suc j'" by (cases j) auto
  show ?case
  proof (cases "last_pos k es")
    case None
    then show ?thesis using Cons.prems j by (auto simp: last_pos_None)
  next
    case (Some n)
    then show ?thesis using Cons j by auto
  qed
qed simp

lemma last_pos_distinct:
  assumes "distinct (map e_address es)" and "i < length es"
  shows "last_pos (e_address (es ! i)) es = Some i"
proof (cases "last_pos (e_address (es ! i)) es")
  case None
  then show ?thesis using assms(2) by (auto simp: last_pos_None)
next
  case (Some n)
  then have "n < length es" "e_address (es ! n) = e_address (es ! i)" by (auto dest: last_pos_Some)
  then show ?thesis using assms Some by (auto simp: distinct_conv_nth)
qed

definition heap_ok :: "(nat \<Rightarrow> nat) \<Rightarrow> disc_entity list \<Rightarrow> slice_heap \<Rightarrow> bool" where
  "heap_ok g es h \<longleftrightarrow> length (sh_arrays h) = Suc (arr_after g (length es)) \<and> last (sh_arrays h) = es
     \<and> sh_cap h = cap_after g (length es)
     \<and> sh_map h = (\<lambda>k. map_option (\<lambda>i. (arr_after g (Suc i), i)) (last_pos k es))"

lemma heap_ok_empty: "heap_ok g [] sh_empty"
  by (auto simp: heap_ok_def sh_empty_def)

lemma heap_ok_append: "heap_ok g es h \<Longrightarrow> heap_ok g (es @ [e]) (append_entity g e h)"
  by (auto simp: heap_ok_def append_entity_def Let_def last_pos_snoc fun_eq_iff)

lemma heap_ok_fold: "heap_ok g es h \<Longrightarrow> heap_ok g (es @ ds) (fold (append_entity g) ds h)"
proof (induction ds arbitrary: es h)
  case (Cons d ds)
  then show ?case using Cons.IH [OF heap_ok_append [OF Cons.prems, of d]] by simp
qed simp

lemma upd_elem_length [simp]: "length (xss[a := (xss ! a)[i := y]] ! b) = length (xss ! b)"
  by (cases "a < length xss"; cases "a = b") (auto simp: list_update_beyond not_less)

lemma upd_elem_nth:
  "a < length xss \<Longrightarrow> i < length (xss ! a) \<Longrightarrow>
   xss[b := (xss ! b)[j := y]] ! a ! i = (if b = a \<and> j = i then y else xss ! a ! i)"
  by (cases "a = b") (auto simp: nth_list_update)

lemma add_feature_simps [simp]:
  "length (sh_arrays (add_feature kf h)) = length (sh_arrays h)"
  "sh_map (add_feature kf h) = sh_map h"
  "length (sh_arrays (add_feature kf h) ! a) = length (sh_arrays h ! a)"
  by (simp_all add: add_feature_def Let_def split: option.splits prod.splits)

lemma add_feature_nth:
  assumes "a < length (sh_arrays h)" and "i < length (sh_arrays h ! a)"
  shows "sh_arrays (add_feature kf h) ! a ! i =
    (let e = sh_arrays h ! a ! i in
     if sh_map h (fst kf) = Some (a, i) then e\<lparr>e_features := e_features e @ [snd kf]\<rparr> else e)"
  using assms by (auto simp: add_feature_def Let_def upd_elem_nth split: option.splits prod.splits)

lemma add_features_nth:
  "a < length (sh_arrays h) \<Longrightarrow> i < length (sh_arrays h ! a) \<Longrightarrow>
   sh_arrays (fold add_feature kfs h) ! a ! i =
     (let e = sh_arrays h ! a ! i in
      e\<lparr>e_features := e_features e @ map snd (filter (\<lambda>kf. sh_map h (fst kf) = Some (a, i)) kfs)\<rparr>)"
proof (induction kfs arbitrary: h)
  case (Cons kf kfs)
  then show ?case using Cons.IH [of "add_feature kf h"] add_feature_nth [of a h i kf]
    by (simp add: Let_def)
qed simp

lemma add_features_simps [simp]:
  "length (sh_arrays (fold add_feature kfs h)) = length (sh_arrays h)"
  "length (sh_arrays (fold add_feature kfs h) ! a) = length (sh_arrays h ! a)"
  by (induction kfs arbitrary: h) auto

definition declared_entities :: "entity_info list \<Rightarrow> disc_entity list" where
  "declared_entities eis = List.map_filter mk_entity eis"

definition declared_features :: "feature_info list \<Rightarrow> (string \<times> disc_feature) list" where
  "declared_features fis = List.map_filter mk_feature fis"

lemma mk_entity_features: "mk_entity ei = Some e \<Longrightarrow> e_features e = []"
  by (auto simp: mk_entity_def split: option.splits)

lemma declared_no_features: "e \<in> set (declared_entities eis) \<Longrightarrow> e_features e = []"
  by (auto simp: declared_entities_def List.map_filter_def mk_entity_features)

lemma build_entities_eq:
  "build_entities g eis fis = last (sh_arrays (fold add_feature (declared_features fis)
     (fold (append_entity g) (declared_entities eis) sh_empty)))"
  by (simp add: build_entities_def Let_def fold_map_filter declared_entities_def declared_features_def)

lemma built_heap: "heap_ok g (declared_entities eis) (fold (append_entity g) (declared_entities eis) sh_empty)"
  using heap_ok_fold [OF heap_ok_empty, of g "declared_entities eis"] by simp

theorem build_entities_length [simp]: "length (build_entities g eis fis) = length (declared_entities eis)"
proof -
  let ?h = "fold (append_entity g) (declared_entities eis) sh_empty"
  have ne: "sh_arrays ?h \<noteq> []" "last (sh_arrays ?h) = declared_entities eis"
    using built_heap [of g eis] by (auto simp: heap_ok_def)
  then have "sh_arrays (fold add_feature (declared_features fis) ?h) \<noteq> []"
    by (metis add_features_simps(1) length_greater_0_conv)
  then show ?thesis using ne by (simp add: build_entities_eq last_conv_nth)
qed

text \<open>The feature list of every returned entity.\<close>

theorem build_entities_nth:
  assumes "grows g" and i: "i < length (declared_entities eis)"
  shows "build_entities g eis fis ! i = (let e = declared_entities eis ! i in
    e\<lparr>e_features :=
      (if last_pos (e_address e) (declared_entities eis) = Some i
          \<and> length (declared_entities eis) \<le> cap_after g (Suc i)
       then map snd (filter (\<lambda>kf. fst kf = e_address e) (declared_features fis)) else [])\<rparr>)"
proof -
  let ?es = "declared_entities eis" and ?fs = "declared_features fis"
  let ?h = "fold (append_entity g) ?es sh_empty" and ?n = "length (declared_entities eis)"
  note ok = built_heap [of g eis, unfolded heap_ok_def]
  let ?a = "arr_after g ?n"
  have ne: "sh_arrays ?h \<noteq> []" using ok by auto
  have len: "?a < length (sh_arrays ?h)" using ok by simp
  have la: "sh_arrays ?h ! ?a = ?es" using ok ne by (metis diff_Suc_1 last_conv_nth)
  have "sh_arrays (fold add_feature ?fs ?h) \<noteq> []"
    using ne by (metis add_features_simps(1) length_greater_0_conv)
  then have "build_entities g eis fis = sh_arrays (fold add_feature ?fs ?h) ! ?a"
    using ok by (simp add: build_entities_eq last_conv_nth)
  then have nth: "build_entities g eis fis ! i = (let e = ?es ! i in
      e\<lparr>e_features := map snd (filter (\<lambda>kf. sh_map ?h (fst kf) = Some (?a, i)) ?fs)\<rparr>)"
    using add_features_nth [OF len, of i ?fs] i la declared_no_features [OF nth_mem [OF i]]
    by (simp add: Let_def)
  have eq: "?a = arr_after g (Suc i) \<longleftrightarrow> ?n \<le> cap_after g (Suc i)"
    using arr_after_eq [OF assms(1), of "Suc i" ?n] i by auto
  have "sh_map ?h k = map_option (\<lambda>i. (arr_after g (Suc i), i)) (last_pos k ?es)" for k
    using ok by (simp del: arr_after.simps)
  then have "sh_map ?h k = Some (?a, i) \<longleftrightarrow> last_pos k ?es = Some i \<and> ?n \<le> cap_after g (Suc i)" for k
    using eq by (cases "last_pos k ?es") (auto simp del: arr_after.simps cap_after.simps)
  then have "sh_map ?h k = Some (?a, i) \<longleftrightarrow> k = e_address (?es ! i)
      \<and> last_pos (e_address (?es ! i)) ?es = Some i \<and> ?n \<le> cap_after g (Suc i)" for k
    by (cases "k = e_address (?es ! i)") (auto dest: last_pos_Some)
  then have fe: "(\<lambda>kf. sh_map ?h (fst kf) = Some (?a, i)) =
     (\<lambda>kf :: string \<times> disc_feature. fst kf = e_address (?es ! i)
        \<and> last_pos (e_address (?es ! i)) ?es = Some i \<and> ?n \<le> cap_after g (Suc i))"
    by (intro ext) blast
  show ?thesis
  proof (cases "last_pos (e_address (?es ! i)) ?es = Some i \<and> ?n \<le> cap_after g (Suc i)")
    case True
    then show ?thesis unfolding nth fe Let_def by simp
  next
    case False
    then show ?thesis unfolding nth fe Let_def by auto
  qed
qed

section \<open>Datagrams put together\<close>

definition arr_text :: "string list \<Rightarrow> string" where
  "arr_text vs = ''['' @ join '','' vs @ '']''"

text \<open>\<open>{"datagram":{"header":h,"payload":{"cmd":c}}}\<close>\<close>

definition dg_text :: "string \<Rightarrow> string \<Rightarrow> string" where
  "dg_text h c = plain_obj [(''datagram'',
     plain_obj [(''header'', h), (''payload'', plain_obj [(''cmd'', c)])])]"

lemma un_map_plain:
  "\<forall>kv \<in> set m. ok_member kv \<Longrightarrow> un_map (plain_obj m) = Some (map (\<lambda>kv. (fst kv, trim_ws (snd kv))) m)"
  by (simp add: un_map_def decode_obj)

lemma decode_arr_text: "\<forall>v \<in> set vs. json_valid v \<Longrightarrow> decode (arr_text vs) = Some (JArr (map trim_ws vs))"
  unfolding arr_text_def by (rule decode_array)

lemma un_array_text: "\<forall>v \<in> set vs. json_valid v \<Longrightarrow> un_array (arr_text vs) = Some (map trim_ws vs)"
  by (simp add: un_array_def decode_arr_text)

lemma arr_text_valid: "\<forall>v \<in> set vs. json_valid v \<Longrightarrow> json_valid (arr_text vs)"
  unfolding arr_text_def by (rule array_valid)

lemma trim_plain_obj [simp]: "trim_ws (plain_obj m) = plain_obj m"
  using trim_by_ends [of is_ws "CHR ''{''" "CHR ''}''" "join '','' (map plain_member m)"]
  by (simp add: trim_ws_def plain_obj_def)

lemma trim_arr_text [simp]: "trim_ws (arr_text vs) = arr_text vs"
  using trim_by_ends [of is_ws "CHR ''[''" "CHR '']''" "join '','' vs"]
  by (simp add: trim_ws_def arr_text_def)

lemma dg_text_payload:
  assumes "json_valid h" and "json_valid c"
  shows "dg_payload (dg_text h c) = Some [(''cmd'', trim_ws c)]"
proof -
  have ok1: "\<forall>kv \<in> set [(''cmd'', c)]. ok_member kv" using assms by (simp add: ok_member_def)
  then have ok2: "\<forall>kv \<in> set [(''header'', h), (''payload'', plain_obj [(''cmd'', c)])]. ok_member kv"
    using assms obj_valid [OF ok1] by (simp add: ok_member_def)
  then have ok3: "\<forall>kv \<in> set [(''datagram'', plain_obj [(''header'', h), (''payload'', plain_obj [(''cmd'', c)])])]. ok_member kv"
    using obj_valid [OF ok2] by (simp add: ok_member_def)
  show ?thesis
    unfolding dg_payload_def dg_text_def un_map_plain [OF ok3]
    by (simp add: fld_struct_def jfield_def to_lower_def lower_char_def un_map_plain [OF ok2] un_map_plain [OF ok1])
qed

lemma jfield_cmd [simp]: "jfield [(''cmd'', v)] ''cmd'' = Some v"
  by (simp add: jfield_def)

theorem ExtractCmdArray_array:
  assumes "json_valid h" and "\<forall>c \<in> set cs. json_valid c" and "cs \<noteq> []"
  shows "ExtractCmdArray (dg_text h (arr_text cs)) = Some (map trim_ws cs)"
proof -
  have d: "decode (arr_text cs) = Some (JArr (map trim_ws cs))"
    using assms(2) by (rule decode_arr_text)
  show ?thesis
    using assms dg_text_payload [OF assms(1) arr_text_valid [OF assms(2)]] un_array_text [OF assms(2)] d
    by (cases cs) (simp_all add: ExtractCmdArray_def fld_val_def fld_ptr_def un_ptr_def)
qed

lemma trim_by_hd: "\<not> P x \<Longrightarrow> \<exists>r'. trim_by P (x # r) = x # r'"
  by (simp add: trim_by_def trim_left_by_def trim_right_by_def dropWhile_append3)

lemma trim_space_hd:
  assumes "s = x # r" and "\<not> is_space x"
  shows "trim_space s \<noteq> [] \<and> hd (trim_space s) = x"
  using trim_by_hd [of is_space x r] assms by (auto simp: trim_space_def)

theorem ExtractCmdArray_single:
  assumes "json_valid h" and "\<forall>kv \<in> set m. ok_member kv"
  shows "ExtractCmdArray (dg_text h (plain_obj m)) = Some [plain_obj m]"
proof -
  let ?c = "plain_obj m"
  have d: "decode ?c = Some (JObj (map (\<lambda>kv. (fst kv, trim_ws (snd kv))) m))"
    by (rule decode_obj [OF assms(2)])
  have v: "json_valid ?c" by (rule obj_valid [OF assms(2)])
  have hd: "trim_space ?c \<noteq> [] \<and> hd (trim_space ?c) = CHR ''{''"
    by (rule trim_space_hd [of _ _ "join '','' (map plain_member m) @ ''}''"]) (simp_all add: plain_obj_def is_space_def)
  show ?thesis
    using dg_text_payload [OF assms(1) v] d hd
    by (simp add: ExtractCmdArray_def fld_val_def fld_ptr_def un_ptr_def un_array_def fld_raw_def Let_def)
qed

text \<open>A single command decodes alike with and without the array brackets.\<close>

lemma cmd_forms_agree:
  assumes "json_valid h" and "\<forall>kv \<in> set m. ok_member kv"
  shows "ExtractCmdArray (dg_text h (plain_obj m)) = ExtractCmdArray (dg_text h (arr_text [plain_obj m]))"
  using ExtractCmdArray_array [of h "[plain_obj m]"] ExtractCmdArray_single [OF assms] obj_valid assms by simp

section \<open>Results\<close>

lemma result_status_values: "result_status cs \<in> {[], ''accepted'', ''rejected''}"
  by (induction cs) (auto split: option.splits)

lemma result_status_empty:
  "result_status cs = [] \<longleftrightarrow>
     (\<forall>c \<in> set cs. do { m \<leftarrow> un_map c; rd \<leftarrow> jget m ''resultData''; result_error rd } = None)"
  by (induction cs) (auto split: option.splits if_splits)

text \<open>One entry as a flat object gives the items of an array of one.\<close>

lemma decode_array_not_obj: "decode s = Some (JObj m) \<Longrightarrow> un_list f s = None"
  by (simp add: un_list_def un_array_def)

lemma data_entries_single:
  assumes "\<forall>kv \<in> set m. ok_member kv"
  shows "data_entries (plain_obj m) = data_entries (arr_text [plain_obj m])"
proof -
  have v: "json_valid (plain_obj m)" by (rule obj_valid [OF assms])
  have "un_list un_map (plain_obj m) = None" by (rule decode_array_not_obj) (rule decode_obj [OF assms])
  then show ?thesis using un_map_plain [OF assms] un_array_text [of "[plain_obj m]"] v
    by (simp add: data_entries_def un_list_def)
qed

section \<open>Properties\<close>

text \<open>C3: normalisation may turn an array of one command, or of one data entry, into a plain object; the
  readers do not see the difference: the command array is the same, and so are the data items.\<close>

theorem flattened_forms_agree:
  assumes "json_valid h" and "\<forall>kv \<in> set m. ok_member kv"
  shows "ExtractCmdArray (dg_text h (plain_obj m)) = Some [plain_obj m]
    \<and> ExtractCmdArray (dg_text h (plain_obj m)) = ExtractCmdArray (dg_text h (arr_text [plain_obj m]))
    \<and> ExtractGenericData (dg_text h (plain_obj m)) d = ExtractGenericData (dg_text h (arr_text [plain_obj m])) d
    \<and> data_entries (plain_obj m) = data_entries (arr_text [plain_obj m])"
  using cmd_forms_agree [OF assms] data_entries_single [OF assms(2)] ExtractCmdArray_single [OF assms]
  by (simp add: ExtractGenericData_def)

theorem flattened_forms_agree_witness:
  "ExtractCmdArray (dg_text ''{}'' (plain_obj [(''a'', ''1'')])) = Some [''{\"a\":1}'']"
proof -
  have h: "json_valid ''{}''" "json_valid ''1''" by code_simp+
  then have ok: "\<forall>kv \<in> set [(''a'', ''1'')]. ok_member kv" by (simp add: ok_member_def)
  have "plain_obj [(''a'', ''1'')] = ''{\"a\":1}''" by code_simp
  then show ?thesis using flattened_forms_agree [OF h(1) ok] by simp
qed

text \<open>C4: the entities returned for a discovery payload are the declared ones, in order, with address
  and type; the features of an entity are all those declared with its address, in order, if no later
  entity has the same address and no later append moved the slice; otherwise none.\<close>

theorem discovery_entities:
  assumes "grows g"
  shows "length (build_entities g eis fis) = length (declared_entities eis) \<and>
    (\<forall>i < length (declared_entities eis).
       let e = declared_entities eis ! i; r = build_entities g eis fis ! i in
       e_address r = e_address e \<and> e_type r = e_type e \<and>
       e_features r =
         (if last_pos (e_address e) (declared_entities eis) = Some i
             \<and> length (declared_entities eis) \<le> cap_after g (Suc i)
          then map snd (filter (\<lambda>kf. fst kf = e_address e) (declared_features fis)) else []))"
  using build_entities_nth [OF assms, of _ eis fis] by (simp add: Let_def del: cap_after.simps)

text \<open>Two entities with one feature each: the first loses its feature.\<close>

definition two_entities :: "entity_info list" where
  "two_entities = [Some (Some ''[0]'', Some ''DeviceInformation''), Some (Some ''[1]'', Some ''HeatPump'')]"

definition two_features :: "feature_info list" where
  "two_features = [Some (Some (''[0]'', Some 1), Some ''NodeManagement'', Some ''special'', []),
                   Some (Some (''[1]'', Some 2), Some ''LoadControl'', Some ''server'', [])]"

theorem discovery_entities_witness:
  "e_features (build_entities go_grow two_entities two_features ! 0) = []
   \<and> length (e_features (build_entities go_grow two_entities two_features ! 1)) = 1
   \<and> map fst (declared_features two_features) = [''[0]'', ''[1]'']"
proof -
  have len: "length (declared_entities two_entities) = 2"
    "\<not> length (declared_entities two_entities) \<le> cap_after go_grow (Suc 0)" by code_simp+
  have "e_features (build_entities go_grow two_entities two_features ! 0) = []"
    using discovery_entities [OF grows_go_grow, of two_entities two_features] len
    by (simp add: Let_def del: cap_after.simps)
  moreover have "length (e_features (build_entities go_grow two_entities two_features ! 1)) = 1"
    "map fst (declared_features two_features) = [''[0]'', ''[1]'']" by code_simp+
  ultimately show ?thesis by (intro conjI)
qed

end
