(* ===== verification/ParserCore.thy ===== *)
theory ParserCore
  imports Spineparse
begin

text \<open>
  Package \<open>internal/parser\<close>, the SHIP and SPINE decoder: \<open>normalize.go\<close>, \<open>ship.go\<close>, \<open>spine.go\<close>,
  \<open>parser.go\<close>. Code of other modules is the record \<open>externals\<close>, an argument of every function that
  reaches it: \<open>ship.JsonFromEEBUSJson\<close>; the JSON tags of the slice-typed fields of ship-go's message
  structs and whether a text decodes into them; spine-go's \<open>Datagram\<close>, of which the parser reads the
  header fields and the \<open>DataName\<close> of each command. The text of an error of \<open>encoding/json\<close> is a
  parameter too. An error is \<open>Inl\<close> its message.
\<close>

section \<open>Parameters\<close>

record spine_addr =
  a_device :: "string option"
  a_entity :: "nat list"
  a_feature :: "nat option"

record spine_dg =
  h_classifier :: "string option"
  h_counter :: "nat option"
  h_ref :: "nat option"
  h_source :: "spine_addr option"
  h_dest :: "spine_addr option"
  p_names :: "string list"

record externals =
  x_from_eebus :: "bytes \<Rightarrow> bytes"
  x_slice_tags :: "ship_msg_type \<Rightarrow> string list"
  x_ship_error :: "ship_msg_type \<Rightarrow> bytes \<Rightarrow> string option"
  x_json_error :: "bytes \<Rightarrow> string"
  x_datagram :: "bytes \<Rightarrow> string + spine_dg"

section \<open>normalize.go\<close>

definition trim_nul :: "bytes \<Rightarrow> bytes" where
  "trim_nul s = trim_right_by (\<lambda>c. ord c = 0) s"

definition NormalizeEEBUSJSON :: "externals \<Rightarrow> bytes \<Rightarrow> bytes" where
  "NormalizeEEBUSJSON x data =
     (let d = trim_nul data in if d = [] then d else x_from_eebus x d)"

text \<open>The value a slice field needs wrapped.\<close>

definition needs_array :: "string \<Rightarrow> bool" where
  "needs_array v = (let t = trim_space v in t \<noteq> [] \<and> hd t \<noteq> CHR ''['')"

definition wrap_array :: "string \<Rightarrow> string" where
  "wrap_array v = ''['' @ v @ '']''"

definition fixup_field :: "string \<Rightarrow> jobj \<times> bool \<Rightarrow> jobj \<times> bool" where
  "fixup_field tag st = (case st of (raw, changed) \<Rightarrow>
     if tag = [] \<or> tag = ''-'' then (raw, changed)
     else (let name = hd (split_char (CHR '','') tag)
           in case jget raw name of
                None \<Rightarrow> (raw, changed)
              | Some v \<Rightarrow> if v \<noteq> [] \<and> needs_array v then (jput name (wrap_array v) raw, True)
                         else (raw, changed)))"

definition fixupSliceFields :: "externals \<Rightarrow> bytes \<Rightarrow> ship_msg_type \<Rightarrow> bytes" where
  "fixupSliceFields x data target = (case un_map data of
       None \<Rightarrow> data
     | Some raw \<Rightarrow> (case fold fixup_field (x_slice_tags x target) (raw, False) of
           (raw', changed) \<Rightarrow> if changed then marshal_map raw' else data))"

section \<open>ship.go\<close>

record ship_class =
  c_type :: ship_msg_type
  c_ship :: string
  c_data :: string

definition extractPayload :: "string \<Rightarrow> string" where
  "extractPayload dataRaw = (case un_map dataRaw of None \<Rightarrow> [] | Some m \<Rightarrow> fld_raw m ''payload'')"

text \<open>A message of a type that is decoded to see whether it is well formed.\<close>

definition checked_class ::
  "externals \<Rightarrow> bytes \<Rightarrow> ship_msg_type \<Rightarrow> string \<Rightarrow> string \<Rightarrow> string + ship_class" where
  "checked_class x data ty what payload =
     (case x_ship_error x ty (fixupSliceFields x data ty) of
        Some e \<Rightarrow> Inl (''unmarshal '' @ what @ '': '' @ e)
      | None \<Rightarrow> Inr \<lparr>c_type = ty, c_ship = data, c_data = payload\<rparr>)"

definition plain_class :: "bytes \<Rightarrow> ship_msg_type \<Rightarrow> string + ship_class" where
  "plain_class data ty = Inr \<lparr>c_type = ty, c_ship = data, c_data = []\<rparr>"

definition classifyShipMessage :: "externals \<Rightarrow> bytes \<Rightarrow> string + ship_class" where
  "classifyShipMessage x data = (case un_map data of
       None \<Rightarrow> Inl (''unmarshal SHIP message: '' @ x_json_error x data)
     | Some raw \<Rightarrow>
       if jget raw ''connectionHello'' \<noteq> None then
         checked_class x data ShipMsgTypeConnectionHello ''connectionHello'' []
       else if jget raw ''messageProtocolHandshake'' \<noteq> None then
         checked_class x data ShipMsgTypeProtocolHandshake ''messageProtocolHandshake'' []
       else if jget raw ''connectionPinState'' \<noteq> None then
         checked_class x data ShipMsgTypeConnectionPinState ''connectionPinState'' []
       else if jget raw ''accessMethods'' \<noteq> None then plain_class data ShipMsgTypeAccessMethods
       else if jget raw ''accessMethodsRequest'' \<noteq> None then plain_class data ShipMsgTypeAccessMethods
       else if jget raw ''connectionClose'' \<noteq> None then
         checked_class x data ShipMsgTypeConnectionClose ''connectionClose'' []
       else (case jget raw ''data'' of
           Some d \<Rightarrow> checked_class x data ShipMsgTypeData ''ship data'' (extractPayload d)
         | None \<Rightarrow> plain_class data ShipMsgTypeUnknown))"

section \<open>spine.go\<close>

record spine_result =
  r_classifier :: string
  r_fn :: string
  r_ctr :: string
  r_ref :: string
  r_dev_src :: string
  r_dev_dst :: string
  r_ent_src :: string
  r_ent_dst :: string
  r_feat_src :: string
  r_feat_dst :: string
  r_spine :: string

text \<open>The field is replaced and \<open>Some\<close> the new object returned, or \<open>None\<close> for "no change".\<close>

definition fixJSONArrayField :: "string \<Rightarrow> string \<Rightarrow> string option" where
  "fixJSONArrayField objData field = (case un_map objData of
       None \<Rightarrow> None
     | Some obj \<Rightarrow> (case jget obj field of
           None \<Rightarrow> None
         | Some v \<Rightarrow> if v \<noteq> [] \<and> needs_array v then Some (marshal_map (jput field (wrap_array v) obj))
                    else None))"

definition fix_address :: "string \<Rightarrow> jobj \<times> bool \<Rightarrow> jobj \<times> bool" where
  "fix_address key st = (case st of (hdr, changed) \<Rightarrow>
     (case jget hdr key of
        None \<Rightarrow> (hdr, changed)
      | Some a \<Rightarrow> (case fixJSONArrayField a ''entity'' of
            None \<Rightarrow> (hdr, changed)
          | Some f \<Rightarrow> (jput key f hdr, True))))"

definition fix_payload :: "jobj \<Rightarrow> jobj \<times> bool" where
  "fix_payload dg = (case jget dg ''payload'' of
       None \<Rightarrow> (dg, False)
     | Some p \<Rightarrow> (case fixJSONArrayField p ''cmd'' of
           None \<Rightarrow> (dg, False) | Some f \<Rightarrow> (jput ''payload'' f dg, True)))"

definition fix_header :: "jobj \<times> bool \<Rightarrow> jobj \<times> bool" where
  "fix_header st = (case st of (dg, changed) \<Rightarrow>
     (case jget dg ''header'' of
        None \<Rightarrow> (dg, changed)
      | Some h \<Rightarrow> (case un_map h of
            None \<Rightarrow> (dg, changed)
          | Some hdr \<Rightarrow>
            (case fold fix_address [''addressSource'', ''addressDestination'', ''addressOriginator''] (hdr, False) of
               (hdr', True) \<Rightarrow> (jput ''header'' (marshal_map hdr') dg, True)
             | (_, False) \<Rightarrow> (dg, changed)))))"

definition fixupSpineDatagram :: "string \<Rightarrow> string" where
  "fixupSpineDatagram data = (case un_map data of
       None \<Rightarrow> data
     | Some outer \<Rightarrow> (case jget outer ''datagram'' of
           None \<Rightarrow> data
         | Some dgRaw \<Rightarrow> (case un_map dgRaw of
               None \<Rightarrow> data
             | Some dg \<Rightarrow> (case fix_header (fix_payload dg) of
                   (dg', changed) \<Rightarrow>
                     if changed then marshal_map (jput ''datagram'' (marshal_map dg') outer) else data))))"

definition deviceAddrString :: "string option \<Rightarrow> string" where
  "deviceAddrString d = or_empty d"

definition entityAddrString :: "nat list \<Rightarrow> string" where
  "entityAddrString e = (if e = [] then [] else join ''.'' (map nat_str e))"

definition featureAddrString :: "nat option \<Rightarrow> string" where
  "featureAddrString f = (case f of None \<Rightarrow> [] | Some n \<Rightarrow> nat_str n)"

definition counter_string :: "nat option \<Rightarrow> string" where
  "counter_string c = (case c of None \<Rightarrow> [] | Some n \<Rightarrow> nat_str n)"

definition function_set :: "string list \<Rightarrow> string" where
  "function_set names = (case names of
       [] \<Rightarrow> ''unknown'' | n # _ \<Rightarrow> if n = [] then ''unknown'' else n)"

definition addr_strings :: "spine_addr option \<Rightarrow> string \<times> string \<times> string" where
  "addr_strings a = (case a of None \<Rightarrow> ([], [], [])
     | Some ad \<Rightarrow> (deviceAddrString (a_device ad), entityAddrString (a_entity ad),
                  featureAddrString (a_feature ad)))"

definition parseSpineDatagram :: "externals \<Rightarrow> string \<Rightarrow> string + spine_result" where
  "parseSpineDatagram x payload =
     (if payload = [] then Inl ''empty SPINE payload''
      else (let fixed = fixupSpineDatagram payload
        in case x_datagram x fixed of
             Inl e \<Rightarrow> Inl (''unmarshal SPINE datagram: '' @ e)
           | Inr dg \<Rightarrow>
             (case (addr_strings (h_source dg), addr_strings (h_dest dg)) of
                ((ds, es, fs), (dd, ed, fd)) \<Rightarrow>
                Inr \<lparr>r_classifier = or_empty (h_classifier dg),
                     r_fn = function_set (p_names dg),
                     r_ctr = counter_string (h_counter dg),
                     r_ref = counter_string (h_ref dg),
                     r_dev_src = ds, r_dev_dst = dd, r_ent_src = es, r_ent_dst = ed,
                     r_feat_src = fs, r_feat_dst = fd, r_spine = fixed\<rparr>)))"

section \<open>parser.go\<close>

definition set_spine :: "spine_result \<Rightarrow> message \<Rightarrow> message" where
  "set_spine r m = m\<lparr>m_spine := r_spine r, m_classifier := r_classifier r, m_fn := r_fn r,
     m_ctr := r_ctr r, m_ref := r_ref r, m_dev_src := r_dev_src r, m_dev_dst := r_dev_dst r,
     m_ent_src := r_ent_src r, m_ent_dst := r_ent_dst r, m_feat_src := r_feat_src r,
     m_feat_dst := r_feat_dst r\<rparr>"

definition is_eebus_format :: "bytes \<Rightarrow> bool" where
  "is_eebus_format d \<longleftrightarrow> take 2 d = ''[{''"

definition Parse :: "externals \<Rightarrow> bytes \<Rightarrow> int \<Rightarrow> int \<Rightarrow> time \<Rightarrow> message" where
  "Parse x raw traceID seqNum ts =
     (let msg = empty_message\<lparr>m_trace := traceID, m_seq := seqNum, m_time := ts,
                  m_raw := raw, m_raw_hex := hex_encode raw\<rparr>
      in if raw = [] then msg\<lparr>m_error := ''empty message'', m_type := ShipMsgTypeUnknown\<rparr>
         else if ShipMsgTypeFromHeaderByte (hd raw) = ShipMsgTypeInit then
           msg\<lparr>m_type := ShipMsgTypeInit\<rparr>
         else if length raw < 2 then
           msg\<lparr>m_type := ShipMsgTypeUnknown, m_error := ''message too short for JSON payload''\<rparr>
         else
           (let jsonData = trim_nul (tl raw);
                normalized = (if is_eebus_format jsonData then NormalizeEEBUSJSON x jsonData else jsonData);
                msg1 = msg\<lparr>m_norm := normalized\<rparr>
            in case classifyShipMessage x normalized of
                 Inl e \<Rightarrow> msg1\<lparr>m_type := ShipMsgTypeUnknown, m_error := ''SHIP classification: '' @ e\<rparr>
               | Inr c \<Rightarrow>
                 (let msg2 = msg1\<lparr>m_type := c_type c, m_ship := c_ship c\<rparr>
                  in if c_type c = ShipMsgTypeData \<and> c_data c \<noteq> [] then
                       (case parseSpineDatagram x (c_data c) of
                          Inl e \<Rightarrow> msg2\<lparr>m_error := ''SPINE parsing: '' @ e\<rparr>
                        | Inr r \<Rightarrow> set_spine r msg2)
                     else msg2)))"

record ship_parse =
  sp_type :: ship_msg_type
  sp_ship :: string
  sp_spine :: "spine_result option"

definition ParseShipFromJSON :: "externals \<Rightarrow> bytes \<Rightarrow> string + ship_parse" where
  "ParseShipFromJSON x normalized = (case classifyShipMessage x normalized of
       Inl e \<Rightarrow> Inl e
     | Inr c \<Rightarrow> Inr \<lparr>sp_type = c_type c, sp_ship = c_ship c,
         sp_spine = (if c_type c = ShipMsgTypeData \<and> c_data c \<noteq> [] then
             (case parseSpineDatagram x (c_data c) of Inl _ \<Rightarrow> None | Inr r \<Rightarrow> Some r)
           else None)\<rparr>)"

definition ParseSpineFromJSON :: "externals \<Rightarrow> bytes \<Rightarrow> spine_result option" where
  "ParseSpineFromJSON x data = (case un_map data of
       None \<Rightarrow> None
     | Some raw \<Rightarrow> if jget raw ''datagram'' = None then None
         else (case parseSpineDatagram x data of Inl _ \<Rightarrow> None | Inr r \<Rightarrow> Some r))"

section \<open>Lemmas: arrays restored\<close>

lemma jget_jput: "jget (jput k v m) j = (if j = k then Some v else jget m j)"
  by (simp add: jget_def jput_def)

lemma compact_wrap: "\<exists>r. compact (wrap_array v) = CHR ''['' # r"
  by (simp add: compact_def wrap_array_def byte_consts)

lemma needs_array_bracket: "v = CHR ''['' # r \<Longrightarrow> \<not> needs_array v"
  using trim_space_hd [of v "CHR ''[''" r] by (simp add: needs_array_def Let_def is_space_def)

lemma trim_ws_hd: "s = x # r \<Longrightarrow> \<not> is_ws x \<Longrightarrow> \<exists>r'. trim_ws s = x # r'"
  using trim_by_hd [of is_ws x r] by (simp add: trim_ws_def)

lemma wrapped_is_array: "\<not> needs_array (trim_ws (compact (wrap_array v)))"
proof -
  obtain r where "compact (wrap_array v) = CHR ''['' # r" using compact_wrap by blast
  from trim_ws_hd [OF this] obtain r' where "trim_ws (compact (wrap_array v)) = CHR ''['' # r'"
    by (auto simp: is_ws_def)
  then show ?thesis by (rule needs_array_bracket)
qed

lemma wrap_array_valid: "json_valid v \<Longrightarrow> json_valid (wrap_array v)"
  using array_valid [of "[v]"] by (simp add: wrap_array_def)

lemma jput_ok: "\<forall>kv \<in> set m. ok_member kv \<Longrightarrow> ascii k \<Longrightarrow> json_valid v \<Longrightarrow> \<forall>kv \<in> set (jput k v m). ok_member kv"
  by (auto simp: jput_def ok_member_def)

lemma jget_ok: "\<forall>kv \<in> set m. ok_member kv \<Longrightarrow> jget m k = Some v \<Longrightarrow> json_valid v \<and> ascii k"
  unfolding jget_def by (drule map_of_SomeD) (fastforce simp: ok_member_def)

text \<open>What the fixed object says, member by member: the field is wrapped, every other member keeps its
  value (compacted, as \<open>json.Marshal\<close> writes it).\<close>

lemma fixJSONArrayField_members:
  assumes "un_map s = Some m" and "\<forall>kv \<in> set m. ok_member kv" and "fixJSONArrayField s f = Some t"
  obtains m' v where "un_map t = Some m'" and "jget m f = Some v" and "needs_array v"
    and "\<And>k. jget m' k = map_option (\<lambda>u. trim_ws (compact u)) (jget (jput f (wrap_array v) m) k)"
proof -
  from assms(1,3) obtain v where v: "jget m f = Some v" "needs_array v"
      and t: "t = marshal_map (jput f (wrap_array v) m)"
    by (auto simp: fixJSONArrayField_def split: option.splits if_splits)
  have "json_valid v \<and> ascii f" using jget_ok [OF assms(2) v(1)] .
  then have ok: "\<forall>kv \<in> set (jput f (wrap_array v) m). ok_member kv"
    using jput_ok [OF assms(2)] wrap_array_valid by blast
  from un_map_marshal [OF ok] t v that show thesis by metis
qed

lemma fixJSONArrayField_once:
  assumes "un_map s = Some m" and "\<forall>kv \<in> set m. ok_member kv" and "fixJSONArrayField s f = Some t"
  shows "fixJSONArrayField t f = None"
proof -
  obtain m' v where "un_map t = Some m'"
    and "\<And>k. jget m' k = map_option (\<lambda>u. trim_ws (compact u)) (jget (jput f (wrap_array v) m) k)"
    using fixJSONArrayField_members [OF assms] by metis
  then show ?thesis
    using wrapped_is_array [of v] by (simp add: fixJSONArrayField_def jget_jput)
qed

section \<open>Lemmas: addresses\<close>

lemma dot_not_in_nat_str: "CHR ''.'' \<notin> set (nat_str n)"
  using set_nat_str [of "CHR ''.''" n] by (auto simp: is_digit_def)

lemma entityAddrString_split:
  "e \<noteq> [] \<Longrightarrow> map digits_val (split_char (CHR ''.'') (entityAddrString e)) = e"
  using dot_not_in_nat_str
  by (simp add: entityAddrString_def split_char_join comp_def)

lemma entityAddrString_Nil: "entityAddrString e = [] \<longleftrightarrow> e = []"
proof (cases e rule: list.exhaust)
  case (Cons n ns)
  then show ?thesis by (cases ns) (simp_all add: entityAddrString_def)
qed (simp add: entityAddrString_def)

lemma entityAddrString_inj: "entityAddrString a = entityAddrString b \<longleftrightarrow> a = b"
  using entityAddrString_split entityAddrString_Nil by metis

section \<open>Lemmas: classification\<close>

lemma checked_class_type: "checked_class x d ty w p = Inr c \<Longrightarrow> c_type c = ty \<and> c_ship c = d \<and> c_data c = p"
  by (auto simp: checked_class_def split: option.splits)

lemma plain_class_type: "plain_class d ty = Inr c \<Longrightarrow> c_type c = ty \<and> c_ship c = d \<and> c_data c = []"
  by (auto simp: plain_class_def)

lemma classify_cases:
  assumes "classifyShipMessage x d = Inr c"
  shows "c_ship c = d \<and> c_type c \<noteq> ShipMsgTypeInit \<and> (c_data c \<noteq> [] \<longrightarrow> c_type c = ShipMsgTypeData)"
  using assms unfolding classifyShipMessage_def
  by (auto simp: ship_types split: option.splits if_splits
      dest!: checked_class_type plain_class_type)

section \<open>Properties\<close>

definition no_spine :: "message \<Rightarrow> bool" where
  "no_spine m \<longleftrightarrow> m_spine m = [] \<and> m_classifier m = [] \<and> m_fn m = [] \<and> m_ctr m = [] \<and> m_ref m = []
     \<and> m_dev_src m = [] \<and> m_dev_dst m = [] \<and> m_ent_src m = [] \<and> m_ent_dst m = []
     \<and> m_feat_src m = [] \<and> m_feat_dst m = []"

text \<open>C1: \<open>Parse\<close> never loses a message: whatever the bytes, the frame's metadata and bytes are kept
  (the hex form decodes to the bytes), a parse error leaves every SPINE field empty, and SPINE fields
  are set only on a message of type \<open>data\<close>.\<close>

theorem Parse_contract:
  "let m = Parse x raw tr sq ts in
     m_trace m = tr \<and> m_seq m = sq \<and> m_time m = ts \<and> m_raw m = raw
     \<and> hex_decode (m_raw_hex m) = Some raw
     \<and> (m_error m = [] \<or> no_spine m)
     \<and> (m_type m = ShipMsgTypeData \<or> no_spine m)"
  unfolding Parse_def Let_def
  by (auto simp: empty_message_def no_spine_def set_spine_def hex_decode_encode split: sum.splits)

text \<open>The classification looks at the top-level keys in a fixed order: the type it reports is that
  of the first key present, the payload it reports is the input itself, and a data payload is
  extracted for type \<open>data\<close> only.\<close>

definition ship_keys :: "(string \<times> ship_msg_type) list" where
  "ship_keys = [(''connectionHello'', ShipMsgTypeConnectionHello),
     (''messageProtocolHandshake'', ShipMsgTypeProtocolHandshake),
     (''connectionPinState'', ShipMsgTypeConnectionPinState),
     (''accessMethods'', ShipMsgTypeAccessMethods), (''accessMethodsRequest'', ShipMsgTypeAccessMethods),
     (''connectionClose'', ShipMsgTypeConnectionClose), (''data'', ShipMsgTypeData)]"

fun first_key :: "(string \<times> ship_msg_type) list \<Rightarrow> jobj \<Rightarrow> ship_msg_type" where
  "first_key [] m = ShipMsgTypeUnknown"
| "first_key ((k, ty) # ks) m = (if jget m k \<noteq> None then ty else first_key ks m)"

theorem classify_first_key:
  assumes "classifyShipMessage x d = Inr c"
  shows "\<exists>m. un_map d = Some m \<and> c_type c = first_key ship_keys m \<and> c_ship c = d
    \<and> (c_data c = [] \<or> (\<exists>v. jget m ''data'' = Some v \<and> c_data c = extractPayload v))"
proof -
  from assms obtain m where m: "un_map d = Some m"
    by (auto simp: classifyShipMessage_def split: option.splits)
  have "c_type c = first_key ship_keys m \<and> c_ship c = d
      \<and> (c_data c = [] \<or> (\<exists>v. jget m ''data'' = Some v \<and> c_data c = extractPayload v))"
    using assms m unfolding classifyShipMessage_def
    by (auto simp: ship_keys_def split: option.splits if_splits dest!: checked_class_type plain_class_type)
  with m show ?thesis by blast
qed

text \<open>The parameters at a concrete instance: nothing is in EEBUS encoding, every SHIP message decodes,
  every datagram has the same header and one command.\<close>

definition test_externals :: externals where
  "test_externals = \<lparr>x_from_eebus = \<lambda>d. d, x_slice_tags = \<lambda>_. [], x_ship_error = \<lambda>_ _. None,
     x_json_error = \<lambda>_. ''syntax'',
     x_datagram = \<lambda>_. Inr \<lparr>h_classifier = Some ''read'', h_counter = Some 7, h_ref = None,
       h_source = Some \<lparr>a_device = Some ''d:_i:1'', a_entity = [1, 2], a_feature = Some 3\<rparr>,
       h_dest = None, p_names = [''measurementListData'']\<rparr>\<rparr>"

theorem classify_first_key_witness:
  "\<exists>m. un_map ''{\"data\":{}}'' = Some m \<and> ShipMsgTypeData = first_key ship_keys m"
proof -
  let ?d = "''{\"data\":{}}''"
  have c: "classifyShipMessage test_externals ?d =
      Inr \<lparr>c_type = ShipMsgTypeData, c_ship = ?d, c_data = []\<rparr>" by code_simp
  show ?thesis using classify_first_key [OF c] by auto
qed

text \<open>C2: a field that has lost its array brackets gets them back and nothing else changes: the field
  holds the wrapped value, every other member the value it had (as \<open>json.Marshal\<close> writes it, without
  white space), and a second pass finds nothing to do.\<close>

theorem fixJSONArrayField_correct:
  assumes "un_map s = Some m" and "\<forall>kv \<in> set m. ok_member kv" and "fixJSONArrayField s f = Some t"
  shows "fixJSONArrayField t f = None \<and>
    (\<exists>m' v. un_map t = Some m' \<and> jget m f = Some v \<and>
       jget m' f = Some (trim_ws (compact (wrap_array v))) \<and>
       (\<forall>k. k \<noteq> f \<longrightarrow> jget m' k = map_option (\<lambda>u. trim_ws (compact u)) (jget m k)))"
proof -
  obtain m' v where "un_map t = Some m'" "jget m f = Some v"
    and "\<And>k. jget m' k = map_option (\<lambda>u. trim_ws (compact u)) (jget (jput f (wrap_array v) m) k)"
    using fixJSONArrayField_members [OF assms] by metis
  then show ?thesis using fixJSONArrayField_once [OF assms] by (auto simp: jget_jput)
qed

theorem fixJSONArrayField_correct_witness:
  "fixJSONArrayField ''{\"cmd\":{\"a\": 1},\"b\":2}'' ''cmd'' = Some ''{\"b\":2,\"cmd\":[{\"a\":1}]}''
   \<and> fixJSONArrayField ''{\"b\":2,\"cmd\":[{\"a\":1}]}'' ''cmd'' = None"
proof -
  have m: "un_map ''{\"cmd\":{\"a\": 1},\"b\":2}'' = Some [(''cmd'', ''{\"a\": 1}''), (''b'', ''2'')]" by code_simp
  have ok: "\<forall>kv \<in> set [(''cmd'', ''{\"a\": 1}''), (''b'', ''2'')]. ok_member kv"
  proof -
    have "json_valid ''{\"a\": 1}''" "json_valid ''2''" by code_simp+
    then show ?thesis by (simp add: ok_member_def)
  qed
  have t: "fixJSONArrayField ''{\"cmd\":{\"a\": 1},\"b\":2}'' ''cmd'' = Some ''{\"b\":2,\"cmd\":[{\"a\":1}]}''" by code_simp
  show ?thesis using fixJSONArrayField_correct [OF m ok t] t by simp
qed

text \<open>The dotted text of an entity address says which address it is: reading the parts between the
  dots back gives the address, so two addresses have the same text only when they are equal.\<close>

theorem entityAddrString_roundtrip:
  "(if e = [] then entityAddrString e = []
    else map digits_val (split_char (CHR ''.'') (entityAddrString e)) = e)
   \<and> (entityAddrString e = entityAddrString e' \<longleftrightarrow> e = e')"
  using entityAddrString_split [of e] entityAddrString_inj [of e e'] by (simp add: entityAddrString_def)

end
