(* ===== verification/Subscriptions.thy ===== *)
theory Subscriptions
  imports OrderedMap ParserCore
begin

text \<open>
  \<open>internal/analysis/subscriptions.go\<close>: the subscriptions and bindings a trace shows. The maps with
  their order slices are \<open>omap\<close>s; the struct of an address entry is read like any JSON struct.
  \<open>TrackSubscriptionsAndBindings\<close> is a fold of \<open>track_msg\<close> over the messages followed by the
  staleness pass.
\<close>

section \<open>Types\<close>

record sub_key =
  k_client_dev :: string
  k_client_feat :: string
  k_server_dev :: string
  k_server_feat :: string

record sub_entry =
  su_id :: string
  su_client_dev :: string
  su_client_feat :: string
  su_server_dev :: string
  su_server_feat :: string
  su_server_type :: string
  su_active :: bool
  su_created :: time
  su_removed :: "time option"
  su_last :: "time option"
  su_count :: nat
  su_stale :: bool
  su_msg :: int

record bind_entry =
  bi_id :: string
  bi_client_dev :: string
  bi_client_feat :: string
  bi_server_dev :: string
  bi_server_feat :: string
  bi_server_type :: string
  bi_active :: bool
  bi_created :: time
  bi_removed :: "time option"
  bi_msg :: int

definition sub_key_of :: "sub_entry \<Rightarrow> sub_key" where
  "sub_key_of s = \<lparr>k_client_dev = su_client_dev s, k_client_feat = su_client_feat s,
     k_server_dev = su_server_dev s, k_server_feat = su_server_feat s\<rparr>"

definition bind_key_of :: "bind_entry \<Rightarrow> sub_key" where
  "bind_key_of b = \<lparr>k_client_dev = bi_client_dev b, k_client_feat = bi_client_feat b,
     k_server_dev = bi_server_dev b, k_server_feat = bi_server_feat b\<rparr>"

section \<open>Feature addresses\<close>

fun uint_digits :: "nat \<Rightarrow> string \<Rightarrow> string" where
  "uint_digits n digits =
     (if n = 0 then digits else uint_digits (n div 10) (char_of (48 + n mod 10) # digits))"

declare uint_digits.simps [simp del]

definition uintToStr :: "nat \<Rightarrow> string" where
  "uintToStr n = (if n = 0 then ''0'' else uint_digits n [])"

fun dotted :: "string \<Rightarrow> nat list \<Rightarrow> nat \<Rightarrow> string" where
  "dotted s [] i = s"
| "dotted s (e # es) i = dotted ((if 0 < i then s @ ''.'' else s) @ uintToStr e) es (Suc i)"

definition formatFeatureAddr :: "nat list \<Rightarrow> nat \<Rightarrow> string" where
  "formatFeatureAddr entity feature =
     (let s = dotted [] entity 0 in (if s \<noteq> [] then s @ ''.'' else s) @ uintToStr feature)"

section \<open>Reading the entries\<close>

text \<open>An element of \<open>[]uint\<close>: null leaves 0.\<close>

definition un_uint_val :: "string \<Rightarrow> nat option" where
  "un_uint_val s = (case decode s of Some JNull \<Rightarrow> Some 0 | _ \<Rightarrow> un_uint s)"

record raw_addr =
  ra_device :: "string option"
  ra_entity :: "nat list"
  ra_feature :: "nat option"

record addr_info =
  ai_sub :: "string option"
  ai_bind :: "string option"
  ai_type :: "string option"
  ai_client :: "raw_addr option"
  ai_server :: "raw_addr option"

definition un_raw_addr :: "string \<Rightarrow> raw_addr option" where
  "un_raw_addr s = do { m \<leftarrow> un_map s;
     d \<leftarrow> fld_ptr un_string m ''device'';
     e \<leftarrow> fld_val (un_list un_uint_val) [] m ''entity'';
     f \<leftarrow> fld_ptr un_uint m ''feature'';
     Some \<lparr>ra_device = d, ra_entity = e, ra_feature = f\<rparr> }"

definition un_addr_info :: "string \<Rightarrow> addr_info option" where
  "un_addr_info s = do { m \<leftarrow> un_map s;
     i \<leftarrow> fld_ptr un_string m ''subscriptionId'';
     b \<leftarrow> fld_ptr un_string m ''bindingId'';
     t \<leftarrow> fld_ptr un_string m ''serverFeatureType'';
     c \<leftarrow> fld_ptr un_raw_addr m ''clientAddress'';
     v \<leftarrow> fld_ptr un_raw_addr m ''serverAddress'';
     Some \<lparr>ai_sub = i, ai_bind = b, ai_type = t, ai_client = c, ai_server = v\<rparr> }"

definition extractCmds :: "string \<Rightarrow> string list" where
  "extractCmds s =
     (case do { p \<leftarrow> dg_payload s; fld_val un_array [] p ''cmd'' } of
        Some (c # cs) \<Rightarrow> c # cs
      | _ \<Rightarrow>
        (case dg_payload s of
           None \<Rightarrow> []
         | Some p \<Rightarrow>
           (let raw = fld_raw p ''cmd''; t = trim_space raw
            in if raw \<noteq> [] \<and> t \<noteq> [] \<and> hd t = CHR ''{'' then [raw] else [])))"

fun first_present :: "jobj \<Rightarrow> string list \<Rightarrow> string option" where
  "first_present m [] = None"
| "first_present m (k # ks) = (case jget m k of Some r \<Rightarrow> Some r | None \<Rightarrow> first_present m ks)"

text \<open>The entries under one key: a non-empty array of entries or a single one.\<close>

definition entry_forms :: "string \<Rightarrow> addr_info list option" where
  "entry_forms raw =
     (let t = trim_space raw in
      if t = [] then None
      else if hd t = CHR ''['' then
        (case un_list un_addr_info raw of Some (a # as) \<Rightarrow> Some (a # as) | _ \<Rightarrow> None)
      else if hd t = CHR ''{'' then map_option (\<lambda>a. [a]) (un_addr_info raw)
      else None)"

fun inner_entries :: "jobj \<Rightarrow> string list \<Rightarrow> addr_info list" where
  "inner_entries m [] = []"
| "inner_entries m (k # ks) =
     (case jget m k of
        None \<Rightarrow> inner_entries m ks
      | Some raw \<Rightarrow> (case entry_forms raw of Some as \<Rightarrow> as | None \<Rightarrow> inner_entries m ks))"

definition extractSubAddrs :: "jobj \<Rightarrow> string list \<Rightarrow> string list \<Rightarrow> addr_info list" where
  "extractSubAddrs m outer inner =
     (case first_present m outer of
        None \<Rightarrow> []
      | Some raw \<Rightarrow> (case un_map raw of None \<Rightarrow> [] | Some im \<Rightarrow> inner_entries im inner))"

definition addr_device :: "raw_addr option \<Rightarrow> string" where
  "addr_device a = (case a of None \<Rightarrow> [] | Some r \<Rightarrow> or_empty (ra_device r))"

definition addr_feature :: "raw_addr option \<Rightarrow> string" where
  "addr_feature a = (case a of None \<Rightarrow> []
     | Some r \<Rightarrow> (case ra_feature r of None \<Rightarrow> [] | Some f \<Rightarrow> formatFeatureAddr (ra_entity r) f))"

definition sub_of_addr :: "addr_info \<Rightarrow> sub_entry" where
  "sub_of_addr a = \<lparr>su_id = or_empty (ai_sub a),
     su_client_dev = addr_device (ai_client a), su_client_feat = addr_feature (ai_client a),
     su_server_dev = addr_device (ai_server a), su_server_feat = addr_feature (ai_server a),
     su_server_type = or_empty (ai_type a), su_active = False, su_created = zero_time,
     su_removed = None, su_last = None, su_count = 0, su_stale = False, su_msg = 0\<rparr>"

definition bind_of_addr :: "addr_info \<Rightarrow> bind_entry" where
  "bind_of_addr a = \<lparr>bi_id = or_empty (ai_bind a),
     bi_client_dev = addr_device (ai_client a), bi_client_feat = addr_feature (ai_client a),
     bi_server_dev = addr_device (ai_server a), bi_server_feat = addr_feature (ai_server a),
     bi_server_type = or_empty (ai_type a), bi_active = False, bi_created = zero_time,
     bi_removed = None, bi_msg = 0\<rparr>"

definition cmd_addrs :: "string list \<Rightarrow> string list \<Rightarrow> string \<Rightarrow> addr_info list" where
  "cmd_addrs outer inner cmd =
     (case un_map cmd of None \<Rightarrow> [] | Some m \<Rightarrow> extractSubAddrs m outer inner)"

definition extractSubscriptionData :: "string \<Rightarrow> sub_entry list" where
  "extractSubscriptionData s = map sub_of_addr (concat (map (cmd_addrs
     [''nodeManagementSubscriptionData'', ''nodeManagementSubscriptionRequestCall'',
      ''nodeManagementSubscriptionDeleteCall'']
     [''subscriptionEntry'', ''subscriptionRequest'', ''subscriptionDelete'']) (extractCmds s)))"

definition extractBindingData :: "string \<Rightarrow> bind_entry list" where
  "extractBindingData s = map bind_of_addr (concat (map (cmd_addrs
     [''nodeManagementBindingData'', ''nodeManagementBindingRequestCall'',
      ''nodeManagementBindingDeleteCall'']
     [''bindingEntry'', ''bindingRequest'', ''bindingDelete'']) (extractCmds s)))"

section \<open>Tracking\<close>

type_synonym sub_map = "(sub_key, sub_entry) omap"
type_synonym bind_map = "(sub_key, bind_entry) omap"

definition put_sub :: "message \<Rightarrow> sub_entry \<Rightarrow> sub_map \<Rightarrow> sub_map" where
  "put_sub m s subs = om_put (sub_key_of s)
     (s\<lparr>su_created := m_time m, su_msg := m_id m, su_active := True\<rparr>) subs"

definition del_sub :: "message \<Rightarrow> sub_entry \<Rightarrow> sub_map \<Rightarrow> sub_map" where
  "del_sub m s subs = (case om_get subs (sub_key_of s) of
       None \<Rightarrow> subs
     | Some e \<Rightarrow> om_put (sub_key_of s) (e\<lparr>su_active := False, su_removed := Some (m_time m)\<rparr>) subs)"

definition put_bind :: "message \<Rightarrow> bind_entry \<Rightarrow> bind_map \<Rightarrow> bind_map" where
  "put_bind m b binds = om_put (bind_key_of b)
     (b\<lparr>bi_created := m_time m, bi_msg := m_id m, bi_active := True\<rparr>) binds"

definition del_bind :: "message \<Rightarrow> bind_entry \<Rightarrow> bind_map \<Rightarrow> bind_map" where
  "del_bind m b binds = (case om_get binds (bind_key_of b) of
       None \<Rightarrow> binds
     | Some e \<Rightarrow> om_put (bind_key_of b) (e\<lparr>bi_active := False, bi_removed := Some (m_time m)\<rparr>) binds)"

definition is_snapshot :: "message \<Rightarrow> bool" where
  "is_snapshot m \<longleftrightarrow> m_classifier m = ''reply'' \<or> m_classifier m = ''notify''"

definition is_call :: "message \<Rightarrow> bool" where
  "is_call m \<longleftrightarrow> m_classifier m = ''call''"

definition matchesSubscriptionNotify :: "message \<Rightarrow> sub_key \<Rightarrow> bool" where
  "matchesSubscriptionNotify m k =
     (if m_dev_src m \<noteq> k_server_dev k \<or> m_dev_dst m \<noteq> k_client_dev k then False
      else if k_server_feat k = [] then True
      else (if m_ent_src m \<noteq> [] \<and> m_feat_src m \<noteq> [] then m_ent_src m @ ''.'' @ m_feat_src m
            else m_feat_src m) = k_server_feat k)"

definition note_notify :: "message \<Rightarrow> sub_key \<Rightarrow> sub_entry \<Rightarrow> sub_entry" where
  "note_notify m k s =
     (if su_active s \<and> matchesSubscriptionNotify m k
      then s\<lparr>su_last := Some (m_time m), su_count := Suc (su_count s)\<rparr> else s)"

definition track_subs :: "message \<Rightarrow> sub_map \<Rightarrow> sub_map" where
  "track_subs m subs =
     (if m_fn m = ''NodeManagementSubscriptionData'' \<and> is_snapshot m
         \<or> m_fn m = ''NodeManagementSubscriptionRequestCall'' \<and> is_call m
      then fold (put_sub m) (extractSubscriptionData (m_spine m)) subs
      else if m_fn m = ''NodeManagementSubscriptionDeleteCall'' \<and> is_call m
      then fold (del_sub m) (extractSubscriptionData (m_spine m)) subs
      else subs)"

definition track_binds :: "message \<Rightarrow> bind_map \<Rightarrow> bind_map" where
  "track_binds m binds =
     (if m_fn m = ''NodeManagementBindingData'' \<and> is_snapshot m
         \<or> m_fn m = ''NodeManagementBindingRequestCall'' \<and> is_call m
      then fold (put_bind m) (extractBindingData (m_spine m)) binds
      else if m_fn m = ''NodeManagementBindingDeleteCall'' \<and> is_call m
      then fold (del_bind m) (extractBindingData (m_spine m)) binds
      else binds)"

definition track_notify :: "message \<Rightarrow> sub_map \<Rightarrow> sub_map" where
  "track_notify m subs =
     (if m_classifier m = ''notify'' \<and> m_fn m \<noteq> [] then om_map (note_notify m) subs else subs)"

definition track_msg :: "message \<Rightarrow> sub_map \<times> bind_map \<Rightarrow> sub_map \<times> bind_map" where
  "track_msg m st = (track_notify m (track_subs m (fst st)), track_binds m (snd st))"

definition mark_stale :: "time \<Rightarrow> duration \<Rightarrow> sub_entry \<Rightarrow> sub_entry" where
  "mark_stale lastTimestamp threshold s =
     (if su_active s \<and> 0 < threshold then
        (case su_last s of
           None \<Rightarrow> if threshold < time_sub lastTimestamp (su_created s) then s\<lparr>su_stale := True\<rparr> else s
         | Some t \<Rightarrow> if threshold < time_sub lastTimestamp t then s\<lparr>su_stale := True\<rparr> else s)
      else s)"

definition TrackSubscriptionsAndBindings ::
  "message list \<Rightarrow> duration \<Rightarrow> sub_entry list \<times> bind_entry list" where
  "TrackSubscriptionsAndBindings msgs threshold =
     (let (subs, binds) = fold track_msg msgs (om_empty, om_empty);
          lastTimestamp = (if msgs = [] then zero_time else m_time (last msgs))
      in (map (mark_stale lastTimestamp threshold) (om_values subs), om_values binds))"

section \<open>Lemmas: feature addresses\<close>

lemma uint_digits_eq: "0 < n \<Longrightarrow> uint_digits n ds = nat_str n @ ds"
proof (induction n ds rule: uint_digits.induct)
  case (1 n ds)
  show ?case
  proof (cases "n < 10")
    case True
    then show ?thesis using 1
      by (simp add: uint_digits.simps [of n] uint_digits.simps [of 0] nat_str.simps [of n] digit_char_def)
  next
    case False
    then show ?thesis using 1
      by (simp add: uint_digits.simps [of n] nat_str.simps [of n] digit_char_def)
  qed
qed

lemma zero_char: "char_of (48 :: nat) = CHR ''0''"
  by (simp add: char_of_eq_iff)

lemma uintToStr_eq: "uintToStr n = nat_str n"
  by (cases "n = 0") (simp_all add: uintToStr_def uint_digits_eq nat_str.simps [of 0] digit_char_def zero_char)

lemma dotted_eq: "0 < i \<Longrightarrow> dotted s es i = s @ concat (map (\<lambda>e. CHR ''.'' # nat_str e) es)"
  by (induction es arbitrary: s i) (simp_all add: uintToStr_eq)

lemma join_concat: "join ''.'' (x # xs) = x @ concat (map (\<lambda>y. CHR ''.'' # y) xs)"
  by (induction xs arbitrary: x) simp_all

lemma dotted_0: "dotted [] es 0 = entityAddrString es"
proof (cases es)
  case (Cons a list)
  have "concat (map (\<lambda>y. CHR ''.'' # y) (map nat_str list)) = concat (map (\<lambda>e. CHR ''.'' # nat_str e) list)"
    by (simp add: comp_def)
  then show ?thesis using Cons
    by (simp add: dotted_eq uintToStr_eq entityAddrString_def join_concat del: join.simps)
qed (simp add: entityAddrString_def)

text \<open>The key text of an address is the entity and feature texts of the parser, joined by a dot.\<close>

lemma formatFeatureAddr_eq:
  "formatFeatureAddr es f =
     (if entityAddrString es \<noteq> [] then entityAddrString es @ ''.'' @ featureAddrString (Some f)
      else featureAddrString (Some f))"
  by (simp add: formatFeatureAddr_def dotted_0 uintToStr_eq featureAddrString_def)

lemma formatFeatureAddr_split: "map digits_val (split_char (CHR ''.'') (formatFeatureAddr es f)) = es @ [f]"
proof -
  have nd: "\<And>n. CHR ''.'' \<notin> set (nat_str n)" by (rule dot_not_in_nat_str)
  have "formatFeatureAddr es f = join [CHR ''.''] (map nat_str (es @ [f]))"
    by (cases es) (simp_all add: formatFeatureAddr_eq entityAddrString_Nil entityAddrString_def
        featureAddrString_def join_concat del: join.simps(3))
  moreover have "split_char (CHR ''.'') (join [CHR ''.''] (map nat_str (es @ [f]))) = map nat_str (es @ [f])"
    by (rule split_char_join) (use nd in auto)
  ultimately show ?thesis by (simp add: comp_def)
qed

lemma formatFeatureAddr_inj: "formatFeatureAddr es f = formatFeatureAddr es' f' \<longleftrightarrow> es = es' \<and> f = f'"
  using formatFeatureAddr_split [of es f] formatFeatureAddr_split [of es' f'] by (metis append1_eq_conv)

lemma formatFeatureAddr_not_Nil: "formatFeatureAddr es f \<noteq> []"
  by (simp add: formatFeatureAddr_eq featureAddrString_def)

section \<open>Lemmas: one entry's life\<close>

definition stamp :: "message \<Rightarrow> sub_entry \<Rightarrow> sub_entry" where
  "stamp m s = s\<lparr>su_created := m_time m, su_msg := m_id m, su_active := True\<rparr>"

definition retire :: "message \<Rightarrow> sub_entry \<Rightarrow> sub_entry" where
  "retire m s = s\<lparr>su_active := False, su_removed := Some (m_time m)\<rparr>"

lemma put_sub_eq: "put_sub m = (\<lambda>s. om_put (sub_key_of s) (stamp m s))"
  by (simp add: put_sub_def stamp_def fun_eq_iff)

lemma key_stamp [simp]: "sub_key_of (stamp m s) = sub_key_of s"
  by (simp add: stamp_def sub_key_of_def)

lemma key_retire [simp]: "sub_key_of (retire m s) = sub_key_of s"
  by (simp add: retire_def sub_key_of_def)

lemma key_notify [simp]: "sub_key_of (note_notify m k s) = sub_key_of s"
  by (simp add: note_notify_def sub_key_of_def)

lemma retire_twice [simp]: "retire m (retire m s) = retire m s"
  by (simp add: retire_def)

lemma get_put_subs:
  "om_get (fold (put_sub m) xs subs) k =
     (case filter (\<lambda>s. sub_key_of s = k) xs of [] \<Rightarrow> om_get subs k | y # ys \<Rightarrow> Some (stamp m (last (y # ys))))"
proof (cases "k \<in> sub_key_of ` set xs")
  case True
  then have "filter (\<lambda>s. sub_key_of s = k) xs \<noteq> []" by (auto simp: filter_empty_conv)
  then show ?thesis using om.get_fold_last [OF True, of "stamp m" subs]
    by (auto simp: put_sub_eq split: list.splits)
next
  case False
  then have "filter (\<lambda>s. sub_key_of s = k) xs = []" by (auto simp: filter_empty_conv)
  then show ?thesis using om.get_fold_notin [OF False] by (simp add: put_sub_eq)
qed

lemma get_del_sub:
  "om_get (del_sub m s subs) k =
     (if sub_key_of s = k then map_option (retire m) (om_get subs k) else om_get subs k)"
  by (auto simp: del_sub_def retire_def om.get_put split: option.splits)

lemma get_del_subs:
  "om_get (fold (del_sub m) xs subs) k =
     (if k \<in> sub_key_of ` set xs then map_option (retire m) (om_get subs k) else om_get subs k)"
  by (induction xs arbitrary: subs) (auto simp: get_del_sub option.map_comp comp_def)

lemma wf_del_sub: "om_wf subs \<Longrightarrow> om_wf (del_sub m s subs)"
  by (auto simp: del_sub_def om.wf_put split: option.splits)

lemma wf_track_subs: "om_wf subs \<Longrightarrow> om_wf (track_subs m subs)"
proof -
  have "om_wf s \<Longrightarrow> om_wf (fold (del_sub m) xs s)" for xs s
    by (induction xs arbitrary: s) (simp_all add: wf_del_sub)
  then show "om_wf subs \<Longrightarrow> om_wf (track_subs m subs)"
    by (auto simp: track_subs_def put_sub_eq intro: om.wf_fold)
qed

lemma wf_track_notify: "om_wf subs \<Longrightarrow> om_wf (track_notify m subs)"
  by (simp add: track_notify_def)

text \<open>What one message does to the entry of the key \<open>k\<close>: the specification of a tracked
  subscription as a state machine of its own.\<close>

definition sub_named :: "message \<Rightarrow> sub_key \<Rightarrow> sub_entry list" where
  "sub_named m k = filter (\<lambda>s. sub_key_of s = k) (extractSubscriptionData (m_spine m))"

definition announces :: "message \<Rightarrow> bool" where
  "announces m \<longleftrightarrow> m_fn m = ''NodeManagementSubscriptionData'' \<and> is_snapshot m
     \<or> m_fn m = ''NodeManagementSubscriptionRequestCall'' \<and> is_call m"

definition deletes :: "message \<Rightarrow> bool" where
  "deletes m \<longleftrightarrow> m_fn m = ''NodeManagementSubscriptionDeleteCall'' \<and> is_call m"

definition key_step :: "sub_key \<Rightarrow> message \<Rightarrow> sub_entry option \<Rightarrow> sub_entry option" where
  "key_step k m v =
     (let v1 = (if sub_named m k = [] then v
                else if announces m then Some (stamp m (last (sub_named m k)))
                else if deletes m then map_option (retire m) v else v)
      in if m_classifier m = ''notify'' \<and> m_fn m \<noteq> [] then map_option (note_notify m k) v1 else v1)"

lemma announces_not_deletes: "announces m \<Longrightarrow> \<not> deletes m"
  by (auto simp: announces_def deletes_def)

lemma track_subs_eq:
  "track_subs m subs = (let xs = extractSubscriptionData (m_spine m) in
     if announces m then fold (put_sub m) xs subs
     else if deletes m then fold (del_sub m) xs subs else subs)"
  by (simp add: track_subs_def announces_def deletes_def Let_def)

lemma track_subs_get:
  "om_get (track_subs m subs) k = (if sub_named m k = [] then om_get subs k
     else if announces m then Some (stamp m (last (sub_named m k)))
     else if deletes m then map_option (retire m) (om_get subs k) else om_get subs k)"
proof -
  have "sub_named m k = [] \<longleftrightarrow> k \<notin> sub_key_of ` set (extractSubscriptionData (m_spine m))"
    by (auto simp: sub_named_def filter_empty_conv)
  then show ?thesis
    by (auto simp: track_subs_eq Let_def get_put_subs get_del_subs sub_named_def split: list.splits)
qed

lemma track_msg_get: "om_get (fst (track_msg m st)) k = key_step k m (om_get (fst st) k)"
  by (simp add: track_msg_def track_notify_def key_step_def track_subs_get Let_def)

lemma track_get: "om_get (fst (fold track_msg msgs st)) k = fold (key_step k) msgs (om_get (fst st) k)"
  by (induction msgs arbitrary: st) (simp_all add: track_msg_get)

lemma track_wf: "om_wf (fst st) \<Longrightarrow> om_wf (fst (fold track_msg msgs st))"
  by (induction msgs arbitrary: st) (simp_all add: track_msg_def wf_track_subs wf_track_notify)

section \<open>Lemmas: the invariant of an entry\<close>

definition entry_ok :: "sub_key \<Rightarrow> sub_entry \<Rightarrow> bool" where
  "entry_ok k s \<longleftrightarrow> sub_key_of s = k \<and> (su_active s \<longleftrightarrow> su_removed s = None)
     \<and> (su_count s = 0 \<longleftrightarrow> su_last s = None) \<and> \<not> su_stale s"

lemma fresh_sub: "s \<in> set (extractSubscriptionData t) \<Longrightarrow>
    su_removed s = None \<and> su_last s = None \<and> su_count s = 0 \<and> \<not> su_stale s"
  by (auto simp: extractSubscriptionData_def sub_of_addr_def)

lemma key_step_ok:
  assumes "\<And>e. v = Some e \<Longrightarrow> entry_ok k e" and "key_step k m v = Some e"
  shows "entry_ok k e"
proof -
  have fresh: "entry_ok k (stamp m (last (sub_named m k)))" if "sub_named m k \<noteq> []"
  proof -
    have "last (sub_named m k) \<in> set (sub_named m k)" using that by simp
    then show ?thesis using fresh_sub unfolding sub_named_def entry_ok_def
      by (auto simp: stamp_def sub_key_of_def)
  qed
  have ret: "entry_ok k e \<Longrightarrow> entry_ok k (retire m e)" for e
    by (auto simp: entry_ok_def) (auto simp: retire_def)
  have nt: "entry_ok k e \<Longrightarrow> entry_ok k (note_notify m k e)" for e
    using key_notify [of m k e]
    by (cases "su_active e \<and> matchesSubscriptionNotify m k") (auto simp: entry_ok_def note_notify_def sub_key_of_def)
  show ?thesis using assms fresh ret nt
    by (auto simp: key_step_def Let_def split: if_splits)
qed

lemma key_steps_ok:
  "(\<And>e. v = Some e \<Longrightarrow> entry_ok k e) \<Longrightarrow> fold (key_step k) msgs v = Some e \<Longrightarrow> entry_ok k e"
proof (induction msgs arbitrary: v)
  case (Cons m msgs)
  from Cons.prems(2) have "fold (key_step k) msgs (key_step k m v) = Some e" by simp
  with Cons.IH show ?case using key_step_ok Cons.prems(1) by blast
qed simp

lemma key_mark_stale [simp]: "sub_key_of (mark_stale t d s) = sub_key_of s"
  by (simp add: mark_stale_def sub_key_of_def split: option.splits)

section \<open>Properties\<close>

definition announced :: "message \<Rightarrow> sub_key list" where
  "announced m = (if announces m then map sub_key_of (extractSubscriptionData (m_spine m)) else [])"

lemma keys_del_subs: "om_keys (fold (del_sub m) xs subs) = om_keys subs"
proof (induction xs arbitrary: subs)
  case (Cons x xs)
  have "om_keys (del_sub m x subs) = om_keys subs"
    by (auto simp: del_sub_def om.put_idem_keys split: option.splits)
  then show ?case using Cons by simp
qed simp

lemma keys_track_msg:
  "om_wf (fst st) \<Longrightarrow> om_keys (fst (track_msg m st)) =
     om_keys (fst st) @ filter (\<lambda>k. k \<notin> set (om_keys (fst st))) (first_seen (announced m))"
  using om.keys_fold [of "fst st" sub_key_of "stamp m" "extractSubscriptionData (m_spine m)"]
  by (simp add: track_msg_def track_notify_def track_subs_eq Let_def announced_def keys_del_subs put_sub_eq)

lemma keys_track: "om_keys (fst (fold track_msg msgs (om_empty, om_empty))) = first_seen (concat (map announced msgs))"
proof (induction msgs rule: rev_induct)
  case (snoc m msgs)
  have "om_wf (fst (fold track_msg msgs (om_empty, om_empty)))"
    by (rule track_wf) (simp add: om.wf_empty)
  from keys_track_msg [OF this, of m] snoc show ?case by (simp add: first_seen_append)
qed (simp add: om.keys_empty)

lemma tracked_subs:
  "fst (TrackSubscriptionsAndBindings msgs d) =
     map (\<lambda>k. mark_stale (if msgs = [] then zero_time else m_time (last msgs)) d
            (the (fold (key_step k) msgs None))) (first_seen (concat (map announced msgs)))"
proof -
  let ?s = "fst (fold track_msg msgs (om_empty, om_empty))"
  let ?t = "if msgs = [] then zero_time else m_time (last msgs)"
  have "fst (TrackSubscriptionsAndBindings msgs d) = map (mark_stale ?t d) (om_values ?s)"
    by (simp add: TrackSubscriptionsAndBindings_def Let_def split: prod.split)
  moreover have "om_values ?s = map (\<lambda>k. the (fold (key_step k) msgs None)) (first_seen (concat (map announced msgs)))"
    by (simp add: om_values_eq keys_track track_get om.get_empty)
  ultimately show ?thesis by simp
qed

lemma announced_tracked:
  "k \<in> set (concat (map announced msgs)) \<longleftrightarrow> fold (key_step k) msgs None \<noteq> None"
proof -
  let ?s = "fst (fold track_msg msgs (om_empty, om_empty))"
  have "om_wf ?s" by (rule track_wf) (simp add: om.wf_empty)
  from om.wf_dom [OF this, of k] show ?thesis by (simp add: keys_track track_get om.get_empty)
qed

text \<open>C5: tracking is a state machine per subscription: the result lists each announced key once, in the
  order of first announcement, and the entry of a key is what the messages make of that key alone
  (\<open>key_step\<close>: announced, removed, notified), marked stale at the end.\<close>

theorem subscription_refinement:
  "fst (TrackSubscriptionsAndBindings msgs d) =
     map (\<lambda>k. mark_stale (if msgs = [] then zero_time else m_time (last msgs)) d
            (the (fold (key_step k) msgs None))) (first_seen (concat (map announced msgs)))
   \<and> (\<forall>k. k \<in> set (concat (map announced msgs)) \<longleftrightarrow> fold (key_step k) msgs None \<noteq> None)"
  using tracked_subs announced_tracked by blast

text \<open>C6: every subscription in the result is active exactly when it has no removal time, has a last
  notification exactly when its notification count is positive, and is stale exactly when it is
  active, the threshold is positive, and more than the threshold lies between its last notification
  (or its creation) and the last message of the trace.\<close>

theorem subscription_entries:
  assumes "s \<in> set (fst (TrackSubscriptionsAndBindings msgs d))"
  shows "(su_active s \<longleftrightarrow> su_removed s = None) \<and> (su_count s = 0 \<longleftrightarrow> su_last s = None) \<and>
    (su_stale s \<longleftrightarrow> su_active s \<and> 0 < d \<and>
       d < time_sub (if msgs = [] then zero_time else m_time (last msgs))
             (case su_last s of None \<Rightarrow> su_created s | Some t \<Rightarrow> t))"
proof -
  let ?t = "if msgs = [] then zero_time else m_time (last msgs)"
  from assms obtain k where k: "k \<in> set (concat (map announced msgs))"
      and s: "s = mark_stale ?t d (the (fold (key_step k) msgs None))"
    unfolding tracked_subs by auto
  from k obtain e where e: "fold (key_step k) msgs None = Some e" using announced_tracked by blast
  have "entry_ok k e" using key_steps_ok [of None k msgs e] e by simp
  then show ?thesis unfolding s e option.sel by (auto simp: entry_ok_def mark_stale_def split: option.splits)
qed

definition sample_sub :: message where
  "sample_sub = empty_message\<lparr>m_id := 5, m_fn := ''NodeManagementSubscriptionRequestCall'',
     m_classifier := ''call'', m_time := 0, m_spine := dg_text ''{}''
       ''{\"nodeManagementSubscriptionRequestCall\":{\"subscriptionRequest\":{}}}''\<rparr>"

definition sample_later :: message where
  "sample_later = empty_message\<lparr>m_time := sec 200\<rparr>"

theorem subscription_entries_witness:
  "map su_stale (fst (TrackSubscriptionsAndBindings [sample_sub, sample_later] (sec 120))) = [True]"
proof -
  let ?r = "fst (TrackSubscriptionsAndBindings [sample_sub, sample_later] (sec 120))"
  have f: "map (\<lambda>s. (su_active s, su_last s, su_created s)) ?r = [(True, None, 0)]" by code_simp
  then obtain s where r: "?r = [s]" and s: "su_active s" "su_last s = None" "su_created s = 0" by auto
  have "s \<in> set ?r" using r by simp
  from subscription_entries [OF this] s have "su_stale s"
    by (simp add: sample_later_def sec_def time_sub_def clamp64_def min_int64_def max_int64_def)
  then show ?thesis using r by simp
qed

text \<open>A notification is credited to a subscription exactly when it comes from the server device to
  the client device and from the subscribed feature: the address text the parser puts on the message
  and the one the tracker keeps are equal exactly when entity and feature are.\<close>

theorem notify_matches_feature:
  "matchesSubscriptionNotify
     (m\<lparr>m_ent_src := entityAddrString es, m_feat_src := featureAddrString (Some f)\<rparr>)
     (k\<lparr>k_server_feat := formatFeatureAddr es' f'\<rparr>)
   \<longleftrightarrow> m_dev_src m = k_server_dev k \<and> m_dev_dst m = k_client_dev k \<and> es = es' \<and> f = f'"
proof -
  let ?t = "if entityAddrString es \<noteq> [] \<and> featureAddrString (Some f) \<noteq> []
          then entityAddrString es @ ''.'' @ featureAddrString (Some f) else featureAddrString (Some f)"
  have e: "?t = formatFeatureAddr es f" by (simp add: formatFeatureAddr_eq featureAddrString_def)
  have "matchesSubscriptionNotify
     (m\<lparr>m_ent_src := entityAddrString es, m_feat_src := featureAddrString (Some f)\<rparr>)
     (k\<lparr>k_server_feat := formatFeatureAddr es' f'\<rparr>)
   \<longleftrightarrow> (m_dev_src m = k_server_dev k \<and> m_dev_dst m = k_client_dev k) \<and> ?t = formatFeatureAddr es' f'"
  proof (cases "m_dev_src m = k_server_dev k \<and> m_dev_dst m = k_client_dev k")
    case True
    then show ?thesis
      by (simp add: matchesSubscriptionNotify_def formatFeatureAddr_not_Nil split del: if_split cong: if_cong)
  next
    case False
    then show ?thesis by (auto simp: matchesSubscriptionNotify_def)
  qed
  then show ?thesis unfolding e formatFeatureAddr_inj by simp
qed

text \<open>A snapshot that does not mention a subscription leaves its entry as it was, up to the
  notification the snapshot itself may be: entries are never removed by a snapshot.\<close>

theorem snapshot_keeps_missing:
  assumes "announces m" and "sub_named m k = []"
  shows "om_get (fst (track_msg m st)) k = (if m_classifier m = ''notify''
     then map_option (note_notify m k) (om_get (fst st) k) else om_get (fst st) k)"
  using assms by (auto simp: track_msg_get key_step_def announces_def)

theorem snapshot_keeps_missing_witness:
  "om_get (fst (track_msg (sample_sub\<lparr>m_spine := []\<rparr>) (fold track_msg [sample_sub] (om_empty, om_empty))))
     \<lparr>k_client_dev = [], k_client_feat = [], k_server_dev = [], k_server_feat = []\<rparr> \<noteq> None"
proof -
  let ?k = "\<lparr>k_client_dev = [], k_client_feat = [], k_server_dev = [], k_server_feat = []\<rparr>"
  let ?m = "sample_sub\<lparr>m_spine := []\<rparr>"
  have a: "announces ?m" "m_classifier ?m \<noteq> ''notify''" by code_simp+
  have n: "sub_named ?m ?k = []" by code_simp
  have "om_get (fst (fold track_msg [sample_sub] (om_empty, om_empty))) ?k \<noteq> None" by code_simp
  then show ?thesis using snapshot_keeps_missing [OF a(1) n] a(2) by (simp del: fold.simps)
qed

end
