(* ===== verification/UseCases.thy ===== *)
theory UseCases
  imports Subscriptions
begin

text \<open>
  \<open>internal/analysis/usecases.go\<close> and \<open>depgraph.go\<close>: the use cases a device announces, the static tables
  of abbreviations and function sets, and the dependency tree of devices, entities and features. A Go
  map that is only looked up is an association list. Where the code ranges over a map to build a
  list, the order of the visit is the argument \<open>visit\<close>, of which only the elements matter.
\<close>

section \<open>Tables\<close>

record use_case =
  uc_name :: string
  uc_abbr :: string
  uc_version :: string
  uc_available :: bool
  uc_scenarios :: "nat list"

record device_use_cases =
  du_device :: string
  du_actor :: string
  du_cases :: "use_case list"
  du_msg :: int

definition useCaseAbbreviations :: "(string \<times> string) list" where
  "useCaseAbbreviations =
    [(''limitationOfPowerConsumption'', ''LPC''),
     (''limitationOfPowerProduction'', ''LPP''),
     (''monitoringOfPowerConsumption'', ''MPC''),
     (''monitoringOfGridConnectionPoint'', ''MGCP''),
     (''evseCommissioningAndConfiguration'', ''EVSECC''),
     (''evChargingSummary'', ''EVCS''),
     (''evCommissioningAndConfiguration'', ''EVCC''),
     (''measurementOfElectricityDuringEvCharging'', ''MOEEC''),
     (''optimizationOfSelfConsumptionDuringEvCharging'', ''OSCEV''),
     (''overloadProtectionByEvChargingCurrentCurtailment'', ''OPEV''),
     (''dynamicBidirectionalEvCharging'', ''DBEVC''),
     (''coordinatedEvCharging'', ''CEC''),
     (''configurationOfDhwSystemFunction'', ''CDSF''),
     (''configurationOfDhwTemperature'', ''CDT''),
     (''configurationOfRoomCoolingSystemFunction'', ''CRCSF''),
     (''configurationOfRoomCoolingTemperature'', ''CRCT''),
     (''configurationOfRoomHeatingSystemFunction'', ''CRHSF''),
     (''configurationOfRoomHeatingTemperature'', ''CRHT''),
     (''monitoringOfBattery'', ''MOB''),
     (''monitoringOfDhw'', ''MODHW''),
     (''monitoringOfDhwSystemFunction'', ''MODSF''),
     (''monitoringOfDhwTemperature'', ''MODT''),
     (''monitoringOfInverter'', ''MOI''),
     (''monitoringOfPvString'', ''MOPVS''),
     (''monitoringOfRoomCoolingSystemFunction'', ''MORCSF''),
     (''monitoringOfRoomCoolingTemperature'', ''MORCT''),
     (''monitoringOfRoomHeatingSystemFunction'', ''MORHSF''),
     (''monitoringOfRoomHeatingTemperature'', ''MORHT''),
     (''visualizationOfAggregatedBatteryData'', ''VABD''),
     (''visualizationOfAggregatedPhotovoltaicData'', ''VAPD''),
     (''flexibleStartOfEnergyConsumer'', ''FSEC''),
     (''flexibleStartOfEnergyProduction'', ''FSEP''),
     (''monitoringOfPowerConsumptionOfDhwSystemFunction'', ''MOPCDSF''),
     (''monitoringOfPowerConsumptionOfRoomCoolingSystemFunction'', ''MOPCRCSF''),
     (''monitoringOfPowerConsumptionOfRoomHeatingSystemFunction'', ''MOPCRHSF'')]"

record function_set_spec =
  fs_functions :: "string list"
  fs_entities :: "string list"

definition UseCaseFunctionSets :: "(string \<times> function_set_spec) list" where
  "UseCaseFunctionSets =
    [(''LPC'', \<lparr>fs_functions = [''LoadControlLimitListData'', ''LoadControlLimitDescriptionListData'', ''LoadControlLimitConstraintsListData''],
        fs_entities = [''EVSE'']\<rparr>),
     (''LPP'', \<lparr>fs_functions = [''LoadControlLimitListData'', ''LoadControlLimitDescriptionListData'', ''LoadControlLimitConstraintsListData''],
        fs_entities = []\<rparr>),
     (''MPC'', \<lparr>fs_functions = [''MeasurementListData'', ''MeasurementDescriptionListData'', ''MeasurementConstraintsListData''],
        fs_entities = [''EVSE'', ''EV'']\<rparr>),
     (''MGCP'', \<lparr>fs_functions = [''MeasurementListData'', ''MeasurementDescriptionListData'', ''MeasurementConstraintsListData''],
        fs_entities = []\<rparr>),
     (''EVCC'', \<lparr>fs_functions = [''DeviceConfigurationKeyValueListData'', ''DeviceConfigurationKeyValueDescriptionListData'', ''IdentificationListData''],
        fs_entities = [''EV'']\<rparr>),
     (''MOB'', \<lparr>fs_functions = [''MeasurementListData'', ''MeasurementDescriptionListData''],
        fs_entities = []\<rparr>),
     (''MOI'', \<lparr>fs_functions = [''MeasurementListData'', ''MeasurementDescriptionListData''],
        fs_entities = []\<rparr>),
     (''MOPVS'', \<lparr>fs_functions = [''MeasurementListData'', ''MeasurementDescriptionListData''],
        fs_entities = []\<rparr>),
     (''OPEV'', \<lparr>fs_functions = [''LoadControlLimitListData'', ''LoadControlLimitDescriptionListData'', ''LoadControlLimitConstraintsListData''],
        fs_entities = [''EV'']\<rparr>),
     (''DBEVC'', \<lparr>fs_functions = [''SetpointListData'', ''SetpointDescriptionListData'', ''SetpointConstraintsListData''],
        fs_entities = [''EV'']\<rparr>)]"

section \<open>Reading the announcement\<close>

record uc_support =
  us_name :: "string option"
  us_version :: "string option"
  us_available :: "bool option"
  us_scenarios :: "nat list"

type_synonym uc_info = "string option \<times> uc_support list"

definition un_uc_support :: "string \<Rightarrow> uc_support option" where
  "un_uc_support s = do { m \<leftarrow> un_map s;
     n \<leftarrow> fld_ptr un_string m ''useCaseName'';
     v \<leftarrow> fld_ptr un_string m ''useCaseVersion'';
     a \<leftarrow> fld_ptr un_bool m ''useCaseAvailable'';
     sc \<leftarrow> fld_val (un_list un_uint_val) [] m ''scenarioSupport'';
     Some \<lparr>us_name = n, us_version = v, us_available = a, us_scenarios = sc\<rparr> }"

definition un_uc_info :: "string \<Rightarrow> uc_info option" where
  "un_uc_info s = do { m \<leftarrow> un_map s;
     _ \<leftarrow> fld_ptr (\<lambda>t. do { d \<leftarrow> un_map t; fld_ptr un_string d ''device'' }) m ''address'';
     actor \<leftarrow> fld_ptr un_string m ''actor'';
     sup \<leftarrow> fld_val (un_list un_uc_support) [] m ''useCaseSupport'';
     Some (actor, sup) }"

definition parseJSONArrayOrSingle :: "(string \<Rightarrow> 'a option) \<Rightarrow> string \<Rightarrow> string \<Rightarrow> 'a list" where
  "parseJSONArrayOrSingle un data field =
     (case do { obj \<leftarrow> un_map data; jget obj field } of
        None \<Rightarrow> []
      | Some raw \<Rightarrow>
        (let t = trim_space raw in
         if t = [] then []
         else if hd t = CHR ''['' then (case un_list un raw of Some xs \<Rightarrow> xs | None \<Rightarrow> [])
         else if hd t = CHR ''{'' then (case un raw of Some x \<Rightarrow> [x] | None \<Rightarrow> [])
         else []))"

definition use_case_of :: "uc_support \<Rightarrow> use_case option" where
  "use_case_of u = (case us_name u of
       None \<Rightarrow> None
     | Some name \<Rightarrow> Some \<lparr>uc_name = name,
         uc_abbr = (case map_of useCaseAbbreviations name of Some a \<Rightarrow> a | None \<Rightarrow> name),
         uc_version = or_empty (us_version u),
         uc_available = (case us_available u of None \<Rightarrow> True | Some b \<Rightarrow> b),
         uc_scenarios = us_scenarios u\<rparr>)"

definition uc_groups :: "string \<Rightarrow> (string \<times> use_case list) list" where
  "uc_groups cmd =
     (case do { m \<leftarrow> un_map cmd; jget m ''nodeManagementUseCaseData'' } of
        None \<Rightarrow> []
      | Some raw \<Rightarrow> filter (\<lambda>g. snd g \<noteq> [])
          (map (\<lambda>i. (or_empty (fst i), List.map_filter use_case_of (snd i)))
            (parseJSONArrayOrSingle un_uc_info raw ''useCaseInformation'')))"

definition extractUseCaseData :: "string \<Rightarrow> (string \<times> use_case list) list" where
  "extractUseCaseData s = concat (map uc_groups (extractCmds s))"

type_synonym actor_key = "string \<times> string"

definition uc_device :: "message \<Rightarrow> string" where
  "uc_device m = (if m_dev_src m = [] then m_src_addr m else m_dev_src m)"

definition uc_entries :: "message \<Rightarrow> device_use_cases list" where
  "uc_entries m =
     (if m_fn m \<noteq> ''NodeManagementUseCaseData'' \<or> \<not> is_snapshot m \<or> m_spine m = [] then []
      else map (\<lambda>(actor, ucs). \<lparr>du_device = uc_device m, du_actor = actor, du_cases = ucs, du_msg = m_id m\<rparr>)
             (extractUseCaseData (m_spine m)))"

definition actor_key_of :: "device_use_cases \<Rightarrow> actor_key" where
  "actor_key_of d = (du_device d, du_actor d)"

definition put_use_cases :: "device_use_cases \<Rightarrow> (actor_key, device_use_cases) omap \<Rightarrow> (actor_key, device_use_cases) omap" where
  "put_use_cases d s = om_put (actor_key_of d)
     ((case om_get s (actor_key_of d) of
         None \<Rightarrow> \<lparr>du_device = du_device d, du_actor = du_actor d, du_cases = [], du_msg = du_msg d\<rparr>
       | Some e \<Rightarrow> e)\<lparr>du_cases := du_cases d, du_msg := du_msg d\<rparr>) s"

definition DetectUseCases :: "message list \<Rightarrow> device_use_cases list" where
  "DetectUseCases msgs = om_values (fold put_use_cases (concat (map uc_entries msgs)) om_empty)"

section \<open>Dependency tree\<close>

record feature_node =
  fn_address :: string
  fn_type :: string
  fn_role :: string
  fn_functions :: "string list"

record entity_node =
  en_address :: string
  en_type :: string
  en_features :: "feature_node list"

record device_info =
  di_addr :: string
  di_entities :: "entity_node list"
  di_last_disc :: int

record feature_tree =
  ft_address :: string
  ft_type :: string
  ft_role :: string
  ft_cases :: "string list"
  ft_functions :: "string list"

record entity_tree =
  et_address :: string
  et_type :: string
  et_features :: "feature_tree list"

record device_tree =
  dt_addr :: string
  dt_short :: string
  dt_entities :: "entity_tree list"

record dep_edge =
  ed_client_dev :: string
  ed_client_feat :: string
  ed_server_dev :: string
  ed_server_feat :: string
  ed_type :: string
  ed_active :: bool

text \<open>The text after the last underscore; else the address without its port.\<close>

definition ShortDeviceName :: "string \<Rightarrow> string" where
  "ShortDeviceName addr =
     (case last_index ''_'' addr of
        Some i \<Rightarrow> drop (i + 1) addr
      | None \<Rightarrow>
        (case last_index '']'' addr of
           Some b \<Rightarrow> (case str_index '':'' (drop b addr) of
               Some c \<Rightarrow> take (b + c) addr | None \<Rightarrow> addr)
         | None \<Rightarrow>
           (case last_index '':'' addr of
              Some c \<Rightarrow>
                (let port = drop (c + 1) addr
                 in if port \<noteq> [] \<and> is_digit (hd port) then take c addr else addr)
            | None \<Rightarrow> addr)))"

definition matchesEntityType :: "string \<Rightarrow> string list \<Rightarrow> bool" where
  "matchesEntityType entityType allowed \<longleftrightarrow>
     allowed = [] \<or> list_ex (\<lambda>a. equal_fold a entityType) allowed"

definition hasIntersection :: "string list \<Rightarrow> string list \<Rightarrow> bool" where
  "hasIntersection a b \<longleftrightarrow> list_ex (\<lambda>s. to_lower s \<in> set (map to_lower b)) a"

definition uc_supports :: "string \<Rightarrow> string list \<Rightarrow> string \<Rightarrow> bool" where
  "uc_supports entityType functions abbr =
     (case map_of UseCaseFunctionSets abbr of
        None \<Rightarrow> False
      | Some spec \<Rightarrow> matchesEntityType entityType (fs_entities spec)
          \<and> hasIntersection functions (fs_functions spec))"

definition feature_tree_of :: "string list \<Rightarrow> string \<Rightarrow> feature_node \<Rightarrow> feature_tree" where
  "feature_tree_of ucs entityType f =
     \<lparr>ft_address = fn_address f, ft_type = fn_type f, ft_role = fn_role f,
      ft_cases = filter (uc_supports entityType (fn_functions f)) ucs, ft_functions = fn_functions f\<rparr>"

definition device_tree_of :: "string list \<Rightarrow> device_info \<Rightarrow> device_tree" where
  "device_tree_of ucs d =
     \<lparr>dt_addr = di_addr d, dt_short = ShortDeviceName (di_addr d),
      dt_entities = map (\<lambda>e. \<lparr>et_address = en_address e, et_type = en_type e,
         et_features = map (feature_tree_of ucs (en_type e)) (en_features e)\<rparr>) (di_entities d)\<rparr>"

definition sub_edge :: "sub_entry \<Rightarrow> dep_edge" where
  "sub_edge s = \<lparr>ed_client_dev = su_client_dev s, ed_client_feat = su_client_feat s,
     ed_server_dev = su_server_dev s, ed_server_feat = su_server_feat s,
     ed_type = ''subscription'', ed_active = su_active s\<rparr>"

definition bind_edge :: "bind_entry \<Rightarrow> dep_edge" where
  "bind_edge b = \<lparr>ed_client_dev = bi_client_dev b, ed_client_feat = bi_client_feat b,
     ed_server_dev = bi_server_dev b, ed_server_feat = bi_server_feat b,
     ed_type = ''binding'', ed_active = bi_active b\<rparr>"

definition BuildDependencyTree ::
  "(string list \<Rightarrow> string list) \<Rightarrow> device_use_cases list \<Rightarrow> device_info list \<Rightarrow> sub_entry list
   \<Rightarrow> bind_entry list \<Rightarrow> device_tree list \<times> dep_edge list" where
  "BuildDependencyTree visit useCases devices subs binds =
     (let ucs = visit (first_seen (map uc_abbr (concat (map du_cases useCases))))
      in (map (device_tree_of ucs) devices, map sub_edge subs @ map bind_edge binds))"

section \<open>Lemmas\<close>

lemma last_index_char_None: "last_index [d] s = None \<longleftrightarrow> d \<notin> set s"
  by (induction s) (auto split: option.splits simp: has_prefix_def)

lemma last_index_char: "d \<notin> set b \<Longrightarrow> last_index [d] (a @ d # b) = Some (length a)"
proof (induction a)
  case Nil
  then show ?case using last_index_char_None [of d b] by (auto simp: has_prefix_def split: option.splits)
qed auto

lemma str_index_char: "d \<notin> set a \<Longrightarrow> str_index [d] (a @ d # b) = Some (length a)"
  by (induction a) (auto simp: has_prefix_def)

lemma put_use_cases_eq:
  assumes "\<And>e. om_get s (actor_key_of d) = Some e \<Longrightarrow> actor_key_of e = actor_key_of d"
  shows "put_use_cases d s = om_put (actor_key_of d) d s"
proof (cases "om_get s (actor_key_of d)")
  case (Some e)
  then have "e\<lparr>du_cases := du_cases d, du_msg := du_msg d\<rparr> = d"
    using assms [OF Some] by (simp add: actor_key_of_def)
  then show ?thesis using Some by (simp add: put_use_cases_def)
next
  case None
  then show ?thesis by (cases d) (simp add: put_use_cases_def actor_key_of_def)
qed

lemma fold_put_use_cases:
  "(\<And>k e. om_get s k = Some e \<Longrightarrow> actor_key_of e = k) \<Longrightarrow>
   fold put_use_cases ds s = fold (\<lambda>d. om_put (actor_key_of d) d) ds s"
proof (induction ds arbitrary: s)
  case (Cons d ds)
  have eq: "put_use_cases d s = om_put (actor_key_of d) d s"
    by (rule put_use_cases_eq) (rule Cons.prems)
  have "\<And>k e. om_get (om_put (actor_key_of d) d s) k = Some e \<Longrightarrow> actor_key_of e = k"
    using Cons.prems by (auto simp: om.get_put split: if_splits)
  then show ?case using Cons.IH eq by simp
qed simp

lemma detect_eq:
  "DetectUseCases msgs =
     map (\<lambda>k. last (filter (\<lambda>d. actor_key_of d = k) (concat (map uc_entries msgs))))
       (first_seen (map actor_key_of (concat (map uc_entries msgs))))"
proof -
  let ?ds = "concat (map uc_entries msgs)"
  let ?s = "fold (\<lambda>d. om_put (actor_key_of d) d) ?ds om_empty"
  have s: "fold put_use_cases ?ds om_empty = ?s"
    by (rule fold_put_use_cases) (simp add: om.get_empty)
  have keys: "om_keys ?s = first_seen (map actor_key_of ?ds)"
    using om.keys_fold [OF om.wf_empty, of actor_key_of "\<lambda>d. d" ?ds] by (simp add: om.keys_empty)
  have "the (om_get ?s k) = last (filter (\<lambda>d. actor_key_of d = k) ?ds)" if "k \<in> actor_key_of ` set ?ds" for k
    using om.get_fold_last [OF that, of "\<lambda>d. d" om_empty] by simp
  then show ?thesis unfolding DetectUseCases_def om_values_eq s keys by (intro map_cong) auto
qed

lemma edges_of_tree:
  "snd (BuildDependencyTree visit ucs ds subs binds) = map sub_edge subs @ map bind_edge binds"
  by (simp add: BuildDependencyTree_def Let_def)

section \<open>Properties\<close>

text \<open>Every device and actor that announced use cases appears once, in the order of the first
  announcement, with the use cases and the message of its last announcement.\<close>

theorem use_cases_last_announcement:
  "map actor_key_of (DetectUseCases msgs) = first_seen (map actor_key_of (concat (map uc_entries msgs))) \<and>
   (\<forall>d \<in> set (DetectUseCases msgs). \<exists>before after. concat (map uc_entries msgs) = before @ d # after
      \<and> (\<forall>e \<in> set after. actor_key_of e \<noteq> actor_key_of d))"
proof -
  let ?ds = "concat (map uc_entries msgs)"
  have last: "\<exists>before after. ?ds = before @ last (filter (\<lambda>d. actor_key_of d = k) ?ds) # after
      \<and> (\<forall>e \<in> set after. actor_key_of e \<noteq> k) \<and> actor_key_of (last (filter (\<lambda>d. actor_key_of d = k) ?ds)) = k"
    if "k \<in> actor_key_of ` set ?ds" for k
  proof -
    from that obtain d where "d \<in> set ?ds" "actor_key_of d = k" by auto
    then obtain b x a where x: "?ds = b @ x # a" "actor_key_of x = k" "\<forall>e \<in> set a. actor_key_of e \<noteq> k"
      using split_list_last_prop [of ?ds "\<lambda>d. actor_key_of d = k"] by blast
    then have "filter (\<lambda>d. actor_key_of d = k) a = []" by (simp add: filter_empty_conv)
    with x show ?thesis by (intro exI [of _ b] exI [of _ a]) simp
  qed
  have "actor_key_of (last (filter (\<lambda>d. actor_key_of d = k) ?ds)) = k" if "k \<in> set (first_seen (map actor_key_of ?ds))" for k
    using last [of k] that by auto
  then have "map (actor_key_of \<circ> (\<lambda>k. last (filter (\<lambda>d. actor_key_of d = k) ?ds))) (first_seen (map actor_key_of ?ds))
      = first_seen (map actor_key_of ?ds)" by (intro map_idI) simp
  moreover have "\<forall>d \<in> set (DetectUseCases msgs). \<exists>before after. ?ds = before @ d # after
      \<and> (\<forall>e \<in> set after. actor_key_of e \<noteq> actor_key_of d)"
    using last unfolding detect_eq by fastforce
  ultimately show ?thesis unfolding detect_eq by simp
qed

definition sample_uc :: message where
  "sample_uc = empty_message\<lparr>m_fn := ''NodeManagementUseCaseData'', m_classifier := ''reply'',
     m_dev_src := ''d'', m_spine := dg_text ''{}'' ''{\"nodeManagementUseCaseData\":{\"useCaseInformation\":{\"actor\":\"CEM\",\"useCaseSupport\":[{\"useCaseName\":\"x\"}]}}}''\<rparr>"

theorem use_cases_last_announcement_witness:
  "map actor_key_of (DetectUseCases [sample_uc]) = [(''d'', ''CEM'')]"
proof -
  have "map actor_key_of (concat (map uc_entries [sample_uc])) = [(''d'', ''CEM'')]" by code_simp
  then show ?thesis using use_cases_last_announcement [of "[sample_uc]"] by simp
qed

text \<open>The short name of a device is what follows the last underscore of a SPINE address, the host
  of a \<open>host:port\<close> address, and the bracketed host of an IPv6 one.\<close>

theorem ShortDeviceName_forms:
  "(CHR ''_'' \<notin> set b \<longrightarrow> ShortDeviceName (a @ ''_'' @ b) = b) \<and>
   (set host \<inter> set ''_]'' = {} \<longrightarrow> ShortDeviceName (host @ '':'' @ nat_str port) = host) \<and>
   (set host \<inter> set ''_]'' = {} \<longrightarrow>
      ShortDeviceName (''['' @ host @ '']:'' @ nat_str port) = ''['' @ host @ '']'')"
proof -
  have nd: "c \<notin> set (nat_str port)" if "\<not> is_digit c" for c using set_nat_str that by blast
  have d: "CHR ''_'' \<notin> set (nat_str port)" "CHR '']'' \<notin> set (nat_str port)" "CHR '':'' \<notin> set (nat_str port)"
    by (rule nd; simp add: is_digit_def)+
  obtain c r where p: "nat_str port = c # r" by (cases "nat_str port") auto
  then have dig: "is_digit c" by (rule nat_str_hd_digit)
  have one: "ShortDeviceName (a @ ''_'' @ b) = b" if "CHR ''_'' \<notin> set b"
    using last_index_char [OF that, of a] by (simp add: ShortDeviceName_def)
  have two: "ShortDeviceName (host @ '':'' @ nat_str port) = host" if "set host \<inter> set ''_]'' = {}"
  proof -
    have "CHR ''_'' \<notin> set (host @ '':'' @ nat_str port)" "CHR '']'' \<notin> set (host @ '':'' @ nat_str port)"
      using that d by auto
    then have "last_index ''_'' (host @ '':'' @ nat_str port) = None" "last_index '']'' (host @ '':'' @ nat_str port) = None"
      using last_index_char_None by blast+
    then show ?thesis using last_index_char [OF d(3), of host] p dig by (simp add: ShortDeviceName_def Let_def)
  qed
  have three: "ShortDeviceName (''['' @ host @ '']:'' @ nat_str port) = ''['' @ host @ '']''"
    if "set host \<inter> set ''_]'' = {}"
  proof -
    let ?s = "''['' @ host @ '']:'' @ nat_str port"
    have "CHR ''_'' \<notin> set ?s" using that d by auto
    then have "last_index ''_'' ?s = None" using last_index_char_None by blast
    moreover have "CHR '']'' \<notin> set ('':'' @ nat_str port)" using d by auto
    then have "last_index '']'' ?s = Some (Suc (length host))"
      using last_index_char [of "CHR '']''" "'':'' @ nat_str port" "''['' @ host"] by simp
    ultimately show ?thesis by (simp add: ShortDeviceName_def)
  qed
  from one two three show ?thesis by blast
qed

theorem ShortDeviceName_forms_witness:
  "ShortDeviceName (''d:_i:37916'' @ ''_'' @ ''CEM-400'') = ''CEM-400''
   \<and> ShortDeviceName (''10.0.0.1'' @ '':'' @ nat_str 4712) = ''10.0.0.1''"
  using ShortDeviceName_forms [of "''CEM-400''" "''d:_i:37916''" "''10.0.0.1''" 4712] by simp

text \<open>A feature of the tree lists exactly the announced use cases whose entity types and function
  sets it fits, whatever order the map is visited in; devices, entities and features keep their
  order, and every subscription and binding gives one edge.\<close>

theorem dependency_tree_shape:
  assumes "\<And>xs. set (visit xs) = set xs"
  shows "map dt_addr (fst (BuildDependencyTree visit ucs ds subs binds)) = map di_addr ds \<and>
    length (snd (BuildDependencyTree visit ucs ds subs binds)) = length subs + length binds \<and>
    (\<forall>i < length ds. \<forall>j < length (di_entities (ds ! i)). \<forall>k < length (en_features (di_entities (ds ! i) ! j)).
       let e = di_entities (ds ! i) ! j; f = en_features e ! k;
           t = et_features (dt_entities (fst (BuildDependencyTree visit ucs ds subs binds) ! i) ! j) ! k
       in ft_address t = fn_address f \<and>
          set (ft_cases t) = {a. (\<exists>d \<in> set ucs. \<exists>u \<in> set (du_cases d). uc_abbr u = a)
             \<and> uc_supports (en_type e) (fn_functions f) a})"
  by (auto simp: BuildDependencyTree_def Let_def device_tree_of_def feature_tree_of_def assms)

theorem dependency_tree_shape_witness:
  "map dt_addr (fst (BuildDependencyTree rev [] [\<lparr>di_addr = ''a'', di_entities = [], di_last_disc = 0\<rparr>] [] []))
     = [''a'']"
proof -
  have r: "\<And>xs :: string list. set (rev xs) = set xs" by simp
  show ?thesis
    using dependency_tree_shape [of rev "[]" "[\<lparr>di_addr = ''a'', di_entities = [], di_last_disc = 0\<rparr>]" "[]" "[]", OF r]
    by simp
qed

end
