(* ===== verification/Lifecycle.thy ===== *)
theory Lifecycle
  imports UseCases
begin

text \<open>
  \<open>internal/analysis/lifecycle.go\<close> and \<open>flow.go\<close>: the five-step checklist of every announced use case,
  and the participants and request/response pairs of a message flow. \<open>fmt.Sprintf\<close> with \<open>%d\<close> and \<open>%s\<close>
  is concatenation; \<open>%q\<close> is \<open>go_quote\<close>.
\<close>

section \<open>Lifecycle\<close>

record lifecycle_spec =
  ls_subs :: "string list"
  ls_binds :: "string list"

definition UseCaseLifecycleSpecs :: "(string \<times> lifecycle_spec) list" where
  "UseCaseLifecycleSpecs =
    [(''LPC'', \<lparr>ls_subs = [''LoadControl''], ls_binds = [''LoadControl'']\<rparr>),
     (''LPP'', \<lparr>ls_subs = [''LoadControl''], ls_binds = [''LoadControl'']\<rparr>),
     (''MPC'', \<lparr>ls_subs = [''Measurement''], ls_binds = []\<rparr>),
     (''MGCP'', \<lparr>ls_subs = [''Measurement''], ls_binds = []\<rparr>),
     (''EVCC'', \<lparr>ls_subs = [''DeviceConfiguration''], ls_binds = []\<rparr>),
     (''OPEV'', \<lparr>ls_subs = [''LoadControl''], ls_binds = [''LoadControl'']\<rparr>),
     (''DBEVC'', \<lparr>ls_subs = [''Setpoint''], ls_binds = [''Setpoint'']\<rparr>),
     (''MOB'', \<lparr>ls_subs = [''Measurement''], ls_binds = []\<rparr>),
     (''MOI'', \<lparr>ls_subs = [''Measurement''], ls_binds = []\<rparr>),
     (''MOPVS'', \<lparr>ls_subs = [''Measurement''], ls_binds = []\<rparr>)]"

datatype step_status = StepPass | StepFail | StepPartial | StepNA | StepPending

record lifecycle_step =
  ls_name :: string
  ls_status :: step_status
  ls_details :: string
  ls_msg :: int

record connection_info =
  ci_src :: string
  ci_dst :: string
  ci_state :: string
  ci_last :: int

record lifecycle =
  lc_device :: string
  lc_short :: string
  lc_abbr :: string
  lc_name :: string
  lc_available :: bool
  lc_steps :: "lifecycle_step list"
  lc_overall :: step_status

text \<open>\<open>strconv.Quote\<close> on ASCII bytes; bytes of longer sequences are kept.\<close>

definition go_quote_char :: "char \<Rightarrow> string" where
  "go_quote_char c =
     (if c = CHR 0x22 \<or> c = CHR 0x5C then [CHR 0x5C, c]
      else if c = CHR 0x07 then [CHR 0x5C, CHR ''a'']
      else if c = CHR 0x08 then [CHR 0x5C, CHR ''b'']
      else if c = CHR 0x0C then [CHR 0x5C, CHR ''f'']
      else if c = CHR 0x0A then [CHR 0x5C, CHR ''n'']
      else if c = CHR 0x0D then [CHR 0x5C, CHR ''r'']
      else if c = CHR 0x09 then [CHR 0x5C, CHR ''t'']
      else if c = CHR 0x0B then [CHR 0x5C, CHR ''v'']
      else if ord c < 32 \<or> ord c = 127 then CHR 0x5C # CHR ''x'' # hex_byte c
      else [c])"

definition go_quote :: "string \<Rightarrow> string" where
  "go_quote s = CHR 0x22 # concat (map go_quote_char s) @ [CHR 0x22]"

fun first_connection :: "string \<Rightarrow> connection_info list \<Rightarrow> connection_info option" where
  "first_connection dev [] = None"
| "first_connection dev (c # cs) =
     (if ci_src c \<noteq> dev \<and> ci_dst c \<noteq> dev then first_connection dev cs else Some c)"

definition evaluateHandshake :: "string \<Rightarrow> connection_info list \<Rightarrow> lifecycle_step" where
  "evaluateHandshake dev conns = (case first_connection dev conns of
       None \<Rightarrow> \<lparr>ls_name = ''SHIP Handshake'', ls_status = StepPending,
                 ls_details = ''No connection data observed'', ls_msg = 0\<rparr>
     | Some c \<Rightarrow> if ci_state c = ''data''
         then \<lparr>ls_name = ''SHIP Handshake'', ls_status = StepPass,
                ls_details = ''Connection reached data state'', ls_msg = ci_last c\<rparr>
         else \<lparr>ls_name = ''SHIP Handshake'', ls_status = StepFail,
                ls_details = ''Connection at '' @ go_quote (ci_state c) @ '' state'', ls_msg = ci_last c\<rparr>)"

text \<open>The three outcomes of counting which of the required names are present.\<close>

definition tally_status :: "('a \<Rightarrow> bool) \<Rightarrow> 'a list \<Rightarrow> step_status" where
  "tally_status has reqs =
     (let found = length (filter has reqs) in
      if found = length reqs then StepPass else if 0 < found then StepPartial else StepFail)"

definition tally_details :: "string \<Rightarrow> (string \<Rightarrow> bool) \<Rightarrow> string list \<Rightarrow> string" where
  "tally_details what has reqs =
     (let found = length (filter has reqs); missing = filter (\<lambda>r. \<not> has r) reqs in
      if found = length reqs then ''All '' @ nat_str found @ what
      else if 0 < found then nat_str found @ '' of '' @ nat_str (length reqs) @ what @ ''; missing: '' @ join '', '' missing
      else ''0 of '' @ nat_str (length reqs) @ what @ ''; missing: '' @ join '', '' missing)"

definition discovered_functions :: "string \<Rightarrow> string list \<Rightarrow> device_info list \<Rightarrow> string list" where
  "discovered_functions dev types devices =
     concat (map (\<lambda>d. concat (map (\<lambda>e. concat (map fn_functions (en_features e)))
       (filter (\<lambda>e. matchesEntityType (en_type e) types) (di_entities d))))
       (filter (\<lambda>d. di_addr d = dev) devices))"

definition evaluateDiscovery :: "string \<Rightarrow> string \<Rightarrow> device_info list \<Rightarrow> lifecycle_step" where
  "evaluateDiscovery dev abbr devices =
     (case map_of UseCaseFunctionSets abbr of
        None \<Rightarrow> \<lparr>ls_name = ''Feature Discovery'', ls_status = StepPending,
                  ls_details = ''No function set mapping for this use case'', ls_msg = 0\<rparr>
      | Some spec \<Rightarrow>
        if fs_functions spec = [] then
          \<lparr>ls_name = ''Feature Discovery'', ls_status = StepPending,
           ls_details = ''No function set mapping for this use case'', ls_msg = 0\<rparr>
        else
          (let own = filter (\<lambda>d. di_addr d = dev) devices;
               have = map to_lower (discovered_functions dev (fs_entities spec) devices);
               has = (\<lambda>r. to_lower r \<in> set have)
           in if own = [] then
                \<lparr>ls_name = ''Feature Discovery'', ls_status = StepPending,
                 ls_details = ''Device not found in discovery data'', ls_msg = 0\<rparr>
              else
                \<lparr>ls_name = ''Feature Discovery'', ls_status = tally_status has (fs_functions spec),
                 ls_details = tally_details '' function sets discovered'' has (fs_functions spec),
                 ls_msg = di_last_disc (last own)\<rparr>))"

definition evaluateAnnounced :: "use_case \<Rightarrow> int \<Rightarrow> lifecycle_step" where
  "evaluateAnnounced uc msg =
     (if uc_available uc
      then \<lparr>ls_name = ''UC Announced'', ls_status = StepPass, ls_details = ''Use case available'', ls_msg = msg\<rparr>
      else \<lparr>ls_name = ''UC Announced'', ls_status = StepFail,
             ls_details = ''Use case announced but not available'', ls_msg = msg\<rparr>)"

text \<open>The pass over subscriptions or bindings: (server device, active, server feature type, message id)
  of each; the set of active types and the message cited.\<close>

type_synonym link = "string \<times> bool \<times> string \<times> int"

definition link_step :: "string \<Rightarrow> link \<Rightarrow> string list \<times> int \<Rightarrow> string list \<times> int" where
  "link_step dev l st = (case (l, st) of ((server, active, ty, i), (types, mid)) \<Rightarrow>
     if server \<noteq> dev then (types, mid)
     else (let mid1 = (if mid = 0 then i else mid)
           in if active \<and> ty \<noteq> [] then (ty # types, i) else (types, mid1)))"

definition evaluate_links :: "string \<Rightarrow> string \<Rightarrow> string \<Rightarrow> string \<Rightarrow> string list \<Rightarrow> bool \<Rightarrow> link list \<Rightarrow> lifecycle_step" where
  "evaluate_links name none what dev reqs hasSpec links =
     (if \<not> hasSpec \<or> reqs = [] then
        \<lparr>ls_name = name, ls_status = StepNA, ls_details = none, ls_msg = 0\<rparr>
      else (case fold (link_step dev) links ([], 0) of (types, mid) \<Rightarrow>
        \<lparr>ls_name = name, ls_status = tally_status (\<lambda>r. r \<in> set types) reqs,
         ls_details = tally_details what (\<lambda>r. r \<in> set types) reqs, ls_msg = mid\<rparr>))"

definition evaluateSubscriptions :: "string \<Rightarrow> lifecycle_spec \<Rightarrow> bool \<Rightarrow> sub_entry list \<Rightarrow> lifecycle_step" where
  "evaluateSubscriptions dev spec hasSpec subs =
     evaluate_links ''Subscriptions'' ''No subscriptions required'' '' subscriptions active'' dev
       (ls_subs spec) hasSpec (map (\<lambda>s. (su_server_dev s, su_active s, su_server_type s, su_msg s)) subs)"

definition evaluateBindings :: "string \<Rightarrow> lifecycle_spec \<Rightarrow> bool \<Rightarrow> bind_entry list \<Rightarrow> lifecycle_step" where
  "evaluateBindings dev spec hasSpec binds =
     evaluate_links ''Bindings'' ''No bindings required'' '' bindings active'' dev
       (ls_binds spec) hasSpec (map (\<lambda>b. (bi_server_dev b, bi_active b, bi_server_type b, bi_msg b)) binds)"

fun statusPriority :: "step_status \<Rightarrow> int" where
  "statusPriority StepPass = 0"
| "statusPriority StepPending = 1"
| "statusPriority StepPartial = 2"
| "statusPriority StepFail = 3"
| "statusPriority StepNA = -1"

definition computeOverallStatus :: "lifecycle_step list \<Rightarrow> step_status" where
  "computeOverallStatus steps =
     fold (\<lambda>s worst. if ls_status s = StepNA then worst
             else if statusPriority worst < statusPriority (ls_status s) then ls_status s else worst)
       steps StepPass"

definition EvaluateLifecycle ::
  "connection_info list \<Rightarrow> device_info list \<Rightarrow> sub_entry list \<Rightarrow> bind_entry list \<Rightarrow>
   device_use_cases \<Rightarrow> use_case \<Rightarrow> lifecycle" where
  "EvaluateLifecycle conns devs subs binds duc uc =
     (let found = map_of UseCaseLifecycleSpecs (uc_abbr uc);
          spec = (case found of None \<Rightarrow> \<lparr>ls_subs = [], ls_binds = []\<rparr> | Some s \<Rightarrow> s);
          steps = [evaluateHandshake (du_device duc) conns,
                   evaluateDiscovery (du_device duc) (uc_abbr uc) devs,
                   evaluateAnnounced uc (du_msg duc),
                   evaluateSubscriptions (du_device duc) spec (found \<noteq> None) subs,
                   evaluateBindings (du_device duc) spec (found \<noteq> None) binds]
      in \<lparr>lc_device = du_device duc, lc_short = ShortDeviceName (du_device duc),
          lc_abbr = uc_abbr uc, lc_name = uc_name uc, lc_available = uc_available uc,
          lc_steps = steps, lc_overall = computeOverallStatus steps\<rparr>)"

definition EvaluateLifecycles ::
  "connection_info list \<Rightarrow> device_info list \<Rightarrow> device_use_cases list \<Rightarrow> sub_entry list \<Rightarrow> bind_entry list \<Rightarrow>
   lifecycle list" where
  "EvaluateLifecycles conns devs ucs subs binds =
     concat (map (\<lambda>duc. map (EvaluateLifecycle conns devs subs binds duc) (du_cases duc)) ucs)"

section \<open>Message flow\<close>

record flow_participant =
  fp_addr :: string
  fp_short :: string

definition add_participant :: "string \<Rightarrow> flow_participant list \<times> string set \<Rightarrow> flow_participant list \<times> string set" where
  "add_participant addr st = (if addr = [] \<or> addr \<in> snd st then st
     else (fst st @ [\<lparr>fp_addr = addr, fp_short = ShortDeviceName addr\<rparr>], insert addr (snd st)))"

definition flow_ends :: "summary \<Rightarrow> string list" where
  "flow_ends s = (if s_dev_src s = [] \<and> s_dev_dst s = [] then [s_src_addr s, s_dst_addr s]
     else [s_dev_src s, s_dev_dst s])"

definition ExtractFlowParticipants :: "summary list \<Rightarrow> flow_participant list" where
  "ExtractFlowParticipants ss = fst (fold add_participant (concat (map flow_ends ss)) ([], {}))"

record correlation_pair =
  cp_request :: int
  cp_response :: int
  cp_req_index :: nat
  cp_resp_index :: nat
  cp_latency :: rat
  cp_relation :: string

definition classifyRelationship :: "string \<Rightarrow> string \<Rightarrow> string" where
  "classifyRelationship req resp = req @ ''-'' @ resp"

definition counter_index :: "summary list \<Rightarrow> string \<Rightarrow> nat option" where
  "counter_index ss = fold (\<lambda>(i, s) m. if s_ctr s \<noteq> [] then m(s_ctr s \<mapsto> i) else m) (enumerate 0 ss) (\<lambda>_. None)"

definition latency_ms :: "time \<Rightarrow> time \<Rightarrow> rat" where
  "latency_ms t u = of_int (time_sub t u) / 10 ^ 6"

definition pair_of :: "summary list \<Rightarrow> nat \<times> summary \<Rightarrow> correlation_pair option" where
  "pair_of ss is = (case is of (i, s) \<Rightarrow>
     if s_ref s = [] then None
     else (case counter_index ss (s_ref s) of
         None \<Rightarrow> None
       | Some r \<Rightarrow> Some \<lparr>cp_request = s_id (ss ! r), cp_response = s_id s, cp_req_index = r, cp_resp_index = i,
             cp_latency = latency_ms (s_time s) (s_time (ss ! r)),
             cp_relation = classifyRelationship (s_classifier (ss ! r)) (s_classifier s)\<rparr>))"

definition BuildCorrelationPairs :: "summary list \<Rightarrow> correlation_pair list" where
  "BuildCorrelationPairs ss = List.map_filter (pair_of ss) (enumerate 0 ss)"

section \<open>Lemmas: lifecycle\<close>

lemma priority_inj: "statusPriority a = statusPriority b \<longleftrightarrow> a = b"
  by (cases a; cases b) simp_all

definition worse :: "lifecycle_step \<Rightarrow> step_status \<Rightarrow> step_status" where
  "worse s w = (if ls_status s = StepNA then w
     else if statusPriority w < statusPriority (ls_status s) then ls_status s else w)"

lemma overall_eq: "computeOverallStatus steps = fold worse steps StepPass"
  by (simp add: computeOverallStatus_def worse_def [abs_def])

lemma priority_nonneg: "a \<noteq> StepNA \<Longrightarrow> 0 \<le> statusPriority a"
  by (cases a) simp_all

lemma worse_priority:
  "w \<noteq> StepNA \<Longrightarrow> worse s w \<noteq> StepNA \<and>
     statusPriority (worse s w) = max (statusPriority w) (statusPriority (ls_status s))"
  by (cases "ls_status s"; cases w) (simp_all add: worse_def)

lemma fold_worse:
  "w \<noteq> StepNA \<Longrightarrow> fold worse steps w \<noteq> StepNA \<and>
     statusPriority (fold worse steps w) = fold max (map (\<lambda>s. statusPriority (ls_status s)) steps) (statusPriority w)"
proof (induction steps arbitrary: w)
  case (Cons s steps)
  then show ?case using worse_priority [OF Cons.prems, of s] Cons.IH [of "worse s w"]
    by (simp add: max.commute)
qed simp

lemma fold_max_iff: "b \<le> fold max xs (a :: int) \<longleftrightarrow> b \<le> a \<or> (\<exists>x \<in> set xs. b \<le> x)"
  by (induction xs arbitrary: a) (auto simp: le_max_iff_disj)

lemma overall_at_least:
  "0 < b \<Longrightarrow> b \<le> statusPriority (computeOverallStatus steps) \<longleftrightarrow>
     (\<exists>s \<in> set steps. b \<le> statusPriority (ls_status s))"
  using fold_worse [of StepPass steps] by (auto simp: overall_eq fold_max_iff)

lemma overall_not_na: "computeOverallStatus steps \<noteq> StepNA"
  using fold_worse [of StepPass steps] by (simp add: overall_eq)

lemma status_levels:
  "3 \<le> statusPriority a \<longleftrightarrow> a = StepFail"
  "2 \<le> statusPriority a \<longleftrightarrow> a = StepFail \<or> a = StepPartial"
  "1 \<le> statusPriority a \<longleftrightarrow> a = StepFail \<or> a = StepPartial \<or> a = StepPending"
  by (cases a; simp)+

lemma filter_length_eq: "length (filter P xs) = length xs \<longleftrightarrow> (\<forall>x \<in> set xs. P x)"
  by (metis filter_True length_filter_less order_less_irrefl)

lemma tally_pass: "tally_status has reqs = StepPass \<longleftrightarrow> (\<forall>r \<in> set reqs. has r)"
  by (auto simp: tally_status_def Let_def filter_length_eq)

lemma tally_fail: "reqs \<noteq> [] \<Longrightarrow> tally_status has reqs = StepFail \<longleftrightarrow> (\<forall>r \<in> set reqs. \<not> has r)"
  by (auto simp: tally_status_def Let_def filter_length_eq filter_empty_conv)

lemma link_types:
  "set (fst (fold (link_step dev) links (tys, mid))) =
     set tys \<union> {ty. \<exists>i. (dev, True, ty, i) \<in> set links \<and> ty \<noteq> []}"
proof (induction links arbitrary: tys mid)
  case (Cons l links)
  obtain s a ty i where l: "l = (s, a, ty, i)" by (cases l) auto
  show ?case
  proof (cases "s = dev \<and> a \<and> ty \<noteq> []")
    case True
    then show ?thesis using Cons.IH [of "ty # tys" i] by (auto simp: l link_step_def)
  next
    case False
    then have "\<exists>m. link_step dev l (tys, mid) = (tys, m)" by (auto simp: l link_step_def Let_def)
    then obtain m where "link_step dev l (tys, mid) = (tys, m)" by blast
    then show ?thesis using Cons.IH [of tys m] False by (auto simp: l)
  qed
qed simp

lemma links_status:
  assumes "reqs \<noteq> []" and "hasSpec"
  shows "ls_status (evaluate_links n none w dev reqs hasSpec links) =
    tally_status (\<lambda>r. r \<noteq> [] \<and> (\<exists>i. (dev, True, r, i) \<in> set links)) reqs"
proof -
  obtain tys mid where f: "fold (link_step dev) links ([], 0) = (tys, mid)" by fastforce
  then have "set tys = {ty. \<exists>i. (dev, True, ty, i) \<in> set links \<and> ty \<noteq> []}"
    using link_types [of dev links "[]" 0] by simp
  then have "(\<lambda>r. r \<in> set tys) = (\<lambda>r. r \<noteq> [] \<and> (\<exists>i. (dev, True, r, i) \<in> set links))" by auto
  then show ?thesis using assms f by (simp add: evaluate_links_def)
qed

section \<open>Lemmas: flow\<close>

lemma participants_gen:
  "snd st = set (map fp_addr (fst st)) \<Longrightarrow>
   fst (fold add_participant as st) = fst st @ map (\<lambda>a. \<lparr>fp_addr = a, fp_short = ShortDeviceName a\<rparr>)
     (filter (\<lambda>a. a \<notin> snd st) (first_seen (filter (\<lambda>a. a \<noteq> []) as)))"
proof (induction as arbitrary: st)
  case (Cons a as)
  show ?case
  proof (cases "a = [] \<or> a \<in> snd st")
    case True
    then have s: "add_participant a st = st" by (simp add: add_participant_def)
    have "a \<noteq> [] \<Longrightarrow> (\<lambda>x. x \<noteq> a \<and> x \<notin> snd st) = (\<lambda>x. x \<notin> snd st)" using True by auto
    then show ?thesis using Cons.IH [OF Cons.prems] s True by (cases "a = []") simp_all
  next
    case False
    let ?st = "add_participant a st"
    have "snd ?st = set (map fp_addr (fst ?st))" using False Cons.prems by (simp add: add_participant_def)
    from Cons.IH [OF this] show ?thesis using False
      by (auto simp: add_participant_def intro!: filter_cong)
  qed
qed simp

lemma counter_index_gen:
  "fold (\<lambda>(i, s) m. if s_ctr s \<noteq> [] then m(s_ctr s \<mapsto> i) else m) (enumerate n ss) f c = Some r \<Longrightarrow>
     c \<noteq> [] \<Longrightarrow> f c = None \<Longrightarrow>
     n \<le> r \<and> r < n + length ss \<and> s_ctr (ss ! (r - n)) = c \<and>
     (\<forall>j. r < j \<and> j < n + length ss \<longrightarrow> s_ctr (ss ! (j - n)) \<noteq> c)"
proof (induction ss arbitrary: r rule: rev_induct)
  case (snoc s ss)
  show ?case
  proof (cases "s_ctr s = c")
    case True
    then show ?thesis using snoc.prems by (auto simp: enumerate_append_eq nth_append)
  next
    case False
    then have "fold (\<lambda>(i, s) m. if s_ctr s \<noteq> [] then m(s_ctr s \<mapsto> i) else m) (enumerate n ss) f c = Some r"
      using snoc.prems by (auto simp: enumerate_append_eq split: if_splits)
    from snoc.IH [OF this snoc.prems(2,3)] show ?thesis
      using False by (auto simp: nth_append)
  qed
qed simp

lemma counter_index_Some:
  assumes "counter_index ss c = Some r" and "c \<noteq> []"
  shows "r < length ss \<and> s_ctr (ss ! r) = c \<and> (\<forall>j. r < j \<and> j < length ss \<longrightarrow> s_ctr (ss ! j) \<noteq> c)"
  using counter_index_gen [of 0 ss "\<lambda>_. None" c r] assms by (simp add: counter_index_def)

lemma counter_index_None:
  assumes "c \<noteq> []"
  shows "counter_index ss c = None \<longleftrightarrow> (\<forall>s \<in> set ss. s_ctr s \<noteq> c)"
proof -
  have "fold (\<lambda>(i, s) m. if s_ctr s \<noteq> [] then m(s_ctr s \<mapsto> i) else m) (enumerate n ss) f c = None
      \<longleftrightarrow> f c = None \<and> (\<forall>s \<in> set ss. s_ctr s \<noteq> c)" for n f
    using assms by (induction ss arbitrary: n rule: rev_induct) (auto simp: enumerate_append_eq)
  then show ?thesis by (simp add: counter_index_def)
qed

section \<open>Properties\<close>

text \<open>The overall status is the worst of the steps that apply: it fails, is partial or pending
  exactly when that is the worst there is, it passes exactly when every step passes or does not apply,
  and it is never "not applicable".\<close>

theorem overall_status:
  "(computeOverallStatus steps = StepFail \<longleftrightarrow> (\<exists>s \<in> set steps. ls_status s = StepFail)) \<and>
   (computeOverallStatus steps \<in> {StepFail, StepPartial} \<longleftrightarrow>
      (\<exists>s \<in> set steps. ls_status s \<in> {StepFail, StepPartial})) \<and>
   (computeOverallStatus steps = StepPass \<longleftrightarrow> (\<forall>s \<in> set steps. ls_status s \<in> {StepPass, StepNA})) \<and>
   computeOverallStatus steps \<noteq> StepNA"
proof -
  let ?o = "computeOverallStatus steps"
  have "?o = StepFail \<longleftrightarrow> (\<exists>s \<in> set steps. ls_status s = StepFail)"
    using overall_at_least [of 3 steps] by (simp add: status_levels)
  moreover have "?o \<in> {StepFail, StepPartial} \<longleftrightarrow> (\<exists>s \<in> set steps. ls_status s \<in> {StepFail, StepPartial})"
    using overall_at_least [of 2 steps] by (simp add: status_levels)
  moreover have "?o = StepPass \<longleftrightarrow> (\<forall>s \<in> set steps. ls_status s \<in> {StepPass, StepNA})"
  proof -
    have "?o = StepPass \<longleftrightarrow> \<not> 1 \<le> statusPriority ?o" using overall_not_na [of steps] by (cases ?o) simp_all
    also have "\<dots> \<longleftrightarrow> (\<forall>s \<in> set steps. \<not> 1 \<le> statusPriority (ls_status s))"
      using overall_at_least [of 1 steps] by simp
    also have "\<dots> \<longleftrightarrow> (\<forall>s \<in> set steps. ls_status s \<in> {StepPass, StepNA})"
    proof (rule ball_cong [OF refl])
      fix s show "(\<not> 1 \<le> statusPriority (ls_status s)) = (ls_status s \<in> {StepPass, StepNA})"
        by (cases "ls_status s") simp_all
    qed
    finally show ?thesis .
  qed
  ultimately show ?thesis using overall_not_na by blast
qed

definition step_at :: "step_status \<Rightarrow> lifecycle_step" where
  "step_at s = \<lparr>ls_name = [], ls_status = s, ls_details = [], ls_msg = 0\<rparr>"

theorem overall_status_witness:
  "computeOverallStatus [step_at StepNA, step_at StepPass] = StepPass
   \<and> computeOverallStatus [step_at StepPending, step_at StepFail] = StepFail"
  using overall_status [of "[step_at StepNA, step_at StepPass]"]
    overall_status [of "[step_at StepPending, step_at StepFail]"] by (simp add: step_at_def)

text \<open>The subscription and binding steps of a use case with a specification pass exactly when every
  required server feature type has an active entry on the device, and fail exactly when none has; an
  entry of another device, or an inactive one, never counts.\<close>

theorem links_required:
  assumes "ls_subs spec \<noteq> []" and "ls_binds spec \<noteq> []"
    and "[] \<notin> set (ls_subs spec)" and "[] \<notin> set (ls_binds spec)"
  shows "(ls_status (evaluateSubscriptions dev spec True subs) = StepPass \<longleftrightarrow>
      (\<forall>r \<in> set (ls_subs spec). \<exists>s \<in> set subs. su_server_dev s = dev \<and> su_active s \<and> su_server_type s = r)) \<and>
    (ls_status (evaluateSubscriptions dev spec True subs) = StepFail \<longleftrightarrow>
      (\<forall>r \<in> set (ls_subs spec). \<not> (\<exists>s \<in> set subs. su_server_dev s = dev \<and> su_active s \<and> su_server_type s = r))) \<and>
    (ls_status (evaluateBindings dev spec True binds) = StepPass \<longleftrightarrow>
      (\<forall>r \<in> set (ls_binds spec). \<exists>b \<in> set binds. bi_server_dev b = dev \<and> bi_active b \<and> bi_server_type b = r))"
proof -
  have s: "(\<exists>i. (dev, True, r, i) \<in> set (map (\<lambda>s. (su_server_dev s, su_active s, su_server_type s, su_msg s)) subs))
      \<longleftrightarrow> (\<exists>s \<in> set subs. su_server_dev s = dev \<and> su_active s \<and> su_server_type s = r)" for r by force
  have b: "(\<exists>i. (dev, True, r, i) \<in> set (map (\<lambda>b. (bi_server_dev b, bi_active b, bi_server_type b, bi_msg b)) binds))
      \<longleftrightarrow> (\<exists>b \<in> set binds. bi_server_dev b = dev \<and> bi_active b \<and> bi_server_type b = r)" for r by force
  have e: "r \<noteq> []" if "r \<in> set (ls_subs spec) \<or> r \<in> set (ls_binds spec)" for r using that assms by auto
  show ?thesis
    unfolding evaluateSubscriptions_def evaluateBindings_def
      links_status [OF assms(1) TrueI] links_status [OF assms(2) TrueI] s b
      tally_pass tally_fail [OF assms(1)] using e by blast
qed

theorem links_required_witness:
  "ls_status (evaluateSubscriptions ''d'' \<lparr>ls_subs = [''LoadControl''], ls_binds = [''LoadControl'']\<rparr> True []) = StepFail"
  using links_required [of "\<lparr>ls_subs = [''LoadControl''], ls_binds = [''LoadControl'']\<rparr>" "''d''" "[]" "[]"] by simp

text \<open>The participants of a flow are the non-empty addresses its messages name, each once, in the
  order of first appearance.\<close>

theorem flow_participants:
  "ExtractFlowParticipants ss = map (\<lambda>a. \<lparr>fp_addr = a, fp_short = ShortDeviceName a\<rparr>)
     (first_seen (filter (\<lambda>a. a \<noteq> []) (concat (map flow_ends ss))))"
  using participants_gen [of "([], {})" "concat (map flow_ends ss)"] by (simp add: ExtractFlowParticipants_def)

text \<open>C7: a message with a counter reference is paired exactly when some message has that counter, and
  then with the last message of the flow that has it, whichever device sent it and wherever it stands:
  the request may come after the response, with a negative latency.\<close>

theorem correlation_pairs:
  assumes "i < length ss" and "s_ref (ss ! i) \<noteq> []"
  shows "(pair_of ss (i, ss ! i) = None \<longleftrightarrow> (\<forall>s \<in> set ss. s_ctr s \<noteq> s_ref (ss ! i))) \<and>
    (\<forall>p. pair_of ss (i, ss ! i) = Some p \<longrightarrow>
       p \<in> set (BuildCorrelationPairs ss) \<and> cp_resp_index p = i \<and> cp_req_index p < length ss \<and>
       s_ctr (ss ! cp_req_index p) = s_ref (ss ! i) \<and>
       (\<forall>j. cp_req_index p < j \<and> j < length ss \<longrightarrow> s_ctr (ss ! j) \<noteq> s_ref (ss ! i)) \<and>
       cp_latency p = latency_ms (s_time (ss ! i)) (s_time (ss ! cp_req_index p)))"
proof -
  have "(i, ss ! i) \<in> set (enumerate 0 ss)" using assms(1) by (auto simp: in_set_enumerate_eq)
  then have mem: "pair_of ss (i, ss ! i) = Some p \<Longrightarrow> p \<in> set (BuildCorrelationPairs ss)" for p
    unfolding BuildCorrelationPairs_def List.map_filter_def by force
  show ?thesis
    using counter_index_Some [of ss "s_ref (ss ! i)"] counter_index_None [OF assms(2), of ss] assms(2) mem
    by (auto simp: pair_of_def split: option.splits)
qed

text \<open>Two devices that count alike: the reply to the first request is paired with the second device's
  request, which was sent later.\<close>

definition sum_at :: "int \<Rightarrow> time \<Rightarrow> string \<Rightarrow> string \<Rightarrow> string \<Rightarrow> summary" where
  "sum_at i t dev ctr ref = ToSummary (empty_message\<lparr>m_id := i, m_time := t, m_dev_src := dev, m_ctr := ctr, m_ref := ref\<rparr>)"

theorem correlation_pairs_witness:
  "\<exists>p \<in> set (BuildCorrelationPairs [sum_at 1 0 ''a'' ''7'' [], sum_at 2 (ms 1) ''b'' ''8'' ''7'', sum_at 3 (ms 5) ''c'' ''7'' []]).
     cp_req_index p = 2 \<and> cp_latency p < 0"
proof -
  let ?ss = "[sum_at 1 0 ''a'' ''7'' [], sum_at 2 (ms 1) ''b'' ''8'' ''7'', sum_at 3 (ms 5) ''c'' ''7'' []]"
  have r: "s_ref (?ss ! 1) = ''7''" "s_ctr (?ss ! 0) = ''7''" "s_ctr (?ss ! 2) = ''7''" "s_time (?ss ! 1) = ms 1"
    "s_time (?ss ! 2) = ms 5" by (simp_all add: sum_at_def ToSummary_def)
  have pre: "1 < length ?ss" "s_ref (?ss ! 1) \<noteq> []" using r by simp_all
  note c = correlation_pairs [OF pre]
  have "\<exists>s \<in> set ?ss. s_ctr s = s_ref (?ss ! 1)" using r by simp
  then obtain p where "pair_of ?ss (1, ?ss ! 1) = Some p" using c by blast
  with c have p: "p \<in> set (BuildCorrelationPairs ?ss)" "cp_req_index p < length ?ss"
      "\<forall>j. cp_req_index p < j \<and> j < length ?ss \<longrightarrow> s_ctr (?ss ! j) \<noteq> s_ref (?ss ! 1)"
      "cp_latency p = latency_ms (s_time (?ss ! 1)) (s_time (?ss ! cp_req_index p))" by blast+
  from p(3) [THEN spec [of _ 2]] r have "\<not> cp_req_index p < 2" by auto
  then have i: "cp_req_index p = 2" using p(2) by simp
  have "cp_latency p < 0" unfolding p(4) i r
    by (simp add: latency_ms_def time_sub_def ms_def clamp64_def min_int64_def max_int64_def)
  with p(1) i show ?thesis by blast
qed

end
