(* ===== verification/LpcConformance.thy ===== *)
theory LpcConformance
  imports Metrics Lifecycle
begin

text \<open>
  \<open>internal/analysis/lpc_conformance.go\<close>: the passive checks of the LPC use case. The sets of devices
  that announced a role are lists here; durations are printed by \<open>fmt_fixed\<close>. The input's connection
  states and descriptions are carried along although no check reads them, as in the code.
\<close>

datatype lpc_verdict = LPCPass | LPCFail | LPCNotApplicable | LPCInconclusive

record lpc_evidence =
  le_messages :: "int list"
  le_note :: string
  le_time :: "time option"

record lpc_check =
  ck_id :: string
  ck_title :: string
  ck_description :: string
  ck_refs :: "string list"
  ck_verdict :: lpc_verdict
  ck_summary :: string
  ck_evidence :: "lpc_evidence list"

record lpc_summary =
  sm_total :: nat
  sm_pass :: nat
  sm_fail :: nat
  sm_na :: nat
  sm_inconclusive :: nat

record lpc_report =
  rp_detected :: bool
  rp_checks :: "lpc_check list"
  rp_summary :: lpc_summary

record limit_desc =
  ld_id :: string
  ld_category :: string
  ld_scope :: string

record key_value_desc =
  kd_id :: string
  kd_name :: string
  kd_type :: string

record lpc_input =
  in_messages :: "message list"
  in_use_cases :: "device_use_cases list"
  in_connections :: "connection_info list"
  in_limit_descs :: "(string \<times> limit_desc) list"
  in_kv_descs :: "(string \<times> key_value_desc) list"

definition lpcHeartbeatThreshold :: duration where "lpcHeartbeatThreshold = sec 60"
definition lpcActorEnergyGuard :: string where "lpcActorEnergyGuard = ''energyGuard''"
definition lpcActorControllableSystem :: string where
  "lpcActorControllableSystem = ''controllableSystem''"

section \<open>Roles\<close>

definition ucHasLPC :: "device_use_cases \<Rightarrow> bool" where
  "ucHasLPC duc \<longleftrightarrow> list_ex (\<lambda>u. uc_abbr u = ''LPC'') (du_cases duc)"

definition detectLPC :: "device_use_cases list \<Rightarrow> bool" where
  "detectLPC ucs \<longleftrightarrow> list_ex (\<lambda>duc. list_ex (\<lambda>u. uc_abbr u = ''LPC'') (du_cases duc)) ucs"

definition role_devices :: "string \<Rightarrow> device_use_cases list \<Rightarrow> string list" where
  "role_devices actor ucs = map du_device (filter (\<lambda>d. ucHasLPC d \<and> du_actor d = actor) ucs)"

record lpc_ctx =
  cx_input :: lpc_input
  cx_eg :: "string list"
  cx_cs :: "string list"

definition newLPCCtx :: "lpc_input \<Rightarrow> lpc_ctx" where
  "newLPCCtx input = \<lparr>cx_input = input,
     cx_eg = role_devices lpcActorEnergyGuard (in_use_cases input),
     cx_cs = role_devices lpcActorControllableSystem (in_use_cases input)\<rparr>"

section \<open>Texts\<close>

definition em_dash :: string where "em_dash = [byte 226, byte 128, byte 148]"
definition ge_sign :: string where "ge_sign = [byte 226, byte 137, byte 165]"

definition dur_seconds :: "duration \<Rightarrow> rat" where
  "dur_seconds d = of_int d / 10 ^ 9"

definition formatGapNote :: "gap \<Rightarrow> string" where
  "formatGapNote g = fmt_fixed 3 (dur_seconds (g_dur g)) @ ''s gap between heartbeats''"

definition formatHeartbeatPassSummary :: "string \<Rightarrow> nat \<Rightarrow> duration \<Rightarrow> string" where
  "formatHeartbeatPassSummary role count maxGap =
     nat_str count @ '' '' @ role @ '' heartbeat interval(s), max '' @ fmt_fixed 3 (dur_seconds maxGap) @ ''s''"

definition formatHeartbeatFailSummary :: "string \<Rightarrow> nat \<Rightarrow> nat \<Rightarrow> duration \<Rightarrow> string" where
  "formatHeartbeatFailSummary role viol count maxGap =
     nat_str viol @ ''/'' @ nat_str count @ '' '' @ role @ '' heartbeat gap(s) exceeded 60s (worst ''
     @ fmt_fixed 3 (dur_seconds maxGap) @ ''s)''"

section \<open>Checks\<close>

definition role_gaps :: "string list \<Rightarrow> message list \<Rightarrow> gap list" where
  "role_gaps roles msgs =
     concat (map snd (filter (\<lambda>pg. fst (fst pg) \<in> set roles) (collectHeartbeatGapsByPair msgs)))"

definition gap_evidence :: "gap \<Rightarrow> lpc_evidence" where
  "gap_evidence g = \<lparr>le_messages = [g_from_id g, g_to_id g], le_note = formatGapNote g, le_time = Some (g_to g)\<rparr>"

definition checkHeartbeatFor ::
  "lpc_ctx \<Rightarrow> string list \<Rightarrow> string \<Rightarrow> string \<Rightarrow> string \<Rightarrow> string \<Rightarrow> string list \<Rightarrow> lpc_check" where
  "checkHeartbeatFor ctx roles label req title descr refs =
     (let mk = (\<lambda>v s ev. \<lparr>ck_id = req, ck_title = title, ck_description = descr, ck_refs = refs,
                  ck_verdict = v, ck_summary = s, ck_evidence = ev\<rparr>);
          msgs = in_messages (cx_input ctx);
          total = length (filter (\<lambda>m. m_fn m = heartbeat_fn \<and> m_dev_src m \<in> set roles) msgs);
          gs = role_gaps roles msgs;
          maxGap = fold (\<lambda>g mx. if mx < g_dur g then g_dur g else mx) gs 0;
          viol = map gap_evidence (filter (\<lambda>g. lpcHeartbeatThreshold < g_dur g) gs)
      in if roles = [] then mk LPCNotApplicable (''No device announced LPC actor='' @ label) []
         else if total = 0 then mk LPCNotApplicable (''No '' @ label @ '' heartbeats observed'') []
         else if gs = [] then mk LPCInconclusive
           (''Only 1 '' @ label @ '' heartbeat observed '' @ em_dash @ '' cannot measure intervals'') []
         else if viol = [] then mk LPCPass (formatHeartbeatPassSummary label (length gs) maxGap) []
         else mk LPCFail (formatHeartbeatFailSummary label (length viol) (length gs) maxGap) viol)"

definition checkEGHeartbeat :: "lpc_ctx \<Rightarrow> lpc_check" where
  "checkEGHeartbeat ctx = checkHeartbeatFor ctx (cx_eg ctx) ''EG'' ''LPC-TS-006'' ''EG heartbeat interval''
     ''The heartbeat of the EG SHALL be sent at least every 60 seconds.'' [''ATC_COM_PT_EGHeartbeat_001'']"

definition checkCSHeartbeat :: "lpc_ctx \<Rightarrow> lpc_check" where
  "checkCSHeartbeat ctx = checkHeartbeatFor ctx (cx_cs ctx) ''CS'' ''LPC-TS-007'' ''CS heartbeat interval''
     ''The heartbeat of the CS SHALL be sent at least every 60 seconds.'' [''ATC_COM_PT_CSHeartbeat_001'']"

definition apclDescriptor :: extraction where
  "apclDescriptor = \<lparr>x_cmd = ''loadControlLimitListData'', x_array = ''loadControlLimitData'',
     x_id = ''limitId'', x_classifiers = [], x_active = []\<rparr>"

definition apcl_items :: "message list \<Rightarrow> (message \<times> data_item) list" where
  "apcl_items msgs = concat (map (\<lambda>m. map (Pair m) (ExtractGenericData (m_spine m) apclDescriptor))
     (filter (\<lambda>m. m_fn m = ''LoadControlLimitListData'' \<and> m_classifier m = ''write'') msgs))"

definition apcl_evidence :: "message \<times> data_item \<Rightarrow> lpc_evidence" where
  "apcl_evidence mi = \<lparr>le_messages = [m_id (fst mi)],
     le_note = ''APCL limitId='' @ i_id (snd mi) @ '' value='' @ fmt_fixed 1 (i_value (snd mi)) @ ''W < 0'',
     le_time = Some (m_time (fst mi))\<rparr>"

definition checkAPCLNonNegative :: "lpc_ctx \<Rightarrow> lpc_check" where
  "checkAPCLNonNegative ctx =
     (let mk = (\<lambda>v s ev. \<lparr>ck_id = ''LPC-TS-001'', ck_title = ''APCL value non-negative'',
                  ck_description = ''The Active Power Consumption Limit SHALL always be greater than or equal to zero.'',
                  ck_refs = [''ATC_COM_PT_EGMessages_001'', ''ATC_COM_PT_EGMessages_003'',
                             ''ATC_COM_PT_CSConnection_007'', ''ATC_COM_PT_CSConnection_008''],
                  ck_verdict = v, ck_summary = s, ck_evidence = ev\<rparr>);
          items = apcl_items (in_messages (cx_input ctx));
          viol = map apcl_evidence (filter (\<lambda>mi. i_value (snd mi) < 0) items)
      in if items = [] then mk LPCNotApplicable ''No APCL write commands observed'' []
         else if viol = [] then mk LPCPass (''All '' @ nat_str (length items) @ '' APCL write value(s) '' @ ge_sign @ '' 0'') []
         else mk LPCFail (nat_str (length viol) @ ''/'' @ nat_str (length items) @ '' APCL write value(s) below 0'') viol)"

definition summarizeChecks :: "lpc_check list \<Rightarrow> lpc_summary" where
  "summarizeChecks cs = \<lparr>sm_total = length cs,
     sm_pass = length (filter (\<lambda>c. ck_verdict c = LPCPass) cs),
     sm_fail = length (filter (\<lambda>c. ck_verdict c = LPCFail) cs),
     sm_na = length (filter (\<lambda>c. ck_verdict c = LPCNotApplicable) cs),
     sm_inconclusive = length (filter (\<lambda>c. ck_verdict c = LPCInconclusive) cs)\<rparr>"

definition empty_summary :: lpc_summary where
  "empty_summary = \<lparr>sm_total = 0, sm_pass = 0, sm_fail = 0, sm_na = 0, sm_inconclusive = 0\<rparr>"

definition EvaluateLPCConformance :: "lpc_input \<Rightarrow> lpc_report" where
  "EvaluateLPCConformance input =
     (if \<not> detectLPC (in_use_cases input)
      then \<lparr>rp_detected = False, rp_checks = [], rp_summary = empty_summary\<rparr>
      else (let ctx = newLPCCtx input;
                checks = [checkEGHeartbeat ctx, checkCSHeartbeat ctx, checkAPCLNonNegative ctx]
            in \<lparr>rp_detected = True, rp_checks = checks, rp_summary = summarizeChecks checks\<rparr>))"

section \<open>Lemmas\<close>

lemma verdict_partition:
  "length (filter (\<lambda>c. ck_verdict c = LPCPass) cs) + length (filter (\<lambda>c. ck_verdict c = LPCFail) cs)
   + length (filter (\<lambda>c. ck_verdict c = LPCNotApplicable) cs)
   + length (filter (\<lambda>c. ck_verdict c = LPCInconclusive) cs) = length cs"
proof (induction cs)
  case (Cons c cs)
  then show ?case by (cases "ck_verdict c") simp_all
qed simp

lemma heartbeat_verdict:
  "ck_verdict (checkHeartbeatFor ctx roles label req title descr refs) =
     (let msgs = in_messages (cx_input ctx) in
      if roles = [] \<or> \<not> (\<exists>m \<in> set msgs. m_fn m = heartbeat_fn \<and> m_dev_src m \<in> set roles) then LPCNotApplicable
      else if role_gaps roles msgs = [] then LPCInconclusive
      else if \<exists>g \<in> set (role_gaps roles msgs). lpcHeartbeatThreshold < g_dur g then LPCFail else LPCPass)"
  by (auto simp: checkHeartbeatFor_def Let_def filter_empty_conv)

lemma heartbeat_evidence:
  "ck_evidence (checkHeartbeatFor ctx roles label req title descr refs) =
     (if ck_verdict (checkHeartbeatFor ctx roles label req title descr refs) = LPCFail
      then map gap_evidence (filter (\<lambda>g. lpcHeartbeatThreshold < g_dur g) (role_gaps roles (in_messages (cx_input ctx))))
      else [])"
  by (simp add: checkHeartbeatFor_def Let_def)

section \<open>Properties\<close>

text \<open>The heartbeat check of a role fails exactly when a device of the role let more than sixty
  seconds pass between two consecutive heartbeats to one peer, citing exactly those gaps; it passes
  exactly when there is a gap and none is longer.\<close>

theorem heartbeat_check:
  assumes "\<exists>m \<in> set (in_messages input). m_fn m = heartbeat_fn \<and> m_dev_src m \<in> set roles"
  shows "(let c = checkHeartbeatFor (newLPCCtx input) roles label req title descr refs;
              gs = role_gaps roles (in_messages input)
          in (ck_verdict c = LPCFail \<longleftrightarrow> (\<exists>g \<in> set gs. sec 60 < g_dur g)) \<and>
             (ck_verdict c = LPCPass \<longleftrightarrow> gs \<noteq> [] \<and> (\<forall>g \<in> set gs. g_dur g \<le> sec 60)) \<and>
             (ck_verdict c = LPCFail \<longrightarrow>
                map le_messages (ck_evidence c) = map (\<lambda>g. [g_from_id g, g_to_id g]) (filter (\<lambda>g. sec 60 < g_dur g) gs)))"
proof -
  have r: "roles \<noteq> []" using assms by auto
  have n: "(\<forall>g \<in> set gs. g_dur g \<le> sec 60) \<longleftrightarrow> \<not> (\<exists>g \<in> set gs. sec 60 < g_dur g)" for gs
    by (auto simp: not_less)
  have e: "map le_messages (map gap_evidence gs) = map (\<lambda>g. [g_from_id g, g_to_id g]) gs" for gs
    by (simp add: gap_evidence_def comp_def)
  have i: "in_messages (cx_input (newLPCCtx input)) = in_messages input" by (simp add: newLPCCtx_def)
  show ?thesis using assms r
    unfolding Let_def heartbeat_verdict heartbeat_evidence i lpcHeartbeatThreshold_def n
    by (simp add: e del: map_map)
qed

definition lpc_sample :: "time \<Rightarrow> lpc_input" where
  "lpc_sample t = \<lparr>in_messages = [beat 1 0 ''b'', beat 2 t ''b''], in_use_cases = [], in_connections = [],
     in_limit_descs = [], in_kv_descs = []\<rparr>"

theorem heartbeat_check_witness:
  "ck_verdict (checkHeartbeatFor (newLPCCtx (lpc_sample (sec 61))) [''a''] ''EG'' ''LPC-TS-006'' ''t'' ''d'' []) = LPCFail"
proof -
  have pre: "\<exists>m \<in> set (in_messages (lpc_sample (sec 61))). m_fn m = heartbeat_fn \<and> m_dev_src m \<in> set [''a'']"
    by (simp add: lpc_sample_def beat_def)
  have h: "heartbeats (in_messages (lpc_sample (sec 61))) = [((''a'', ''b''), (0, 1)), ((''a'', ''b''), (sec 61, 2))]"
    by (simp add: lpc_sample_def heartbeats_def List.map_filter_def heartbeat_point_def beat_def devicePairFromMsg_def)
  have "role_gaps [''a''] (in_messages (lpc_sample (sec 61))) =
      [\<lparr>g_from_id = 1, g_to_id = 2, g_from = 0, g_to = sec 61, g_dur = time_sub (sec 61) 0\<rparr>]"
    by (simp add: role_gaps_def collect_eq h heartbeats_of_def)
  moreover have "sec 60 < time_sub (sec 61) 0"
    by (simp add: time_sub_def sec_def clamp64_def min_int64_def max_int64_def)
  ultimately show ?thesis using heartbeat_check [OF pre, of "''EG''" "''LPC-TS-006''" "''t''" "''d''" "[]"] unfolding Let_def by auto
qed

text \<open>The limit check fails exactly when some written load control limit is negative, citing the
  messages of the negative values in order; what the limits are, which the descriptions say, plays no
  part.\<close>

theorem apcl_check:
  "(let c = checkAPCLNonNegative (newLPCCtx input); its = apcl_items (in_messages input) in
     (ck_verdict c = LPCFail \<longleftrightarrow> (\<exists>mi \<in> set its. i_value (snd mi) < 0)) \<and>
     (ck_verdict c = LPCPass \<longleftrightarrow> its \<noteq> [] \<and> list_all (\<lambda>mi. 0 \<le> i_value (snd mi)) its) \<and>
     map le_messages (ck_evidence c) = map (\<lambda>mi. [m_id (fst mi)]) (filter (\<lambda>mi. i_value (snd mi) < 0) its) \<and>
     checkAPCLNonNegative (newLPCCtx (input\<lparr>in_limit_descs := descs\<rparr>)) = c)"
proof -
  have n: "list_all (\<lambda>mi. 0 \<le> i_value (snd mi)) its \<longleftrightarrow> \<not> (\<exists>mi \<in> set its. i_value (snd mi) < 0)"
    for its :: "(message \<times> data_item) list" by (auto simp: list_all_iff not_less)
  show ?thesis
    unfolding checkAPCLNonNegative_def Let_def n
    by (simp add: newLPCCtx_def filter_empty_conv apcl_evidence_def comp_def)
qed

text \<open>A report covers the three checks exactly when some device announced LPC, and its summary
  accounts for every check once.\<close>

theorem lpc_report_counts:
  "(let r = EvaluateLPCConformance input; s = rp_summary r in
     (rp_detected r \<longleftrightarrow> (\<exists>d \<in> set (in_use_cases input). \<exists>u \<in> set (du_cases d). uc_abbr u = ''LPC'')) \<and>
     sm_total s = length (rp_checks r) \<and>
     sm_pass s + sm_fail s + sm_na s + sm_inconclusive s = sm_total s \<and>
     map ck_id (rp_checks r) = (if rp_detected r then [''LPC-TS-006'', ''LPC-TS-007'', ''LPC-TS-001''] else []))"
proof (cases "detectLPC (in_use_cases input)")
  case True
  have ids: "map ck_id [checkEGHeartbeat c, checkCSHeartbeat c, checkAPCLNonNegative c]
      = [''LPC-TS-006'', ''LPC-TS-007'', ''LPC-TS-001'']" for c
    by (simp add: checkEGHeartbeat_def checkCSHeartbeat_def checkHeartbeatFor_def checkAPCLNonNegative_def Let_def)
  have d: "\<exists>d \<in> set (in_use_cases input). \<exists>u \<in> set (du_cases d). uc_abbr u = ''LPC''"
    using True by (auto simp: detectLPC_def list_ex_iff)
  show ?thesis
    using True d ids [of "newLPCCtx input"]
      verdict_partition [of "[checkEGHeartbeat (newLPCCtx input), checkCSHeartbeat (newLPCCtx input), checkAPCLNonNegative (newLPCCtx input)]"]
    by (simp only: EvaluateLPCConformance_def Let_def summarizeChecks_def lpc_report.simps lpc_summary.simps
        if_True not_True_eq_False if_False simp_thms)
next
  case False
  then show ?thesis
    by (auto simp: EvaluateLPCConformance_def detectLPC_def list_ex_iff empty_summary_def)
qed

end
