(* ===== verification/Regex.thy ===== *)
theory Regex
  imports GoPrelude
begin

text \<open>
  The part of package \<open>regexp\<close> the program uses: anchored patterns of byte classes, literals, greedy
  repetition of a class, options, alternatives and capture groups. Matching is leftmost-first: a
  greedy repetition is tried longest first, an alternative left to right, as Go's engine prefers. The
  matcher passes the rest of the input and the captures so far to a continuation. Only classes are
  repeated, so every repetition moves forward. \<open>.\<close> and \<open>\\S\<close> match a character of several bytes byte
  by byte, which gives the same matches and captures for these patterns.
\<close>

datatype rx =
    Eps
  | Str string
  | One "char \<Rightarrow> bool"
  | Many "char \<Rightarrow> bool"
  | Cat rx rx
  | Alt rx rx
  | Opt rx
  | Grp nat rx

type_synonym captures = "(nat \<times> string) list"
type_synonym rx_cont = "string \<Rightarrow> captures \<Rightarrow> captures option"

fun rx_many :: "(char \<Rightarrow> bool) \<Rightarrow> string \<Rightarrow> (string \<Rightarrow> captures option) \<Rightarrow> captures option" where
  "rx_many P [] k = k []"
| "rx_many P (c # s) k =
     (if P c then (case rx_many P s k of Some r \<Rightarrow> Some r | None \<Rightarrow> k (c # s)) else k (c # s))"

fun rx_match :: "rx \<Rightarrow> string \<Rightarrow> captures \<Rightarrow> rx_cont \<Rightarrow> captures option" where
  "rx_match Eps s cs k = k s cs"
| "rx_match (Str t) s cs k = (if has_prefix t s then k (drop (length t) s) cs else None)"
| "rx_match (One P) s cs k = (case s of [] \<Rightarrow> None | c # r \<Rightarrow> if P c then k r cs else None)"
| "rx_match (Many P) s cs k = rx_many P s (\<lambda>r. k r cs)"
| "rx_match (Cat a b) s cs k = rx_match a s cs (\<lambda>r cs'. rx_match b r cs' k)"
| "rx_match (Alt a b) s cs k = (case rx_match a s cs k of Some x \<Rightarrow> Some x | None \<Rightarrow> rx_match b s cs k)"
| "rx_match (Opt a) s cs k = (case rx_match a s cs k of Some x \<Rightarrow> Some x | None \<Rightarrow> k s cs)"
| "rx_match (Grp n a) s cs k =
     rx_match a s cs (\<lambda>r cs'. k r ((n, take (length s - length r) s) # cs'))"

text \<open>\<open>FindStringSubmatch\<close> of \<open>^r$\<close>, and \<open>MatchString\<close> of \<open>^r\<close>.\<close>

definition rx_find :: "rx \<Rightarrow> string \<Rightarrow> captures option" where
  "rx_find r s = rx_match r s [] (\<lambda>t cs. if t = [] then Some cs else None)"

definition rx_prefix :: "rx \<Rightarrow> string \<Rightarrow> bool" where
  "rx_prefix r s \<longleftrightarrow> rx_match r s [] (\<lambda>t cs. Some cs) \<noteq> None"

text \<open>A group that took no part is the empty string.\<close>

definition group :: "nat \<Rightarrow> captures \<Rightarrow> string" where
  "group n cs = (case map_of cs n of None \<Rightarrow> [] | Some s \<Rightarrow> s)"

section \<open>Classes and abbreviations\<close>

definition rx_space :: "char \<Rightarrow> bool" where
  "rx_space c \<longleftrightarrow> ord c = 9 \<or> ord c = 10 \<or> ord c = 12 \<or> ord c = 13 \<or> ord c = 32"

definition rx_dot :: "char \<Rightarrow> bool" where "rx_dot c \<longleftrightarrow> ord c \<noteq> 10"
definition not_space :: "char \<Rightarrow> bool" where "not_space c \<longleftrightarrow> \<not> rx_space c"
definition not_quote :: "char \<Rightarrow> bool" where "not_quote c \<longleftrightarrow> c \<noteq> CHR 0x27"

definition some :: "(char \<Rightarrow> bool) \<Rightarrow> rx" where "some P = Cat (One P) (Many P)"

fun rep :: "nat \<Rightarrow> rx \<Rightarrow> rx" where
  "rep 0 r = Eps"
| "rep (Suc n) r = Cat r (rep n r)"

fun cats :: "rx list \<Rightarrow> rx" where
  "cats [] = Eps"
| "cats [r] = r"
| "cats (r # q # rs) = Cat r (cats (q # rs))"

definition sp :: rx where "sp = some rx_space"
definition dg :: "nat \<Rightarrow> rx" where "dg n = rep n (One is_digit)"

section \<open>Lemmas\<close>

text \<open>What a pattern matches, without captures.\<close>

fun rx_lang :: "rx \<Rightarrow> string \<Rightarrow> bool" where
  "rx_lang Eps s = (s = [])"
| "rx_lang (Str t) s = (s = t)"
| "rx_lang (One P) s = (\<exists>c. s = [c] \<and> P c)"
| "rx_lang (Many P) s = list_all P s"
| "rx_lang (Cat a b) s = (\<exists>u v. s = u @ v \<and> rx_lang a u \<and> rx_lang b v)"
| "rx_lang (Alt a b) s = (rx_lang a s \<or> rx_lang b s)"
| "rx_lang (Opt a) s = (s = [] \<or> rx_lang a s)"
| "rx_lang (Grp n a) s = rx_lang a s"

lemma rx_many_sound: "rx_many P s k = Some x \<Longrightarrow> \<exists>u v. s = u @ v \<and> list_all P u \<and> k v = Some x"
proof (induction s)
  case (Cons c s)
  show ?case
  proof (cases "P c \<and> rx_many P s k \<noteq> None")
    case True
    then obtain u v where "s = u @ v" "list_all P u" "k v = Some x" using Cons by (auto split: option.splits)
    then show ?thesis using True by (intro exI [of _ "c # u"] exI [of _ v]) simp
  next
    case False
    then have "k (c # s) = Some x" using Cons.prems by (auto split: if_splits)
    then show ?thesis by (intro exI [of _ "[]"] exI [of _ "c # s"]) simp
  qed
qed simp

lemma rx_many_complete: "list_all P u \<Longrightarrow> k v \<noteq> None \<Longrightarrow> rx_many P (u @ v) k \<noteq> None"
proof (induction u)
  case Nil
  then show ?case by (cases v) (auto split: option.splits)
qed (auto split: option.splits)

lemma rx_match_sound:
  "rx_match r s cs k = Some x \<Longrightarrow> \<exists>u v cs'. s = u @ v \<and> rx_lang r u \<and> k v cs' = Some x"
proof (induction r arbitrary: s cs k x)
  case (Str t)
  then show ?case by (auto simp: has_prefix_iff split: if_splits)
next
  case (One P)
  then obtain c t where "s = c # t" "P c" "k t cs = Some x" by (cases s) (auto split: if_splits)
  then show ?case by (intro exI [of _ "[c]"] exI [of _ t] exI [of _ cs]) simp
next
  case (Many P)
  then show ?case by (auto dest!: rx_many_sound)
next
  case (Cat a b)
  from Cat.IH(1) [OF Cat.prems [unfolded rx_match.simps]] obtain u v cs' where
    u: "s = u @ v" "rx_lang a u" "rx_match b v cs' k = Some x" by blast
  from Cat.IH(2) [OF u(3)] obtain u2 v2 cs2 where "v = u2 @ v2" "rx_lang b u2" "k v2 cs2 = Some x" by blast
  then show ?case using u by (metis append.assoc rx_lang.simps(5))
next
  case (Alt a b)
  then have "rx_match a s cs k = Some x \<or> rx_match b s cs k = Some x" by (auto split: option.splits)
  then show ?case
  proof
    assume "rx_match a s cs k = Some x"
    from Alt.IH(1) [OF this] show ?thesis by (metis rx_lang.simps(6))
  next
    assume "rx_match b s cs k = Some x"
    from Alt.IH(2) [OF this] show ?thesis by (metis rx_lang.simps(6))
  qed
next
  case (Opt a)
  then have "rx_match a s cs k = Some x \<or> k s cs = Some x" by (auto split: option.splits)
  then show ?case
  proof
    assume "rx_match a s cs k = Some x"
    from Opt.IH [OF this] show ?thesis by (metis rx_lang.simps(7))
  next
    assume "k s cs = Some x"
    then show ?thesis by (intro exI [of _ "[]"] exI [of _ s] exI [of _ cs]) simp
  qed
next
  case (Grp n a)
  from Grp.IH [OF Grp.prems [unfolded rx_match.simps]] show ?case by auto
qed auto

text \<open>A pattern matches a whole text exactly when the text is in its language.\<close>

lemma rx_match_complete:
  "rx_lang r u \<Longrightarrow> (\<And>cs'. k v cs' \<noteq> None) \<Longrightarrow> rx_match r (u @ v) cs k \<noteq> None"
proof (induction r arbitrary: u v cs k)
  case (Many P)
  then show ?case using rx_many_complete by auto
next
  case (Cat a b)
  then obtain u1 u2 where u: "u = u1 @ u2" "rx_lang a u1" "rx_lang b u2" by auto
  have "rx_match b (u2 @ v) cs' k \<noteq> None" for cs' 
    using Cat.IH(2) [of u2 k v cs'] u(3) Cat.prems(2) by blast
  then show ?case using Cat.IH(1) [OF u(2), of "\<lambda>r cs'. rx_match b r cs' k" "u2 @ v" cs] u by simp
next
  case (Alt a b)
  have "rx_lang a u \<Longrightarrow> rx_match a (u @ v) cs k \<noteq> None" by (rule Alt.IH(1)) (simp_all only: Alt.prems(2) simp_thms)
  moreover have "rx_lang b u \<Longrightarrow> rx_match b (u @ v) cs k \<noteq> None" by (rule Alt.IH(2)) (simp_all only: Alt.prems(2) simp_thms)
  ultimately show ?case using Alt.prems(1) by (auto split: option.splits)
next
  case (Opt a)
  have "k (u @ v) cs \<noteq> None" if "u = []" using Opt.prems that by simp
  moreover have "rx_lang a u \<Longrightarrow> rx_match a (u @ v) cs k \<noteq> None" by (rule Opt.IH) (simp_all only: Opt.prems(2) simp_thms)
  ultimately show ?case using Opt.prems(1) by (auto split: option.splits)
next
  case (Grp n a)
  then show ?case by auto
qed (auto split: list.splits)

theorem rx_find_iff: "rx_find r s \<noteq> None \<longleftrightarrow> rx_lang r s"
proof
  assume "rx_find r s \<noteq> None"
  then obtain x where "rx_match r s [] (\<lambda>t cs. if t = [] then Some cs else None) = Some x"
    by (auto simp: rx_find_def)
  from rx_match_sound [OF this] show "rx_lang r s" by (auto split: if_splits)
next
  assume "rx_lang r s"
  from rx_match_complete [OF this, of "\<lambda>t cs. if t = [] then Some cs else None" "[]" "[]"]
  show "rx_find r s \<noteq> None" by (simp add: rx_find_def)
qed

text \<open>A pattern matches a beginning of a text exactly when some beginning is in its language.\<close>

lemma rx_prefix_iff: "rx_prefix r s \<longleftrightarrow> (\<exists>u v. s = u @ v \<and> rx_lang r u)"
proof
  assume "rx_prefix r s"
  then obtain x where "rx_match r s [] (\<lambda>t cs. Some cs) = Some x" by (auto simp: rx_prefix_def)
  from rx_match_sound [OF this] show "\<exists>u v. s = u @ v \<and> rx_lang r u" by auto
next
  assume "\<exists>u v. s = u @ v \<and> rx_lang r u"
  then show "rx_prefix r s" using rx_match_complete [of r _ "\<lambda>t cs. Some cs"] by (auto simp: rx_prefix_def)
qed

lemma lang_cats:
  "rx_lang (cats []) s \<longleftrightarrow> s = []"
  "rx_lang (cats (r # rs)) s \<longleftrightarrow> (\<exists>u v. s = u @ v \<and> rx_lang r u \<and> rx_lang (cats rs) v)"
  by (cases rs; simp)+

lemma lang_One_Cat: "rx_lang (Cat (One P) r) s \<longleftrightarrow> (\<exists>c t. s = c # t \<and> P c \<and> rx_lang r t)"
proof
  assume "\<exists>c t. s = c # t \<and> P c \<and> rx_lang r t"
  then obtain c t where "s = [c] @ t" "P c" "rx_lang r t" by auto
  then show "rx_lang (Cat (One P) r) s" unfolding rx_lang.simps by blast
qed auto

lemma lang_some: "rx_lang (some P) s \<longleftrightarrow> s \<noteq> [] \<and> list_all P s"
  unfolding some_def lang_One_Cat by (cases s) auto

lemma lang_rep_One: "rx_lang (rep n (One P)) s \<longleftrightarrow> length s = n \<and> list_all P s"
proof (induction n arbitrary: s)
  case (Suc n)
  have "rx_lang (rep (Suc n) (One P)) s \<longleftrightarrow> (\<exists>c t. s = c # t \<and> P c \<and> length t = n \<and> list_all P t)"
    unfolding rep.simps lang_One_Cat Suc by (rule refl)
  then show ?case by (cases s) auto
qed auto

lemma lang_dg: "rx_lang (dg n) s \<longleftrightarrow> length s = n \<and> list_all is_digit s"
  unfolding dg_def by (rule lang_rep_One)

lemma lang_cats_prefix: "rx_lang (cats (rs @ qs)) s \<Longrightarrow> \<exists>u v. s = u @ v \<and> rx_lang (cats rs) u"
proof (induction rs arbitrary: s)
  case (Cons r rs)
  then obtain u v where uv: "s = u @ v" "rx_lang r u" "rx_lang (cats (rs @ qs)) v" by (auto simp: lang_cats)
  from Cons.IH [OF uv(3)] obtain a b where "v = a @ b" "rx_lang (cats rs) a" by blast
  then have "s = (u @ a) @ b \<and> rx_lang (cats (r # rs)) (u @ a)" using uv by (auto simp: lang_cats)
  then show ?case by blast
qed (simp add: lang_cats)

section \<open>Searching\<close>

text \<open>The leftmost match, where it begins and its captures; group 0 is the whole match.\<close>

fun rx_search :: "rx \<Rightarrow> string \<Rightarrow> (nat \<times> captures) option" where
  "rx_search r [] = None"
| "rx_search r (c # s) = (case rx_match (Grp 0 r) (c # s) [] (\<lambda>_ cs. Some cs) of
       Some cs \<Rightarrow> Some (0, cs)
     | None \<Rightarrow> map_option (\<lambda>(i, cs). (Suc i, cs)) (rx_search r s))"

text \<open>All matches that do not overlap: where they begin and end. The first argument bounds their number;
  the length of the text is enough for a pattern that does not match the empty text
  (\<open>rx_all_fuel\<close>).\<close>

fun rx_all :: "nat \<Rightarrow> rx \<Rightarrow> nat \<Rightarrow> string \<Rightarrow> (nat \<times> nat \<times> captures) list" where
  "rx_all 0 r i s = []"
| "rx_all (Suc n) r i s = (case rx_search r s of
       None \<Rightarrow> []
     | Some (k, cs) \<Rightarrow> (let e = k + length (group 0 cs) in (i + k, i + e, cs) # rx_all n r (i + e) (drop e s)))"

lemma rx_group0:
  assumes "rx_match (Grp 0 r) s [] (\<lambda>_ cs. Some cs) = Some cs"
  shows "rx_lang r (group 0 cs) \<and> has_prefix (group 0 cs) s"
proof -
  from assms have "rx_match r s [] (\<lambda>t cs'. Some ((0, take (length s - length t) s) # cs')) = Some cs" by simp
  from rx_match_sound [OF this] obtain u v cs' where
    "s = u @ v" "rx_lang r u" "cs = (0, take (length s - length v) s) # cs'" by auto
  then show ?thesis by (simp add: group_def)
qed

lemma rx_search_Some:
  "rx_search r s = Some (i, cs) \<Longrightarrow> rx_lang r (group 0 cs) \<and> has_prefix (group 0 cs) (drop i s) \<and> i < length s"
proof (induction s arbitrary: i)
  case (Cons c s)
  then show ?case using rx_group0 [of r "c # s"] by (fastforce split: option.splits)
qed simp

lemma rx_all_fuel:
  assumes ne: "\<not> rx_lang r []" and "length s \<le> n" and "length s \<le> m"
  shows "rx_all n r i s = rx_all m r i s"
  using assms(2,3)
proof (induction n arbitrary: m i s)
  case 0
  then show ?case by (cases m) auto
next
  case (Suc n)
  show ?case
  proof (cases "rx_search r s")
    case None
    then show ?thesis by (cases m) auto
  next
    case (Some kc)
    obtain k cs where kc: "kc = (k, cs)" by (cases kc)
    have g: "group 0 cs \<noteq> []" "k < length s" using rx_search_Some [of r s k cs] Some kc ne by auto
    obtain m' where m: "m = Suc m'" using g(2) Suc.prems by (cases m) auto
    have "length (drop (k + length (group 0 cs)) s) < length s" using g by (cases "group 0 cs") auto
    then have "rx_all n r (i + (k + length (group 0 cs))) (drop (k + length (group 0 cs)) s)
        = rx_all m' r (i + (k + length (group 0 cs))) (drop (k + length (group 0 cs)) s)"
      using Suc.prems m by (intro Suc.IH) linarith+
    then show ?thesis using Some kc m by (simp add: Let_def)
  qed
qed

lemma rx_search_None:
  "rx_search r s = None \<longleftrightarrow> (\<forall>i < length s. \<not> rx_prefix r (drop i s))"
proof (induction s)
  case (Cons c s)
  have g: "rx_match (Grp 0 r) (c # s) [] (\<lambda>_ cs. Some cs) = None \<longleftrightarrow> \<not> rx_prefix r (c # s)"
  proof
    assume "rx_match (Grp 0 r) (c # s) [] (\<lambda>_ cs. Some cs) = None"
    then have "\<not> rx_prefix (Grp 0 r) (c # s)" by (simp add: rx_prefix_def)
    then show "\<not> rx_prefix r (c # s)" by (simp add: rx_prefix_iff)
  next
    assume "\<not> rx_prefix r (c # s)"
    then have "\<not> rx_prefix (Grp 0 r) (c # s)" by (simp add: rx_prefix_iff)
    then show "rx_match (Grp 0 r) (c # s) [] (\<lambda>_ cs. Some cs) = None" unfolding rx_prefix_def by blast
  qed
  have "rx_search r (c # s) = None \<longleftrightarrow>
      rx_match (Grp 0 r) (c # s) [] (\<lambda>_ cs. Some cs) = None \<and> rx_search r s = None"
    by (simp split: option.splits)
  also have "\<dots> \<longleftrightarrow> (\<forall>i < length (c # s). \<not> rx_prefix r (drop i (c # s)))"
    unfolding g Cons by (simp add: All_less_Suc2)
  finally show ?case .
qed simp

end
