(* ===== verification/Dlt.thy ===== *)
theory Dlt
  imports Regex ParserCore "HOL-Library.Word"
begin

unbundle bit_operations_syntax

text \<open>
  \<open>internal/parser/dlt.go\<close> and \<open>dltbin.go\<close>: EEBus messages in AUTOSAR DLT logs, as text lines and as
  binary frames. A reader is the list of the bytes still to come; \<open>read_full\<close> is \<open>io.ReadFull\<close>.
  Header flags and the argument type are machine words. A read error is a value of \<open>read_error\<close>.
\<close>

section \<open>Extraction from a payload text\<close>

definition dltTruncatedMarker :: string where
  "dltTruncatedMarker = ''<<Message truncated, too long>>''"

definition eebusSHIPFramePrefix :: string where
  "eebusSHIPFramePrefix = ''{\"data\":[{\"header\":[{\"protocolId\":\"ee1.0\"''"

definition eebusDatagramPrefix :: string where
  "eebusDatagramPrefix = ''{\"datagram\":''"

definition porscheCEMSendPattern :: rx where
  "porscheCEMSendPattern = cats [Str ''[Session'', sp, some is_digit, Str '']'', sp, Str ''Send:'', sp,
     Grp 1 (some rx_dot)]"

definition porscheCEMRecvPattern :: rx where
  "porscheCEMRecvPattern = cats [Str ''[ConnectionWorker'', sp, some is_digit, Str '']'', sp,
     Str ''Received'', sp, some is_digit, sp, Str ''Data bytes during ConnectionDataExchange:'', sp,
     Grp 1 (some rx_dot)]"

datatype dlt_extract = Truncated | Extracted string direction

definition looksLikeEEBusPayload :: "string \<Rightarrow> string \<Rightarrow> string \<Rightarrow> bool" where
  "looksLikeEEBusPayload apid ctid payload \<longleftrightarrow>
     (apid = ''CEM'' \<and> ctid = ''CEM''
        \<and> (str_contains payload ''[Session '' \<or> str_contains payload ''[ConnectionWorker ''))
     \<or> str_contains payload ''\"protocolId\":\"ee1.0\"''
     \<or> str_contains payload eebusDatagramPrefix"

definition generic_scan :: "string \<Rightarrow> dlt_extract option" where
  "generic_scan payload =
     (case str_index eebusSHIPFramePrefix payload of
        Some i \<Rightarrow> Some (Extracted (drop i payload) DirectionUnknown)
      | None \<Rightarrow> (case str_index eebusDatagramPrefix payload of
          Some i \<Rightarrow> Some (Extracted (drop i payload) DirectionUnknown)
        | None \<Rightarrow> None))"

definition ExtractEEBusFromDLTPayload :: "string \<Rightarrow> string \<Rightarrow> string \<Rightarrow> dlt_extract option" where
  "ExtractEEBusFromDLTPayload apid ctid payload =
     (if str_contains payload dltTruncatedMarker then
        (if looksLikeEEBusPayload apid ctid payload then Some Truncated else None)
      else if apid = ''CEM'' \<and> ctid = ''CEM'' then
        (case rx_find porscheCEMSendPattern payload of
           Some m \<Rightarrow> Some (Extracted (group 1 m) DirectionOutgoing)
         | None \<Rightarrow> (case rx_find porscheCEMRecvPattern payload of
             Some m \<Rightarrow> Some (Extracted (group 1 m) DirectionIncoming)
           | None \<Rightarrow> generic_scan payload))
      else generic_scan payload)"

section \<open>Completeness of a JSON text\<close>

fun complete_from :: "nat \<Rightarrow> bool \<Rightarrow> bool \<Rightarrow> string \<Rightarrow> bool" where
  "complete_from depth ins esc [] = (depth = 0 \<and> \<not> ins)"
| "complete_from depth ins esc (c # s) =
     (if esc then complete_from depth ins False s
      else if ins then
        (if c = CHR 0x5C then complete_from depth True True s
         else if c = CHR 0x22 then complete_from depth False False s
         else complete_from depth True False s)
      else if c = CHR 0x22 then complete_from depth True False s
      else if c = CHR ''{'' \<or> c = CHR ''['' then complete_from (Suc depth) False False s
      else if c = CHR ''}'' \<or> c = CHR '']'' then
        (if depth = 0 then False else complete_from (depth - 1) False False s)
      else complete_from depth False False s)"

definition IsCompleteJSON :: "string \<Rightarrow> bool" where
  "IsCompleteJSON s = complete_from 0 False False s"

section \<open>Timestamps of a text line\<close>

fun pad_right :: "nat \<Rightarrow> string \<Rightarrow> string" where
  "pad_right n s = take n s @ replicate (n - length s) (CHR ''0'')"

text \<open>The fields of \<open>HH:MM:SS\<close> as \<open>Atoi\<close> reads them, errors ignored.\<close>

definition hms_fields :: "string \<Rightarrow> (int \<times> int \<times> int) option" where
  "hms_fields s = (case split_char (CHR '':'') s of
       [h, m, sc] \<Rightarrow> Some (fst (atoi h), fst (atoi m), fst (atoi sc))
     | _ \<Rightarrow> None)"

definition ParseDLTTextTimestamp :: "string \<Rightarrow> string \<Rightarrow> time option" where
  "ParseDLTTextTimestamp dateStr timeStr =
     (if length dateStr \<noteq> 10 then None
      else (case (atoi (take 4 dateStr), atoi (take 2 (drop 5 dateStr)), atoi (take 2 (drop 8 dateStr))) of
          ((year, e1), (month, e2), (day, e3)) \<Rightarrow>
            if e1 \<or> e2 \<or> e3 then None
            else (case split_once (CHR ''.'') timeStr of
                None \<Rightarrow> None
              | Some (hms, fr) \<Rightarrow> (case hms_fields hms of
                    None \<Rightarrow> None
                  | Some (h, m, s) \<Rightarrow> Some (time_date year month day h m s (fst (atoi (pad_right 9 fr))))))))"

section \<open>Binary frames\<close>

datatype read_error = EOF | UnexpectedEOF | BadMagic bytes | BogusLength nat

definition read_full :: "nat \<Rightarrow> bytes \<Rightarrow> read_error + bytes \<times> bytes" where
  "read_full n s = (if n \<le> length s then Inr (take n s, drop n s)
     else if s = [] then Inl EOF else Inl UnexpectedEOF)"

definition dltStorageMagic :: bytes where "dltStorageMagic = ''DLT'' @ [CHR 0x01]"
definition dltStorageHeader :: nat where "dltStorageHeader = 16"
definition htypUEH :: "8 word" where "htypUEH = 1"
definition htypMSBF :: "8 word" where "htypMSBF = 2"
definition htypWEID :: "8 word" where "htypWEID = 4"
definition htypWSID :: "8 word" where "htypWSID = 8"
definition htypWTMS :: "8 word" where "htypWTMS = 16"
definition msinVerbose :: "8 word" where "msinVerbose = 1"
definition typeInfoStringMask :: "32 word" where "typeInfoStringMask = 0x200"

definition byte_word :: "char \<Rightarrow> 8 word" where
  "byte_word c = word_of_nat (ord c)"

definition flag_set :: "8 word \<Rightarrow> 8 word \<Rightarrow> bool" where
  "flag_set b f \<longleftrightarrow> b AND f \<noteq> 0"

text \<open>\<open>binary.BigEndian\<close> and \<open>binary.LittleEndian\<close>: the value of the bytes.\<close>

definition be_val :: "bytes \<Rightarrow> nat" where
  "be_val s = foldl (\<lambda>n c. 256 * n + ord c) 0 s"

definition le_val :: "bytes \<Rightarrow> nat" where
  "le_val s = be_val (rev s)"

definition order_val :: "bool \<Rightarrow> bytes \<Rightarrow> nat" where
  "order_val be s = (if be then be_val s else le_val s)"

definition trimZero :: "bytes \<Rightarrow> string" where
  "trimZero b = takeWhile (\<lambda>c. ord c \<noteq> 0) b"

record dlt_message =
  dm_time :: time
  dm_ecu :: string
  dm_apid :: string
  dm_ctid :: string
  dm_verbose :: bool
  dm_args :: string

text \<open>The argument walk: each argument takes six bytes at least.\<close>

function string_args :: "bool \<Rightarrow> bytes \<Rightarrow> string \<Rightarrow> string" where
  "string_args be p out =
     (if length p < 4 then out
      else (let typeInfo = (word_of_nat (order_val be (take 4 p)) :: 32 word); q = drop 4 p in
        if typeInfo AND typeInfoStringMask \<noteq> 0 then
          (if length q < 2 then out
           else (let sl = order_val be (take 2 q); r = drop 2 q in
             if length r < sl then out
             else string_args be (drop sl r)
                    ((if out \<noteq> [] then out @ '' '' else out) @ trimZero (take sl r))))
        else out))"
  by auto
termination by (relation "measure (\<lambda>(be, p, out). length p)") auto

declare string_args.simps [simp del]

definition decodeVerboseStringArgs :: "bytes \<Rightarrow> bool \<Rightarrow> string" where
  "decodeVerboseStringArgs p be = string_args be p []"

text \<open>The optional four-byte fields: the bytes of the field if its flag is set, and the rest.\<close>

definition opt_field :: "bool \<Rightarrow> nat \<Rightarrow> bytes \<Rightarrow> read_error + bytes \<times> bytes" where
  "opt_field present n s = (if \<not> present then Inr ([], s)
     else if length s < n then Inl UnexpectedEOF else Inr (take n s, drop n s))"

definition bind_err :: "'e + 'a \<Rightarrow> ('a \<Rightarrow> 'e + 'b) \<Rightarrow> 'e + 'b" where
  "bind_err x f = (case x of Inl e \<Rightarrow> Inl e | Inr a \<Rightarrow> f a)"

definition decode_rest :: "8 word \<Rightarrow> bytes \<Rightarrow> read_error + dlt_message" where
  "decode_rest htyp rest =
     bind_err (opt_field (flag_set htyp htypWEID) 4 rest) (\<lambda>(ecu, s1).
     bind_err (opt_field (flag_set htyp htypWSID) 4 s1) (\<lambda>(_, s2).
     bind_err (opt_field (flag_set htyp htypWTMS) 4 s2) (\<lambda>(_, s3).
     bind_err (opt_field (flag_set htyp htypUEH) 10 s3) (\<lambda>(ext, payload).
       (let verbose = (flag_set htyp htypUEH \<and> flag_set (byte_word (hd ext)) msinVerbose) in
        Inr \<lparr>dm_time = zero_time, dm_ecu = trimZero ecu,
             dm_apid = trimZero (take 4 (drop 2 ext)), dm_ctid = trimZero (take 4 (drop 6 ext)),
             dm_verbose = verbose,
             dm_args = (if verbose then decodeVerboseStringArgs payload (flag_set htyp htypMSBF) else [])\<rparr>)))))"

definition readStandardAndPayload :: "bytes \<Rightarrow> read_error + dlt_message \<times> bytes" where
  "readStandardAndPayload s =
     bind_err (read_full 4 s) (\<lambda>(std, s1).
       (let htyp = byte_word (std ! 0); msgLen = be_val (drop 2 std) in
        if msgLen < 4 then Inl (BogusLength msgLen)
        else bind_err (read_full (msgLen - 4) s1) (\<lambda>(rest, s2).
          bind_err (decode_rest htyp rest) (\<lambda>m. Inr (m, s2)))))"

definition ReadDLTMessage :: "bytes \<Rightarrow> read_error + dlt_message \<times> bytes" where
  "ReadDLTMessage s =
     bind_err (read_full dltStorageHeader s) (\<lambda>(storage, s1).
       if take 4 storage \<noteq> dltStorageMagic then Inl (BadMagic (take 4 storage))
       else (let secs = le_val (take 4 (drop 4 storage)); usecs = le_val (take 4 (drop 8 storage));
                 ts = int secs * 10 ^ 9 + int usecs * 1000; ecuID = trimZero (drop 12 storage)
             in bind_err (readStandardAndPayload s1) (\<lambda>(m, s2).
                  Inr (m\<lparr>dm_time := ts, dm_ecu := (if dm_ecu m = [] then ecuID else dm_ecu m)\<rparr>, s2))))"

definition ReadDLTMessageStream :: "bytes \<Rightarrow> time \<Rightarrow> read_error + dlt_message \<times> bytes" where
  "ReadDLTMessageStream s fallback =
     bind_err (readStandardAndPayload s) (\<lambda>(m, s2). Inr (m\<lparr>dm_time := fallback\<rparr>, s2))"

section \<open>Messages from frames\<close>

definition FillFromSpine :: "spine_result \<Rightarrow> message \<Rightarrow> message" where
  "FillFromSpine r m = m\<lparr>m_spine := r_spine r, m_classifier := r_classifier r, m_fn := r_fn r,
     m_ctr := r_ctr r, m_ref := r_ref r, m_dev_src := r_dev_src r, m_dev_dst := r_dev_dst r,
     m_ent_src := r_ent_src r, m_ent_dst := r_ent_dst r, m_feat_src := r_feat_src r,
     m_feat_dst := r_feat_dst r\<rparr>"

text \<open>The peer's name where the datagram does not say it.\<close>

definition fill_peer :: "direction \<Rightarrow> string \<Rightarrow> message \<Rightarrow> message" where
  "fill_peer dir peer m =
     (if dir = DirectionOutgoing \<and> m_dev_dst m = [] then m\<lparr>m_dev_dst := peer\<rparr>
      else if dir = DirectionIncoming \<and> m_dev_src m = [] then m\<lparr>m_dev_src := peer\<rparr>
      else m)"

definition spine_log_error :: string where
  "spine_log_error = ''could not parse SPINE datagram from log line''"

definition BuildMessageFromJSON ::
  "externals \<Rightarrow> string \<Rightarrow> int \<Rightarrow> time \<Rightarrow> direction \<Rightarrow> string \<Rightarrow> message" where
  "BuildMessageFromJSON x normalized seqNum ts dir peer =
     (let msg = empty_message\<lparr>m_seq := seqNum, m_time := ts, m_dir := dir, m_norm := normalized,
                  m_type := ShipMsgTypeData\<rparr>;
          filled = (case ParseSpineFromJSON x normalized of
              Some r \<Rightarrow> FillFromSpine r msg
            | None \<Rightarrow> (case ParseShipFromJSON x normalized of
                Inr sr \<Rightarrow>
                  (let msg1 = msg\<lparr>m_type := sp_type sr, m_ship := sp_ship sr\<rparr> in
                   case sp_spine sr of
                     Some r \<Rightarrow> FillFromSpine r msg1
                   | None \<Rightarrow> if sp_type sr = ShipMsgTypeData then msg1\<lparr>m_error := spine_log_error\<rparr> else msg1)
              | Inl _ \<Rightarrow> msg\<lparr>m_error := spine_log_error\<rparr>))
      in fill_peer dir peer filled)"

text \<open>A message, a truncated payload, or nothing.\<close>

datatype frame_result = NoContent | FrameTruncated | FrameMessage message

definition DLTFrameToMessage :: "externals \<Rightarrow> dlt_message \<Rightarrow> int \<Rightarrow> frame_result" where
  "DLTFrameToMessage x f seqNum =
     (if \<not> dm_verbose f \<or> dm_args f = [] then NoContent
      else (case ExtractEEBusFromDLTPayload (dm_apid f) (dm_ctid f) (dm_args f) of
          None \<Rightarrow> NoContent
        | Some Truncated \<Rightarrow> FrameTruncated
        | Some (Extracted j dir) \<Rightarrow>
            if \<not> IsCompleteJSON j then FrameTruncated
            else FrameMessage (BuildMessageFromJSON x (NormalizeEEBUSJSON x j) seqNum (dm_time f) dir [])))"

section \<open>Lemmas: completeness\<close>

lemma complete_fold:
  "complete_from d ins esc s =
     (case foldl (\<lambda>b c. case b of None \<Rightarrow> None | Some st \<Rightarrow> bal_step st c) (Some (d, ins, esc)) s of
        None \<Rightarrow> False | Some (d', ins', _) \<Rightarrow> d' = 0 \<and> \<not> ins')"
proof (induction d ins esc s rule: complete_from.induct)
  case (2 depth ins esc c s)
  have none: "foldl (\<lambda>b c. case b of None \<Rightarrow> None | Some st \<Rightarrow> bal_step st c) None s = None" for s
    by (induction s) auto
  from 2 none show ?case by auto
qed simp

lemma bal_run:
  "lit_ok q \<Longrightarrow> fst (json_run q s) \<noteq> Bad \<Longrightarrow>
     foldl (\<lambda>b c. case b of None \<Rightarrow> None | Some st \<Rightarrow> bal_step st c) (Some (bal_of q)) s
       = Some (bal_of (json_run q s))"
proof (induction s arbitrary: q)
  case (Cons c s)
  have nb: "fst (json_step q c) \<noteq> Bad" using Cons.prems(2) json_run_not_Bad by simp
  then have "bal_step (bal_of q) c = Some (bal_of (json_step q c))" by (rule json_step_bal [OF Cons.prems(1)])
  then show ?case using Cons.IH [OF lit_ok_step [OF Cons.prems(1)]] Cons.prems(2) by simp
qed simp

lemma complete_iff_run:
  assumes "fst (json_run (BeginValue, []) s) \<noteq> Bad"
  shows "IsCompleteJSON s \<longleftrightarrow>
    snd (json_run (BeginValue, []) s) = [] \<and> \<not> in_str (fst (json_run (BeginValue, []) s))"
  using bal_run [of "(BeginValue, [])" s] assms by (simp add: IsCompleteJSON_def complete_fold bal_of_def)

lemma valid_not_Bad: "json_valid s \<Longrightarrow> fst (json_run (BeginValue, []) s) \<noteq> Bad"
  by (erule json_valid_done) (auto simp: value_done_def)

lemma valid_complete:
  assumes "json_valid s"
  shows "IsCompleteJSON s"
proof -
  from assms obtain p where "json_run (BeginValue, []) s = (p, [])" "value_done p" by (rule json_valid_done)
  then show ?thesis by (subst complete_iff_run) (auto simp: value_done_def)
qed

text \<open>Inside an object the stack is empty only once it has been closed.\<close>

definition closed_or_open :: "scanner \<Rightarrow> bool" where
  "closed_or_open q \<longleftrightarrow> (snd q = [] \<longrightarrow> fst q = EndTop \<or> fst q = Bad)"

lemma end_value_closed: "ks \<noteq> [] \<Longrightarrow> closed_or_open (end_value c ks)"
  by (cases ks) (auto simp: closed_or_open_def split: jctx.splits)

lemma step_closed: "closed_or_open q \<Longrightarrow> closed_or_open (json_step q c)"
proof -
  assume q: "closed_or_open q"
  obtain p ks where [simp]: "q = (p, ks)" by (cases q)
  show ?thesis
  proof (cases "ks = []")
    case True
    then show ?thesis using q by (auto simp: closed_or_open_def split: if_splits)
  next
    case False
    note ev = end_value_closed [OF False, of c]
    show ?thesis
    proof (cases p)
      case BeginStringOrEmpty
      have "closed_or_open (end_value c (case ks of [] \<Rightarrow> [] | k # r \<Rightarrow> CVal # r))"
        using False by (intro end_value_closed) (auto split: list.splits)
      then show ?thesis using BeginStringOrEmpty False by (auto simp: closed_or_open_def begin_string_def)
    next
      case (Lit l)
      then show ?thesis using False by (cases l) (auto simp: closed_or_open_def)
    qed (use False ev in \<open>auto simp: closed_or_open_def begin_value_def begin_string_def num0_def exp_sign_def\<close>)
  qed
qed

lemma run_closed: "closed_or_open q \<Longrightarrow> closed_or_open (json_run q s)"
  by (induction s arbitrary: q) (auto simp: step_closed simp del: json_step.simps)

lemma run_EndTop: "fst (json_run (EndTop, []) s) \<noteq> Bad \<Longrightarrow> list_all is_ws s"
  by (induction s) (auto split: if_splits)

lemma object_prefix_open:
  assumes "json_valid (CHR ''{'' # s @ t)" and "\<not> list_all is_ws t"
  shows "\<not> IsCompleteJSON (CHR ''{'' # s)"
proof
  let ?q = "json_run (BeginValue, []) (CHR ''{'' # s)"
  have run: "json_run (BeginValue, []) (CHR ''{'' # s @ t) = json_run ?q t" by simp
  have nb: "fst (json_run ?q t) \<noteq> Bad" using valid_not_Bad [OF assms(1)] unfolding run .
  then have nbq: "fst ?q \<noteq> Bad" by (metis json_run_Bad prod.collapse)
  assume "IsCompleteJSON (CHR ''{'' # s)"
  then have "snd ?q = []" using complete_iff_run [OF nbq] by simp
  moreover have "closed_or_open ?q"
  proof -
    have "closed_or_open (json_step (BeginValue, []) (CHR ''{''))" by (simp add: begin_value_def closed_or_open_def)
    then show ?thesis by (simp add: run_closed del: json_step.simps)
  qed
  ultimately have "?q = (EndTop, [])" using nbq by (auto simp: closed_or_open_def prod_eq_iff)
  then show False using run_EndTop nb assms(2) by metis
qed

section \<open>Lemmas: frames\<close>

lemma bind_err_simps [simp]: "bind_err (Inr a) f = f a" "bind_err (Inl e) f = Inl e"
  by (simp_all add: bind_err_def)

lemma read_full_append [simp]: "length a = n \<Longrightarrow> read_full n (a @ s) = Inr (a, s)"
  by (auto simp: read_full_def)

lemma bind_err_Inr: "bind_err x f = Inr b \<longleftrightarrow> (\<exists>a. x = Inr a \<and> f a = Inr b)"
  by (cases x) auto

lemma bind_err_Inl: "bind_err x f = Inl e \<longleftrightarrow> x = Inl e \<or> (\<exists>a. x = Inr a \<and> f a = Inl e)"
  by (cases x) auto

lemma opt_field_not_EOF: "opt_field p n s \<noteq> Inl EOF"
  by (simp add: opt_field_def)

lemma decode_rest_not_EOF: "decode_rest h r \<noteq> Inl EOF"
  by (auto simp: decode_rest_def bind_err_Inl opt_field_not_EOF Let_def)

lemma read_full_EOF: "read_full n s = Inl EOF \<longleftrightarrow> s = [] \<and> 0 < n"
  by (auto simp: read_full_def)

lemma read_full_Inr: "read_full n s = Inr (a, r) \<longleftrightarrow> n \<le> length s \<and> a = take n s \<and> r = drop n s"
  by (auto simp: read_full_def)

lemma readStandard_progress:
  assumes "readStandardAndPayload s = Inr (m, r)"
  shows "\<exists>n. 4 \<le> n \<and> n \<le> length s \<and> r = drop n s"
proof -
  from assms obtain k rest where "4 \<le> length s" "read_full k (drop 4 s) = Inr (rest, r)"
    by (auto simp: readStandardAndPayload_def bind_err_Inr read_full_Inr [of 4] Let_def split: if_splits)
  then show ?thesis by (intro exI [of _ "k + 4"]) (auto simp: read_full_Inr)
qed

lemma ReadDLTMessage_progress:
  assumes "ReadDLTMessage s = Inr (m, r)"
  shows "\<exists>n. 20 \<le> n \<and> n \<le> length s \<and> r = drop n s"
proof -
  from assms obtain m' where s: "16 \<le> length s" "readStandardAndPayload (drop 16 s) = Inr (m', r)"
    by (auto simp: ReadDLTMessage_def bind_err_Inr read_full_Inr [of 16] Let_def dltStorageHeader_def split: if_splits)
  from readStandard_progress [OF s(2)] obtain n where "4 \<le> n" "n \<le> length s - 16" "r = drop n (drop 16 s)" by auto
  then show ?thesis using s(1) by (intro exI [of _ "n + 16"]) simp
qed

lemma readStandard_EOF:
  "readStandardAndPayload s = Inl EOF \<longleftrightarrow> s = [] \<or> (length s = 4 \<and> 4 < be_val (drop 2 s))"
proof (cases "length s < 4")
  case True
  then show ?thesis by (auto simp: readStandardAndPayload_def bind_err_Inl read_full_EOF read_full_Inr)
next
  case False
  let ?n = "be_val (drop 2 (take 4 s))"
  have r4: "read_full 4 s = Inr (take 4 s, drop 4 s)" using False by (simp add: read_full_def)
  have "readStandardAndPayload s = Inl EOF \<longleftrightarrow> \<not> ?n < 4 \<and> read_full (?n - 4) (drop 4 s) = Inl EOF"
    unfolding readStandardAndPayload_def r4
    by (auto simp: Let_def bind_err_Inl decode_rest_not_EOF split: prod.splits)
  also have "\<dots> \<longleftrightarrow> length s = 4 \<and> 4 < be_val (drop 2 s)"
    using False by (auto simp: read_full_EOF)
  finally show ?thesis using False by auto
qed

section \<open>Lemmas: a frame as it is written\<close>

fun be_bytes :: "nat \<Rightarrow> nat \<Rightarrow> bytes" where
  "be_bytes 0 n = []"
| "be_bytes (Suc k) n = be_bytes k (n div 256) @ [char_of (n mod 256)]"

definition order_bytes :: "bool \<Rightarrow> nat \<Rightarrow> nat \<Rightarrow> bytes" where
  "order_bytes be k n = (if be then be_bytes k n else rev (be_bytes k n))"

lemma be_bytes_length [simp]: "length (be_bytes k n) = k"
  by (induction k arbitrary: n) auto

lemma order_bytes_length [simp]: "length (order_bytes be k n) = k"
  by (simp add: order_bytes_def)

lemma be_val_bytes: "n < 256 ^ k \<Longrightarrow> be_val (be_bytes k n) = n"
proof (induction k arbitrary: n)
  case (Suc k)
  have "be_val (be_bytes k (n div 256)) = n div 256" using Suc.prems by (intro Suc.IH) (simp add: less_mult_imp_div_less mult.commute)
  then show ?case by (simp add: be_val_def)
qed (simp add: be_val_def)

lemma order_val_bytes: "n < 256 ^ k \<Longrightarrow> order_val be (order_bytes be k n) = n"
  by (simp add: order_val_def order_bytes_def le_val_def be_val_bytes)

definition nul :: char where "nul = CHR 0x00"

definition pad4 :: "string \<Rightarrow> bytes" where
  "pad4 s = s @ replicate (4 - length s) nul"

definition no_nul :: "string \<Rightarrow> bool" where
  "no_nul s \<longleftrightarrow> list_all (\<lambda>c. ord c \<noteq> 0) s"

lemma trimZero_app: "no_nul s \<Longrightarrow> trimZero (s @ nul # r) = s"
  by (induction s) (auto simp: trimZero_def no_nul_def nul_def)

lemma trimZero_id: "no_nul s \<Longrightarrow> trimZero s = s"
  by (induction s) (auto simp: trimZero_def no_nul_def)

lemma trimZero_pad4: "no_nul s \<Longrightarrow> trimZero (pad4 s) = s"
  by (cases "4 - length s") (simp_all add: pad4_def trimZero_app trimZero_id)

lemma pad4_length: "length s \<le> 4 \<Longrightarrow> length (pad4 s) = 4"
  by (simp add: pad4_def)

definition string_arg :: "bool \<Rightarrow> string \<Rightarrow> bytes" where
  "string_arg be a = order_bytes be 4 512 @ order_bytes be 2 (length a + 1) @ a @ [nul]"

lemma decode_string_arg:
  assumes "no_nul a" and "length a + 1 < 65536"
  shows "decodeVerboseStringArgs (string_arg be a) be = a"
proof -
  have l: "length (string_arg be a) = Suc (6 + length a)" by (simp add: string_arg_def)
  have t: "order_val be (take 4 (string_arg be a)) = 512" by (simp add: string_arg_def order_val_bytes)
  have w: "(word_of_nat 512 :: 32 word) AND typeInfoStringMask \<noteq> 0" by (simp add: typeInfoStringMask_def)
  have s: "order_val be (take 2 (drop 4 (string_arg be a))) = length a + 1"
    using assms(2) by (simp add: string_arg_def order_val_bytes)
  have d: "drop 2 (drop 4 (string_arg be a)) = a @ [nul]" by (simp add: string_arg_def)
  have e: "string_args be [] out = out" for out by (simp add: string_args.simps)
  show ?thesis
    unfolding decodeVerboseStringArgs_def string_args.simps [of be "string_arg be a"] Let_def t s d
    using l w trimZero_app [OF assms(1), of "[]"] e by simp
qed

text \<open>A verbose frame with one string argument, in either byte order.\<close>

definition dlt_frame :: "nat \<Rightarrow> nat \<Rightarrow> string \<Rightarrow> bool \<Rightarrow> string \<Rightarrow> string \<Rightarrow> string \<Rightarrow> bytes" where
  "dlt_frame secs usecs ecu be apid ctid a =
     dltStorageMagic @ rev (be_bytes 4 secs) @ rev (be_bytes 4 usecs) @ pad4 ecu
     @ [if be then CHR 0x03 else CHR 0x01, nul] @ be_bytes 2 (14 + length (string_arg be a))
     @ [CHR 0x01, CHR 0x01] @ pad4 apid @ pad4 ctid @ string_arg be a"

lemma frame_flags:
  "flag_set (byte_word (if be then CHR 0x03 else CHR 0x01)) htypWEID = False"
  "flag_set (byte_word (if be then CHR 0x03 else CHR 0x01)) htypWSID = False"
  "flag_set (byte_word (if be then CHR 0x03 else CHR 0x01)) htypWTMS = False"
  "flag_set (byte_word (if be then CHR 0x03 else CHR 0x01)) htypUEH = True"
  "flag_set (byte_word (if be then CHR 0x03 else CHR 0x01)) htypMSBF = be"
  "flag_set (byte_word (CHR 0x01)) msinVerbose = True"
  by (cases be; simp add: flag_set_def byte_word_def htypWEID_def htypWSID_def htypWTMS_def htypUEH_def
      htypMSBF_def msinVerbose_def)+

lemma frame_payload:
  assumes "no_nul a" and "length a + 1 < 65536" and "no_nul apid" and "length apid \<le> 4"
    and "no_nul ctid" and "length ctid \<le> 4"
  shows "decode_rest (byte_word (if be then CHR 0x03 else CHR 0x01))
      ([CHR 0x01, CHR 0x01] @ pad4 apid @ pad4 ctid @ string_arg be a) =
    Inr \<lparr>dm_time = zero_time, dm_ecu = [], dm_apid = apid, dm_ctid = ctid, dm_verbose = True, dm_args = a\<rparr>"
proof -
  let ?s = "[CHR 0x01, CHR 0x01] @ pad4 apid @ pad4 ctid @ string_arg be a"
  let ?e = "[CHR 0x01, CHR 0x01] @ pad4 apid @ pad4 ctid"
  have le: "length ?e = 10" by (simp add: pad4_length assms)
  have s: "?s = ?e @ string_arg be a" by simp
  have f: "opt_field True 10 ?s = Inr (?e, string_arg be a)"
    unfolding s using le by (simp add: opt_field_def del: append.simps append_assoc)
  have parts: "hd ?e = CHR 0x01" "take 4 (drop 2 ?e) = pad4 apid" "take 4 (drop 6 ?e) = pad4 ctid"
    by (simp_all add: pad4_length assms)
  show ?thesis
    unfolding decode_rest_def frame_flags
    using f parts decode_string_arg [OF assms(1,2), of be]
    by (simp add: opt_field_def [of False] trimZero_pad4 assms frame_flags
        trimZero_def [of "[]"] del: append.simps append_Cons)
qed

lemma take_drop_app: "length a = n \<Longrightarrow> take n (a @ b) = a" "length a = n \<Longrightarrow> drop n (a @ b) = b"
  by simp_all

section \<open>Properties\<close>

text \<open>C8: the check that keeps truncated payloads out accepts every valid JSON text and rejects every
  beginning of an object that is cut off before its end.\<close>

theorem truncation_detected:
  "(json_valid s \<longrightarrow> IsCompleteJSON s) \<and>
   (json_valid (CHR ''{'' # a @ b) \<and> \<not> list_all is_ws b \<longrightarrow> \<not> IsCompleteJSON (CHR ''{'' # a))"
  using valid_complete object_prefix_open by blast

theorem truncation_detected_witness:
  "IsCompleteJSON ''{\"a\":[1]}'' \<and> \<not> IsCompleteJSON ''{\"a\":[1]''"
proof -
  have v: "json_valid ''{\"a\":[1]}''" by code_simp
  have "json_valid (CHR ''{'' # ''\"a\":[1]'' @ ''}'')" using v by simp
  moreover have "\<not> list_all is_ws ''}''" by simp
  ultimately show ?thesis using v truncation_detected [of "''{\"a\":[1]}''" "''\"a\":[1]''" "''}''"] by simp
qed

text \<open>C9: a verbose frame written with one string argument, in either byte order, is read back: the
  identifiers, the time and the text come out as they went in, and the reader stops exactly at the
  end of the frame.\<close>

theorem frame_roundtrip:
  assumes "secs < 2 ^ 32" and "usecs < 2 ^ 32" and "length a + 16 < 65521" and "no_nul a"
    and "no_nul ecu" and "no_nul apid" and "no_nul ctid"
    and "length ecu \<le> 4" and "length apid \<le> 4" and "length ctid \<le> 4"
  shows "ReadDLTMessage (dlt_frame secs usecs ecu be apid ctid a @ rest) =
    Inr (\<lparr>dm_time = int secs * 10 ^ 9 + int usecs * 1000, dm_ecu = ecu, dm_apid = apid, dm_ctid = ctid,
          dm_verbose = True, dm_args = a\<rparr>, rest)"
proof -
  let ?h = "if be then CHR 0x03 else CHR 0x01"
  let ?st = "dltStorageMagic @ rev (be_bytes 4 secs) @ rev (be_bytes 4 usecs) @ pad4 ecu"
  let ?body = "[CHR 0x01, CHR 0x01] @ pad4 apid @ pad4 ctid @ string_arg be a"
  let ?std = "[?h, nul] @ be_bytes 2 (14 + length (string_arg be a))"
  have fr: "dlt_frame secs usecs ecu be apid ctid a @ rest = ?st @ ?std @ ?body @ rest"
    by (simp add: dlt_frame_def)
  have ls: "length (string_arg be a) = 7 + length a" by (simp add: string_arg_def)
  have lst: "length ?st = 16" by (simp add: dltStorageMagic_def pad4_length assms)
  have lbody: "length ?body = 10 + length (string_arg be a)" by (simp add: pad4_length assms)
  have blen: "be_val (be_bytes 2 (14 + length (string_arg be a))) = 14 + length (string_arg be a)"
    using assms(3) by (intro be_val_bytes) (simp add: ls)
  have rb: "read_full (14 + length (string_arg be a) - 4) (?body @ rest) = Inr (?body, rest)"
    using lbody by (intro read_full_append) linarith
  have rstd: "read_full 4 (?std @ ?body @ rest) = Inr (?std, ?body @ rest)" by (rule read_full_append) simp
  have std: "byte_word (?std ! 0) = byte_word ?h" "drop 2 ?std = be_bytes 2 (14 + length (string_arg be a))"
    by simp_all
  have body: "readStandardAndPayload (?std @ ?body @ rest) =
      Inr (\<lparr>dm_time = zero_time, dm_ecu = [], dm_apid = apid, dm_ctid = ctid, dm_verbose = True, dm_args = a\<rparr>, rest)"
    unfolding readStandardAndPayload_def rstd bind_err_simps prod.case Let_def std blen rb
    using frame_payload [of a apid ctid be] assms by (simp del: append.simps append_Cons)
  have secs: "le_val (take 4 (drop 4 ?st)) = secs" "le_val (take 4 (drop 8 ?st)) = usecs"
    "drop 12 ?st = pad4 ecu" "take 4 ?st = dltStorageMagic"
    using assms(1,2) by (simp_all add: dltStorageMagic_def le_val_def be_val_bytes)
  have rst: "read_full dltStorageHeader (?st @ ?std @ ?body @ rest) = Inr (?st, ?std @ ?body @ rest)"
    unfolding dltStorageHeader_def by (rule read_full_append [OF lst])
  show ?thesis
    unfolding fr ReadDLTMessage_def rst bind_err_simps prod.case secs body Let_def
    by (simp add: trimZero_pad4 assms)
qed

theorem frame_roundtrip_witness:
  "ReadDLTMessage (dlt_frame 1 2 ''ECU1'' True ''CEM'' ''CEM'' ''hello'' @ ''x'') =
    Inr (\<lparr>dm_time = 1000002000, dm_ecu = ''ECU1'', dm_apid = ''CEM'', dm_ctid = ''CEM'',
          dm_verbose = True, dm_args = ''hello''\<rparr>, ''x'')"
proof -
  have n: "no_nul ''hello''" "no_nul ''ECU1''" "no_nul ''CEM''" by (simp_all add: no_nul_def)
  show ?thesis by (subst frame_roundtrip) (simp_all add: n)
qed

text \<open>The end-of-stream error, which the importers take for a clean end of the file, is returned
  for an empty rest, but also for a frame cut off right after its storage header or right after its
  standard header.\<close>

theorem eof_cases:
  "ReadDLTMessage s = Inl EOF \<longleftrightarrow>
     s = [] \<or> (take 4 s = dltStorageMagic \<and>
       (length s = 16 \<or> (length s = 20 \<and> 4 < be_val (drop 18 s))))"
proof (cases "length s < 16")
  case True
  have "read_full 16 s = (if s = [] then Inl EOF else Inl UnexpectedEOF)" using True by (simp add: read_full_def)
  then show ?thesis using True by (auto simp: ReadDLTMessage_def dltStorageHeader_def)
next
  case False
  have r: "read_full 16 s = Inr (take 16 s, drop 16 s)" using False by (simp add: read_full_def)
  have m: "take 4 (take 16 s) = take 4 s" by simp
  have "ReadDLTMessage s = Inl EOF \<longleftrightarrow>
      take 4 s = dltStorageMagic \<and> readStandardAndPayload (drop 16 s) = Inl EOF"
    unfolding ReadDLTMessage_def dltStorageHeader_def r bind_err_simps prod.case m
    by (auto simp: Let_def bind_err_Inl split: prod.splits)
  also have "\<dots> \<longleftrightarrow> take 4 s = dltStorageMagic \<and>
       (length s = 16 \<or> (length s = 20 \<and> 4 < be_val (drop 18 s)))"
    using False by (auto simp: readStandard_EOF)
  finally show ?thesis using False by auto
qed

end
