(* ===== verification/LogFormat.thy ===== *)
theory LogFormat
  imports Dlt
begin

text \<open>
  \<open>internal/parser/logformat.go\<close> and the line patterns of \<open>dlt.go\<close>: which of the five text formats a log
  has, the patterns of their lines, and their timestamps. \<open>time.Parse\<close> is modelled for the texts the
  patterns let through (two-digit fields).
\<close>

section \<open>Patterns\<close>

definition hms_rx :: rx where "hms_rx = cats [dg 2, Str '':'', dg 2, Str '':'', dg 2]"
definition hms_ms_rx :: rx where "hms_ms_rx = cats [hms_rx, Str ''.'', dg 3]"
definition slash_date_rx :: rx where "slash_date_rx = cats [dg 4, Str ''/'', dg 2, Str ''/'', dg 2]"
definition dash_date_rx :: rx where "dash_date_rx = cats [dg 4, Str ''-'', dg 2, Str ''-'', dg 2]"
definition word_rx :: rx where "word_rx = some not_space"
definition send_recv_rx :: rx where "send_recv_rx = Alt (Str ''Send'') (Str ''Recv'')"

definition LogLineRegex :: rx where
  "LogLineRegex = cats [Opt (cats [Grp 1 (some is_digit), sp]), Str ''['', Grp 2 hms_ms_rx, Str '']'', sp,
     Grp 3 (Alt (Str ''SEND'') (Str ''RECV'')), sp, Alt (Str ''to'') (Str ''from''), sp, Grp 4 word_rx, sp,
     Str ''MSG:'', sp, Grp 5 (some rx_dot)]"

definition EEBusTesterLogRegex :: rx where
  "EEBusTesterLogRegex = cats [Str ''['', Grp 1 (dg 8), sp, Grp 2 hms_ms_rx, Str '']'', sp, Str ''-'', sp,
     Str ''INFO'', sp, Str ''-'', sp, Str ''DATAGRAM'', sp, Str ''-'', sp, word_rx, sp, Str ''-'', sp,
     Grp 3 (Alt (Str ''Send'') (Str ''Received'')), sp, Str ''message'', sp,
     Alt (Str ''to'') (Str ''from''), sp, Str [CHR 0x27], Grp 4 (some not_quote), Str [CHR 0x27, CHR '':''],
     sp, Grp 5 (some rx_dot)]"

definition eebustesterPrefixRegex :: rx where
  "eebustesterPrefixRegex = cats [Str ''['', dg 8, sp, hms_ms_rx, Str '']'']"

definition eebusgoPrefixRegex :: rx where
  "eebusgoPrefixRegex = cats [Opt (cats [some is_digit, sp]), Str ''['', hms_rx]"

definition EEBusHubLogRegex :: rx where
  "EEBusHubLogRegex = cats [Grp 1 dash_date_rx, sp, Grp 2 hms_rx, sp, Str ''['', Grp 3 send_recv_rx,
     Str '']'', sp, Grp 4 (rep 40 (One is_hex)), Grp 5 (some rx_dot)]"

definition eebushubPrefixRegex :: rx where
  "eebushubPrefixRegex = cats [dash_date_rx, sp, hms_rx, sp, Str ''['', Grp 1 send_recv_rx, Str '']'']"

definition EVCCLogRegex :: rx where
  "EVCCLogRegex = cats [Str ''[eebus'', Many rx_space, Str '']'', sp, Str ''TRACE'', sp, Grp 1 slash_date_rx,
     sp, Grp 2 hms_rx, sp, Grp 3 send_recv_rx, Str '':'', sp, Grp 4 (rep 40 (One is_hex)), sp,
     Grp 5 (Alt (Str ''ship init'') (cats [Str ''{'', Many rx_dot]))]"

definition evccPrefixRegex :: rx where
  "evccPrefixRegex = cats [Str ''[eebus'', Many rx_space, Str '']'', sp,
     Alt (Str ''TRACE'') (Alt (Str ''DEBUG'') (Alt (Str ''INFO'') (Alt (Str ''WARN'') (Str ''ERROR'')))), sp,
     slash_date_rx]"

definition DLTTextLineRegex :: rx where
  "DLTTextLineRegex = cats [Many rx_space, Grp 1 (some is_digit), sp, Grp 2 slash_date_rx, sp,
     Grp 3 (cats [hms_rx, Str ''.'', some is_digit]), sp, word_rx, sp, word_rx, sp, word_rx, sp,
     Grp 4 word_rx, sp, Grp 5 word_rx, sp, word_rx, sp, Grp 6 word_rx, sp, word_rx, sp, word_rx, sp,
     word_rx, sp, Str '':'', Many rx_space, Grp 7 (Many rx_dot)]"

definition dltTextPrefixRegex :: rx where
  "dltTextPrefixRegex = cats [Many rx_space, some is_digit, sp, slash_date_rx, sp, hms_rx, Str ''.'', some is_digit]"

section \<open>Detection\<close>

datatype log_format = LogFormatUnknown | LogFormatEEBusGo | LogFormatEEBusTester | LogFormatEEBusHub
  | LogFormatDLTText | LogFormatEVCC

definition newline :: char where "newline = CHR 0x0A"

definition detect_line :: "string \<Rightarrow> log_format" where
  "detect_line line =
     (if rx_prefix eebushubPrefixRegex line then LogFormatEEBusHub
      else if rx_prefix dltTextPrefixRegex line then LogFormatDLTText
      else if rx_prefix eebustesterPrefixRegex line then LogFormatEEBusTester
      else if rx_prefix evccPrefixRegex line then LogFormatEVCC
      else if rx_prefix eebusgoPrefixRegex line then LogFormatEEBusGo
      else LogFormatUnknown)"

fun detect_lines :: "string list \<Rightarrow> log_format" where
  "detect_lines [] = LogFormatUnknown"
| "detect_lines (l # ls) =
     (let line = trim_space l in
      if line = [] then detect_lines ls
      else (case detect_line line of LogFormatUnknown \<Rightarrow> detect_lines ls | f \<Rightarrow> f))"

definition DetectLogFormat :: "string \<Rightarrow> log_format" where
  "DetectLogFormat content = detect_lines (take 50 (split_char newline (take 4096 content)))"

section \<open>Timestamps\<close>

definition ParseLogTimestamp :: "time \<Rightarrow> string \<Rightarrow> time option" where
  "ParseLogTimestamp baseDate timeStr =
     (case split_once (CHR ''.'') timeStr of
        None \<Rightarrow> None
      | Some (hms, msec) \<Rightarrow> (case hms_fields hms of
            None \<Rightarrow> None
          | Some (h, m, s) \<Rightarrow>
              Some (baseDate + h * sec 3600 + m * sec 60 + s * sec 1 + fst (atoi msec) * ms 1)))"

definition ParseEEBusTesterTimestamp :: "string \<Rightarrow> string \<Rightarrow> time option" where
  "ParseEEBusTesterTimestamp dateStr timeStr =
     (if length dateStr \<noteq> 8 then None
      else (case (atoi (take 4 dateStr), atoi (take 2 (drop 4 dateStr)), atoi (take 2 (drop 6 dateStr))) of
          ((year, e1), (month, e2), (day, e3)) \<Rightarrow>
            if e1 \<or> e2 \<or> e3 then None
            else (case split_once (CHR ''.'') timeStr of
                None \<Rightarrow> None
              | Some (hms, msec) \<Rightarrow> (case hms_fields hms of
                    None \<Rightarrow> None
                  | Some (h, m, s) \<Rightarrow> Some (time_date year month day h m s (fst (atoi msec) * 1000000))))))"

text \<open>\<open>time.Parse("2006-01-02 15:04:05", \<dots>)\<close> with the date separator \<open>c\<close>: the fields must be in range.\<close>

definition parse_date_time :: "char \<Rightarrow> string \<Rightarrow> string \<Rightarrow> time option" where
  "parse_date_time c dateStr timeStr =
     (case (split_char c dateStr, split_char (CHR '':'') timeStr) of
        ([y, mo, d], [h, mi, s]) \<Rightarrow>
          if map length [y, mo, d, h, mi, s] \<noteq> [4, 2, 2, 2, 2, 2] \<or> \<not> list_all (list_all is_digit) [y, mo, d, h, mi, s]
          then None
          else (let v = (\<lambda>x. int (digits_val x)) in
            if v mo < 1 \<or> 12 < v mo \<or> v d < 1 \<or> days_in (v y) (v mo) < v d \<or> 23 < v h \<or> 59 < v mi \<or> 59 < v s
            then None
            else Some (time_date (v y) (v mo) (v d) (v h) (v mi) (v s) 0))
      | _ \<Rightarrow> None)"

definition ParseEEBusHubTimestamp :: "string \<Rightarrow> string \<Rightarrow> time option" where
  "ParseEEBusHubTimestamp dateStr timeStr = parse_date_time (CHR ''-'') dateStr timeStr"

definition ParseEVCCTimestamp :: "string \<Rightarrow> string \<Rightarrow> time option" where
  "ParseEVCCTimestamp dateStr timeStr = parse_date_time (CHR ''/'') dateStr timeStr"

section \<open>Peers\<close>

definition ExtractPeerDevice :: "string \<Rightarrow> string" where
  "ExtractPeerDevice peer =
     (let p = trim_prefix ''ship_'' peer in
      case last_index ''_0x'' p of
        Some i \<Rightarrow> if 0 < i then take i p else p
      | None \<Rightarrow> p)"

end
