(* ===== verification/LogDetect.thy ===== *)
theory LogDetect
  imports LogFormat
begin

text \<open>
  What the detection of \<open>logformat.go\<close> and the patterns of the importers have to do with each other: the
  beginning of a line that an importer accepts fits the prefix pattern of its format and none of those
  tried before it.
\<close>

section \<open>How a line begins, by format\<close>

lemma digit_no_space: "is_digit c \<Longrightarrow> \<not> rx_space c"
  by (auto simp: is_digit_def rx_space_def)

lemma space_no_digit: "rx_space c \<Longrightarrow> \<not> is_digit c"
  by (auto simp: is_digit_def rx_space_def)

lemma drop_run: "list_all P ds \<Longrightarrow> \<not> P c \<Longrightarrow> dropWhile P (ds @ c # r) = c # r"
  by (induction ds) auto

lemma lang_sp: "rx_lang sp s \<longleftrightarrow> (\<exists>c t. s = c # t \<and> rx_space c \<and> list_all rx_space t)"
  unfolding sp_def lang_some by (cases s) auto

lemma lang_dg_Suc: "rx_lang (dg (Suc n)) s \<longleftrightarrow> (\<exists>c t. s = c # t \<and> is_digit c \<and> rx_lang (dg n) t)"
  unfolding lang_dg by (cases s) auto

lemma hub_begin:
  assumes "rx_prefix eebushubPrefixRegex s"
  shows "is_digit (hd s) \<and> hd (dropWhile is_digit s) = CHR ''-''"
proof -
  from assms obtain u v where s: "s = u @ v" "rx_lang eebushubPrefixRegex u" by (auto simp: rx_prefix_iff)
  then obtain d w where d: "u = d @ w" "rx_lang dash_date_rx d" by (auto simp: eebushubPrefixRegex_def lang_cats)
  then obtain y z where y: "d = y @ CHR ''-'' # z" "length y = 4" "list_all is_digit y"
    by (auto simp: dash_date_rx_def lang_cats lang_dg)
  have "s = y @ CHR ''-'' # (z @ w @ v)" using s d y by simp
  moreover have "\<not> is_digit (CHR ''-'')" by (simp add: is_digit_def)
  ultimately show ?thesis using y by (cases y) (auto simp: drop_run)
qed

lemma dlt_begin:
  assumes "rx_prefix dltTextPrefixRegex s" and "\<not> rx_space (hd s)"
  shows "is_digit (hd s) \<and> rx_space (hd (dropWhile is_digit s))
    \<and> is_digit (hd (dropWhile rx_space (dropWhile is_digit s)))"
proof -
  from assms(1) obtain u v where s: "s = u @ v" "rx_lang dltTextPrefixRegex u" by (auto simp: rx_prefix_iff)
  then obtain ws ds ss dt w where p: "u = ws @ ds @ ss @ dt @ w" "list_all rx_space ws" "rx_lang (some is_digit) ds"
      "rx_lang sp ss" "rx_lang slash_date_rx dt"
    by (auto simp: dltTextPrefixRegex_def lang_cats simp del: cats.simps)
  obtain d dt' where dt: "dt = d # dt'" "is_digit d"
    using p(5) by (auto simp: slash_date_rx_def lang_cats lang_dg numeral_eq_Suc length_Suc_conv)
  obtain c ss' where ss: "ss = c # ss'" "rx_space c" "list_all rx_space ss'" using p(4) by (auto simp: lang_sp)
  have ds: "ds \<noteq> []" "list_all is_digit ds" using p(3) by (auto simp: lang_some)
  have ws: "ws = []" using assms(2) s p(1,2) by (cases ws) auto
  have s': "s = ds @ c # (ss' @ d # (dt' @ w @ v))" using s p(1) ws ss dt by simp
  have 1: "dropWhile is_digit s = c # (ss' @ d # (dt' @ w @ v))"
    unfolding s' using ds ss space_no_digit by (intro drop_run) auto
  have 2: "dropWhile rx_space (c # (ss' @ d # (dt' @ w @ v))) = d # (dt' @ w @ v)"
    using drop_run [of rx_space "c # ss'" d "dt' @ w @ v"] ss dt digit_no_space by simp
  show ?thesis unfolding 1 2 using ds ss dt s' by (cases ds) auto
qed

lemma tester_begin:
  assumes "rx_prefix eebustesterPrefixRegex s"
  shows "hd s = CHR ''['' \<and> is_digit (hd (tl s)) \<and> rx_space (hd (dropWhile is_digit (tl s)))"
proof -
  from assms obtain u v where s: "s = u @ v" "rx_lang eebustesterPrefixRegex u" by (auto simp: rx_prefix_iff)
  then obtain ds ss w where p: "u = CHR ''['' # ds @ ss @ w" "rx_lang (dg 8) ds" "rx_lang sp ss"
    by (auto simp: eebustesterPrefixRegex_def lang_cats simp del: cats.simps)
  obtain c ss' where ss: "ss = c # ss'" "rx_space c" using p(3) by (auto simp: lang_sp)
  have ds: "ds \<noteq> []" "list_all is_digit ds" using p(2) by (auto simp: lang_dg)
  have t: "tl s = ds @ c # (ss' @ w @ v)" using s p(1) ss by simp
  have "dropWhile is_digit (tl s) = c # (ss' @ w @ v)"
    unfolding t using ds ss space_no_digit by (intro drop_run) auto
  then show ?thesis using t s p(1) ss ds by (cases ds) auto
qed

lemma evcc_begin:
  assumes "rx_prefix evccPrefixRegex s"
  shows "take 6 s = ''[eebus''"
proof -
  from assms obtain u v where s: "s = u @ v" "rx_lang evccPrefixRegex u" by (auto simp: rx_prefix_iff)
  then obtain w where "u = ''[eebus'' @ w" by (auto simp: evccPrefixRegex_def lang_cats simp del: cats.simps)
  then show ?thesis using s by simp
qed

lemma go_begin:
  assumes "rx_prefix eebusgoPrefixRegex s"
  shows "(hd s = CHR ''['' \<and> is_digit (hd (tl s)) \<and> hd (dropWhile is_digit (tl s)) = CHR '':'')
    \<or> (is_digit (hd s) \<and> rx_space (hd (dropWhile is_digit s))
        \<and> hd (dropWhile rx_space (dropWhile is_digit s)) = CHR ''['')"
proof -
  have nd: "\<not> is_digit (CHR '':'')" "\<not> rx_space (CHR ''['')" by (simp_all add: is_digit_def rx_space_def)
  from assms obtain u v where s: "s = u @ v" "rx_lang eebusgoPrefixRegex u" by (auto simp: rx_prefix_iff)
  then have "\<exists>pre q. u = pre @ q \<and> (pre = [] \<or> rx_lang (cats [some is_digit, sp]) pre) \<and> rx_lang (cats [Str ''['', hms_rx]) q"
    unfolding eebusgoPrefixRegex_def lang_cats(2) [of "Opt (cats [some is_digit, sp])"] rx_lang.simps by blast
  then obtain pre h where p: "u = pre @ CHR ''['' # h" "rx_lang hms_rx h"
      "pre = [] \<or> rx_lang (cats [some is_digit, sp]) pre"
    by (auto simp: lang_cats simp del: cats.simps)
  from p(2) obtain hh m where h: "h = hh @ CHR '':'' # m" "length hh = 2" "list_all is_digit hh"
    by (auto simp: hms_rx_def lang_cats lang_dg)
  show ?thesis
  proof (cases "pre = []")
    case True
    have t: "tl s = hh @ CHR '':'' # (m @ v)" using s p(1) h True by simp
    have "dropWhile is_digit (tl s) = CHR '':'' # (m @ v)" unfolding t using h nd by (intro drop_run) auto
    then show ?thesis using t h s p(1) True by (cases hh) auto
  next
    case False
    then obtain ds ss where ds: "pre = ds @ ss" "rx_lang (some is_digit) ds" "rx_lang sp ss"
      using p(3) by (auto simp: lang_cats)
    obtain c ss' where ss: "ss = c # ss'" "rx_space c" "list_all rx_space ss'" using ds(3) by (auto simp: lang_sp)
    have d: "ds \<noteq> []" "list_all is_digit ds" using ds(2) by (auto simp: lang_some)
    have s': "s = ds @ c # (ss' @ CHR ''['' # (h @ v))" using s p(1) ds(1) ss by simp
    have 1: "dropWhile is_digit s = c # (ss' @ CHR ''['' # (h @ v))"
      unfolding s' using d ss space_no_digit by (intro drop_run) auto
    have 2: "dropWhile rx_space (c # (ss' @ CHR ''['' # (h @ v))) = CHR ''['' # (h @ v)"
      using drop_run [of rx_space "c # ss'" "CHR ''[''" "h @ v"] ss nd by simp
    have "is_digit (hd s)" using d s' by (cases ds) auto
    then show ?thesis unfolding 1 2 using ss by simp
  qed
qed

text \<open>No line fits two prefix patterns, unless it begins with white space.\<close>

lemma prefixes_disjoint:
  assumes "\<not> rx_space (hd s)"
  shows "rx_prefix dltTextPrefixRegex s \<Longrightarrow> \<not> rx_prefix eebushubPrefixRegex s"
    and "rx_prefix eebustesterPrefixRegex s \<Longrightarrow> \<not> rx_prefix eebushubPrefixRegex s \<and> \<not> rx_prefix dltTextPrefixRegex s"
    and "rx_prefix evccPrefixRegex s \<Longrightarrow> \<not> rx_prefix eebushubPrefixRegex s \<and> \<not> rx_prefix dltTextPrefixRegex s
      \<and> \<not> rx_prefix eebustesterPrefixRegex s"
    and "rx_prefix eebusgoPrefixRegex s \<Longrightarrow> \<not> rx_prefix eebushubPrefixRegex s \<and> \<not> rx_prefix dltTextPrefixRegex s
      \<and> \<not> rx_prefix eebustesterPrefixRegex s \<and> \<not> rx_prefix evccPrefixRegex s"
proof -
  have c: "\<not> is_digit (CHR ''['')" "\<not> rx_space (CHR ''-'')" "\<not> rx_space (CHR '':'')" "\<not> is_digit (CHR ''e'')"
    by (simp_all add: is_digit_def rx_space_def)
  note b = hub_begin [of s] dlt_begin [of s, OF _ assms] tester_begin [of s] evcc_begin [of s] go_begin [of s]
  have ev: "hd s = CHR ''['' \<and> hd (tl s) = CHR ''e''" if "take 6 s = ''[eebus''"
    using that by (cases s; cases "tl s") auto
  show "rx_prefix dltTextPrefixRegex s \<Longrightarrow> \<not> rx_prefix eebushubPrefixRegex s" using b(1,2) c by auto
  show "rx_prefix eebustesterPrefixRegex s \<Longrightarrow> \<not> rx_prefix eebushubPrefixRegex s \<and> \<not> rx_prefix dltTextPrefixRegex s"
    using b(1,2,3) c by auto
  show "rx_prefix evccPrefixRegex s \<Longrightarrow> \<not> rx_prefix eebushubPrefixRegex s \<and> \<not> rx_prefix dltTextPrefixRegex s
      \<and> \<not> rx_prefix eebustesterPrefixRegex s" using b(1,2,3,4) c ev by metis
  show "rx_prefix eebusgoPrefixRegex s \<Longrightarrow> \<not> rx_prefix eebushubPrefixRegex s \<and> \<not> rx_prefix dltTextPrefixRegex s
      \<and> \<not> rx_prefix eebustesterPrefixRegex s \<and> \<not> rx_prefix evccPrefixRegex s"
    using b c ev by metis
qed

section \<open>From an importer's pattern to the prefix\<close>

definition rx_sub :: "rx \<Rightarrow> rx \<Rightarrow> bool" where
  "rx_sub a b \<longleftrightarrow> (\<forall>s. rx_lang a s \<longrightarrow> rx_lang b s)"

lemma rx_sub_simps [simp]:
  "rx_sub a a" "rx_sub (Grp n a) a" "rx_sub (Grp n a) (Grp m a)" "rx_sub (Grp n a) (Alt a b)" "rx_sub a (Alt a b)"
  "rx_sub a (Grp n a)"
  by (simp_all add: rx_sub_def)

lemma lang_cats_sub: "list_all2 rx_sub rs qs \<Longrightarrow> rx_lang (cats rs) s \<Longrightarrow> rx_lang (cats qs) s"
proof (induction arbitrary: s rule: list_all2_induct)
  case (Cons a rs b qs)
  then show ?case unfolding lang_cats rx_sub_def by blast
qed simp

text \<open>A list of patterns whose first ones refine those of a prefix pattern.\<close>

lemma line_prefix:
  assumes "rx_lang (cats rs) l" and "list_all2 rx_sub (take (length qs) rs) qs"
  shows "rx_prefix (cats qs) l"
proof -
  have "rx_lang (cats (take (length qs) rs @ drop (length qs) rs)) l" using assms(1) by simp
  from lang_cats_prefix [OF this] obtain u v where "l = u @ v" "rx_lang (cats (take (length qs) rs)) u" by blast
  then show ?thesis using lang_cats_sub [OF assms(2)] by (auto simp: rx_prefix_iff)
qed

lemmas line_prefixes =
  eebushubPrefixRegex_def dltTextPrefixRegex_def eebustesterPrefixRegex_def evccPrefixRegex_def eebusgoPrefixRegex_def
  EEBusHubLogRegex_def DLTTextLineRegex_def EEBusTesterLogRegex_def EVCCLogRegex_def LogLineRegex_def

lemma hub_line: "rx_lang EEBusHubLogRegex l \<Longrightarrow> rx_prefix eebushubPrefixRegex l"
  unfolding line_prefixes by (erule line_prefix) simp

lemma tester_line: "rx_lang EEBusTesterLogRegex l \<Longrightarrow> rx_prefix eebustesterPrefixRegex l"
  unfolding line_prefixes by (erule line_prefix) simp

lemma evcc_line: "rx_lang EVCCLogRegex l \<Longrightarrow> rx_prefix evccPrefixRegex l"
  unfolding line_prefixes by (erule line_prefix) simp

lemma lang_cats_append: "rx_lang (cats (rs @ qs)) s \<longleftrightarrow> (\<exists>u v. s = u @ v \<and> rx_lang (cats rs) u \<and> rx_lang (cats qs) v)"
proof (induction rs arbitrary: s)
  case (Cons r rs)
  show ?case unfolding append_Cons lang_cats Cons.IH by (metis append.assoc)
qed (simp add: lang_cats)

lemma go_line: "rx_lang LogLineRegex l \<Longrightarrow> rx_prefix eebusgoPrefixRegex l"
proof -
  assume "rx_lang LogLineRegex l"
  then obtain a b u v w where l: "l = a @ b @ u @ v @ w" "rx_lang (Opt (cats [Grp 1 (some is_digit), sp])) a"
      "rx_lang (Str ''['') b" "rx_lang hms_rx u"
    unfolding LogLineRegex_def lang_cats hms_ms_rx_def rx_lang.simps(8) by (metis append.assoc)
  have "rx_lang (Opt (cats [some is_digit, sp])) a"
    using l(2) lang_cats_sub [of "[Grp 1 (some is_digit), sp]" "[some is_digit, sp]"] by auto
  then have "rx_lang eebusgoPrefixRegex (a @ b @ u)"
    using l(3,4) unfolding eebusgoPrefixRegex_def lang_cats by (metis append_Nil2)
  then show ?thesis unfolding rx_prefix_iff using l(1) by (metis append.assoc)
qed

lemma dlt_line: "rx_lang DLTTextLineRegex l \<Longrightarrow> rx_prefix dltTextPrefixRegex l"
proof -
  let ?pre = "[Many rx_space, Grp 1 (some is_digit), sp, Grp 2 slash_date_rx, sp]"
  let ?pre' = "[Many rx_space, some is_digit, sp, slash_date_rx, sp]"
  let ?fr = "[hms_rx, Str ''.'', some is_digit]"
  assume "rx_lang DLTTextLineRegex l"
  then have "\<exists>qs. rx_lang (cats (?pre @ Grp 3 (cats ?fr) # qs)) l"
    unfolding DLTTextLineRegex_def append_Cons append_Nil by (rule exI)
  then obtain u f v where l: "l = u @ f @ v" "rx_lang (cats ?pre) u" "rx_lang (cats ?fr) f"
    unfolding lang_cats_append lang_cats(2) [of "Grp 3 r" for r] rx_lang.simps(8) by blast
  have "rx_lang (cats ?pre') u" using l(2) by (rule lang_cats_sub [rotated]) simp
  then have "rx_lang dltTextPrefixRegex (u @ f)"
    using l(3) lang_cats_append [of ?pre' ?fr "u @ f"] unfolding dltTextPrefixRegex_def by auto
  then show ?thesis unfolding rx_prefix_iff using l(1) by (metis append.assoc)
qed

section \<open>Detection of an accepted line\<close>

text \<open>The pattern by which the importer of a format recognises a line.\<close>

fun importer_pattern :: "log_format \<Rightarrow> rx option" where
  "importer_pattern LogFormatEEBusHub = Some EEBusHubLogRegex"
| "importer_pattern LogFormatDLTText = Some DLTTextLineRegex"
| "importer_pattern LogFormatEEBusTester = Some EEBusTesterLogRegex"
| "importer_pattern LogFormatEVCC = Some EVCCLogRegex"
| "importer_pattern LogFormatEEBusGo = Some LogLineRegex"
| "importer_pattern LogFormatUnknown = None"

lemma accepted_detected:
  assumes "importer_pattern f = Some r" and "rx_find r l \<noteq> None" and "\<not> rx_space (hd l)"
  shows "detect_line l = f"
proof -
  have "rx_lang r l" using assms(2) rx_find_iff by blast
  then show ?thesis
    using assms(1) prefixes_disjoint [OF assms(3)] hub_line dlt_line tester_line evcc_line go_line
    unfolding detect_line_def by (cases f) auto
qed

lemma rx_space_is_space: "rx_space c \<Longrightarrow> is_space c"
  by (auto simp: rx_space_def is_space_def)

lemma detect_lines_hd:
  "detect_line l = f \<Longrightarrow> f \<noteq> LogFormatUnknown \<Longrightarrow> trim_space l = l \<Longrightarrow> l \<noteq> [] \<Longrightarrow> detect_lines (l # ls) = f"
  by (cases f) simp_all

text \<open>C17: Detection and import agree. When the first line of a log (trimmed, within the first 4096 bytes)
  is one that the importer of a text format accepts as a message line, \<open>DetectLogFormat\<close> chooses that
  format, whatever follows: no pattern that is tried earlier takes the line.\<close>

theorem detection_agrees:
  assumes "split_char newline (take 4096 content) = l # ls" and "trim_space l = l"
    and "importer_pattern f = Some r" and "rx_find r l \<noteq> None"
  shows "DetectLogFormat content = f"
proof -
  have f: "f \<noteq> LogFormatUnknown" using assms(3) by auto
  have ne: "l \<noteq> []"
  proof
    assume "l = []"
    then have "rx_lang r []" using assms(4) rx_find_iff by blast
    then show False using assms(3)
      by (cases f) (auto simp: line_prefixes lang_cats lang_some word_rx_def dash_date_rx_def lang_dg simp del: cats.simps)
  qed
  then have "\<not> rx_space (hd l)"
    using assms(2) trim_by_trimmed [of is_space l] rx_space_is_space by (auto simp: trim_space_def)
  with accepted_detected [OF assms(3,4)] have "detect_line l = f" .
  then show ?thesis using assms(1,2) f ne detect_lines_hd by (simp add: DetectLogFormat_def numeral_eq_Suc)
qed

lemma detection_agrees_witness:
  "DetectLogFormat (''[eebus] TRACE 2025/01/02 03:04:05 Send: '' @ replicate 40 CHR ''a'' @ '' ship init'') = LogFormatEVCC"
proof -
  let ?l = "''[eebus] TRACE 2025/01/02 03:04:05 Send: '' @ replicate 40 CHR ''a'' @ '' ship init''"
  have 1: "split_char newline (take 4096 ?l) = [?l]" by code_simp
  have 2: "trim_space ?l = ?l" by code_simp
  have 3: "rx_find EVCCLogRegex ?l \<noteq> None" by code_simp
  show ?thesis using detection_agrees [OF 1 2 _ 3] by simp
qed

end
