(* ===== verification/KeyedTable.thy ===== *)
theory KeyedTable
  imports Main
begin

text \<open>
  The interface of a table with an \<open>AUTOINCREMENT\<close> key, as the repositories of \<open>internal/store\<close> use it: rows in a list, a
  key, and the next key, which is above every key given out. \<open>find\<close> by the key is the query of one row. The clients rely on what
  a lookup returns after an insertion, an update or a deletion; \<open>Store\<close> interprets it for its tables.
\<close>

locale keyed_table =
  fixes rows :: "'s \<Rightarrow> 'r list" and key :: "'r \<Rightarrow> int" and next_key :: "'s \<Rightarrow> int" and ok :: "'s \<Rightarrow> bool"
  assumes keys_unique: "ok s \<Longrightarrow> distinct (map key (rows s))"
    and keys_below: "ok s \<Longrightarrow> r \<in> set (rows s) \<Longrightarrow> key r < next_key s"
begin

lemma lookup_key: "find (\<lambda>r. key r = i) (rows s) = Some r \<Longrightarrow> r \<in> set (rows s) \<and> key r = i"
  by (auto simp: find_Some_iff)

lemma lookup_row: "ok s \<Longrightarrow> r \<in> set (rows s) \<Longrightarrow> find (\<lambda>q. key q = key r) (rows s) = Some r"
proof -
  have "distinct (map key l) \<Longrightarrow> r \<in> set l \<Longrightarrow> find (\<lambda>q. key q = key r) l = Some r" for l
  proof (induction l)
    case (Cons a l)
    then show ?case by (cases "a = r") auto
  qed simp
  then show "ok s \<Longrightarrow> r \<in> set (rows s) \<Longrightarrow> find (\<lambda>q. key q = key r) (rows s) = Some r" using keys_unique by blast
qed

lemma lookup_fresh: "ok s \<Longrightarrow> find (\<lambda>r. key r = next_key s) (rows s) = None"
  using keys_below by (force simp: find_None_iff)

lemma lookup_inserted:
  assumes "ok s" and "rows s' = rows s @ [r]" and "key r = next_key s"
  shows "find (\<lambda>q. key q = i) (rows s') = (if i = key r then Some r else find (\<lambda>q. key q = i) (rows s))"
proof -
  have "find P (l @ [r]) = (case find P l of None \<Rightarrow> if P r then Some r else None | Some q \<Rightarrow> Some q)" for P l
    by (induction l) auto
  then show ?thesis using lookup_fresh [OF assms(1)] assms(2,3) by (auto split: option.splits)
qed

lemma lookup_updated:
  assumes "rows s' = map (\<lambda>r. if key r = i then f r else r) (rows s)" and "\<And>r. key (f r) = key r"
  shows "find (\<lambda>q. key q = j) (rows s') = (if j = i then map_option f (find (\<lambda>q. key q = j) (rows s)) else find (\<lambda>q. key q = j) (rows s))"
proof -
  have "find (\<lambda>q. key q = j) (map (\<lambda>r. if key r = i then f r else r) l)
      = (if j = i then map_option f (find (\<lambda>q. key q = j) l) else find (\<lambda>q. key q = j) l)" for l
    by (induction l) (auto simp: assms(2))
  then show ?thesis using assms(1) by simp
qed

lemma lookup_deleted:
  assumes "rows s' = filter (\<lambda>r. key r \<noteq> i) (rows s)"
  shows "find (\<lambda>q. key q = j) (rows s') = (if j = i then None else find (\<lambda>q. key q = j) (rows s))"
proof -
  have "find (\<lambda>q. key q = j) (filter (\<lambda>r. key r \<noteq> i) l) = (if j = i then None else find (\<lambda>q. key q = j) l)" for l
    by (induction l) auto
  then show ?thesis using assms by simp
qed

end

end
