(* ===== verification/Store.thy ===== *)
theory Store
  imports Model KeyedTable "HOL-Library.Multiset"
begin

text \<open>
  Package \<open>internal/store\<close>: the tables of the database and the queries of the repositories. A table is
  the list of its rows in the order of their primary keys, with the next key of its \<open>AUTOINCREMENT\<close>
  sequence. The schema of \<open>migrations.go\<close> has foreign keys that cascade on deletion, but SQLite enforces them only on a connection
  on which \<open>PRAGMA foreign_keys\<close> was set, and \<open>db.go\<close> sets it on one connection of the pool: \<open>st_fk\<close> says whether the
  connection an operation runs on enforces them, and \<open>Database\<close> which connection an operation gets. The SQL engine is a parameter where it decides
  more than the query says: the full-text match, how stored timestamps compare, and in which order it
  returns rows with equal sort keys (record \<open>engine\<close>). That order is a function of the rows, so the pages of a listing see ties in the same
  order each time; SQL does not promise it, and it is an assumption about the engine where two messages of a trace have the same number. A column that cannot be \<open>NULL\<close> holds the value
  itself; the nullable payload columns hold the empty text for \<open>NULL\<close>, which is how the code reads and
  writes them. \<open>RawBytes\<close> has no column.
\<close>

section \<open>Rows\<close>

record bookmark =
  b_id :: int
  b_message :: int
  b_trace :: int
  b_label :: string
  b_color :: string
  b_note :: string
  b_created :: time

record filter_preset =
  fp_id :: int
  fp_name :: string
  fp_filter :: string
  fp_created :: time

record chart_definition =
  cd_id :: int
  cd_name :: string
  cd_trace :: "int option"
  cd_type :: string
  cd_built_in :: bool
  cd_sources :: string
  cd_created :: time

record store =
  st_fk :: bool
  st_traces :: "trace list"
  st_next_trace :: int
  st_messages :: "message list"
  st_next_message :: int
  st_bookmarks :: "bookmark list"
  st_next_bookmark :: int
  st_presets :: "filter_preset list"
  st_next_preset :: int
  st_charts :: "chart_definition list"
  st_next_chart :: int

record engine =
  e_syntax :: "string \<Rightarrow> bool"
  e_match :: "string \<Rightarrow> message \<Rightarrow> bool"
  e_time_le :: "time \<Rightarrow> time \<Rightarrow> bool"
  e_by_seq :: "message list \<Rightarrow> message list"
  e_by_created :: "trace list \<Rightarrow> trace list"
  e_marks_by_created :: "bookmark list \<Rightarrow> bookmark list"
  e_presets_by_created :: "filter_preset list \<Rightarrow> filter_preset list"

text \<open>What \<open>ORDER BY\<close> promises.\<close>

definition orders :: "engine \<Rightarrow> bool" where
  "orders e \<longleftrightarrow> (\<forall>l. mset (e_by_seq e l) = mset l \<and> sorted (map m_seq (e_by_seq e l)))"

section \<open>Traces\<close>

definition CreateTrace :: "trace \<Rightarrow> store \<Rightarrow> trace \<times> store" where
  "CreateTrace t s =
     (let t' = t\<lparr>t_id := st_next_trace s\<rparr>
      in (t', s\<lparr>st_traces := st_traces s @ [t'], st_next_trace := st_next_trace s + 1\<rparr>))"

definition GetTrace :: "int \<Rightarrow> store \<Rightarrow> trace option" where
  "GetTrace i s = find (\<lambda>t. t_id t = i) (st_traces s)"

definition ListTraces :: "engine \<Rightarrow> store \<Rightarrow> trace list" where
  "ListTraces e s = e_by_created e (st_traces s)"

definition UpdateTrace :: "trace \<Rightarrow> store \<Rightarrow> store" where
  "UpdateTrace t s = s\<lparr>st_traces := map (\<lambda>r. if t_id r = t_id t
     then r\<lparr>t_name := t_name t, t_descr := t_descr t, t_count := t_count t\<rparr> else r) (st_traces s)\<rparr>"

definition StopTrace :: "int \<Rightarrow> time \<Rightarrow> int \<Rightarrow> int \<Rightarrow> store \<Rightarrow> store" where
  "StopTrace i stoppedAt messageCount skipped s = s\<lparr>st_traces := map (\<lambda>r. if t_id r = i
     then r\<lparr>t_stopped := Some stoppedAt, t_count := messageCount, t_skipped := t_skipped r + skipped\<rparr>
     else r) (st_traces s)\<rparr>"

text \<open>Where foreign keys are enforced the deletion cascades to the messages of the trace, to the bookmarks of the trace and of those
  messages, and to the charts of the trace; elsewhere only the row of the trace goes.\<close>

definition DeleteTrace :: "int \<Rightarrow> store \<Rightarrow> store" where
  "DeleteTrace i s =
     (let gone = map m_id (filter (\<lambda>m. m_trace m = i) (st_messages s));
          left = s\<lparr>st_traces := filter (\<lambda>t. t_id t \<noteq> i) (st_traces s)\<rparr>
      in if \<not> st_fk s then left
         else left\<lparr>st_messages := filter (\<lambda>m. m_trace m \<noteq> i) (st_messages s),
           st_bookmarks := filter (\<lambda>b. b_trace b \<noteq> i \<and> b_message b \<notin> set gone) (st_bookmarks s),
           st_charts := filter (\<lambda>c. cd_trace c \<noteq> Some i) (st_charts s)\<rparr>)"

section \<open>Messages\<close>

definition trace_exists :: "int \<Rightarrow> store \<Rightarrow> bool" where
  "trace_exists i s \<longleftrightarrow> i \<in> set (map t_id (st_traces s))"

text \<open>\<open>None\<close>: the foreign key fails.\<close>

definition InsertMessage :: "message \<Rightarrow> store \<Rightarrow> (message \<times> store) option" where
  "InsertMessage m s =
     (if st_fk s \<and> \<not> trace_exists (m_trace m) s then None
      else (let m' = m\<lparr>m_id := st_next_message s\<rparr>
            in Some (m', s\<lparr>st_messages := st_messages s @ [m'\<lparr>m_raw := []\<rparr>],
                           st_next_message := st_next_message s + 1\<rparr>)))"

text \<open>One transaction: the first failure rolls back everything.\<close>

fun InsertMessages :: "message list \<Rightarrow> store \<Rightarrow> (message list \<times> store) option" where
  "InsertMessages [] s = Some ([], s)"
| "InsertMessages (m # l) s = (case InsertMessage m s of
       None \<Rightarrow> None
     | Some (m', s') \<Rightarrow> (case InsertMessages l s' of
           None \<Rightarrow> None
         | Some (l', s'') \<Rightarrow> Some (m' # l', s'')))"

definition GetMessage :: "int \<Rightarrow> int \<Rightarrow> store \<Rightarrow> message option" where
  "GetMessage i j s = find (\<lambda>m. m_trace m = i \<and> m_id m = j) (st_messages s)"

record message_filter =
  mf_classifier :: string
  mf_fn :: string
  mf_dir :: string
  mf_type :: string
  mf_limit :: int
  mf_offset :: int
  mf_search :: string
  mf_from :: "time option"
  mf_to :: "time option"
  mf_dev_src :: string
  mf_dev_dst :: string
  mf_dev :: string
  mf_ent_src :: string
  mf_ent_dst :: string
  mf_feat_src :: string
  mf_feat_dst :: string

definition no_filter :: message_filter where
  "no_filter = \<lparr>mf_classifier = [], mf_fn = [], mf_dir = [], mf_type = [], mf_limit = 0, mf_offset = 0,
     mf_search = [], mf_from = None, mf_to = None, mf_dev_src = [], mf_dev_dst = [], mf_dev = [],
     mf_ent_src = [], mf_ent_dst = [], mf_feat_src = [], mf_feat_dst = []\<rparr>"

definition fts_word :: "string \<Rightarrow> string" where
  "fts_word w = (let upper = to_upper w in
     if upper = ''OR'' \<or> upper = ''AND'' \<or> upper = ''NOT'' then upper
     else if \<not> has_suffix ''*'' w then w @ ''*'' else w)"

definition ftsPrefix :: "string \<Rightarrow> string" where
  "ftsPrefix search = join '' '' (map fts_word (GoPrelude.fields search))"

text \<open>The conditions of the \<open>WHERE\<close> clause, in the order the code adds them.\<close>

definition eq_unless_empty :: "string \<Rightarrow> (message \<Rightarrow> string) \<Rightarrow> (message \<Rightarrow> bool) list" where
  "eq_unless_empty v col = (if v = [] then [] else [\<lambda>m. col m = v])"

definition buildFilterQuery :: "engine \<Rightarrow> int \<Rightarrow> message_filter \<Rightarrow> (message \<Rightarrow> bool) list" where
  "buildFilterQuery e i f =
     [\<lambda>m. m_trace m = i]
     @ eq_unless_empty (mf_classifier f) m_classifier
     @ (if mf_fn f = [] then [] else [\<lambda>m. m_fn m \<in> set (split_char (CHR '','') (mf_fn f))])
     @ eq_unless_empty (mf_dir f) m_dir
     @ eq_unless_empty (mf_type f) m_type
     @ (case mf_from f of None \<Rightarrow> [] | Some t \<Rightarrow> [\<lambda>m. e_time_le e t (m_time m)])
     @ (case mf_to f of None \<Rightarrow> [] | Some t \<Rightarrow> [\<lambda>m. e_time_le e (m_time m) t])
     @ eq_unless_empty (mf_dev_src f) m_dev_src
     @ eq_unless_empty (mf_dev_dst f) m_dev_dst
     @ (if mf_dev f = [] then [] else [\<lambda>m. m_dev_src m = mf_dev f \<or> m_dev_dst m = mf_dev f])
     @ eq_unless_empty (mf_ent_src f) m_ent_src
     @ eq_unless_empty (mf_ent_dst f) m_ent_dst
     @ eq_unless_empty (mf_feat_src f) m_feat_src
     @ eq_unless_empty (mf_feat_dst f) m_feat_dst
     @ (if mf_search f = [] then [] else [\<lambda>m. e_match e (ftsPrefix (mf_search f)) m])"

text \<open>A search text the full-text engine cannot parse makes the query fail.\<close>

definition query_ok :: "engine \<Rightarrow> message_filter \<Rightarrow> bool" where
  "query_ok e f \<longleftrightarrow> mf_search f = [] \<or> e_syntax e (ftsPrefix (mf_search f))"

definition selected :: "engine \<Rightarrow> int \<Rightarrow> message_filter \<Rightarrow> store \<Rightarrow> message list" where
  "selected e i f s = filter (\<lambda>m. list_all (\<lambda>c. c m) (buildFilterQuery e i f)) (st_messages s)"

definition ListMessageSummaries :: "engine \<Rightarrow> int \<Rightarrow> message_filter \<Rightarrow> store \<Rightarrow> summary list option" where
  "ListMessageSummaries e i f s =
     (if query_ok e f then Some (map ToSummary (e_by_seq e (selected e i f s))) else None)"

definition ListMessages :: "engine \<Rightarrow> int \<Rightarrow> message_filter \<Rightarrow> store \<Rightarrow> message list option" where
  "ListMessages e i f s =
     (if query_ok e f
      then (let limit = (if mf_limit f \<le> 0 then 100 else mf_limit f);
                offset = (if 0 < mf_offset f then mf_offset f else 0)
            in Some (take (nat limit) (drop (nat offset) (e_by_seq e (selected e i f s)))))
      else None)"

definition CountFilteredMessages :: "engine \<Rightarrow> int \<Rightarrow> message_filter \<Rightarrow> store \<Rightarrow> int option" where
  "CountFilteredMessages e i f s =
     (if query_ok e f then Some (int (length (selected e i f s))) else None)"

definition FindByMsgCounter :: "engine \<Rightarrow> int \<Rightarrow> string \<Rightarrow> store \<Rightarrow> message list" where
  "FindByMsgCounter e i c s = e_by_seq e (filter (\<lambda>m. m_trace m = i \<and> m_ctr m = c) (st_messages s))"

definition FindByMsgCounterRef :: "engine \<Rightarrow> int \<Rightarrow> string \<Rightarrow> store \<Rightarrow> message list" where
  "FindByMsgCounterRef e i c s = e_by_seq e (filter (\<lambda>m. m_trace m = i \<and> m_ref m = c) (st_messages s))"

definition conversation_rows :: "int \<Rightarrow> string \<Rightarrow> string \<Rightarrow> string \<Rightarrow> store \<Rightarrow> message list" where
  "conversation_rows i a b fn s = filter (\<lambda>m. m_trace m = i \<and> m_type m = ShipMsgTypeData \<and> m_fn m = fn
     \<and> ((m_dev_src m = a \<and> m_dev_dst m = b) \<or> (m_dev_src m = b \<and> m_dev_dst m = a))) (st_messages s)"

text \<open>A negative \<open>OFFSET\<close> counts as zero.\<close>

definition FindConversationMessages ::
  "engine \<Rightarrow> int \<Rightarrow> string \<Rightarrow> string \<Rightarrow> string \<Rightarrow> int \<Rightarrow> int \<Rightarrow> store \<Rightarrow> message list \<times> int" where
  "FindConversationMessages e i a b fn limit offset s =
     (let rows = conversation_rows i a b fn s; lim = (if limit \<le> 0 then 50 else limit)
      in (take (nat lim) (drop (nat offset) (e_by_seq e rows)), int (length rows)))"

text \<open>\<open>SELECT DISTINCT \<dots> ORDER BY function_set\<close>: texts compare by their bytes.\<close>

fun insert_text :: "string \<Rightarrow> string list \<Rightarrow> string list" where
  "insert_text x [] = [x]"
| "insert_text x (y # ys) =
     (if x = y then y # ys else if str_less x y then x # y # ys else y # insert_text x ys)"

definition ListDistinctFunctionSets :: "int \<Rightarrow> store \<Rightarrow> string list" where
  "ListDistinctFunctionSets i s =
     fold insert_text (map m_fn (filter (\<lambda>m. m_trace m = i \<and> m_type m = ShipMsgTypeData \<and> m_fn m \<noteq> []) (st_messages s))) []"

definition CountMessages :: "int \<Rightarrow> store \<Rightarrow> int" where
  "CountMessages i s = int (length (filter (\<lambda>m. m_trace m = i) (st_messages s)))"

definition FindOrphanedRequestIDs :: "int \<Rightarrow> store \<Rightarrow> int list" where
  "FindOrphanedRequestIDs i s = map m_id (filter (\<lambda>m. m_trace m = i \<and> m_ctr m \<noteq> [] \<and> m_type m = ShipMsgTypeData
     \<and> m_classifier m \<in> set [''read'', ''write'', ''call'']
     \<and> \<not> list_ex (\<lambda>m2. m_trace m2 = m_trace m \<and> m_ref m2 = m_ctr m) (st_messages s)) (st_messages s))"

section \<open>Bookmarks, presets, charts\<close>

definition BookmarkCreate :: "time \<Rightarrow> bookmark \<Rightarrow> store \<Rightarrow> (bookmark \<times> store) option" where
  "BookmarkCreate now b s =
     (if st_fk s \<longrightarrow> b_message b \<in> set (map m_id (st_messages s)) \<and> trace_exists (b_trace b) s
      then (let b' = b\<lparr>b_id := st_next_bookmark s\<rparr>
            in Some (b', s\<lparr>st_bookmarks := st_bookmarks s @ [b'\<lparr>b_created := now\<rparr>],
                           st_next_bookmark := st_next_bookmark s + 1\<rparr>))
      else None)"

definition BookmarkList :: "engine \<Rightarrow> int \<Rightarrow> store \<Rightarrow> bookmark list" where
  "BookmarkList e i s = e_marks_by_created e (filter (\<lambda>b. b_trace b = i) (st_bookmarks s))"

definition GetByMessage :: "int \<Rightarrow> store \<Rightarrow> bookmark option" where
  "GetByMessage j s = find (\<lambda>b. b_message b = j) (st_bookmarks s)"

definition BookmarkDelete :: "int \<Rightarrow> store \<Rightarrow> store" where
  "BookmarkDelete i s = s\<lparr>st_bookmarks := filter (\<lambda>b. b_id b \<noteq> i) (st_bookmarks s)\<rparr>"

definition PresetCreate :: "time \<Rightarrow> filter_preset \<Rightarrow> store \<Rightarrow> filter_preset \<times> store" where
  "PresetCreate now p s =
     (let p' = p\<lparr>fp_id := st_next_preset s\<rparr>
      in (p', s\<lparr>st_presets := st_presets s @ [p'\<lparr>fp_created := now\<rparr>], st_next_preset := st_next_preset s + 1\<rparr>))"

definition PresetList :: "engine \<Rightarrow> store \<Rightarrow> filter_preset list" where
  "PresetList e s = e_presets_by_created e (st_presets s)"

definition PresetGet :: "int \<Rightarrow> store \<Rightarrow> filter_preset option" where
  "PresetGet i s = find (\<lambda>p. fp_id p = i) (st_presets s)"

definition PresetDelete :: "int \<Rightarrow> store \<Rightarrow> store" where
  "PresetDelete i s = s\<lparr>st_presets := filter (\<lambda>p. fp_id p \<noteq> i) (st_presets s)\<rparr>"

text \<open>A chart may belong to no trace; otherwise its trace must exist, where that is enforced.\<close>

definition ChartCreate :: "time \<Rightarrow> chart_definition \<Rightarrow> store \<Rightarrow> (chart_definition \<times> store) option" where
  "ChartCreate now c s =
     (if st_fk s \<longrightarrow> (case cd_trace c of None \<Rightarrow> True | Some i \<Rightarrow> trace_exists i s)
      then (let c' = c\<lparr>cd_id := st_next_chart s\<rparr>
            in Some (c', s\<lparr>st_charts := st_charts s @ [c'\<lparr>cd_created := now\<rparr>], st_next_chart := st_next_chart s + 1\<rparr>))
      else None)"

definition ChartGet :: "int \<Rightarrow> store \<Rightarrow> chart_definition option" where
  "ChartGet i s = find (\<lambda>c. cd_id c = i) (st_charts s)"

text \<open>\<open>ORDER BY is_built_in DESC, id ASC\<close>: the rows are in the order of their ids.\<close>

definition ChartList :: "int option \<Rightarrow> store \<Rightarrow> chart_definition list" where
  "ChartList t s =
     (let rows = filter (\<lambda>c. cd_trace c = None \<or> (t \<noteq> None \<and> cd_trace c = t)) (st_charts s)
      in filter cd_built_in rows @ filter (\<lambda>c. \<not> cd_built_in c) rows)"

definition ChartUpdate :: "chart_definition \<Rightarrow> store \<Rightarrow> store" where
  "ChartUpdate c s = s\<lparr>st_charts := map (\<lambda>r. if cd_id r = cd_id c
     then r\<lparr>cd_name := cd_name c, cd_type := cd_type c, cd_sources := cd_sources c\<rparr> else r) (st_charts s)\<rparr>"

definition ChartDelete :: "int \<Rightarrow> store \<Rightarrow> string + store" where
  "ChartDelete i s = (case ChartGet i s of
       None \<Rightarrow> Inl ''chart definition not found''
     | Some c \<Rightarrow> if cd_built_in c then Inl ''cannot delete built-in chart''
         else Inr (s\<lparr>st_charts := filter (\<lambda>r. cd_id r \<noteq> i) (st_charts s)\<rparr>))"

section \<open>Reachable states\<close>

text \<open>The database after the migrations, on the connection they ran on: no rows but the three built-in charts.\<close>

definition migrated :: "chart_definition list \<Rightarrow> store" where
  "migrated built_in = \<lparr>st_fk = True, st_traces = [], st_next_trace = 1, st_messages = [], st_next_message = 1,
     st_bookmarks = [], st_next_bookmark = 1, st_presets = [], st_next_preset = 1,
     st_charts = built_in, st_next_chart = int (length built_in) + 1\<rparr>"

definition built_in_charts :: "time \<Rightarrow> chart_definition list" where
  "built_in_charts now =
     [\<lparr>cd_id = 1, cd_name = ''Measurements'', cd_trace = None, cd_type = ''line'', cd_built_in = True,
        cd_sources = ''[{\"functionSet\":\"MeasurementListData\",\"cmdKey\":\"measurementListData\",\"dataArrayKey\":\"measurementData\",\"idField\":\"measurementId\",\"classifiers\":[\"reply\",\"notify\"]}]'',
        cd_created = now\<rparr>,
      \<lparr>cd_id = 2, cd_name = ''Load Control'', cd_trace = None, cd_type = ''step'', cd_built_in = True,
        cd_sources = ''[{\"functionSet\":\"LoadControlLimitListData\",\"cmdKey\":\"loadControlLimitListData\",\"dataArrayKey\":\"loadControlLimitData\",\"idField\":\"limitId\",\"classifiers\":[\"reply\",\"notify\",\"write\"]}]'',
        cd_created = now\<rparr>,
      \<lparr>cd_id = 3, cd_name = ''Setpoints'', cd_trace = None, cd_type = ''line'', cd_built_in = True,
        cd_sources = ''[{\"functionSet\":\"SetpointListData\",\"cmdKey\":\"setpointListData\",\"dataArrayKey\":\"setpointData\",\"idField\":\"setpointId\",\"classifiers\":[\"reply\",\"notify\",\"write\"]}]'',
        cd_created = now\<rparr>]"

inductive store_step :: "store \<Rightarrow> store \<Rightarrow> bool" where
  create_trace: "store_step s (snd (CreateTrace t s))"
| update_trace: "store_step s (UpdateTrace t s)"
| stop_trace: "store_step s (StopTrace i now n k s)"
| delete_trace: "store_step s (DeleteTrace i s)"
| insert_message: "InsertMessage m s = Some (m', s') \<Longrightarrow> store_step s s'"
| insert_messages: "InsertMessages l s = Some (l', s') \<Longrightarrow> store_step s s'"
| bookmark: "BookmarkCreate now b s = Some (b', s') \<Longrightarrow> store_step s s'"
| unbookmark: "store_step s (BookmarkDelete i s)"
| preset: "store_step s (snd (PresetCreate now p s))"
| drop_preset: "store_step s (PresetDelete i s)"
| chart: "\<not> cd_built_in c \<Longrightarrow> ChartCreate now c s = Some (c', s') \<Longrightarrow> store_step s s'"
| change_chart: "store_step s (ChartUpdate c s)"
| drop_chart: "ChartDelete i s = Inr s' \<Longrightarrow> store_step s s'"

text \<open>The databases a connection with foreign keys can reach, and those that operations on connections with and without them can.\<close>

inductive store_reachable :: "store \<Rightarrow> bool" where
  start: "store_reachable (migrated (built_in_charts now))"
| step: "store_reachable s \<Longrightarrow> store_step s s' \<Longrightarrow> store_reachable s'"

definition on_connection :: "bool \<Rightarrow> store \<Rightarrow> store" where
  "on_connection fk s = s\<lparr>st_fk := fk\<rparr>"

inductive pooled_reachable :: "store \<Rightarrow> bool" where
  start: "pooled_reachable (migrated (built_in_charts now))"
| step: "pooled_reachable s \<Longrightarrow> store_step (on_connection fk s) s' \<Longrightarrow> pooled_reachable s'"

section \<open>Lemmas: keys and references\<close>

definition keys_ok :: "int list \<Rightarrow> int \<Rightarrow> bool" where
  "keys_ok ks n \<longleftrightarrow> sorted_wrt (<) ks \<and> (\<forall>k \<in> set ks. k < n)"

definition global_built_in :: "chart_definition \<Rightarrow> bool" where
  "global_built_in c \<longleftrightarrow> cd_built_in c \<and> cd_trace c = None"

definition store_ok :: "store \<Rightarrow> bool" where
  "store_ok s \<longleftrightarrow> st_fk s
     \<and> keys_ok (map t_id (st_traces s)) (st_next_trace s)
     \<and> keys_ok (map m_id (st_messages s)) (st_next_message s)
     \<and> (\<forall>m \<in> set (st_messages s). trace_exists (m_trace m) s)
     \<and> (\<forall>b \<in> set (st_bookmarks s). trace_exists (b_trace b) s \<and> b_message b \<in> m_id ` set (st_messages s))
     \<and> (\<forall>c \<in> set (st_charts s). \<forall>i. cd_trace c = Some i \<longrightarrow> trace_exists i s)
     \<and> keys_ok (map cd_id (st_charts s)) (st_next_chart s)
     \<and> {1, 2, 3} \<subseteq> set (map cd_id (filter global_built_in (st_charts s)))"

lemma keys_ok_below: "keys_ok (map k l) n \<Longrightarrow> distinct (map k l)" "keys_ok (map k l) n \<Longrightarrow> x \<in> set l \<Longrightarrow> k x < n"
  by (auto simp: keys_ok_def strict_sorted_iff)

interpretation traces: keyed_table st_traces t_id st_next_trace store_ok
  by unfold_locales (auto simp: store_ok_def dest: keys_ok_below)

interpretation messages: keyed_table st_messages m_id st_next_message store_ok
  by unfold_locales (auto simp: store_ok_def dest: keys_ok_below)

interpretation charts: keyed_table st_charts cd_id st_next_chart store_ok
  by unfold_locales (auto simp: store_ok_def dest: keys_ok_below)

lemma keys_ok_snoc: "keys_ok ks n \<Longrightarrow> keys_ok (ks @ [n]) (n + 1)"
  by (force simp: keys_ok_def sorted_wrt_append)

lemma keys_ok_filter: "keys_ok (map k l) n \<Longrightarrow> keys_ok (map k (filter P l)) n"
  by (auto simp: keys_ok_def sorted_wrt_map sorted_wrt_filter)

lemma keys_distinct: "keys_ok ks n \<Longrightarrow> distinct ks"
  by (simp add: keys_ok_def strict_sorted_iff)

lemma find_Some_in: "find P l = Some x \<Longrightarrow> x \<in> set l \<and> P x"
  by (induction l) (auto split: if_splits)

lemma insert_messages_rows:
  "InsertMessages l s = Some (l', s') \<Longrightarrow>
     st_messages s' = st_messages s @ map (\<lambda>m. m\<lparr>m_raw := []\<rparr>) l'
     \<and> st_next_message s' = st_next_message s + int (length l)
     \<and> st_traces s' = st_traces s \<and> st_next_trace s' = st_next_trace s
     \<and> st_bookmarks s' = st_bookmarks s \<and> st_charts s' = st_charts s \<and> st_next_chart s' = st_next_chart s"
  by (induction l arbitrary: s l' s') (fastforce simp: InsertMessage_def Let_def split: option.splits if_splits)+

lemma keys_ok_map_same: "(\<And>x. x \<in> set l \<Longrightarrow> k (f x) = k x) \<Longrightarrow> keys_ok (map k (map f l)) n = keys_ok (map k l) n"
  by (simp add: comp_def cong: map_cong)

lemma insert_message_ok: "store_ok s \<Longrightarrow> InsertMessage m s = Some (m', s') \<Longrightarrow> store_ok s'"
  by (auto simp: InsertMessage_def Let_def store_ok_def trace_exists_def keys_ok_snoc split: if_splits)

lemma insert_messages_ok: "store_ok s \<Longrightarrow> InsertMessages l s = Some (l', s') \<Longrightarrow> store_ok s'"
proof (induction l arbitrary: s l' s')
  case (Cons m l)
  then show ?case by (auto split: option.splits dest: insert_message_ok) (metis insert_message_ok)
qed simp

lemma delete_trace_ok: "store_ok s \<Longrightarrow> store_ok (DeleteTrace i s)"
proof -
  assume ok: "store_ok s"
  have "set (map cd_id (filter global_built_in (st_charts s)))
      = set (map cd_id (filter global_built_in (st_charts (DeleteTrace i s))))"
    by (auto simp: DeleteTrace_def Let_def global_built_in_def)
  moreover have "\<forall>c \<in> set (st_charts (DeleteTrace i s)). \<forall>j. cd_trace c = Some j \<longrightarrow> trace_exists j (DeleteTrace i s)"
    using ok by (fastforce simp: store_ok_def DeleteTrace_def Let_def trace_exists_def)
  moreover have "\<forall>b \<in> set (st_bookmarks (DeleteTrace i s)). trace_exists (b_trace b) (DeleteTrace i s)
      \<and> b_message b \<in> m_id ` set (st_messages (DeleteTrace i s))"
    using ok by (fastforce simp: store_ok_def DeleteTrace_def Let_def trace_exists_def)
  ultimately show ?thesis using ok
    unfolding store_ok_def by (auto simp: DeleteTrace_def Let_def trace_exists_def keys_ok_filter)
qed

lemma chart_update_ok:
  assumes "store_ok s"
  shows "store_ok (ChartUpdate c s)"
proof -
  let ?f = "\<lambda>r. if cd_id r = cd_id c
     then r\<lparr>cd_name := cd_name c, cd_type := cd_type c, cd_sources := cd_sources c\<rparr> else r"
  have "map cd_id (filter global_built_in (map ?f l)) = map cd_id (filter global_built_in l)" for l
    by (induction l) (auto simp: global_built_in_def)
  then have "map cd_id (filter global_built_in (st_charts (ChartUpdate c s))) = map cd_id (filter global_built_in (st_charts s))"
    by (simp add: ChartUpdate_def)
  then show ?thesis using assms unfolding store_ok_def
    by (auto simp: ChartUpdate_def trace_exists_def comp_def if_distrib cong: if_cong)
qed

lemma chart_delete_ok:
  assumes "store_ok s" and "ChartDelete i s = Inr s'"
  shows "store_ok s'"
proof -
  obtain c where c: "c \<in> set (st_charts s)" "cd_id c = i" "\<not> cd_built_in c"
      "st_charts s' = filter (\<lambda>r. cd_id r \<noteq> i) (st_charts s)" "s' = s\<lparr>st_charts := st_charts s'\<rparr>"
    using assms(2) by (auto simp: ChartDelete_def ChartGet_def dest: find_Some_in split: option.splits if_splits)
  have "inj_on cd_id (set (st_charts s))"
    using assms(1) keys_distinct [of "map cd_id (st_charts s)" "st_next_chart s"] by (simp add: store_ok_def distinct_map)
  then have "r = c" if "r \<in> set (st_charts s)" "cd_id r = i" for r using that c(1,2) by (auto dest: inj_onD)
  then have "r \<in> set (st_charts s) \<Longrightarrow> cd_built_in r \<Longrightarrow> cd_id r \<noteq> i" for r using c(3) by blast
  then have g: "filter global_built_in (st_charts s') = filter global_built_in (st_charts s)"
    unfolding c(4) filter_filter by (intro filter_cong refl) (auto simp: global_built_in_def)
  have "store_ok (s\<lparr>st_charts := st_charts s'\<rparr>)" using assms(1) g c(4) unfolding store_ok_def
    by (simp add: trace_exists_def keys_ok_filter) blast
  then show ?thesis using c(5) by simp
qed

lemma store_step_ok:
  assumes "store_step s s'" and "store_ok s"
  shows "store_ok s'"
  using assms
proof (cases rule: store_step.cases)
  case (create_trace t)
  then show ?thesis using assms(2) by (auto simp: store_ok_def CreateTrace_def Let_def trace_exists_def keys_ok_snoc)
next
  case (update_trace t)
  then show ?thesis using assms(2)
    by (auto simp: store_ok_def UpdateTrace_def trace_exists_def comp_def if_distrib cong: if_cong)
next
  case (stop_trace i now n k)
  then show ?thesis using assms(2)
    by (auto simp: store_ok_def StopTrace_def trace_exists_def comp_def if_distrib cong: if_cong)
next
  case (delete_trace i)
  then show ?thesis using assms(2) delete_trace_ok by simp
next
  case (insert_message m m')
  then show ?thesis using assms(2) insert_message_ok by blast
next
  case (insert_messages l l')
  then show ?thesis using assms(2) insert_messages_ok by blast
next
  case (bookmark now b b')
  then show ?thesis using assms(2) by (auto simp: store_ok_def BookmarkCreate_def Let_def trace_exists_def split: if_splits)
next
  case (unbookmark i)
  then show ?thesis using assms(2) by (auto simp: store_ok_def BookmarkDelete_def trace_exists_def)
next
  case (preset now p)
  then show ?thesis using assms(2) by (auto simp: store_ok_def PresetCreate_def Let_def trace_exists_def)
next
  case (drop_preset i)
  then show ?thesis using assms(2) by (auto simp: store_ok_def PresetDelete_def trace_exists_def)
next
  case (chart c now c')
  then show ?thesis using assms(2)
    by (auto simp: store_ok_def ChartCreate_def Let_def trace_exists_def keys_ok_snoc split: if_splits option.splits)
next
  case (change_chart c)
  then show ?thesis using assms(2) chart_update_ok by simp
next
  case (drop_chart i)
  then show ?thesis using assms(2) chart_delete_ok by blast
qed

lemma store_reachable_ok: "store_reachable s \<Longrightarrow> store_ok s"
proof (induction rule: store_reachable.induct)
  case (start now)
  show ?case by (simp add: store_ok_def migrated_def built_in_charts_def keys_ok_def global_built_in_def)
next
  case (step s s')
  then show ?case using store_step_ok by blast
qed

text \<open>What holds on every connection: keys are fresh and the built-in charts stay.\<close>

definition store_keys :: "store \<Rightarrow> bool" where
  "store_keys s \<longleftrightarrow> keys_ok (map t_id (st_traces s)) (st_next_trace s)
     \<and> keys_ok (map m_id (st_messages s)) (st_next_message s)
     \<and> keys_ok (map cd_id (st_charts s)) (st_next_chart s)
     \<and> {1, 2, 3} \<subseteq> set (map cd_id (filter global_built_in (st_charts s)))"

lemma store_keys_connection [simp]: "store_keys (on_connection fk s) = store_keys s"
  by (simp add: store_keys_def on_connection_def)

lemma insert_messages_keys: "store_keys s \<Longrightarrow> InsertMessages l s = Some (l', s') \<Longrightarrow> store_keys s'"
proof (induction l arbitrary: s l' s')
  case (Cons m l)
  have "store_keys s1" if "InsertMessage m s = Some (m1, s1)" for m1 s1
    using that Cons.prems(1) by (auto simp: InsertMessage_def Let_def store_keys_def keys_ok_snoc split: if_splits)
  then show ?case using Cons by (auto split: option.splits)
qed simp

lemma chart_keys:
  assumes "store_keys s"
  shows "store_keys (ChartUpdate c s)" "ChartDelete i s = Inr s' \<Longrightarrow> store_keys s'"
proof -
  let ?f = "\<lambda>r. if cd_id r = cd_id c
     then r\<lparr>cd_name := cd_name c, cd_type := cd_type c, cd_sources := cd_sources c\<rparr> else r"
  have "map cd_id (filter global_built_in (map ?f l)) = map cd_id (filter global_built_in l)" for l
    by (induction l) (auto simp: global_built_in_def)
  then have "map cd_id (filter global_built_in (st_charts (ChartUpdate c s))) = map cd_id (filter global_built_in (st_charts s))"
    by (simp add: ChartUpdate_def)
  then show "store_keys (ChartUpdate c s)" using assms unfolding store_keys_def
    by (auto simp: ChartUpdate_def comp_def if_distrib cong: if_cong)
next
  assume "ChartDelete i s = Inr s'"
  then obtain d where d: "d \<in> set (st_charts s)" "cd_id d = i" "\<not> cd_built_in d" "s' = s\<lparr>st_charts := filter (\<lambda>r. cd_id r \<noteq> i) (st_charts s)\<rparr>"
    by (auto simp: ChartDelete_def ChartGet_def dest: find_Some_in split: option.splits if_splits)
  have "inj_on cd_id (set (st_charts s))"
    using assms keys_distinct [of "map cd_id (st_charts s)" "st_next_chart s"] by (simp add: store_keys_def distinct_map)
  then have "cd_built_in r \<Longrightarrow> cd_id r \<noteq> i" if "r \<in> set (st_charts s)" for r using that d(1-3) by (auto dest: inj_onD)
  then have "filter global_built_in (filter (\<lambda>r. cd_id r \<noteq> i) (st_charts s)) = filter global_built_in (st_charts s)"
    unfolding filter_filter by (intro filter_cong refl) (auto simp: global_built_in_def)
  then show "store_keys s'" using assms unfolding d(4) store_keys_def by (simp del: filter_filter add: keys_ok_filter)
qed

lemma delete_keys: "store_keys s \<Longrightarrow> store_keys (DeleteTrace i s)"
proof -
  assume ok: "store_keys s"
  have "filter global_built_in (filter (\<lambda>c. cd_trace c \<noteq> Some i) l) = filter global_built_in l" for l
    unfolding filter_filter by (intro filter_cong refl) (auto simp: global_built_in_def)
  then have "filter global_built_in (st_charts (DeleteTrace i s)) = filter global_built_in (st_charts s)"
    by (simp add: DeleteTrace_def Let_def del: filter_filter)
  then show "store_keys (DeleteTrace i s)" using ok unfolding store_keys_def by (simp add: DeleteTrace_def Let_def keys_ok_filter)
qed

lemma store_step_keys:
  assumes "store_step s s'" and "store_keys s"
  shows "store_keys s'"
  using assms
proof (cases rule: store_step.cases)
  case (insert_message m m')
  then show ?thesis using insert_messages_keys [of s "[m]" "[m']" s'] assms(2) by simp
next
  case (insert_messages l l')
  then show ?thesis using assms(2) insert_messages_keys by blast
next
  case (chart c now c')
  then show ?thesis using assms(2) by (auto simp: store_keys_def ChartCreate_def Let_def keys_ok_snoc split: if_splits)
next
  case (delete_trace i)
  then show ?thesis using assms(2) delete_keys by simp
next
  case (change_chart c)
  then show ?thesis using assms(2) chart_keys by simp
next
  case (drop_chart i)
  then show ?thesis using assms(2) chart_keys by blast
qed (use assms(2) in \<open>auto simp: store_keys_def CreateTrace_def UpdateTrace_def StopTrace_def BookmarkCreate_def
    BookmarkDelete_def PresetCreate_def PresetDelete_def Let_def keys_ok_snoc comp_def if_distrib split: if_splits cong: if_cong\<close>)

lemma pooled_reachable_keys: "pooled_reachable s \<Longrightarrow> store_keys s"
proof (induction rule: pooled_reachable.induct)
  case (start now)
  show ?case by (simp add: store_keys_def migrated_def built_in_charts_def keys_ok_def global_built_in_def)
next
  case (step s fk s')
  then show ?case using store_step_keys [of "on_connection fk s" s'] by simp
qed

section \<open>Lemmas: queries\<close>

lemma filter_paging [simp]:
  "buildFilterQuery e i (f\<lparr>mf_limit := a, mf_offset := b\<rparr>) = buildFilterQuery e i f"
  "query_ok e (f\<lparr>mf_limit := a, mf_offset := b\<rparr>) = query_ok e f"
  "selected e i (f\<lparr>mf_limit := a, mf_offset := b\<rparr>) s = selected e i f s"
  by (simp_all add: buildFilterQuery_def query_ok_def selected_def)

lemma pages: "concat (map (\<lambda>k. take n (drop (k * n) l)) [0..<p]) = take (p * n) l"
  by (induction p) (simp_all add: take_add add.commute [of n])

lemma e_by_seq_perm:
  assumes "orders e"
  shows "set (e_by_seq e l) = set l" "length (e_by_seq e l) = length l" "sorted (map m_seq (e_by_seq e l))"
    "mset (e_by_seq e l) = mset l"
  using assms by (auto simp: orders_def dest: mset_eq_setD mset_eq_length)

lemma GetMessage_iff:
  assumes "store_ok s"
  shows "GetMessage i j s = Some m \<longleftrightarrow> m \<in> set (st_messages s) \<and> m_trace m = i \<and> m_id m = j"
proof
  assume "GetMessage i j s = Some m"
  then show "m \<in> set (st_messages s) \<and> m_trace m = i \<and> m_id m = j" by (auto simp: GetMessage_def find_Some_iff)
next
  assume m: "m \<in> set (st_messages s) \<and> m_trace m = i \<and> m_id m = j"
  have d: "inj_on m_id (set (st_messages s))"
    using assms by (auto simp: store_ok_def distinct_map dest!: keys_distinct)
  obtain m' where "GetMessage i j s = Some m'"
    using m by (cases "GetMessage i j s") (auto simp: GetMessage_def find_None_iff)
  moreover from this have "m' \<in> set (st_messages s) \<and> m_id m' = j" by (auto simp: GetMessage_def find_Some_iff)
  ultimately show "GetMessage i j s = Some m" using m d by (auto dest: inj_onD)
qed

text \<open>What a filter selects, read off its fields.\<close>

definition matches :: "engine \<Rightarrow> message_filter \<Rightarrow> message \<Rightarrow> bool" where
  "matches e f m \<longleftrightarrow>
     (mf_classifier f \<noteq> [] \<longrightarrow> m_classifier m = mf_classifier f)
     \<and> (mf_fn f \<noteq> [] \<longrightarrow> m_fn m \<in> set (split_char (CHR '','') (mf_fn f)))
     \<and> (mf_dir f \<noteq> [] \<longrightarrow> m_dir m = mf_dir f)
     \<and> (mf_type f \<noteq> [] \<longrightarrow> m_type m = mf_type f)
     \<and> (\<forall>t. mf_from f = Some t \<longrightarrow> e_time_le e t (m_time m))
     \<and> (\<forall>t. mf_to f = Some t \<longrightarrow> e_time_le e (m_time m) t)
     \<and> (mf_dev_src f \<noteq> [] \<longrightarrow> m_dev_src m = mf_dev_src f)
     \<and> (mf_dev_dst f \<noteq> [] \<longrightarrow> m_dev_dst m = mf_dev_dst f)
     \<and> (mf_dev f \<noteq> [] \<longrightarrow> m_dev_src m = mf_dev f \<or> m_dev_dst m = mf_dev f)
     \<and> (mf_ent_src f \<noteq> [] \<longrightarrow> m_ent_src m = mf_ent_src f)
     \<and> (mf_ent_dst f \<noteq> [] \<longrightarrow> m_ent_dst m = mf_ent_dst f)
     \<and> (mf_feat_src f \<noteq> [] \<longrightarrow> m_feat_src m = mf_feat_src f)
     \<and> (mf_feat_dst f \<noteq> [] \<longrightarrow> m_feat_dst m = mf_feat_dst f)
     \<and> (mf_search f \<noteq> [] \<longrightarrow> e_match e (ftsPrefix (mf_search f)) m)"

lemma cond_eq: "list_all (\<lambda>c. c m) (eq_unless_empty v col) \<longleftrightarrow> (v \<noteq> [] \<longrightarrow> col m = v)"
  by (simp add: eq_unless_empty_def)

lemma cond_opt:
  "list_all (\<lambda>c. c m) (case t of None \<Rightarrow> [] | Some u \<Rightarrow> [g u]) \<longleftrightarrow> (\<forall>u. t = Some u \<longrightarrow> g u m)"
  "list_all (\<lambda>c. c m) (if b then [] else [h]) \<longleftrightarrow> (\<not> b \<longrightarrow> h m)"
  by (simp_all split: option.splits)

lemma selected_eq: "selected e i f s = filter (\<lambda>m. m_trace m = i \<and> matches e f m) (st_messages s)"
  unfolding selected_def buildFilterQuery_def matches_def
  by (rule filter_cong [OF refl]) (simp only: list_all_append list.pred_inject cond_eq cond_opt conj_assoc simp_thms)

lemma insert_text_set [simp]: "set (insert_text x l) = insert x (set l)"
  by (induction l) auto

lemma InsertMessage_ok: "trace_exists (m_trace m) s \<Longrightarrow> InsertMessage m s =
    Some (m\<lparr>m_id := st_next_message s\<rparr>, s\<lparr>st_messages := st_messages s @ [m\<lparr>m_id := st_next_message s, m_raw := []\<rparr>],
      st_next_message := st_next_message s + 1\<rparr>)"
  by (simp add: InsertMessage_def Let_def)

lemma InsertMessages_total:
  "\<forall>m \<in> set l. trace_exists (m_trace m) s \<Longrightarrow> \<exists>l' s'. InsertMessages l s = Some (l', s')
     \<and> map (\<lambda>m. m\<lparr>m_id := 0\<rparr>) l' = map (\<lambda>m. m\<lparr>m_id := 0\<rparr>) l"
proof (induction l arbitrary: s)
  case (Cons m l)
  let ?s = "s\<lparr>st_messages := st_messages s @ [m\<lparr>m_id := st_next_message s, m_raw := []\<rparr>],
      st_next_message := st_next_message s + 1\<rparr>"
  have "\<forall>m \<in> set l. trace_exists (m_trace m) ?s" using Cons.prems by (simp add: trace_exists_def)
  from Cons.IH [OF this] show ?case using Cons.prems by (auto simp: InsertMessage_ok)
qed simp

definition test_engine :: engine where
  "test_engine = \<lparr>e_syntax = \<lambda>_. True, e_match = \<lambda>_ _. False, e_time_le = (\<le>), e_by_seq = sort_key m_seq,
     e_by_created = id, e_marks_by_created = id, e_presets_by_created = id\<rparr>"

lemma test_engine_orders: "orders test_engine"
  by (simp add: orders_def test_engine_def)

text \<open>A trace with a request nobody answers and one that is answered.\<close>

definition sample_trace :: trace where
  "sample_trace = \<lparr>t_id = 0, t_name = ''t'', t_descr = [], t_started = 0, t_stopped = None, t_count = 0,
     t_created = 0, t_skipped = 0\<rparr>"

definition sample_message :: "int \<Rightarrow> string \<Rightarrow> string \<Rightarrow> string \<Rightarrow> message" where
  "sample_message n cls ctr ref = empty_message\<lparr>m_trace := 1, m_seq := n, m_type := ShipMsgTypeData,
     m_classifier := cls, m_ctr := ctr, m_ref := ref\<rparr>"

definition sample_messages :: "message list" where
  "sample_messages = [sample_message 1 ''read'' ''7'' [], sample_message 2 ''read'' ''8'' [],
     sample_message 3 ''reply'' ''3'' ''8'']"

definition sample_store :: store where
  "sample_store = snd (the (InsertMessages sample_messages (snd (CreateTrace sample_trace (migrated (built_in_charts 0))))))"

lemmas sample_defs = sample_store_def sample_messages_def sample_message_def sample_trace_def CreateTrace_def
  migrated_def built_in_charts_def InsertMessage_def trace_exists_def empty_message_def ship_types Let_def

lemma sample_reachable: "store_reachable sample_store"
proof -
  let ?s = "snd (CreateTrace sample_trace (migrated (built_in_charts 0)))"
  have "store_reachable ?s" by (rule store_reachable.step [OF store_reachable.start store_step.create_trace])
  moreover obtain l' where "InsertMessages sample_messages ?s = Some (l', sample_store)"
    by (simp add: sample_defs)
  ultimately show ?thesis by (blast intro: store_reachable.step store_step.insert_messages)
qed

section \<open>Properties\<close>

text \<open>C11: in every database that operations on connections with foreign keys can reach, keys are unique, every message belongs to a trace,
  every bookmark to a trace and a message, a chart to a trace or to all, and the three built-in charts
  are still there. The pool also has connections without them (C40): whatever the mix of connections, the keys stay unique
  and below the next one, so that none is given out again, and the built-in charts stay; only the references may dangle.\<close>

theorem store_integrity:
  "(store_reachable s \<longrightarrow> distinct (map t_id (st_traces s)) \<and> distinct (map m_id (st_messages s))
    \<and> (\<forall>m \<in> set (st_messages s). GetTrace (m_trace m) s \<noteq> None)
    \<and> (\<forall>b \<in> set (st_bookmarks s). GetTrace (b_trace b) s \<noteq> None \<and> b_message b \<in> m_id ` set (st_messages s))
    \<and> (\<forall>c \<in> set (ChartList (Some i) s). cd_trace c = None \<or> (cd_trace c = Some i \<and> GetTrace i s \<noteq> None))
    \<and> {1, 2, 3} \<subseteq> set (map cd_id (ChartList t s)))
   \<and> (pooled_reachable s \<longrightarrow> distinct (map t_id (st_traces s)) \<and> distinct (map m_id (st_messages s)) \<and> distinct (map cd_id (st_charts s))
    \<and> (\<forall>r \<in> set (st_traces s). t_id r < st_next_trace s) \<and> (\<forall>m \<in> set (st_messages s). m_id m < st_next_message s)
    \<and> (\<forall>c \<in> set (st_charts s). cd_id c < st_next_chart s)
    \<and> {1, 2, 3} \<subseteq> set (map cd_id (ChartList t s)))"
proof (intro conjI [of "_ \<longrightarrow> _"] impI)
  have b: "set (map cd_id (filter global_built_in (st_charts s))) \<subseteq> set (map cd_id (ChartList t s))"
    by (auto simp: ChartList_def global_built_in_def Let_def)
  have g: "trace_exists k s \<Longrightarrow> GetTrace k s \<noteq> None" for k
    by (auto simp: trace_exists_def GetTrace_def find_None_iff)
  assume "store_reachable s"
  then have "store_ok s" by (rule store_reachable_ok)
  then show "distinct (map t_id (st_traces s)) \<and> distinct (map m_id (st_messages s))
    \<and> (\<forall>m \<in> set (st_messages s). GetTrace (m_trace m) s \<noteq> None)
    \<and> (\<forall>b \<in> set (st_bookmarks s). GetTrace (b_trace b) s \<noteq> None \<and> b_message b \<in> m_id ` set (st_messages s))
    \<and> (\<forall>c \<in> set (ChartList (Some i) s). cd_trace c = None \<or> (cd_trace c = Some i \<and> GetTrace i s \<noteq> None))
    \<and> {1, 2, 3} \<subseteq> set (map cd_id (ChartList t s))"
    using b g unfolding store_ok_def by (auto simp: ChartList_def Let_def dest: keys_distinct)
next
  have b: "set (map cd_id (filter global_built_in (st_charts s))) \<subseteq> set (map cd_id (ChartList t s))"
    by (auto simp: ChartList_def global_built_in_def Let_def)
  assume "pooled_reachable s"
  then have "store_keys s" by (rule pooled_reachable_keys)
  then show "distinct (map t_id (st_traces s)) \<and> distinct (map m_id (st_messages s)) \<and> distinct (map cd_id (st_charts s))
    \<and> (\<forall>r \<in> set (st_traces s). t_id r < st_next_trace s) \<and> (\<forall>m \<in> set (st_messages s). m_id m < st_next_message s)
    \<and> (\<forall>c \<in> set (st_charts s). cd_id c < st_next_chart s)
    \<and> {1, 2, 3} \<subseteq> set (map cd_id (ChartList t s))"
    using b unfolding store_keys_def by (auto dest: keys_ok_below)
qed

text \<open>A trace deleted on a connection without foreign keys.\<close>

definition orphaned_store :: store where
  "orphaned_store = DeleteTrace 1 (on_connection False sample_store)"

lemma pooled_sample: "pooled_reachable sample_store"
proof -
  have on: "on_connection True s = s" if "st_fk s" for s using that by (cases s) (simp add: on_connection_def)
  let ?s = "snd (CreateTrace sample_trace (migrated (built_in_charts 0)))"
  have fk: "st_fk (migrated (built_in_charts 0))" "st_fk ?s" by (simp_all add: migrated_def CreateTrace_def Let_def)
  have 1: "pooled_reachable ?s"
    by (rule pooled_reachable.step [OF pooled_reachable.start [of 0], where fk = True]) (simp only: on fk(1) store_step.create_trace)
  obtain l' where "InsertMessages sample_messages ?s = Some (l', sample_store)" by (simp add: sample_defs)
  then have "store_step (on_connection True ?s) sample_store" by (simp add: on fk(2) store_step.insert_messages)
  then show ?thesis by (rule pooled_reachable.step [OF 1])
qed

theorem store_integrity_witness:
  "distinct (map m_id (st_messages sample_store)) \<and> length (st_messages sample_store) = 3
   \<and> distinct (map m_id (st_messages orphaned_store)) \<and> length (st_messages orphaned_store) = 3 \<and> st_traces orphaned_store = []"
proof -
  have "pooled_reachable orphaned_store"
    unfolding orphaned_store_def by (rule pooled_reachable.step [OF pooled_sample store_step.delete_trace])
  then have "distinct (map m_id (st_messages orphaned_store))"
    by (rule store_integrity [THEN conjunct2, THEN mp, THEN conjunct2, THEN conjunct1])
  moreover have "distinct (map m_id (st_messages sample_store))"
    by (rule store_integrity [THEN conjunct1, THEN mp, OF sample_reachable, THEN conjunct2, THEN conjunct1])
  moreover have "length (st_messages sample_store) = 3" by (simp add: sample_defs)
  moreover have "st_messages orphaned_store = st_messages sample_store"
    by (simp add: orphaned_store_def on_connection_def DeleteTrace_def Let_def)
  moreover have "st_traces orphaned_store = []"
    by (simp add: orphaned_store_def on_connection_def DeleteTrace_def Let_def sample_defs)
  ultimately show ?thesis by simp
qed

text \<open>C12: whatever the page size, the pages of a filtered listing put together are exactly the messages of
  the trace that match the filter, once each and in the order of their sequence numbers; the summaries
  list the same messages and the count is their number.\<close>

theorem filter_pages:
  assumes "orders e" and "query_ok e f" and "0 < n" and "length (selected e i f s) \<le> p * n"
  shows "\<exists>rows. ListMessageSummaries e i f s = Some (map ToSummary rows)
    \<and> CountFilteredMessages e i f s = Some (int (length rows)) \<and> sorted (map m_seq rows)
    \<and> (\<forall>m. count (mset rows) m = (if m_trace m = i \<and> matches e f m then count (mset (st_messages s)) m else 0))
    \<and> concat (map (\<lambda>k. the (ListMessages e i (f\<lparr>mf_limit := int n, mf_offset := int (k * n)\<rparr>) s)) [0..<p]) = rows"
proof (intro exI conjI allI)
  let ?rows = "e_by_seq e (selected e i f s)"
  note perm = e_by_seq_perm [OF assms(1)]
  show "ListMessageSummaries e i f s = Some (map ToSummary ?rows)" using assms(2) by (simp add: ListMessageSummaries_def)
  show "CountFilteredMessages e i f s = Some (int (length ?rows))"
    using assms(2) by (simp add: CountFilteredMessages_def perm)
  show "sorted (map m_seq ?rows)" by (rule perm)
  show "count (mset ?rows) m = (if m_trace m = i \<and> matches e f m then count (mset (st_messages s)) m else 0)" for m
    by (simp add: perm selected_eq)
  have "ListMessages e i (f\<lparr>mf_limit := int n, mf_offset := int (k * n)\<rparr>) s = Some (take n (drop (k * n) ?rows))" for k
    using assms(2,3) by (cases "k = 0") (simp_all add: ListMessages_def nat_mult_distrib)
  then show "concat (map (\<lambda>k. the (ListMessages e i (f\<lparr>mf_limit := int n, mf_offset := int (k * n)\<rparr>) s)) [0..<p]) = ?rows"
    using assms(4) by (simp only: option.sel pages) (simp add: perm)
qed

theorem filter_pages_witness:
  "\<exists>rows. CountFilteredMessages test_engine 1 (no_filter\<lparr>mf_classifier := ''read''\<rparr>) sample_store = Some (int (length rows))
     \<and> map m_ctr rows = [''7'', ''8''] \<and> concat (map (\<lambda>k. the (ListMessages test_engine 1
       (no_filter\<lparr>mf_classifier := ''read'', mf_limit := 1, mf_offset := int k\<rparr>) sample_store)) [0..<2]) = rows"
proof -
  let ?f = "no_filter\<lparr>mf_classifier := ''read''\<rparr>"
  have q: "query_ok test_engine ?f" by (simp add: query_ok_def no_filter_def)
  have sel: "map m_ctr (selected test_engine 1 ?f sample_store) = [''7'', ''8'']"
    by (simp add: selected_eq matches_def no_filter_def sample_defs)
  have len: "length (selected test_engine 1 ?f sample_store) = 2" using arg_cong [OF sel, of length] by simp
  obtain rows where rows: "CountFilteredMessages test_engine 1 ?f sample_store = Some (int (length rows))"
      "ListMessageSummaries test_engine 1 ?f sample_store = Some (map ToSummary rows)"
      "concat (map (\<lambda>k. the (ListMessages test_engine 1 (?f\<lparr>mf_limit := int 1, mf_offset := int (k * 1)\<rparr>) sample_store)) [0..<2]) = rows"
    using filter_pages [OF test_engine_orders q, of 1 1 sample_store 2] len by auto
  let ?l = "sort_key m_seq (filter (\<lambda>m. m_trace m = 1 \<and> matches test_engine ?f m) (st_messages sample_store))"
  have e: "e_by_seq test_engine = sort_key m_seq" by (simp add: test_engine_def)
  have "map ToSummary rows = map ToSummary ?l"
    using rows(2) by (simp only: ListMessageSummaries_def q if_True e selected_eq option.inject)
  then have "map s_ctr (map ToSummary rows) = map s_ctr (map ToSummary ?l)" by (rule arg_cong)
  moreover have "map m_ctr ?l = [''7'', ''8'']" by (simp add: matches_def no_filter_def sample_defs)
  ultimately have "map m_ctr rows = [''7'', ''8'']" by (simp add: comp_def ToSummary_def)
  then show ?thesis using rows by (intro exI [of _ rows]) simp
qed

text \<open>The orphaned requests are the requests no message of the trace refers to: a read, write or call
  with a counter for which the lookup of responses finds nothing.\<close>

theorem orphaned_requests:
  assumes "store_reachable s" and "orders e"
  shows "j \<in> set (FindOrphanedRequestIDs i s) \<longleftrightarrow>
    (\<exists>m. GetMessage i j s = Some m \<and> m_type m = ShipMsgTypeData \<and> m_ctr m \<noteq> []
       \<and> (m_classifier m = ''read'' \<or> m_classifier m = ''write'' \<or> m_classifier m = ''call'')
       \<and> FindByMsgCounterRef e i (m_ctr m) s = [])"
proof -
  have n: "FindByMsgCounterRef e i c s = [] \<longleftrightarrow> \<not> list_ex (\<lambda>m2. m_trace m2 = i \<and> m_ref m2 = c) (st_messages s)" for c
    using e_by_seq_perm(1) [OF assms(2), of "filter (\<lambda>m. m_trace m = i \<and> m_ref m = c) (st_messages s)"]
    by (auto simp: FindByMsgCounterRef_def list_ex_iff filter_empty_conv simp flip: set_empty)
  show ?thesis unfolding n GetMessage_iff [OF store_reachable_ok [OF assms(1)]]
    by (auto simp: FindOrphanedRequestIDs_def)
qed

theorem orphaned_requests_witness:
  "1 \<in> set (FindOrphanedRequestIDs 1 sample_store) \<and> 2 \<notin> set (FindOrphanedRequestIDs 1 sample_store)"
proof -
  have g: "\<And>c. FindByMsgCounterRef test_engine 1 c sample_store = sort_key m_seq (filter (\<lambda>m. m_trace m = 1 \<and> m_ref m = c) (st_messages sample_store))"
    by (simp add: FindByMsgCounterRef_def test_engine_def)
  note iff = orphaned_requests [OF sample_reachable test_engine_orders, of _ 1]
  show ?thesis unfolding iff unfolding g
    by (simp add: GetMessage_def sample_defs)
qed

end
