(* ===== verification/LogImport.thy ===== *)
theory LogImport
  imports LogFormat
begin

text \<open>
  \<open>internal/store/logimport.go\<close>: the importers of the five text formats and of binary DLT files. A
  \<open>bufio.Scanner\<close> yields the lines of the text and fails on one that does not fit its buffer. Each
  importer is a fold of one step per line (per frame) over the import state. \<open>now\<close> is the clock. The
  fallback to the \<open>.eet\<close> format is not modelled here.
\<close>

section \<open>Lines\<close>

definition maxLine :: nat where "maxLine = 10485760"

definition drop_cr :: "string \<Rightarrow> string" where
  "drop_cr l = (if l \<noteq> [] \<and> last l = CHR 0x0D then butlast l else l)"

text \<open>\<open>bufio.ScanLines\<close>: a final empty line is not a line; \<open>None\<close>: a line does not fit the buffer.\<close>

definition raw_lines :: "string \<Rightarrow> string list" where
  "raw_lines s = (let ls = split_char newline s in if last ls = [] then butlast ls else ls)"

definition scan_lines :: "string \<Rightarrow> string list option" where
  "scan_lines s = (if list_ex (\<lambda>l. maxLine \<le> length l) (raw_lines s) then None
     else Some (map drop_cr (raw_lines s)))"

section \<open>The import state\<close>

record import_state =
  im_msgs :: "message list"
  im_first :: time
  im_last :: time
  im_seq :: int
  im_skipped :: int

definition import_init :: import_state where
  "import_init = \<lparr>im_msgs = [], im_first = zero_time, im_last = zero_time, im_seq = 0, im_skipped = 0\<rparr>"

definition note_time :: "time \<Rightarrow> import_state \<Rightarrow> import_state" where
  "note_time ts st = st\<lparr>im_first := (if is_zero (im_first st) then ts else im_first st), im_last := ts\<rparr>"

definition add_message :: "message \<Rightarrow> import_state \<Rightarrow> import_state" where
  "add_message m st = st\<lparr>im_msgs := im_msgs st @ [m]\<rparr>"

definition finish_import :: "string \<Rightarrow> string \<Rightarrow> time \<Rightarrow> import_state \<Rightarrow> string + trace \<times> message list" where
  "finish_import empty_err name now st =
     (if im_msgs st = [] then Inl empty_err
      else Inr (\<lparr>t_id = 0, t_name = name, t_descr = [], t_started = im_first st,
         t_stopped = (if is_zero (im_last st) then None else Some (im_last st)),
         t_count = int (length (im_msgs st)), t_created = now, t_skipped = im_skipped st\<rparr>, im_msgs st))"

definition import_lines ::
  "string \<Rightarrow> string \<Rightarrow> (string \<Rightarrow> import_state \<Rightarrow> import_state) \<Rightarrow> string \<Rightarrow> time \<Rightarrow> string
   \<Rightarrow> string + trace \<times> message list" where
  "import_lines scan_err empty_err step name now s =
     (case scan_lines s of
        None \<Rightarrow> Inl (scan_err @ ''bufio.Scanner: token too long'')
      | Some ls \<Rightarrow> finish_import empty_err name now
          (fold (\<lambda>l st. if l = [] then st else step l st) ls import_init))"

section \<open>eebus-go\<close>

definition log_step :: "externals \<Rightarrow> time \<Rightarrow> string \<Rightarrow> import_state \<Rightarrow> import_state" where
  "log_step x baseDate line st = (case rx_find LogLineRegex line of
       None \<Rightarrow> st
     | Some m \<Rightarrow>
       (let auto = (group 1 m = []);
            st1 = (if auto then st\<lparr>im_seq := im_seq st + 1\<rparr> else st);
            seqNum = (if auto then im_seq st1 else fst (atoi (group 1 m)));
            dir = (if group 3 m = ''SEND'' then DirectionOutgoing else DirectionIncoming)
        in case ParseLogTimestamp baseDate (group 2 m) of
             None \<Rightarrow> st1
           | Some ts \<Rightarrow> add_message (BuildMessageFromJSON x (NormalizeEEBUSJSON x (group 5 m)) seqNum ts dir
                           (ExtractPeerDevice (group 4 m))) (note_time ts st1)))"

definition ImportLogFile :: "externals \<Rightarrow> time \<Rightarrow> string \<Rightarrow> string \<Rightarrow> string + trace \<times> message list" where
  "ImportLogFile x now name s =
     import_lines ''scan log file: '' ''no valid log lines found'' (log_step x (now - now mod sec 86400)) name now s"

section \<open>eebustester\<close>

definition tester_step :: "externals \<Rightarrow> string \<Rightarrow> import_state \<Rightarrow> import_state" where
  "tester_step x line st = (case rx_find EEBusTesterLogRegex line of
       None \<Rightarrow> st
     | Some m \<Rightarrow>
       (let st1 = st\<lparr>im_seq := im_seq st + 1\<rparr>;
            dir = (if group 3 m = ''Send'' then DirectionOutgoing else DirectionIncoming)
        in case ParseEEBusTesterTimestamp (group 1 m) (group 2 m) of
             None \<Rightarrow> st1
           | Some ts \<Rightarrow> add_message (BuildMessageFromJSON x (NormalizeEEBUSJSON x (group 5 m)) (im_seq st1) ts dir
                           (ExtractPeerDevice (group 4 m))) (note_time ts st1)))"

definition ImportEEBusTesterLogFile :: "externals \<Rightarrow> time \<Rightarrow> string \<Rightarrow> string \<Rightarrow> string + trace \<times> message list" where
  "ImportEEBusTesterLogFile x now name s =
     import_lines ''scan log file: '' ''no valid DATAGRAM lines found'' (tester_step x) name now s"

section \<open>EEBus Hub\<close>

definition hub_message :: "externals \<Rightarrow> string \<Rightarrow> int \<Rightarrow> time \<Rightarrow> direction \<Rightarrow> string \<Rightarrow> message" where
  "hub_message x normalized seqNum ts dir ski =
     (let msg = empty_message\<lparr>m_seq := seqNum, m_time := ts, m_dir := dir, m_norm := normalized\<rparr>;
          filled = (case ParseShipFromJSON x normalized of
              Inl e \<Rightarrow> msg\<lparr>m_type := ShipMsgTypeUnknown, m_error := ''SHIP classification: '' @ e\<rparr>
            | Inr sr \<Rightarrow>
              (let msg1 = msg\<lparr>m_type := sp_type sr, m_ship := sp_ship sr\<rparr> in
               case sp_spine sr of Some r \<Rightarrow> FillFromSpine r msg1 | None \<Rightarrow> msg1))
      in fill_peer dir ski filled)"

definition hub_step :: "externals \<Rightarrow> string \<Rightarrow> import_state \<Rightarrow> import_state" where
  "hub_step x line st = (case rx_find EEBusHubLogRegex line of
       None \<Rightarrow> st
     | Some m \<Rightarrow>
       (let st1 = st\<lparr>im_seq := im_seq st + 1\<rparr>;
            dir = (if group 3 m = ''Send'' then DirectionOutgoing else DirectionIncoming)
        in case ParseEEBusHubTimestamp (group 1 m) (group 2 m) of
             None \<Rightarrow> st1
           | Some ts \<Rightarrow> add_message (hub_message x (NormalizeEEBUSJSON x (group 5 m)) (im_seq st1) ts dir (group 4 m))
                          (note_time ts st1)))"

definition ImportEEBusHubLogFile :: "externals \<Rightarrow> time \<Rightarrow> string \<Rightarrow> string \<Rightarrow> string + trace \<times> message list" where
  "ImportEEBusHubLogFile x now name s =
     import_lines ''scan log file: '' ''no valid EEBus Hub log lines found'' (hub_step x) name now s"

section \<open>evcc\<close>

definition evcc_message :: "externals \<Rightarrow> string \<Rightarrow> int \<Rightarrow> time \<Rightarrow> direction \<Rightarrow> string \<Rightarrow> message" where
  "evcc_message x payload seqNum ts dir ski = fill_peer dir ski
     (if payload = ''ship init''
      then empty_message\<lparr>m_seq := seqNum, m_time := ts, m_dir := dir, m_type := ShipMsgTypeInit\<rparr>
      else BuildMessageFromJSON x (NormalizeEEBUSJSON x payload) seqNum ts dir [])"

definition evcc_step :: "externals \<Rightarrow> string \<Rightarrow> import_state \<Rightarrow> import_state" where
  "evcc_step x line st = (case rx_find EVCCLogRegex line of
       None \<Rightarrow> st
     | Some m \<Rightarrow>
       (let st1 = st\<lparr>im_seq := im_seq st + 1\<rparr>;
            dir = (if group 3 m = ''Send'' then DirectionOutgoing else DirectionIncoming)
        in case ParseEVCCTimestamp (group 1 m) (group 2 m) of
             None \<Rightarrow> st1
           | Some ts \<Rightarrow> add_message (evcc_message x (group 5 m) (im_seq st1) ts dir (group 4 m)) (note_time ts st1)))"

definition ImportEVCCLogFile :: "externals \<Rightarrow> time \<Rightarrow> string \<Rightarrow> string \<Rightarrow> string + trace \<times> message list" where
  "ImportEVCCLogFile x now name s =
     import_lines ''scan log file: '' ''no valid evcc log lines found'' (evcc_step x) name now s"

section \<open>DLT text\<close>

definition skip_truncated :: "import_state \<Rightarrow> import_state" where
  "skip_truncated st = st\<lparr>im_skipped := im_skipped st + 1\<rparr>"

definition dlt_text_step :: "externals \<Rightarrow> string \<Rightarrow> import_state \<Rightarrow> import_state" where
  "dlt_text_step x line st = (case rx_find DLTTextLineRegex line of
       None \<Rightarrow> st
     | Some m \<Rightarrow> (case ExtractEEBusFromDLTPayload (group 4 m) (group 5 m) (group 7 m) of
           None \<Rightarrow> st
         | Some Truncated \<Rightarrow> skip_truncated st
         | Some (Extracted j dir) \<Rightarrow>
             if \<not> IsCompleteJSON j then skip_truncated st
             else (case ParseDLTTextTimestamp (group 2 m) (group 3 m) of
                 None \<Rightarrow> st
               | Some ts \<Rightarrow>
                 (let st1 = (note_time ts st)\<lparr>im_seq := im_seq st + 1\<rparr>
                  in add_message (BuildMessageFromJSON x (NormalizeEEBUSJSON x j) (im_seq st1) ts dir []) st1))))"

definition ImportDLTTextLogFile :: "externals \<Rightarrow> time \<Rightarrow> string \<Rightarrow> string \<Rightarrow> string + trace \<times> message list" where
  "ImportDLTTextLogFile x now name s =
     import_lines ''scan DLT text log: '' ''no EEBus messages found in DLT text log'' (dlt_text_step x) name now s"

section \<open>Binary DLT\<close>

definition dlt_frame_step :: "externals \<Rightarrow> dlt_message \<Rightarrow> import_state \<Rightarrow> import_state" where
  "dlt_frame_step x f st = (case DLTFrameToMessage x f (im_seq st + 1) of
       FrameTruncated \<Rightarrow> skip_truncated st
     | NoContent \<Rightarrow> st
     | FrameMessage m \<Rightarrow> add_message m (note_time (dm_time f) (st\<lparr>im_seq := im_seq st + 1\<rparr>)))"

lemma ReadDLTMessage_shorter: "ReadDLTMessage s = Inr (m, r) \<Longrightarrow> length r < length s"
  by (auto dest!: ReadDLTMessage_progress)

text \<open>The loop over the frames: it ends because a frame takes bytes. The error is the one that stopped the
  reader, other than the end of the stream.\<close>

function read_frames :: "bytes \<Rightarrow> read_error option \<times> dlt_message list" where
  "read_frames s = (case ReadDLTMessage s of
       Inl e \<Rightarrow> (if e = EOF then None else Some e, [])
     | Inr (f, r) \<Rightarrow> (case read_frames r of (e, fs) \<Rightarrow> (e, f # fs)))"
  by auto
termination by (relation "measure length") (auto dest: ReadDLTMessage_shorter)

declare read_frames.simps [simp del]

definition read_error_text :: "read_error \<Rightarrow> string" where
  "read_error_text e = (case e of
       EOF \<Rightarrow> ''EOF''
     | UnexpectedEOF \<Rightarrow> ''unexpected EOF''
     | BadMagic b \<Rightarrow> ''dlt: bad storage magic '' @ hex_encode b
     | BogusLength n \<Rightarrow> ''dlt: bogus message length '' @ nat_str n)"

definition ImportDLTBinaryFile :: "externals \<Rightarrow> time \<Rightarrow> string \<Rightarrow> bytes \<Rightarrow> string + trace \<times> message list" where
  "ImportDLTBinaryFile x now name s = (case read_frames s of
       (Some e, _) \<Rightarrow> Inl (''read DLT frame: '' @ read_error_text e)
     | (None, fs) \<Rightarrow> finish_import ''no EEBus messages found in DLT binary file'' name now
         (fold (dlt_frame_step x) fs import_init))"

section \<open>Detection\<close>

definition import_as ::
  "externals \<Rightarrow> time \<Rightarrow> string \<Rightarrow> string \<Rightarrow> log_format \<Rightarrow> (string + trace \<times> message list) option" where
  "import_as x now name s f = (case f of
       LogFormatEEBusGo \<Rightarrow> Some (ImportLogFile x now name s)
     | LogFormatEEBusTester \<Rightarrow> Some (ImportEEBusTesterLogFile x now name s)
     | LogFormatEEBusHub \<Rightarrow> Some (ImportEEBusHubLogFile x now name s)
     | LogFormatDLTText \<Rightarrow> Some (ImportDLTTextLogFile x now name s)
     | LogFormatEVCC \<Rightarrow> Some (ImportEVCCLogFile x now name s)
     | LogFormatUnknown \<Rightarrow> None)"

definition ImportLogFileAutoDetect :: "externals \<Rightarrow> time \<Rightarrow> string \<Rightarrow> string \<Rightarrow> string + trace \<times> message list" where
  "ImportLogFileAutoDetect x now name s =
     (case import_as x now name s (DetectLogFormat (take 4096 s)) of
        Some r \<Rightarrow> r | None \<Rightarrow> Inl ''unrecognized log format'')"

section \<open>Lemmas: what a step does\<close>

lemma fill_peer_simps [simp]:
  "m_time (fill_peer d p m) = m_time m" "m_seq (fill_peer d p m) = m_seq m" "m_dir (fill_peer d p m) = m_dir m"
  by (simp_all add: fill_peer_def)

lemma FillFromSpine_simps [simp]:
  "m_time (FillFromSpine r m) = m_time m" "m_seq (FillFromSpine r m) = m_seq m" "m_dir (FillFromSpine r m) = m_dir m"
  by (simp_all add: FillFromSpine_def)

lemma built_message [simp]:
  "m_time (BuildMessageFromJSON x j n ts d p) = ts" "m_seq (BuildMessageFromJSON x j n ts d p) = n"
  "m_dir (BuildMessageFromJSON x j n ts d p) = d"
  by (auto simp: BuildMessageFromJSON_def Let_def split: option.splits sum.splits)

lemma hub_message_simps [simp]:
  "m_time (hub_message x j n ts d p) = ts" "m_seq (hub_message x j n ts d p) = n"
  "m_dir (hub_message x j n ts d p) = d"
  by (auto simp: hub_message_def Let_def split: option.splits sum.splits)

lemma evcc_message_simps [simp]:
  "m_time (evcc_message x j n ts d p) = ts" "m_seq (evcc_message x j n ts d p) = n"
  "m_dir (evcc_message x j n ts d p) = d"
  by (simp_all add: evcc_message_def)

definition non_zero :: "time list \<Rightarrow> time list" where
  "non_zero ts = filter (\<lambda>t. t \<noteq> zero_time) ts"

lemma non_zero_Nil [simp]: "non_zero [] = []"
  by (simp add: non_zero_def)

lemma non_zero_snoc [simp]: "non_zero (ts @ [t]) = non_zero ts @ (if t = zero_time then [] else [t])"
  by (simp add: non_zero_def)

lemma hd_non_zero: "non_zero ts \<noteq> [] \<Longrightarrow> hd (non_zero ts) \<noteq> zero_time"
  using hd_in_set [of "non_zero ts"] by (auto simp: non_zero_def)

lemma non_zero_id: "zero_time \<notin> set ts \<Longrightarrow> non_zero ts = ts"
  by (induction ts) (auto simp: non_zero_def)

text \<open>What holds of the import state between two lines. \<open>b\<close>: the numbers are the importer's own.\<close>

definition import_ok :: "bool \<Rightarrow> import_state \<Rightarrow> bool" where
  "import_ok b st \<longleftrightarrow>
     (let ts = map m_time (im_msgs st) in
      im_first st = (if non_zero ts = [] then zero_time else hd (non_zero ts))
      \<and> im_last st = (if ts = [] then zero_time else last ts)
      \<and> 0 \<le> im_skipped st
      \<and> (b \<longrightarrow> sorted_wrt (<) (map m_seq (im_msgs st)) \<and> (\<forall>m \<in> set (im_msgs st). 0 < m_seq m \<and> m_seq m \<le> im_seq st)
           \<and> 0 \<le> im_seq st))"

lemma import_ok_init: "import_ok b import_init"
  by (simp add: import_ok_def import_init_def non_zero_def)

lemma import_ok_skip: "import_ok b st \<Longrightarrow> import_ok b (skip_truncated st)"
  by (simp add: import_ok_def skip_truncated_def Let_def)

lemma import_ok_seq: "import_ok b st \<Longrightarrow> import_ok b (st\<lparr>im_seq := im_seq st + 1\<rparr>)"
  by (force simp: import_ok_def Let_def)

lemma import_ok_add:
  assumes "import_ok b st" and "b \<longrightarrow> m_seq m = im_seq st + 1" and "m_time m = ts"
  shows "import_ok b (add_message m (note_time ts (st\<lparr>im_seq := im_seq st + 1\<rparr>)))"
  using assms hd_non_zero [of "map m_time (im_msgs st)"]
  by (force simp: import_ok_def Let_def add_message_def note_time_def is_zero_def sorted_wrt_append)

lemma import_ok_add_same:
  assumes "import_ok False st" and "m_time m = ts"
  shows "import_ok False (add_message m (note_time ts st))"
  using assms hd_non_zero [of "map m_time (im_msgs st)"]
  by (force simp: import_ok_def Let_def add_message_def note_time_def is_zero_def)

lemma add_note_seq:
  "add_message m ((note_time ts st)\<lparr>im_seq := n\<rparr>) = add_message m (note_time ts (st\<lparr>im_seq := n\<rparr>))"
  by (cases st) (simp add: note_time_def add_message_def)

lemma step_ok:
  "import_ok False st \<Longrightarrow> import_ok False (log_step x d l st)"
  "import_ok b st \<Longrightarrow> import_ok b (tester_step x l st)"
  "import_ok b st \<Longrightarrow> import_ok b (hub_step x l st)"
  "import_ok b st \<Longrightarrow> import_ok b (evcc_step x l st)"
  "import_ok b st \<Longrightarrow> import_ok b (dlt_text_step x l st)"
  subgoal
    by (auto simp: log_step_def Let_def import_ok_seq intro!: import_ok_add_same split: option.splits)
  subgoal by (auto simp: tester_step_def Let_def import_ok_seq intro!: import_ok_add split: option.splits)
  subgoal by (auto simp: hub_step_def Let_def import_ok_seq intro!: import_ok_add split: option.splits)
  subgoal by (auto simp: evcc_step_def Let_def import_ok_seq intro!: import_ok_add split: option.splits)
  subgoal
    by (auto simp: dlt_text_step_def Let_def add_note_seq import_ok_skip intro!: import_ok_add
        split: option.splits dlt_extract.splits)
  done

lemma fold_ok:
  assumes "\<And>l st. import_ok b st \<Longrightarrow> import_ok b (step l st)"
  shows "import_ok b st \<Longrightarrow> import_ok b (fold (\<lambda>l st. if l = [] then st else step l st) ls st)"
  by (induction ls arbitrary: st) (simp_all add: assms)

lemma frame_step_ok: "import_ok b st \<Longrightarrow> import_ok b (dlt_frame_step x f st)"
proof -
  assume ok: "import_ok b st"
  have t: "m_time m = dm_time f \<and> m_seq m = im_seq st + 1" if "DLTFrameToMessage x f (im_seq st + 1) = FrameMessage m" for m
    using that by (auto simp: DLTFrameToMessage_def split: if_splits option.splits dlt_extract.splits)
  show ?thesis using ok t
    by (auto simp: dlt_frame_step_def import_ok_skip intro!: import_ok_add split: frame_result.splits)
qed

lemma frames_ok: "import_ok b st \<Longrightarrow> import_ok b (fold (dlt_frame_step x) fs st)"
  by (induction fs arbitrary: st) (simp_all add: frame_step_ok)

text \<open>What a finished import says about its trace.\<close>

definition trace_ok :: "bool \<Rightarrow> trace \<Rightarrow> message list \<Rightarrow> bool" where
  "trace_ok b t msgs \<longleftrightarrow> msgs \<noteq> [] \<and> t_count t = int (length msgs) \<and> 0 \<le> t_skipped t
     \<and> (let ts = map m_time msgs in
        (zero_time \<notin> set ts \<longrightarrow> t_started t = hd ts \<and> t_stopped t = Some (last ts)))
     \<and> (b \<longrightarrow> sorted_wrt (<) (map m_seq msgs))"

lemma finish_ok:
  assumes "import_ok b st" and "finish_import e name now st = Inr (t, msgs)"
  shows "trace_ok b t msgs"
proof -
  from assms(2) have m: "msgs = im_msgs st" "msgs \<noteq> []" "t_count t = int (length msgs)"
    "t_skipped t = im_skipped st" "t_started t = im_first st"
    "t_stopped t = (if is_zero (im_last st) then None else Some (im_last st))"
    by (auto simp: finish_import_def split: if_splits)
  have "t_started t = hd (map m_time msgs) \<and> t_stopped t = Some (last (map m_time msgs))"
    if z: "zero_time \<notin> set (map m_time msgs)"
  proof -
    have "non_zero (map m_time msgs) = map m_time msgs" by (rule non_zero_id [OF z])
    moreover have "last (map m_time msgs) \<noteq> zero_time" using z m(2) by (metis last_in_set list.map_disc_iff)
    ultimately show ?thesis using assms(1) m by (simp add: import_ok_def Let_def is_zero_def)
  qed
  then show ?thesis using assms(1) m by (auto simp: trace_ok_def import_ok_def Let_def)
qed

lemma import_lines_ok:
  assumes "\<And>l st. import_ok b st \<Longrightarrow> import_ok b (step l st)"
    and "import_lines e1 e2 step name now s = Inr (t, msgs)"
  shows "trace_ok b t msgs"
  using assms(2) finish_ok [OF fold_ok [of b step, OF assms(1) import_ok_init]]
  by (auto simp: import_lines_def split: option.splits)

section \<open>Lemmas: numbering\<close>

text \<open>What the importers that count their lines should collect: the n-th line that matches gives the
  message number n, unless its timestamp is not one.\<close>

definition numbered ::
  "nat \<Rightarrow> rx \<Rightarrow> (captures \<Rightarrow> time option) \<Rightarrow> (captures \<Rightarrow> int \<Rightarrow> time \<Rightarrow> message) \<Rightarrow> string list \<Rightarrow> message list" where
  "numbered k r t b ls = concat (map (\<lambda>(n, m). case t m of None \<Rightarrow> [] | Some ts \<Rightarrow> [b m (int n) ts])
     (enumerate k (List.map_filter (\<lambda>l. if l = [] then None else rx_find r l) ls)))"

definition messages_of :: "string + trace \<times> message list \<Rightarrow> message list" where
  "messages_of r = (case r of Inl _ \<Rightarrow> [] | Inr (_, l) \<Rightarrow> l)"

lemma messages_of_finish: "messages_of (finish_import e name now st) = im_msgs st"
  by (simp add: messages_of_def finish_import_def)

lemma messages_of_lines:
  "messages_of (import_lines e1 e2 step name now s) = (case scan_lines s of None \<Rightarrow> []
     | Some ls \<Rightarrow> im_msgs (fold (\<lambda>l st. if l = [] then st else step l st) ls import_init))"
  by (simp add: import_lines_def messages_of_finish messages_of_def [of "Inl _"] split: option.splits)

lemma note_simps [simp]:
  "im_msgs (note_time ts st) = im_msgs st" "im_seq (note_time ts st) = im_seq st"
  "im_skipped (note_time ts st) = im_skipped st"
  "im_msgs (add_message m st) = im_msgs st @ [m]" "im_seq (add_message m st) = im_seq st"
  "im_skipped (add_message m st) = im_skipped st"
  by (simp_all add: note_time_def add_message_def)

lemma numbered_fold:
  assumes step: "\<And>l st. l \<noteq> [] \<Longrightarrow>
      im_msgs (step l st) = im_msgs st @ (case rx_find r l of None \<Rightarrow> []
        | Some m \<Rightarrow> (case t m of None \<Rightarrow> [] | Some ts \<Rightarrow> [b m (im_seq st + 1) ts])) \<and>
      im_seq (step l st) = im_seq st + (if rx_find r l = None then 0 else 1)"
    and "im_seq st + 1 = int k"
  shows "im_msgs (fold (\<lambda>l st. if l = [] then st else step l st) ls st) = im_msgs st @ numbered k r t b ls"
  using assms(2)
proof (induction ls arbitrary: st k)
  case (Cons l ls)
  show ?case
  proof (cases "l = [] \<or> rx_find r l = None")
    case True
    then have "im_seq (if l = [] then st else step l st) = im_seq st"
      "im_msgs (if l = [] then st else step l st) = im_msgs st" using step by auto
    then show ?thesis using Cons.IH [of "if l = [] then st else step l st" k] Cons.prems True
      by (auto simp: numbered_def List.map_filter_simps)
  next
    case False
    then obtain m where m: "l \<noteq> []" "rx_find r l = Some m" by auto
    then show ?thesis using Cons.IH [of "step l st" "Suc k"] Cons.prems step [OF m(1), of st]
      by (simp add: numbered_def List.map_filter_simps split: option.splits)
  qed
qed (simp add: numbered_def)

lemma DLTFrame_kind:
  "DLTFrameToMessage x f n = FrameTruncated \<longleftrightarrow> DLTFrameToMessage x f 0 = FrameTruncated"
  "DLTFrameToMessage x f n = NoContent \<longleftrightarrow> DLTFrameToMessage x f 0 = NoContent"
  by (simp_all add: DLTFrameToMessage_def split: option.splits dlt_extract.splits)

text \<open>The messages of a sequence of frames, and how many payloads were truncated.\<close>

definition carries :: "externals \<Rightarrow> dlt_message \<Rightarrow> bool" where
  "carries x f \<longleftrightarrow> (case DLTFrameToMessage x f 0 of FrameMessage _ \<Rightarrow> True | _ \<Rightarrow> False)"

definition frame_messages :: "nat \<Rightarrow> externals \<Rightarrow> dlt_message list \<Rightarrow> message list" where
  "frame_messages k x fs = concat (map (\<lambda>(n, f). case DLTFrameToMessage x f (int n) of FrameMessage m \<Rightarrow> [m] | _ \<Rightarrow> [])
     (enumerate k (filter (carries x) fs)))"

definition truncated_frames :: "externals \<Rightarrow> dlt_message list \<Rightarrow> nat" where
  "truncated_frames x fs = length (filter (\<lambda>f. DLTFrameToMessage x f 0 = FrameTruncated) fs)"

lemma frames_fold:
  assumes "im_seq st + 1 = int k"
  shows "im_msgs (fold (dlt_frame_step x) fs st) = im_msgs st @ frame_messages k x fs \<and>
    im_skipped (fold (dlt_frame_step x) fs st) = im_skipped st + int (truncated_frames x fs)"
  using assms
proof (induction fs arbitrary: st k)
  case (Cons f fs)
  show ?case
  proof (cases "DLTFrameToMessage x f (im_seq st + 1)")
    case NoContent
    then have "DLTFrameToMessage x f 0 = NoContent" using DLTFrame_kind [of x f "im_seq st + 1"] by simp
    then show ?thesis using Cons NoContent
      by (simp add: dlt_frame_step_def carries_def frame_messages_def truncated_frames_def)
  next
    case FrameTruncated
    then have "DLTFrameToMessage x f 0 = FrameTruncated" using DLTFrame_kind [of x f "im_seq st + 1"] by simp
    then show ?thesis using Cons.IH [of "skip_truncated st" k] Cons.prems FrameTruncated
      by (simp add: dlt_frame_step_def carries_def frame_messages_def truncated_frames_def skip_truncated_def)
  next
    case (FrameMessage m)
    then have "carries x f" "DLTFrameToMessage x f 0 \<noteq> FrameTruncated"
      using DLTFrame_kind [of x f "im_seq st + 1"] by (auto simp: carries_def split: frame_result.splits)
    then show ?thesis
      using Cons.IH [of "dlt_frame_step x f st" "Suc k"] Cons.prems FrameMessage
      by (simp add: dlt_frame_step_def frame_messages_def truncated_frames_def)
  qed
qed (simp add: frame_messages_def truncated_frames_def)

text \<open>A frame as a writer has it.\<close>

record frame_source =
  fs_secs :: nat
  fs_usecs :: nat
  fs_ecu :: string
  fs_be :: bool
  fs_apid :: string
  fs_ctid :: string
  fs_text :: string

definition frame_ok :: "frame_source \<Rightarrow> bool" where
  "frame_ok f \<longleftrightarrow> fs_secs f < 2 ^ 32 \<and> fs_usecs f < 2 ^ 32 \<and> length (fs_text f) + 16 < 65521 \<and> no_nul (fs_text f)
     \<and> no_nul (fs_ecu f) \<and> no_nul (fs_apid f) \<and> no_nul (fs_ctid f)
     \<and> length (fs_ecu f) \<le> 4 \<and> length (fs_apid f) \<le> 4 \<and> length (fs_ctid f) \<le> 4"

definition frame_bytes :: "frame_source \<Rightarrow> bytes" where
  "frame_bytes f = dlt_frame (fs_secs f) (fs_usecs f) (fs_ecu f) (fs_be f) (fs_apid f) (fs_ctid f) (fs_text f)"

definition frame_read :: "frame_source \<Rightarrow> dlt_message" where
  "frame_read f = \<lparr>dm_time = int (fs_secs f) * 10 ^ 9 + int (fs_usecs f) * 1000, dm_ecu = fs_ecu f,
     dm_apid = fs_apid f, dm_ctid = fs_ctid f, dm_verbose = True, dm_args = fs_text f\<rparr>"

lemma read_frames_append:
  assumes "list_all frame_ok fs" and "ReadDLTMessage tail = Inl e"
  shows "read_frames (concat (map frame_bytes fs) @ tail) =
    ((if e = EOF then None else Some e), map frame_read fs)"
  using assms
proof (induction fs)
  case Nil
  then show ?case by (simp add: read_frames.simps [of tail])
next
  case (Cons f fs)
  have r: "ReadDLTMessage (frame_bytes f @ concat (map frame_bytes fs) @ tail) =
      Inr (frame_read f, concat (map frame_bytes fs) @ tail)"
    unfolding frame_bytes_def frame_read_def using Cons.prems(1)
    by (intro frame_roundtrip) (simp_all add: frame_ok_def)
  show ?case using Cons r by (simp add: read_frames.simps [of "frame_bytes f @ _"])
qed

section \<open>Properties\<close>

text \<open>Every import that succeeds describes its trace truthfully: it is not empty, the count is the
  number of messages, the trace starts at the first message's time and stops at the last one's (unless
  a message has no time), and, except in the format that brings its own numbers, the numbers of
  the messages increase strictly.\<close>

definition result_ok :: "bool \<Rightarrow> string + trace \<times> message list \<Rightarrow> bool" where
  "result_ok b r = (case r of Inl _ \<Rightarrow> True | Inr (t, l) \<Rightarrow> trace_ok b t l)"

lemma lines_result_ok:
  "(\<And>l st. import_ok b st \<Longrightarrow> import_ok b (step l st)) \<Longrightarrow> result_ok b (import_lines e1 e2 step name now s)"
  using import_lines_ok [of b step] by (auto simp: result_ok_def split: sum.splits)

theorem imported_traces:
  "result_ok False (ImportLogFile x now name s) \<and> result_ok True (ImportEEBusTesterLogFile x now name s)
   \<and> result_ok True (ImportEEBusHubLogFile x now name s) \<and> result_ok True (ImportEVCCLogFile x now name s)
   \<and> result_ok True (ImportDLTTextLogFile x now name s) \<and> result_ok True (ImportDLTBinaryFile x now name s)"
proof (intro conjI)
  show "result_ok True (ImportDLTBinaryFile x now name s)"
    using finish_ok [OF frames_ok [OF import_ok_init]]
    by (auto simp: result_ok_def ImportDLTBinaryFile_def split: sum.splits prod.splits option.splits)
qed (simp_all add: ImportLogFile_def ImportEEBusTesterLogFile_def ImportEEBusHubLogFile_def ImportEVCCLogFile_def
    ImportDLTTextLogFile_def lines_result_ok step_ok)

text \<open>The importers that number the lines themselves collect, in order, one message for each line
  that matches their pattern and has a valid time; its number is the position of the line among the
  matching ones, so a line with an invalid time leaves a gap.\<close>

theorem numbered_imports:
  "messages_of (ImportEEBusTesterLogFile x now name s) = (case scan_lines s of None \<Rightarrow> []
     | Some ls \<Rightarrow> numbered 1 EEBusTesterLogRegex (\<lambda>m. ParseEEBusTesterTimestamp (group 1 m) (group 2 m))
         (\<lambda>m n ts. BuildMessageFromJSON x (NormalizeEEBUSJSON x (group 5 m)) n ts
            (if group 3 m = ''Send'' then DirectionOutgoing else DirectionIncoming) (ExtractPeerDevice (group 4 m))) ls)
   \<and> messages_of (ImportEEBusHubLogFile x now name s) = (case scan_lines s of None \<Rightarrow> []
     | Some ls \<Rightarrow> numbered 1 EEBusHubLogRegex (\<lambda>m. ParseEEBusHubTimestamp (group 1 m) (group 2 m))
         (\<lambda>m n ts. hub_message x (NormalizeEEBUSJSON x (group 5 m)) n ts
            (if group 3 m = ''Send'' then DirectionOutgoing else DirectionIncoming) (group 4 m)) ls)
   \<and> messages_of (ImportEVCCLogFile x now name s) = (case scan_lines s of None \<Rightarrow> []
     | Some ls \<Rightarrow> numbered 1 EVCCLogRegex (\<lambda>m. ParseEVCCTimestamp (group 1 m) (group 2 m))
         (\<lambda>m n ts. evcc_message x (group 5 m) n ts
            (if group 3 m = ''Send'' then DirectionOutgoing else DirectionIncoming) (group 4 m)) ls)"
  unfolding ImportEEBusTesterLogFile_def ImportEEBusHubLogFile_def ImportEVCCLogFile_def messages_of_lines
  by (intro conjI option.case_cong refl, (subst numbered_fold, auto simp: tester_step_def hub_step_def
      evcc_step_def Let_def import_init_def split: option.splits)+)

text \<open>C10: what a binary file of frames followed by a broken rest gives. The reader takes the rest for the end of
  the file when it is empty and also when the file was cut right after a storage header or right after a standard header:
  then the messages are those of the whole frames that carry one, numbered from 1 without gaps, and the truncated
  payloads are counted and never become messages (an import without any message is an error). Any other rest
  drops everything, with the error of the reader.\<close>

theorem dlt_binary_import:
  assumes "list_all frame_ok fs" and "ReadDLTMessage tail = Inl e"
  shows "(e = EOF \<longleftrightarrow> tail = [] \<or> (take 4 tail = dltStorageMagic \<and>
           (length tail = 16 \<or> (length tail = 20 \<and> 4 < be_val (drop 18 tail)))))
   \<and> (case ImportDLTBinaryFile x now name (concat (map frame_bytes fs) @ tail) of
      Inr (t, l) \<Rightarrow> e = EOF \<and> l \<noteq> [] \<and> l = frame_messages 1 x (map frame_read fs)
        \<and> t_skipped t = int (truncated_frames x (map frame_read fs))
    | Inl msg \<Rightarrow> (e \<noteq> EOF \<and> msg = ''read DLT frame: '' @ read_error_text e)
        \<or> (e = EOF \<and> frame_messages 1 x (map frame_read fs) = [] \<and> msg = ''no EEBus messages found in DLT binary file''))"
proof -
  let ?s = "concat (map frame_bytes fs) @ tail"
  have r: "read_frames ?s = ((if e = EOF then None else Some e), map frame_read fs)"
    by (rule read_frames_append [OF assms])
  have eof: "e = EOF \<longleftrightarrow> ReadDLTMessage tail = Inl EOF" using assms(2) by simp
  show ?thesis
    using frames_fold [of import_init 1 x "map frame_read fs"]
    unfolding ImportDLTBinaryFile_def r eof eof_cases [symmetric]
    by (simp add: finish_import_def import_init_def)
qed

definition sample_frames :: "frame_source list" where
  "sample_frames = [
     \<lparr>fs_secs = 1, fs_usecs = 0, fs_ecu = ''E'', fs_be = True, fs_apid = ''A'', fs_ctid = ''C'',
       fs_text = ''{\"datagram\":<<Message truncated, too long>>''\<rparr>,
     \<lparr>fs_secs = 2, fs_usecs = 0, fs_ecu = ''E'', fs_be = False, fs_apid = ''A'', fs_ctid = ''C'',
       fs_text = ''x {\"datagram\":1}''\<rparr>]"

lemma sample_frames_facts:
  "list_all frame_ok sample_frames" "ReadDLTMessage [] = Inl EOF"
  "truncated_frames x (map frame_read sample_frames) = 1" "frame_messages 1 x (map frame_read sample_frames) \<noteq> []"
proof -
  show "list_all frame_ok sample_frames" by (simp add: frame_ok_def sample_frames_def no_nul_def)
  show "ReadDLTMessage [] = Inl EOF" by code_simp
  have x1: "ExtractEEBusFromDLTPayload ''A'' ''C'' ''{\"datagram\":<<Message truncated, too long>>'' = Some Truncated"
    by code_simp
  have x2: "ExtractEEBusFromDLTPayload ''A'' ''C'' ''x {\"datagram\":1}'' =
      Some (Extracted ''{\"datagram\":1}'' DirectionUnknown)" by code_simp
  have c: "IsCompleteJSON ''{\"datagram\":1}''" by code_simp
  show "truncated_frames x (map frame_read sample_frames) = 1"
    by (simp add: truncated_frames_def sample_frames_def frame_read_def DLTFrameToMessage_def x1 x2 c)
  show "frame_messages 1 x (map frame_read sample_frames) \<noteq> []"
    by (simp add: frame_messages_def carries_def sample_frames_def frame_read_def DLTFrameToMessage_def x1 x2 c)
qed

lemma sample_import: "\<exists>t l. ImportDLTBinaryFile x now name (concat (map frame_bytes sample_frames)) = Inr (t, l)"
  using read_frames_append [OF sample_frames_facts(1,2)] frames_fold [of import_init 1 x "map frame_read sample_frames"] sample_frames_facts(4) [of x]
  by (simp add: ImportDLTBinaryFile_def finish_import_def import_init_def)

text \<open>A file that is cut right after the storage header of a third frame.\<close>

theorem dlt_binary_import_witness:
  "case ImportDLTBinaryFile test_externals 0 ''n'' (concat (map frame_bytes sample_frames) @ dltStorageMagic @ replicate 12 nul) of
      Inr (t, l) \<Rightarrow> t_skipped t = 1 \<and> l \<noteq> [] | Inl _ \<Rightarrow> False"
proof -
  have e: "ReadDLTMessage (dltStorageMagic @ replicate 12 nul) = Inl EOF" by code_simp
  show ?thesis using dlt_binary_import [OF sample_frames_facts(1) e, of test_externals 0 "''n''"] sample_frames_facts(3,4) [of test_externals]
    by (auto split: sum.splits prod.splits)
qed

end
