(* ===== verification/Sources.thy ===== *)
theory Sources
  imports LogImport
begin

text \<open>
  \<open>internal/capture/source_*.go\<close>: what the live sources make of the bytes they read. A source is a
  function from the chunks a connection or a file delivers to the messages it emits; connecting and
  waiting are outside, except for the retry delays. \<open>baseDate\<close> is the day the source was started.
\<close>

section \<open>One log entry\<close>

text \<open>The message of an entry (\<open>emitMessage\<close>, the end of \<open>processLine\<close>).\<close>

definition log_message :: "externals \<Rightarrow> string \<Rightarrow> int \<Rightarrow> time \<Rightarrow> direction \<Rightarrow> string \<Rightarrow> message" where
  "log_message x normalized seqNum ts dir peer =
     (let msg = empty_message\<lparr>m_seq := seqNum, m_time := ts, m_dir := dir, m_norm := normalized\<rparr>;
          filled = (case ParseSpineFromJSON x normalized of
              Some r \<Rightarrow> FillFromSpine r (msg\<lparr>m_type := ShipMsgTypeData\<rparr>)
            | None \<Rightarrow> (case ParseShipFromJSON x normalized of
                Inr sr \<Rightarrow>
                  (let msg1 = msg\<lparr>m_type := sp_type sr, m_ship := sp_ship sr\<rparr> in
                   case sp_spine sr of Some r \<Rightarrow> FillFromSpine r msg1 | None \<Rightarrow> msg1)
              | Inl e \<Rightarrow>
                  (let msg1 = msg\<lparr>m_type := ShipMsgTypeUnknown, m_error := ''could not parse message: '' @ e\<rparr> in
                   if dir = DirectionOutgoing then msg1\<lparr>m_dev_dst := peer\<rparr> else msg1\<lparr>m_dev_src := peer\<rparr>)))
      in fill_peer dir peer filled)"

definition entry_message ::
  "externals \<Rightarrow> time \<Rightarrow> int \<Rightarrow> string \<Rightarrow> string \<Rightarrow> string \<Rightarrow> string \<Rightarrow> message option" where
  "entry_message x baseDate seqNum timeStr direction peer payload =
     (case ParseLogTimestamp baseDate timeStr of
        None \<Rightarrow> None
      | Some ts \<Rightarrow> Some (log_message x (NormalizeEEBUSJSON x payload) seqNum ts
          (if direction = ''SEND'' then DirectionOutgoing else DirectionIncoming) (ExtractPeerDevice peer)))"

section \<open>Log tail\<close>

text \<open>\<open>readNewLines\<close>: the complete lines of the data that has arrived, the first one with what was kept
  from before, and the incomplete rest.\<close>

function readNewLines :: "string \<Rightarrow> string \<Rightarrow> string list \<times> string" where
  "readNewLines partial data = (case split_once newline data of
       None \<Rightarrow> ([], partial @ data)
     | Some (a, b) \<Rightarrow> (case readNewLines [] b of (ls, p) \<Rightarrow> ((partial @ a @ [newline]) # ls, p)))"
  by pat_completeness auto

termination
  by (relation "measure (\<lambda>(p, d). length d)") (auto dest: split_once_shorter)

declare readNewLines.simps [simp del]

definition tail_space :: "char \<Rightarrow> bool" where
  "tail_space c \<longleftrightarrow> c \<in> set [CHR '' '', CHR 0x09, CHR 0x0A, CHR 0x0D]"

definition trimRight :: "string \<Rightarrow> string" where
  "trimRight s = trim_right_by tail_space s"

definition processLine :: "externals \<Rightarrow> time \<Rightarrow> string \<Rightarrow> message option" where
  "processLine x baseDate line0 =
     (let line = trimRight line0 in
      if line = [] then None
      else (case rx_find LogLineRegex line of
          None \<Rightarrow> None
        | Some m \<Rightarrow> entry_message x baseDate (if group 1 m \<noteq> [] then fst (atoi (group 1 m)) else 0)
            (group 2 m) (group 3 m) (group 4 m) (group 5 m)))"

text \<open>The polls of one run: the data that each one finds.\<close>

fun tail_lines :: "string \<Rightarrow> string list \<Rightarrow> string list \<times> string" where
  "tail_lines p [] = ([], p)"
| "tail_lines p (d # ds) = (case readNewLines p d of (ls, q) \<Rightarrow>
     (case tail_lines q ds of (ls', r) \<Rightarrow> (ls @ ls', r)))"

definition LogTailRun :: "externals \<Rightarrow> time \<Rightarrow> string list \<Rightarrow> message list" where
  "LogTailRun x baseDate polls = List.map_filter (processLine x baseDate) (fst (tail_lines [] polls))"

section \<open>TCP log stream\<close>

definition timestampFinder :: rx where
  "timestampFinder = cats [Str ''['', hms_ms_rx, Str '']'']"

definition msgHeaderRegex :: rx where
  "msgHeaderRegex = cats [Str ''['', Grp 2 hms_ms_rx, Str '']'', sp, Grp 3 (Alt (Str ''SEND'') (Str ''RECV'')),
     sp, Alt (Str ''to'') (Str ''from''), sp, Grp 4 word_rx, sp, Str ''MSG:'', sp]"

text \<open>The first value \<open>json.Decoder\<close> finds: it stops as soon as the value is complete; a number ends at
  the first byte that does not continue it.\<close>

definition scan_complete :: "scanner \<Rightarrow> bool" where
  "scan_complete q \<longleftrightarrow> fst (json_step q (CHR '' '')) = EndTop"

fun leading_value :: "scanner \<Rightarrow> string \<Rightarrow> string \<Rightarrow> string option" where
  "leading_value q acc [] = (if scan_complete q then Some (rev acc) else None)"
| "leading_value q acc (c # s) =
     (let q' = json_step q c in
      if scan_complete q \<and> (fst q' = EndTop \<or> fst q' = Bad) then Some (rev acc)
      else if fst q' = Bad then None
      else leading_value q' (c # acc) s)"

definition extractLeadingJSON :: "string \<Rightarrow> string" where
  "extractLeadingJSON s = (case leading_value (BeginValue, []) [] s of
       Some v \<Rightarrow> dropWhile is_ws v | None \<Rightarrow> s)"

type_synonym log_entry = "string \<times> string \<times> string \<times> string"

text \<open>The entries of the headers found, and the rest from the last header on if its value is not
  complete.\<close>

definition json_region :: "string \<Rightarrow> nat \<Rightarrow> (nat \<times> nat \<times> captures) list \<Rightarrow> string" where
  "json_region data e rest =
     take ((case rest of [] \<Rightarrow> length data | r # _ \<Rightarrow> fst r) - e) (drop e data)"

definition incomplete :: "string \<Rightarrow> bool" where
  "incomplete region \<longleftrightarrow> extractLeadingJSON region = region \<and> \<not> json_valid region"

fun header_entries :: "string \<Rightarrow> (nat \<times> nat \<times> captures) list \<Rightarrow> log_entry list \<times> string option" where
  "header_entries data [] = ([], None)"
| "header_entries data ((a, e, m) # rest) =
     (if incomplete (json_region data e rest)
      then (if rest = [] then ([], Some (drop a data)) else header_entries data rest)
      else (case header_entries data rest of (es, c) \<Rightarrow>
        ((group 2 m, group 3 m, group 4 m, extractLeadingJSON (json_region data e rest)) # es, c)))"

definition from_timestamp :: "string \<Rightarrow> string" where
  "from_timestamp s = (case rx_search timestampFinder s of Some (k, _) \<Rightarrow> drop k s | None \<Rightarrow> [])"

definition extractMessages :: "string \<Rightarrow> log_entry list \<times> string" where
  "extractMessages data =
     (let locs = rx_all (length data) msgHeaderRegex 0 data in
      if locs = [] then ([], from_timestamp data)
      else (case header_entries data locs of
          (es, Some c) \<Rightarrow> (es, c)
        | (es, None) \<Rightarrow> (es, from_timestamp (drop (fst (snd (last locs))) data))))"

text \<open>How the reads end: cancelled, or at the end of the stream, which has the carried rest processed once
  more.\<close>

fun tcp_entries :: "bool \<Rightarrow> string \<Rightarrow> string list \<Rightarrow> log_entry list" where
  "tcp_entries at_end carry [] = (if at_end \<and> carry \<noteq> [] then fst (extractMessages carry) else [])"
| "tcp_entries at_end carry (d # ds) = (case extractMessages (carry @ d) of (es, c) \<Rightarrow> es @ tcp_entries at_end c ds)"

definition TCPRun :: "externals \<Rightarrow> time \<Rightarrow> bool \<Rightarrow> string list \<Rightarrow> message list" where
  "TCPRun x baseDate at_end reads =
     List.map_filter (\<lambda>(t, d, p, j). entry_message x baseDate 0 t d p j) (tcp_entries at_end [] reads)"

section \<open>UDP\<close>

text \<open>One packet.\<close>

definition udp_message :: "string \<Rightarrow> bytes \<Rightarrow> message" where
  "udp_message target raw = empty_message\<lparr>m_raw := raw, m_src_addr := target, m_dir := DirectionIncoming\<rparr>"

section \<open>DLT stream\<close>

record dlt_rule =
  dr_apid :: string
  dr_ctid :: string

type_synonym dlt_filter = "dlt_rule list"

definition Accept :: "dlt_filter \<Rightarrow> string \<Rightarrow> string \<Rightarrow> bool" where
  "Accept f apid ctid \<longleftrightarrow>
     f = [] \<or> list_ex (\<lambda>r. dr_apid r = apid \<and> (dr_ctid r = [] \<or> dr_ctid r = ctid)) f"

definition rule_string :: "dlt_rule \<Rightarrow> string" where
  "rule_string r = (if dr_ctid r = [] then dr_apid r else dr_apid r @ '':'' @ dr_ctid r)"

definition filter_string :: "dlt_filter \<Rightarrow> string" where
  "filter_string f = join '','' (map rule_string f)"

datatype dlt_filter_error = EmptyAPID string | TooLong string

definition parse_rule :: "string \<Rightarrow> dlt_filter_error + dlt_rule" where
  "parse_rule part =
     (let r = (case split_once (CHR '':'') part of
            None \<Rightarrow> \<lparr>dr_apid = part, dr_ctid = []\<rparr>
          | Some (a, c) \<Rightarrow> \<lparr>dr_apid = trim_space a, dr_ctid = trim_space c\<rparr>)
      in if dr_apid r = [] then Inl (EmptyAPID part)
         else if 4 < length (dr_apid r) \<or> 4 < length (dr_ctid r) then Inl (TooLong part)
         else Inr r)"

fun parse_rules :: "string list \<Rightarrow> dlt_filter_error + dlt_filter" where
  "parse_rules [] = Inr []"
| "parse_rules (p # ps) =
     (if trim_space p = [] then parse_rules ps
      else (case parse_rule (trim_space p) of
          Inl e \<Rightarrow> Inl e
        | Inr r \<Rightarrow> (case parse_rules ps of Inl e \<Rightarrow> Inl e | Inr f \<Rightarrow> Inr (r # f))))"

definition ParseDLTFilter :: "string \<Rightarrow> dlt_filter_error + dlt_filter" where
  "ParseDLTFilter s = (if trim_space s = [] then Inr [] else parse_rules (split_char (CHR '','') (trim_space s)))"

text \<open>One connection: the frames up to the first error. \<open>now k\<close> is the clock at the start of the k-th read of the source,
  and \<open>ds_reads\<close> counts the reads; the numbers go
  on from one connection to the next; the truncated frames are reported.\<close>

record dlt_stream =
  ds_reads :: nat
  ds_seq :: int
  ds_emitted :: "message list"
  ds_truncated :: nat

definition stream_frame :: "externals \<Rightarrow> dlt_filter \<Rightarrow> dlt_message \<Rightarrow> dlt_stream \<Rightarrow> dlt_stream" where
  "stream_frame x f fr st =
     (if \<not> Accept f (dm_apid fr) (dm_ctid fr) then st
      else (let st1 = st\<lparr>ds_seq := ds_seq st + 1\<rparr> in
        case DLTFrameToMessage x fr (ds_seq st1) of
          FrameTruncated \<Rightarrow> st1\<lparr>ds_truncated := Suc (ds_truncated st1)\<rparr>
        | NoContent \<Rightarrow> st1
        | FrameMessage m \<Rightarrow> st1\<lparr>ds_emitted := ds_emitted st1 @ [m]\<rparr>))"

definition count_read :: "dlt_stream \<Rightarrow> dlt_stream" where
  "count_read st = st\<lparr>ds_reads := Suc (ds_reads st)\<rparr>"

lemma ReadStream_progress: "ReadDLTMessageStream s t = Inr (m, r) \<Longrightarrow> length r < length s"
  by (auto simp: ReadDLTMessageStream_def bind_err_Inr dest!: readStandard_progress)

function readUntilClosed :: "externals \<Rightarrow> dlt_filter \<Rightarrow> (nat \<Rightarrow> time) \<Rightarrow> bytes \<Rightarrow> dlt_stream \<Rightarrow> dlt_stream" where
  "readUntilClosed x f now s st = (case ReadDLTMessageStream s (now (ds_reads st)) of
       Inl _ \<Rightarrow> count_read st
     | Inr (fr, r) \<Rightarrow> readUntilClosed x f now r (stream_frame x f fr (count_read st)))"
  by auto
termination by (relation "measure (\<lambda>(x, f, now, s, st). length s)") (auto dest: ReadStream_progress)

declare readUntilClosed.simps [simp del]

text \<open>Reconnecting: what happens to one connection attempt, and the delays waited. The loop runs until it is
  cancelled; a run is the list of its attempts.\<close>

definition backoffMax :: duration where "backoffMax = sec 30"

definition next_backoff :: "duration \<Rightarrow> duration" where
  "next_backoff b = (if backoffMax < b * 2 then backoffMax else b * 2)"

datatype dlt_attempt = ConnectFailed | Connected bytes

fun dlt_connections ::
  "externals \<Rightarrow> dlt_filter \<Rightarrow> (nat \<Rightarrow> time) \<Rightarrow> duration \<Rightarrow> dlt_attempt list \<Rightarrow> dlt_stream \<Rightarrow> duration list \<times> dlt_stream" where
  "dlt_connections x f now b [] st = ([], st)"
| "dlt_connections x f now b (ConnectFailed # as) st =
     (case dlt_connections x f now (next_backoff b) as st of (ws, st') \<Rightarrow> (b # ws, st'))"
| "dlt_connections x f now b (Connected s # as) st =
     dlt_connections x f now (sec 1) as (readUntilClosed x f now s st)"

definition DLTRun :: "externals \<Rightarrow> dlt_filter \<Rightarrow> (nat \<Rightarrow> time) \<Rightarrow> dlt_attempt list \<Rightarrow> duration list \<times> dlt_stream" where
  "DLTRun x f now as =
     dlt_connections x f now (sec 1) as \<lparr>ds_reads = 0, ds_seq = 0, ds_emitted = [], ds_truncated = 0\<rparr>"

section \<open>Dialling the TCP log server\<close>

text \<open>What the network and the caller do at each attempt: is the context cancelled before it, what does the
  dial give, is the context cancelled during the wait after it. The result: the connection or the last
  error, and the delays.\<close>

record 'c dial_env =
  de_cancelled :: "nat \<Rightarrow> bool"
  de_dial :: "nat \<Rightarrow> string + 'c"
  de_interrupted :: "nat \<Rightarrow> bool"

definition ctx_error :: string where "ctx_error = ''context canceled''"

definition maxRetries :: nat where "maxRetries = 3"

fun dial_attempts :: "nat \<Rightarrow> 'c dial_env \<Rightarrow> nat \<Rightarrow> duration \<Rightarrow> string \<Rightarrow> (string + 'c) \<times> duration list" where
  "dial_attempts 0 env attempt backoff lastErr = (Inl lastErr, [])"
| "dial_attempts (Suc n) env attempt backoff lastErr =
     (if de_cancelled env attempt then (Inl ctx_error, [])
      else (case de_dial env attempt of
          Inr conn \<Rightarrow> (Inr conn, [])
        | Inl err \<Rightarrow>
            if de_interrupted env attempt then (Inl ctx_error, [])
            else (case dial_attempts n env (Suc attempt) (backoff * 2) err of (r, ws) \<Rightarrow> (r, backoff # ws))))"

definition dialWithRetry :: "'c dial_env \<Rightarrow> (string + 'c) \<times> duration list" where
  "dialWithRetry env = dial_attempts maxRetries env 0 (sec 1) []"

section \<open>Lemmas: lines\<close>

lemma readNewLines_append:
  "readNewLines p (a @ b) = (case readNewLines p a of (ls, q) \<Rightarrow> (case readNewLines q b of (ls', r) \<Rightarrow> (ls @ ls', r)))"
proof (induction p a rule: readNewLines.induct)
  case (1 p a)
  show ?case
  proof (cases "split_once newline a")
    case None
    then show ?thesis
      by (subst readNewLines.simps, subst (2) readNewLines.simps, subst (2) readNewLines.simps)
        (auto simp: split_once_app split: option.splits prod.splits)
  next
    case (Some uv)
    then show ?thesis using 1 by (subst readNewLines.simps, subst (2) readNewLines.simps)
        (auto simp: split_once_app split: prod.splits)
  qed
qed

lemma readNewLines_Nil [simp]: "readNewLines p [] = ([], p)"
  by (subst readNewLines.simps) simp

lemma tail_lines_concat: "tail_lines p ds = readNewLines p (concat ds)"
  by (induction ds arbitrary: p) (simp_all add: readNewLines_append)

lemma readNewLines_split:
  "readNewLines p s = (case split_char newline s of
      a # ls \<Rightarrow> (map (\<lambda>l. l @ [newline]) (butlast ((p @ a) # ls)), last ((p @ a) # ls)))"
proof (induction p s rule: readNewLines.induct)
  case (1 p s)
  show ?case
  proof (cases "split_once newline s")
    case None
    then show ?thesis by (subst readNewLines.simps) (simp add: split_char_once)
  next
    case (Some ab)
    obtain a b where ab: "ab = (a, b)" by (cases ab)
    obtain c ls where "split_char newline b = c # ls" by (cases "split_char newline b") auto
    then show ?thesis using 1 [OF Some ab [symmetric]] Some ab
      by (subst readNewLines.simps) (simp add: split_char_once [of newline s])
  qed
qed

section \<open>Lemmas: filters\<close>

text \<open>What a parsed rule looks like.\<close>

definition rule_ok :: "dlt_rule \<Rightarrow> bool" where
  "rule_ok r \<longleftrightarrow> dr_apid r \<noteq> [] \<and> trim_space (dr_apid r) = dr_apid r \<and> trim_space (dr_ctid r) = dr_ctid r
     \<and> CHR '':'' \<notin> set (dr_apid r) \<and> CHR '','' \<notin> set (dr_apid r) \<and> CHR '','' \<notin> set (dr_ctid r)
     \<and> length (dr_apid r) \<le> 4 \<and> length (dr_ctid r) \<le> 4"

lemma parse_rule_ok:
  assumes "parse_rule p = Inr r" and "trim_space p = p" and "CHR '','' \<notin> set p"
  shows "rule_ok r"
proof (cases "split_once (CHR '':'') p")
  case None
  then have "CHR '':'' \<notin> set p" by (simp add: split_once_None)
  then show ?thesis using assms None by (auto simp: parse_rule_def Let_def rule_ok_def trim_space_def trim_by_def
        trim_left_by_def trim_right_by_def split: if_splits)
next
  case (Some ac)
  obtain a c where ac: "ac = (a, c)" by (cases ac)
  have "p = a @ CHR '':'' # c" "CHR '':'' \<notin> set a" using split_once_parts Some ac by blast+
  then have "CHR '':'' \<notin> set (trim_space a)" "CHR '','' \<notin> set (trim_space a)" "CHR '','' \<notin> set (trim_space c)"
    using assms(3) by (auto dest: trim_sub [rotated] intro: trim_sub)
  then show ?thesis using assms(1) Some ac by (auto simp: parse_rule_def Let_def rule_ok_def trim_space_def split: if_splits)
qed

lemma rule_string_ok:
  assumes "rule_ok r"
  shows "rule_string r \<noteq> []" "trim_space (rule_string r) = rule_string r" "CHR '','' \<notin> set (rule_string r)"
    "parse_rule (rule_string r) = Inr r"
proof -
  note r = assms [unfolded rule_ok_def]
  show "rule_string r \<noteq> []" "CHR '','' \<notin> set (rule_string r)" using r by (auto simp: rule_string_def)
  have t: "s = [] \<or> (\<not> is_space (hd s) \<and> \<not> is_space (last s))" if "trim_space s = s" for s
    using trim_by_trimmed [of is_space s] that by (simp add: trim_space_def)
  show "trim_space (rule_string r) = rule_string r"
    using r t [of "dr_apid r"] t [of "dr_ctid r"] unfolding trim_space_def
    by (intro trim_by_id) (auto simp: rule_string_def)
  show "parse_rule (rule_string r) = Inr r"
    using r by (auto simp: parse_rule_def rule_string_def Let_def split_once_append split_once_None [THEN iffD2])
qed

lemma parse_rules_ok:
  "parse_rules ps = Inr f \<Longrightarrow> \<forall>p \<in> set ps. CHR '','' \<notin> set p \<Longrightarrow> list_all rule_ok f"
proof (induction ps arbitrary: f)
  case (Cons p ps)
  then show ?case
    using parse_rule_ok [of "trim_space p"] trim_sub [of "CHR '',''" p]
    by (auto simp: trim_space_def split: if_splits sum.splits)
qed simp

lemma parse_rule_strings: "list_all rule_ok f \<Longrightarrow> parse_rules (map rule_string f) = Inr f"
  by (induction f) (auto simp: rule_string_ok)

lemma split_char_rules:
  assumes "list_all rule_ok f" and "f \<noteq> []"
  shows "split_char (CHR '','') (filter_string f) = map rule_string f"
  unfolding filter_string_def using assms
  by (intro split_char_join) (auto simp: list_all_iff dest: rule_string_ok(3))

lemma filter_string_trimmed:
  assumes "list_all rule_ok f" and "f \<noteq> []"
  shows "trim_space (filter_string f) = filter_string f \<and> filter_string f \<noteq> []"
proof -
  have r: "\<not> is_space (hd (rule_string r)) \<and> \<not> is_space (last (rule_string r)) \<and> rule_string r \<noteq> []" if "r \<in> set f" for r
    using assms(1) that rule_string_ok(1,2) [of r] trim_by_trimmed [of is_space "rule_string r"]
    by (auto simp: list_all_iff trim_space_def)
  then have "hd (filter_string f) = hd (rule_string (hd f)) \<and> last (filter_string f) = last (rule_string (last f))
      \<and> filter_string f \<noteq> []"
    using join_hd_last [of "map rule_string f" "'',''"] assms(2) by (auto simp: filter_string_def hd_map last_map)
  then show ?thesis using r [of "hd f"] r [of "last f"] assms(2) unfolding trim_space_def
    by (intro conjI trim_by_id) auto
qed

section \<open>Lemmas: the peer\<close>

lemma fill_peer_error [simp]: "m_error (fill_peer d p m) = m_error m"
  by (simp add: fill_peer_def)

lemma no_error: "m_error m = [] \<Longrightarrow> m\<lparr>m_error := []\<rparr> = m"
  by (cases m) simp

lemma fill_peer_clear: "(fill_peer d p m)\<lparr>m_error := e\<rparr> = fill_peer d p (m\<lparr>m_error := e\<rparr>)"
  unfolding fill_peer_def by (cases m) simp

section \<open>Properties\<close>

text \<open>C14: a followed log file gives the same messages however its growth is cut into polls: those of the
  complete lines of everything that has arrived, the last incomplete line being kept.\<close>

theorem tail_chunking:
  "tail_lines [] polls =
     (map (\<lambda>l. l @ [newline]) (butlast (split_char newline (concat polls))), last (split_char newline (concat polls)))
   \<and> LogTailRun x day polls = List.map_filter (processLine x day) (butlast (split_char newline (concat polls)))"
proof -
  have t: "tail_lines [] polls =
     (map (\<lambda>l. l @ [newline]) (butlast (split_char newline (concat polls))), last (split_char newline (concat polls)))"
    unfolding tail_lines_concat by (subst readNewLines_split) (simp split: list.splits)
  have "processLine x day (l @ [newline]) = processLine x day l" for l
    by (simp add: processLine_def trimRight_def trim_right_by_def tail_space_def newline_def)
  then have "List.map_filter (processLine x day) (map (\<lambda>l. l @ [newline]) ls) = List.map_filter (processLine x day) ls" for ls
    by (induction ls) (simp_all add: List.map_filter_simps split: option.splits)
  then show ?thesis using t by (simp add: LogTailRun_def)
qed

text \<open>C15: a live source and an import make the same message of an entry, except where no SPINE datagram
  comes out of it: then an unparsable payload is of unknown type with another error text, and
  a data message whose datagram is malformed carries no error at all in the live trace.\<close>

theorem live_vs_import:
  assumes "dir = DirectionOutgoing \<or> dir = DirectionIncoming"
  shows "log_message x j n ts dir peer =
    (let b = BuildMessageFromJSON x j n ts dir peer in
     if m_error b = [] then b
     else (case ParseShipFromJSON x j of
         Inl e \<Rightarrow> b\<lparr>m_type := ShipMsgTypeUnknown, m_error := ''could not parse message: '' @ e\<rparr>
       | Inr _ \<Rightarrow> b\<lparr>m_error := []\<rparr>))"
proof -
  have d: "DirectionIncoming \<noteq> DirectionOutgoing" by (simp add: directions)
  have e: "spine_log_error \<noteq> []" "m_error empty_message = []" by (simp_all add: spine_log_error_def empty_message_def)
  show ?thesis
  proof (cases "ParseSpineFromJSON x j")
    case (Some r)
    then show ?thesis by (simp add: log_message_def BuildMessageFromJSON_def Let_def FillFromSpine_def fill_peer_error e)
  next
    case None
    note spine = None
    show ?thesis
    proof (cases "ParseShipFromJSON x j")
      case (Inl err)
      have u: "m_dev_src empty_message = []" "m_dev_dst empty_message = []" by (simp_all add: empty_message_def)
      show ?thesis using assms d
        by (elim disjE) (simp_all add: log_message_def BuildMessageFromJSON_def Let_def spine Inl fill_peer_def e u)
    next
      case (Inr sr)
      show ?thesis
      proof (cases "sp_spine sr")
        case None
        then show ?thesis
          by (cases "sp_type sr = ShipMsgTypeData")
            (simp_all add: log_message_def BuildMessageFromJSON_def Let_def spine Inr fill_peer_clear no_error e)
      next
        case (Some r)
        then show ?thesis
          by (simp add: log_message_def BuildMessageFromJSON_def Let_def spine Inr FillFromSpine_def fill_peer_error e)
      qed
    qed
  qed
qed

theorem live_vs_import_witness:
  "m_type (log_message test_externals ''x'' 1 0 DirectionOutgoing ''p'') = ShipMsgTypeUnknown
   \<and> m_type (BuildMessageFromJSON test_externals ''x'' 1 0 DirectionOutgoing ''p'') = ShipMsgTypeData"
proof -
  let ?b = "BuildMessageFromJSON test_externals ''x'' 1 0 DirectionOutgoing ''p''"
  have e: "m_error ?b \<noteq> []" by code_simp
  have t: "m_type ?b = ShipMsgTypeData" by code_simp
  have "ParseShipFromJSON test_externals ''x'' = Inl ''unmarshal SHIP message: syntax''" by code_simp
  then show ?thesis using e t live_vs_import [of DirectionOutgoing test_externals "''x''" 1 0 "''p''"] by (simp add: Let_def)
qed

text \<open>A filter written back is read as the same filter, whatever the user typed it from.\<close>

theorem filter_roundtrip:
  assumes "ParseDLTFilter s = Inr f"
  shows "ParseDLTFilter (filter_string f) = Inr f
    \<and> (\<forall>r \<in> set f. dr_apid r \<noteq> [] \<and> length (dr_apid r) \<le> 4 \<and> length (dr_ctid r) \<le> 4)"
proof (cases "f = []")
  case True
  then show ?thesis by (simp add: filter_string_def ParseDLTFilter_def trim_space_def trim_by_def trim_left_by_def trim_right_by_def)
next
  case False
  then have "parse_rules (split_char (CHR '','') (trim_space s)) = Inr f"
    using assms by (auto simp: ParseDLTFilter_def split: if_splits)
  then have ok: "list_all rule_ok f" by (rule parse_rules_ok) (auto dest: split_char_parts)
  have "ParseDLTFilter (filter_string f) = Inr f"
    using filter_string_trimmed [OF ok False]
    by (simp add: ParseDLTFilter_def split_char_rules [OF ok False] parse_rule_strings [OF ok])
  then show ?thesis using ok by (auto simp: list_all_iff rule_ok_def)
qed

theorem filter_roundtrip_witness:
  "ParseDLTFilter '' CEM , HEMS: X,,'' = Inr [\<lparr>dr_apid = ''CEM'', dr_ctid = []\<rparr>, \<lparr>dr_apid = ''HEMS'', dr_ctid = ''X''\<rparr>]
   \<and> ParseDLTFilter ''CEM,HEMS:X'' = Inr [\<lparr>dr_apid = ''CEM'', dr_ctid = []\<rparr>, \<lparr>dr_apid = ''HEMS'', dr_ctid = ''X''\<rparr>]"
proof -
  let ?f = "[\<lparr>dr_apid = ''CEM'', dr_ctid = []\<rparr>, \<lparr>dr_apid = ''HEMS'', dr_ctid = ''X''\<rparr>]"
  have p: "ParseDLTFilter '' CEM , HEMS: X,,'' = Inr ?f" by code_simp
  have "filter_string ?f = ''CEM,HEMS:X''" by (simp add: filter_string_def rule_string_def)
  then show ?thesis using p filter_roundtrip [OF p] by simp
qed

text \<open>A read in which no whole timestamp has arrived is forgotten: nothing is emitted and nothing is
  kept for the next read, so the entry whose timestamp is cut by two reads is lost.\<close>

theorem cut_timestamp_lost:
  assumes "rx_search timestampFinder d = None"
  shows "tcp_entries at_end [] (d # ds) = tcp_entries at_end [] ds"
proof -
  have "\<not> rx_prefix msgHeaderRegex t" if no: "\<not> rx_prefix timestampFinder t" for t
  proof
    assume "rx_prefix msgHeaderRegex t"
    then obtain u v where uv: "t = u @ v" "rx_lang msgHeaderRegex u" by (auto simp: rx_prefix_iff)
    let ?ts = "[Str ''['', Grp 2 hms_ms_rx, Str '']'']"
    let ?qs = "[sp, Grp 3 (Alt (Str ''SEND'') (Str ''RECV'')), sp, Alt (Str ''to'') (Str ''from''), sp,
      Grp 4 word_rx, sp, Str ''MSG:'', sp]"
    have "\<exists>a b. u = a @ b \<and> rx_lang (cats ?ts) a"
      using uv(2) unfolding msgHeaderRegex_def by (intro lang_cats_prefix [of ?ts ?qs]) (simp only: append_Cons append_Nil)
    then obtain a b where ab: "u = a @ b" "rx_lang timestampFinder a" by (auto simp: timestampFinder_def)
    have "t = a @ (b @ v)" using uv ab by simp
    then show False using no ab(2) unfolding rx_prefix_iff by blast
  qed
  then have "rx_search msgHeaderRegex d = None" using assms by (simp add: rx_search_None)
  then have "rx_all (length d) msgHeaderRegex 0 d = []" by (cases "length d") simp_all
  then have "extractMessages d = ([], [])" using assms by (simp add: extractMessages_def from_timestamp_def)
  then show ?thesis by simp
qed

theorem cut_timestamp_lost_witness:
  "length (tcp_entries True [] [''[11:38'' @ '':26.008] SEND to p MSG: {}'']) = 1
   \<and> tcp_entries True [] [''[11:38'', '':26.008] SEND to p MSG: {}''] = []"
proof -
  have "rx_search timestampFinder ''[11:38'' = None" by code_simp
  from cut_timestamp_lost [OF this, of True "['':26.008] SEND to p MSG: {}'']"]
  have "tcp_entries True [] [''[11:38'', '':26.008] SEND to p MSG: {}''] = tcp_entries True [] ['':26.008] SEND to p MSG: {}'']"
    by simp
  also have "\<dots> = []" by code_simp
  finally have "tcp_entries True [] [''[11:38'', '':26.008] SEND to p MSG: {}''] = []" .
  moreover have "length (tcp_entries True [] [''[11:38:26.008] SEND to p MSG: {}'']) = 1" by code_simp
  ultimately show ?thesis by simp
qed

section \<open>Reconnecting\<close>

definition stream_ok :: "dlt_stream \<Rightarrow> bool" where
  "stream_ok st \<longleftrightarrow> (\<forall>m \<in> set (ds_emitted st). m_seq m \<le> ds_seq st) \<and> sorted_wrt (<) (map m_seq (ds_emitted st))
     \<and> int (length (ds_emitted st) + ds_truncated st) \<le> ds_seq st"

lemma stream_frame_ok: "stream_ok st \<Longrightarrow> stream_ok (stream_frame x f fr st)"
proof -
  assume ok: "stream_ok st"
  have "m_seq m = n" if "DLTFrameToMessage x fr n = FrameMessage m" for n m
    using that by (auto simp: DLTFrameToMessage_def Let_def split: if_splits option.splits dlt_extract.splits)
  then show ?thesis using ok
    by (fastforce simp: stream_ok_def stream_frame_def Let_def sorted_wrt_append split: frame_result.splits)
qed

lemma count_read_ok: "stream_ok (count_read st) \<longleftrightarrow> stream_ok st"
  by (simp add: stream_ok_def count_read_def)

lemma readUntilClosed_ok: "stream_ok st \<Longrightarrow> stream_ok (readUntilClosed x f now s st)"
proof (induction x f now s st rule: readUntilClosed.induct)
  case (1 x f now s st)
  then show ?case
    by (subst readUntilClosed.simps) (auto simp: stream_frame_ok count_read_ok split: sum.splits)
qed

lemma dlt_connections_ok: "stream_ok st \<Longrightarrow> stream_ok (snd (dlt_connections x f now b as st))"
  by (induction x f now b as st rule: dlt_connections.induct) (auto simp: readUntilClosed_ok split: prod.splits)

lemma next_backoff_bounds: "sec 1 \<le> b \<and> b \<le> backoffMax \<Longrightarrow> sec 1 \<le> next_backoff b \<and> next_backoff b \<le> backoffMax"
  by (auto simp: next_backoff_def backoffMax_def sec_def)

lemma dlt_connections_waits:
  assumes "sec 1 \<le> b \<and> b \<le> backoffMax"
  shows "list_all (\<lambda>w. sec 1 \<le> w \<and> w \<le> backoffMax) (fst (dlt_connections x f now b as st))
    \<and> length (fst (dlt_connections x f now b as st)) = length (filter (\<lambda>a. a = ConnectFailed) as)"
  using assms
proof (induction x f now b as st rule: dlt_connections.induct)
  case (2 x f now b as st)
  then show ?case using next_backoff_bounds [of b] by (auto split: prod.splits)
next
  case (3 x f now b s as st)
  then show ?case by (simp add: backoffMax_def sec_def)
qed simp

lemma dlt_connections_stream:
  "snd (dlt_connections x f now b as st) = snd (dlt_connections x f now c (filter (\<lambda>a. a \<noteq> ConnectFailed) as) st)"
  by (induction x f now b as st arbitrary: c rule: dlt_connections.induct) (auto split: prod.splits)

text \<open>C16: however often the DLT source loses its connection, it waits between one and thirty seconds after
  each failed attempt, and what it emits does not depend on those failures: the sequence numbers go on
  increasing across connections and account for every emitted and every truncated frame.\<close>

theorem reconnecting:
  "case DLTRun x f now as of (waits, st) \<Rightarrow>
     list_all (\<lambda>w. sec 1 \<le> w \<and> w \<le> sec 30) waits
   \<and> length waits = length (filter (\<lambda>a. a = ConnectFailed) as)
   \<and> st = snd (DLTRun x f now (filter (\<lambda>a. a \<noteq> ConnectFailed) as))
   \<and> sorted_wrt (<) (map m_seq (ds_emitted st))
   \<and> int (length (ds_emitted st) + ds_truncated st) \<le> ds_seq st"
proof -
  let ?s0 = "\<lparr>ds_reads = 0, ds_seq = 0, ds_emitted = [], ds_truncated = 0\<rparr> :: dlt_stream"
  have "sec 1 \<le> sec 1 \<and> sec 1 \<le> backoffMax" by (simp add: backoffMax_def sec_def)
  from dlt_connections_waits [OF this, of x f now as ?s0] dlt_connections_ok [of ?s0 x f now "sec 1" as]
  show ?thesis using dlt_connections_stream [of x f now "sec 1" as ?s0 "sec 1"]
    by (auto simp: DLTRun_def stream_ok_def backoffMax_def split: prod.splits)
qed

text \<open>The three attempts of the TCP source; the last failure is followed by a delay of four seconds, too.\<close>

lemma dialWithRetry_refused:
  assumes "\<And>n. \<not> de_cancelled env n" and "\<And>n. \<not> de_interrupted env n" and "\<And>n. de_dial env n = Inl (err n)"
  shows "dialWithRetry env = (Inl (err 2), [sec 1, sec 2, sec 4])"
  using assms by (simp add: dialWithRetry_def maxRetries_def numeral_eq_Suc sec_def)

lemma dialWithRetry_waits:
  "fst (dialWithRetry env) = Inr conn \<Longrightarrow> length (snd (dialWithRetry env)) < 3"
  by (auto simp: dialWithRetry_def maxRetries_def numeral_eq_Suc split: if_splits sum.splits)

end
