(* ===== verification/Capture.thy ===== *)
theory Capture
  imports Store Sources
begin

text \<open>
  \<open>internal/capture/capture.go\<close>, \<open>stats.go\<close> and the start and stop handlers of
  \<open>api/capture_handler.go\<close>: the capture engine with its database. A source runs in a goroutine of its
  own (record \<open>run\<close>) until it ends by itself or sees that its context is cancelled. The callback of a
  source is two steps, because the engine's mutex is held only while a number is taken: between
  \<open>receive\<close> and \<open>deliver\<close> the message is in flight and any other step may happen. A start or a stop request is one step when nothing
  disturbs it, and is also taken apart where nothing is locked: a start creates its trace and then asks the engine, a stop reads the
  engine, stops it and then writes the trace. Uploads (of files whose messages have increasing numbers; the trace and its messages in one step), renaming and
  deletions of traces work on the same database, and each statement may get a connection of the pool with or without foreign keys.
\<close>

section \<open>State\<close>

record capture_stats =
  cs_received :: int
  cs_parsed :: int
  cs_errors :: int
  cs_bytes :: int
  cs_truncated :: int

definition no_stats :: capture_stats where
  "no_stats = \<lparr>cs_received = 0, cs_parsed = 0, cs_errors = 0, cs_bytes = 0, cs_truncated = 0\<rparr>"

record run =
  run_id :: nat
  run_cancelled :: bool

record in_flight =
  fl_run :: nat
  fl_trace :: int
  fl_seq :: int
  fl_time :: time
  fl_msg :: message

text \<open>\<open>ce_cancel\<close> is the run that \<open>e.cancel\<close> cancels; \<open>ce_notified\<close> are the messages the callbacks
  have been given. The requests under way: \<open>ce_created\<close> are the traces of the starts that have not asked the engine yet,
  \<open>ce_halting\<close> and \<open>ce_writing\<close> what the stops have read (trace, messages, truncated frames) that have not stopped the engine, and that have not written the trace.\<close>

type_synonym stop_request = "int \<times> int \<times> int"

record capture =
  ce_capturing :: bool
  ce_cancel :: nat
  ce_target :: string
  ce_source :: string
  ce_trace :: int
  ce_seq :: int
  ce_stats :: capture_stats
  ce_runs :: "run list"
  ce_next_run :: nat
  ce_pending :: "in_flight list"
  ce_notified :: "message list"
  ce_db :: store
  ce_created :: "int list"
  ce_halting :: "stop_request list"
  ce_writing :: "stop_request list"

definition NewEngine :: "store \<Rightarrow> capture" where
  "NewEngine db = \<lparr>ce_capturing = False, ce_cancel = 0, ce_target = [], ce_source = [], ce_trace = 0, ce_seq = 0,
     ce_stats = no_stats, ce_runs = [], ce_next_run = 0, ce_pending = [], ce_notified = [], ce_db = db,
     ce_created = [], ce_halting = [], ce_writing = []\<rparr>"

section \<open>Operations of the engine\<close>

definition StartWithSource :: "int \<Rightarrow> string \<Rightarrow> string \<Rightarrow> capture \<Rightarrow> string + capture" where
  "StartWithSource traceID source target c =
     (if ce_capturing c then Inl ''capture already in progress''
      else Inr (c\<lparr>ce_cancel := ce_next_run c, ce_target := target, ce_source := source, ce_capturing := True,
                  ce_trace := traceID, ce_seq := 0, ce_stats := no_stats,
                  ce_runs := ce_runs c @ [\<lparr>run_id = ce_next_run c, run_cancelled = False\<rparr>],
                  ce_next_run := Suc (ce_next_run c)\<rparr>))"

definition Stop :: "capture \<Rightarrow> capture" where
  "Stop c =
     (if \<not> ce_capturing c then c
      else c\<lparr>ce_capturing := False,
             ce_runs := map (\<lambda>r. if run_id r = ce_cancel c then r\<lparr>run_cancelled := True\<rparr> else r) (ce_runs c)\<rparr>)"

definition IncTruncated :: "capture \<Rightarrow> capture" where
  "IncTruncated c = c\<lparr>ce_stats := (ce_stats c)\<lparr>cs_truncated := cs_truncated (ce_stats c) + 1\<rparr>\<rparr>"

text \<open>The callback of \<open>runSource\<close>, up to the second unlock.\<close>

definition receive :: "time \<Rightarrow> nat \<Rightarrow> message \<Rightarrow> capture \<Rightarrow> capture" where
  "receive now r msg c =
     (let st = ce_stats c;
          st1 = st\<lparr>cs_received := cs_received st + 1\<rparr>;
          st2 = (if m_raw msg \<noteq> [] then st1\<lparr>cs_bytes := cs_bytes st1 + int (length (m_raw msg))\<rparr> else st1)
      in c\<lparr>ce_stats := st2, ce_seq := ce_seq c + 1,
           ce_pending := ce_pending c @ [\<lparr>fl_run = r, fl_trace = ce_trace c, fl_seq = ce_seq c + 1, fl_time = now, fl_msg = msg\<rparr>]\<rparr>)"

definition captured_message :: "externals \<Rightarrow> time \<Rightarrow> int \<Rightarrow> int \<Rightarrow> message \<Rightarrow> message" where
  "captured_message x now traceID seqNum msg =
     (if m_raw msg \<noteq> [] \<and> m_type msg = []
      then (Parse x (m_raw msg) traceID seqNum now)\<lparr>m_src_addr := m_src_addr msg, m_dir := m_dir msg\<rparr>
      else (let m1 = msg\<lparr>m_trace := traceID, m_seq := seqNum\<rparr>;
                m2 = (if m_time m1 = zero_time then m1\<lparr>m_time := now\<rparr> else m1)
            in if m_raw_hex m2 = [] \<and> m_raw m2 \<noteq> [] then m2\<lparr>m_raw_hex := hex_encode (m_raw m2)\<rparr> else m2))"

text \<open>The rest of the callback. A failing insert is only logged; the callbacks are called anyway.\<close>

definition deliver :: "externals \<Rightarrow> in_flight \<Rightarrow> capture \<Rightarrow> capture" where
  "deliver x p c =
     (let m = captured_message x (fl_time p) (fl_trace p) (fl_seq p) (fl_msg p);
          st = ce_stats c;
          st1 = st\<lparr>cs_parsed := cs_parsed st + 1\<rparr>;
          st2 = (if m_error m \<noteq> [] then st1\<lparr>cs_errors := cs_errors st1 + 1\<rparr> else st1);
          (m', db) = (case InsertMessage m (ce_db c) of Some r \<Rightarrow> r | None \<Rightarrow> (m, ce_db c))
      in c\<lparr>ce_stats := st2, ce_pending := remove1 p (ce_pending c), ce_db := db, ce_notified := ce_notified c @ [m']\<rparr>)"

text \<open>The end of \<open>runSource\<close>.\<close>

definition source_ended :: "nat \<Rightarrow> capture \<Rightarrow> capture" where
  "source_ended r c = c\<lparr>ce_runs := filter (\<lambda>q. run_id q \<noteq> r) (ce_runs c), ce_capturing := False\<rparr>"

section \<open>Handlers\<close>

text \<open>The common part of the four start handlers, once the request is checked: a trace and its source.\<close>

definition handleCaptureStart :: "trace \<Rightarrow> string \<Rightarrow> string \<Rightarrow> capture \<Rightarrow> string + capture" where
  "handleCaptureStart t source target c =
     (if ce_capturing c then Inl ''capture already in progress''
      else (case CreateTrace t (ce_db c) of
          (t', db) \<Rightarrow> StartWithSource (t_id t') source target (c\<lparr>ce_db := db\<rparr>)))"

definition handleCaptureStop :: "time \<Rightarrow> capture \<Rightarrow> string + capture" where
  "handleCaptureStop now c =
     (if \<not> ce_capturing c then Inl ''no capture in progress''
      else (let c' = Stop c in
        Inr (c'\<lparr>ce_db := StopTrace (ce_trace c) now (cs_parsed (ce_stats c)) (cs_truncated (ce_stats c)) (ce_db c')\<rparr>)))"

section \<open>Requests taken apart\<close>

definition request_start :: "trace \<Rightarrow> capture \<Rightarrow> capture" where
  "request_start t c = (case CreateTrace t (ce_db c) of (t', db) \<Rightarrow> c\<lparr>ce_db := db, ce_created := t_id t' # ce_created c\<rparr>)"

definition start_created :: "int \<Rightarrow> string \<Rightarrow> string \<Rightarrow> capture \<Rightarrow> capture" where
  "start_created i source target c =
     (let c0 = c\<lparr>ce_created := remove1 i (ce_created c)\<rparr>
      in case StartWithSource i source target c0 of Inl _ \<Rightarrow> c0 | Inr c' \<Rightarrow> c')"

definition request_stop :: "capture \<Rightarrow> capture" where
  "request_stop c = c\<lparr>ce_halting := (ce_trace c, cs_parsed (ce_stats c), cs_truncated (ce_stats c)) # ce_halting c\<rparr>"

definition stop_requested :: "stop_request \<Rightarrow> capture \<Rightarrow> capture" where
  "stop_requested q c = Stop (c\<lparr>ce_halting := remove1 q (ce_halting c), ce_writing := q # ce_writing c\<rparr>)"

definition write_stopped :: "time \<Rightarrow> stop_request \<Rightarrow> capture \<Rightarrow> capture" where
  "write_stopped now q c = (case q of (i, n, k) \<Rightarrow> c\<lparr>ce_db := StopTrace i now n k (ce_db c), ce_writing := remove1 q (ce_writing c)\<rparr>)"

text \<open>An upload: the trace and its messages.\<close>

definition upload :: "trace \<Rightarrow> message list \<Rightarrow> store \<Rightarrow> store option" where
  "upload t l s = (case CreateTrace t s of
       (t', s1) \<Rightarrow> map_option snd (InsertMessages (map (\<lambda>m. m\<lparr>m_trace := t_id t'\<rparr>) l) s1))"

section \<open>Steps\<close>

text \<open>A goroutine has at most one message in flight. A cancelled source may emit what it has read already.\<close>

definition idle_run :: "nat \<Rightarrow> capture \<Rightarrow> bool" where
  "idle_run r c \<longleftrightarrow> r \<in> set (map run_id (ce_runs c)) \<and> r \<notin> set (map fl_run (ce_pending c))"

inductive capture_step :: "externals \<Rightarrow> capture \<Rightarrow> capture \<Rightarrow> bool" for x :: externals where
  start: "handleCaptureStart t source target c = Inr c' \<Longrightarrow> capture_step x c c'"
| stop: "handleCaptureStop now c = Inr c' \<Longrightarrow> capture_step x c c'"
| receive: "idle_run r c \<Longrightarrow> capture_step x c (receive now r msg c)"
| deliver: "p \<in> set (ce_pending c) \<Longrightarrow> capture_step x c (deliver x p c)"
| truncated: "idle_run r c \<Longrightarrow> capture_step x c (IncTruncated c)"
| ended: "idle_run r c \<Longrightarrow> capture_step x c (source_ended r c)"
| deleted: "capture_step x c (c\<lparr>ce_db := DeleteTrace i (ce_db c)\<rparr>)"
| requested: "capture_step x c (request_start t c)"
| created: "i \<in> set (ce_created c) \<Longrightarrow> capture_step x c (start_created i source target c)"
| stopping: "ce_capturing c \<Longrightarrow> capture_step x c (request_stop c)"
| halted: "q \<in> set (ce_halting c) \<Longrightarrow> capture_step x c (stop_requested q c)"
| written: "q \<in> set (ce_writing c) \<Longrightarrow> capture_step x c (write_stopped now q c)"
| uploaded: "sorted_wrt (<) (map m_seq l) \<Longrightarrow> upload t l (ce_db c) = Some db \<Longrightarrow> capture_step x c (c\<lparr>ce_db := db\<rparr>)"
| renamed: "capture_step x c (c\<lparr>ce_db := UpdateTrace t (ce_db c)\<rparr>)"
| connection: "capture_step x c (c\<lparr>ce_db := on_connection fk (ce_db c)\<rparr>)"

inductive capture_reachable :: "externals \<Rightarrow> capture \<Rightarrow> bool" for x :: externals where
  init: "capture_reachable x (NewEngine (migrated (built_in_charts now)))"
| step: "capture_reachable x c \<Longrightarrow> capture_step x c c' \<Longrightarrow> capture_reachable x c'"

section \<open>Lemmas: numbering\<close>

lemma set_spine_ids [simp]:
  "m_trace (set_spine r m) = m_trace m" "m_seq (set_spine r m) = m_seq m"
  by (simp_all add: set_spine_def)

lemma captured_message_ids [simp]:
  "m_trace (captured_message x now i n msg) = i" "m_seq (captured_message x now i n msg) = n"
  by (simp_all add: captured_message_def Parse_def Let_def split: sum.splits)

definition msg_key :: "message \<Rightarrow> int \<times> int" where "msg_key m = (m_trace m, m_seq m)"
definition fl_key :: "in_flight \<Rightarrow> int \<times> int" where "fl_key p = (fl_trace p, fl_seq p)"

definition capture_keys :: "capture \<Rightarrow> (int \<times> int) list" where
  "capture_keys c = map msg_key (st_messages (ce_db c)) @ map fl_key (ce_pending c)"

text \<open>Keys are unique, and those of the current trace are the numbers given out so far; the traces of the starts under way
  are unused.\<close>

definition numbered_ok :: "capture \<Rightarrow> bool" where
  "numbered_ok c \<longleftrightarrow> distinct (capture_keys c)
     \<and> (\<forall>k \<in> set (capture_keys c). fst k < st_next_trace (ce_db c)
            \<and> (fst k = ce_trace c \<longrightarrow> 1 \<le> snd k \<and> snd k \<le> ce_seq c))
     \<and> ce_trace c < st_next_trace (ce_db c) \<and> 0 \<le> ce_seq c
     \<and> distinct (ce_created c)
     \<and> (\<forall>i \<in> set (ce_created c). i < st_next_trace (ce_db c) \<and> i \<noteq> ce_trace c \<and> i \<notin> fst ` set (capture_keys c))"

lemma keys_of_delivered:
  assumes "p \<in> set (ce_pending c)"
  shows "(\<exists>ks. mset (capture_keys (deliver x p c)) + ks = mset (capture_keys c))
    \<and> st_next_trace (ce_db (deliver x p c)) = st_next_trace (ce_db c)
    \<and> ce_trace (deliver x p c) = ce_trace c \<and> ce_seq (deliver x p c) = ce_seq c \<and> ce_created (deliver x p c) = ce_created c"
proof -
  let ?m = "captured_message x (fl_time p) (fl_trace p) (fl_seq p) (fl_msg p)"
  obtain a b where ab: "ce_pending c = a @ p # b" "p \<notin> set a" using assms by (meson split_list_first)
  then have p: "mset (map fl_key (ce_pending c)) = add_mset (fl_key p) (mset (map fl_key (remove1 p (ce_pending c))))"
    by (simp add: remove1_append)
  show ?thesis
  proof (cases "InsertMessage ?m (ce_db c)")
    case None
    then have "mset (capture_keys (deliver x p c)) + {#fl_key p#} = mset (capture_keys c)"
      using p by (simp add: capture_keys_def deliver_def Let_def)
    then have "\<exists>ks. mset (capture_keys (deliver x p c)) + ks = mset (capture_keys c)" by blast
    then show ?thesis by (intro conjI) (use None in \<open>simp_all add: deliver_def Let_def\<close>)
  next
    case (Some r)
    then have "mset (capture_keys (deliver x p c)) + {#} = mset (capture_keys c)"
      using p by (auto simp: capture_keys_def deliver_def Let_def InsertMessage_def msg_key_def fl_key_def split: if_splits)
    then have "\<exists>ks. mset (capture_keys (deliver x p c)) + ks = mset (capture_keys c)" by blast
    then show ?thesis
      by (intro conjI) (use Some in \<open>auto simp: deliver_def Let_def InsertMessage_def split: if_splits\<close>)
  qed
qed

lemma distinct_part: "mset xs + ks = mset ys \<Longrightarrow> distinct ys \<Longrightarrow> distinct xs"
proof -
  assume "mset xs + ks = mset ys" and "distinct ys"
  moreover obtain zs where "mset zs = ks" by (metis ex_mset)
  ultimately have "distinct (xs @ zs)" by (metis mset_append mset_eq_imp_distinct_iff)
  then show "distinct xs" by simp
qed

lemma numbered_less:
  assumes "numbered_ok c" and "mset (capture_keys c') + ks = mset (capture_keys c)"
    and "st_next_trace (ce_db c') = st_next_trace (ce_db c)" and "ce_trace c' = ce_trace c" and "ce_seq c' = ce_seq c"
    and "ce_created c' = ce_created c"
  shows "numbered_ok c'"
proof -
  have "distinct (capture_keys c')"
    using assms(1) distinct_part [OF assms(2)] by (simp add: numbered_ok_def)
  moreover have s: "set (capture_keys c') \<subseteq> set (capture_keys c)" using assms(2) by (metis mset_subset_eq_add_left set_mset_mono set_mset_mset)
  moreover have "fst ` set (capture_keys c') \<subseteq> fst ` set (capture_keys c)" using s by (rule image_mono)
  ultimately show ?thesis using assms(1) unfolding numbered_ok_def assms(3-) by (elim conjE, intro conjI) (assumption | blast)+
qed

text \<open>A step that leaves the keys alone, and one that begins a new trace or takes one that is unused.\<close>

lemma numbered_same:
  assumes "numbered_ok c" and "capture_keys c' = capture_keys c" and "st_next_trace (ce_db c') = st_next_trace (ce_db c)"
    and "ce_trace c' = ce_trace c" and "ce_seq c' = ce_seq c" and "ce_created c' = ce_created c"
  shows "numbered_ok c'"
  using assms by (simp add: numbered_ok_def)

lemma numbered_switch:
  assumes "numbered_ok c" and "capture_keys c' = capture_keys c" and "st_next_trace (ce_db c) \<le> st_next_trace (ce_db c')"
    and "ce_trace c' = i" and "ce_seq c' = 0" and "i < st_next_trace (ce_db c')" and "i \<notin> fst ` set (capture_keys c)"
    and "ce_created c' = remove1 i (ce_created c)"
  shows "numbered_ok c'"
proof -
  note n = assms(1) [unfolded numbered_ok_def]
  have below: "k < st_next_trace (ce_db c) \<Longrightarrow> k < st_next_trace (ce_db c')" for k using assms(3) by simp
  have "\<forall>k \<in> set (capture_keys c). fst k < st_next_trace (ce_db c') \<and> (fst k = i \<longrightarrow> 1 \<le> snd k \<and> snd k \<le> 0)"
    using n assms(7) below by blast
  moreover have "\<forall>j \<in> set (remove1 i (ce_created c)). j < st_next_trace (ce_db c') \<and> j \<noteq> i \<and> j \<notin> fst ` set (capture_keys c)"
    using n below by simp
  ultimately show ?thesis using n assms(6) unfolding numbered_ok_def assms(2,4,5,8) by simp
qed

lemma numbered_start:
  assumes "numbered_ok c" and "handleCaptureStart t source target c = Inr c'"
  shows "numbered_ok c'"
proof (rule numbered_switch [OF assms(1)])
  let ?i = "st_next_trace (ce_db c)"
  show "capture_keys c' = capture_keys c" "ce_trace c' = ?i" "ce_seq c' = 0" "?i < st_next_trace (ce_db c')" "?i \<le> st_next_trace (ce_db c')"
    using assms(2) by (auto simp: handleCaptureStart_def StartWithSource_def CreateTrace_def Let_def capture_keys_def split: if_splits)
  show "?i \<notin> fst ` set (capture_keys c)" using assms(1) by (auto simp: numbered_ok_def)
  have "?i \<notin> set (ce_created c)" using assms(1) by (auto simp: numbered_ok_def)
  then show "ce_created c' = remove1 ?i (ce_created c)"
    using assms(2) by (auto simp: handleCaptureStart_def StartWithSource_def CreateTrace_def Let_def remove1_idem split: if_splits)
qed

lemma numbered_created:
  assumes "numbered_ok c" and "i \<in> set (ce_created c)"
  shows "numbered_ok (start_created i source target c)"
proof (cases "ce_capturing c")
  case True
  then have "start_created i source target c = c\<lparr>ce_created := remove1 i (ce_created c)\<rparr>"
    by (simp add: start_created_def StartWithSource_def)
  then show ?thesis using assms(1) by (auto simp: numbered_ok_def capture_keys_def dest: notin_set_remove1 set_remove1_subset [THEN subsetD])
next
  case False
  have "i < st_next_trace (ce_db c)" "i \<notin> fst ` set (capture_keys c)" using assms by (auto simp: numbered_ok_def)
  then show ?thesis
    by (intro numbered_switch [OF assms(1), of _ i]) (use False in \<open>simp_all add: start_created_def StartWithSource_def capture_keys_def\<close>)
qed

lemma numbered_requested:
  assumes "numbered_ok c"
  shows "numbered_ok (request_start t c)"
proof -
  have k: "capture_keys (request_start t c) = capture_keys c" "ce_trace (request_start t c) = ce_trace c" "ce_seq (request_start t c) = ce_seq c"
      "st_next_trace (ce_db (request_start t c)) = st_next_trace (ce_db c) + 1" "ce_created (request_start t c) = st_next_trace (ce_db c) # ce_created c"
    by (simp_all add: request_start_def CreateTrace_def Let_def capture_keys_def)
  note n = assms [unfolded numbered_ok_def]
  let ?i = "st_next_trace (ce_db c)"
  have below: "j < ?i \<Longrightarrow> j < ?i + 1" for j :: int by simp
  have "\<forall>q \<in> set (capture_keys c). fst q < ?i + 1 \<and> (fst q = ce_trace c \<longrightarrow> 1 \<le> snd q \<and> snd q \<le> ce_seq c)" using n below by blast
  moreover have "\<forall>j \<in> set (ce_created c). j < ?i + 1 \<and> j \<noteq> ce_trace c \<and> j \<notin> fst ` set (capture_keys c)" using n below by blast
  moreover have "?i \<notin> fst ` set (capture_keys c)" "?i \<noteq> ce_trace c" "?i \<notin> set (ce_created c)" using n by auto
  ultimately show ?thesis using n unfolding numbered_ok_def k by simp
qed

lemma numbered_stop:
  assumes "numbered_ok c"
  shows "numbered_ok (c\<lparr>ce_db := StopTrace i now n k (ce_db c)\<rparr>)" "numbered_ok (Stop c)"
  by (rule numbered_same [OF assms]; simp add: StopTrace_def Stop_def capture_keys_def)+

lemma numbered_handler: "numbered_ok c \<Longrightarrow> handleCaptureStop now c = Inr c' \<Longrightarrow> numbered_ok c'"
  using numbered_stop(1) [OF numbered_stop(2) [of c]] by (auto simp: handleCaptureStop_def Let_def split: if_splits)

lemma numbered_receive:
  assumes "numbered_ok c"
  shows "numbered_ok (receive now r msg c)"
proof -
  let ?k = "(ce_trace c, ce_seq c + 1)"
  have k: "capture_keys (receive now r msg c) = capture_keys c @ [?k]"
    "ce_trace (receive now r msg c) = ce_trace c" "ce_seq (receive now r msg c) = ce_seq c + 1"
    "ce_db (receive now r msg c) = ce_db c" "ce_created (receive now r msg c) = ce_created c"
    by (simp_all add: receive_def Let_def capture_keys_def fl_key_def)
  have "?k \<notin> set (capture_keys c)" using assms unfolding numbered_ok_def by (metis fst_conv snd_conv zle_add1_eq_le less_irrefl)
  then show ?thesis using assms unfolding numbered_ok_def k by auto
qed

text \<open>An upload adds a trace of its own.\<close>

lemma inserted_keys: "InsertMessages l s = Some (l', s') \<Longrightarrow> map msg_key l' = map msg_key l"
proof (induction l arbitrary: s l' s')
  case (Cons m l)
  have "msg_key m1 = msg_key m" if "InsertMessage m s = Some (m1, s1)" for m1 s1
    using that by (auto simp: InsertMessage_def Let_def msg_key_def split: if_splits)
  then show ?case using Cons by (auto split: option.splits)
qed simp

lemma upload_rows:
  assumes "upload t l s = Some s'"
  shows "map msg_key (st_messages s') = map msg_key (st_messages s) @ map (\<lambda>n. (st_next_trace s, n)) (map m_seq l)
    \<and> (\<exists>l'. st_messages s' = st_messages s @ l' \<and> (\<forall>m \<in> set l'. m_trace m = st_next_trace s))
    \<and> st_traces s' = st_traces s @ [t\<lparr>t_id := st_next_trace s\<rparr>] \<and> st_next_trace s' = st_next_trace s + 1"
proof -
  let ?s1 = "snd (CreateTrace t s)" and ?l = "map (\<lambda>m. m\<lparr>m_trace := st_next_trace s\<rparr>) l"
  obtain l' where l': "InsertMessages ?l ?s1 = Some (l', s')"
    using assms by (auto simp: upload_def CreateTrace_def Let_def)
  let ?r = "map (\<lambda>m. m\<lparr>m_raw := []\<rparr>) l'"
  have "map msg_key ?r = map msg_key l'" by (simp add: msg_key_def)
  also have "\<dots> = map msg_key ?l" by (rule inserted_keys [OF l'])
  also have "\<dots> = map (\<lambda>n. (st_next_trace s, n)) (map m_seq l)" by (simp add: msg_key_def)
  finally have k: "map msg_key ?r = map (\<lambda>n. (st_next_trace s, n)) (map m_seq l)" .
  have "fst q = st_next_trace s" if "q \<in> set (map msg_key ?r)" for q using that unfolding k by auto
  then have "\<forall>m \<in> set ?r. m_trace m = st_next_trace s" by (fastforce simp: msg_key_def)
  moreover have "st_messages s' = st_messages s @ ?r" "st_traces s' = st_traces s @ [t\<lparr>t_id := st_next_trace s\<rparr>]"
      "st_next_trace s' = st_next_trace s + 1"
    using insert_messages_rows [OF l'] by (simp_all add: CreateTrace_def Let_def)
  ultimately show ?thesis using k by (intro conjI exI [of _ ?r]) simp_all
qed

lemma numbered_upload:
  assumes "numbered_ok c" and "sorted_wrt (<) (map m_seq l)" and "upload t l (ce_db c) = Some db"
  shows "numbered_ok (c\<lparr>ce_db := db\<rparr>)"
proof -
  let ?i = "st_next_trace (ce_db c)" and ?new = "map (\<lambda>n. (st_next_trace (ce_db c), n)) (map m_seq l)"
  note u = upload_rows [OF assms(3)]
  note n = assms(1) [unfolded numbered_ok_def]
  have k: "mset (capture_keys (c\<lparr>ce_db := db\<rparr>)) = mset (capture_keys c @ ?new)"
    using u by (simp add: capture_keys_def)
  have s: "set (capture_keys (c\<lparr>ce_db := db\<rparr>)) = set (capture_keys c) \<union> set ?new"
    using mset_eq_setD [OF k] by simp
  have nx: "st_next_trace db = ?i + 1" using u by simp
  have new: "\<forall>q \<in> set ?new. fst q = ?i" by auto
  have below: "j < ?i \<Longrightarrow> j < ?i + 1 \<and> j \<noteq> ?i" for j :: int by simp
  have "distinct ?new" using assms(2) by (simp add: distinct_map inj_on_def strict_sorted_iff)
  moreover have "set (capture_keys c) \<inter> set ?new = {}" using n new by (metis disjoint_iff less_irrefl)
  ultimately have "distinct (capture_keys c @ ?new)" using n by simp
  then have d: "distinct (capture_keys (c\<lparr>ce_db := db\<rparr>))" using mset_eq_imp_distinct_iff [OF k] by simp
  have "?i \<noteq> ce_trace c" using n by simp
  then have a: "\<forall>q \<in> set (capture_keys c) \<union> set ?new. fst q < ?i + 1 \<and> (fst q = ce_trace c \<longrightarrow> 1 \<le> snd q \<and> snd q \<le> ce_seq c)"
    using n new below by (metis Un_iff lessI less_add_one)
  have "fst ` (set (capture_keys c) \<union> set ?new) \<subseteq> insert ?i (fst ` set (capture_keys c))" by auto
  then have "\<forall>j \<in> set (ce_created c). j < ?i + 1 \<and> j \<noteq> ce_trace c \<and> j \<notin> fst ` (set (capture_keys c) \<union> set ?new)"
    using n below by blast
  then show ?thesis using n d a unfolding numbered_ok_def s by (simp add: nx)
qed

lemma numbered_step: "capture_step x c c' \<Longrightarrow> numbered_ok c \<Longrightarrow> numbered_ok c'"
proof (induction rule: capture_step.induct)
  case (deliver p c)
  then show ?case using keys_of_delivered [of p c x] numbered_less [of c "deliver x p c"] by blast
next
  case (deleted c i)
  have "\<exists>ks. mset (capture_keys (c\<lparr>ce_db := DeleteTrace i (ce_db c)\<rparr>)) + ks = mset (capture_keys c)"
  proof (cases "st_fk (ce_db c)")
    case True
    then have "mset (capture_keys (c\<lparr>ce_db := DeleteTrace i (ce_db c)\<rparr>))
        + mset (map msg_key (filter (\<lambda>m. m_trace m = i) (st_messages (ce_db c)))) = mset (capture_keys c)"
      by (simp add: capture_keys_def DeleteTrace_def Let_def flip: image_mset_union)
    then show ?thesis by blast
  next
    case False
    then have "mset (capture_keys (c\<lparr>ce_db := DeleteTrace i (ce_db c)\<rparr>)) + {#} = mset (capture_keys c)"
      by (simp add: capture_keys_def DeleteTrace_def Let_def)
    then show ?thesis by blast
  qed
  then obtain ks where "mset (capture_keys (c\<lparr>ce_db := DeleteTrace i (ce_db c)\<rparr>)) + ks = mset (capture_keys c)" ..
  with deleted show ?case by (rule numbered_less) (simp_all add: DeleteTrace_def Let_def)
next
  case (halted q c)
  have "numbered_ok (c\<lparr>ce_halting := remove1 q (ce_halting c), ce_writing := q # ce_writing c\<rparr>)"
    by (rule numbered_same [OF halted(2)]) (simp_all add: capture_keys_def)
  then show ?case unfolding stop_requested_def by (rule numbered_stop)
next
  case (written q c now)
  obtain i n k where q: "q = (i, n, k)" by (cases q)
  show ?case by (rule numbered_same [OF written(2)]) (simp_all add: write_stopped_def q StopTrace_def capture_keys_def)
next
  case (uploaded l t c db)
  then show ?case by (intro numbered_upload)
next
  case (truncated r c)
  then show ?case by (elim numbered_same) (simp_all add: IncTruncated_def capture_keys_def)
next
  case (ended r c)
  then show ?case by (elim numbered_same) (simp_all add: source_ended_def capture_keys_def)
next
  case (stopping c)
  then show ?case by (elim numbered_same) (simp_all add: request_stop_def capture_keys_def)
next
  case (renamed c t)
  then show ?case by (elim numbered_same) (simp_all add: UpdateTrace_def capture_keys_def)
next
  case (connection c fk)
  then show ?case by (elim numbered_same) (simp_all add: on_connection_def capture_keys_def)
qed (auto intro: numbered_start numbered_handler numbered_receive numbered_requested numbered_created)

lemma numbered_reachable: "capture_reachable x c \<Longrightarrow> numbered_ok c"
proof (induction rule: capture_reachable.induct)
  case (init now)
  then show ?case by (simp add: numbered_ok_def capture_keys_def NewEngine_def migrated_def)
qed (rule numbered_step)

section \<open>Lemmas: one session\<close>

lemma upload_keys: "upload t l s = Some s' \<Longrightarrow> store_keys s \<Longrightarrow> store_keys s'"
  using insert_messages_keys [OF store_step_keys [OF store_step.create_trace [of s t]]]
  by (auto simp: upload_def split: prod.splits)

lemma capture_store_keys: "capture_step x c c' \<Longrightarrow> store_keys (ce_db c) \<Longrightarrow> store_keys (ce_db c')"
proof (induction rule: capture_step.induct)
  case (start t source target c c')
  then have "ce_db c' = snd (CreateTrace t (ce_db c))"
    by (auto simp: handleCaptureStart_def StartWithSource_def split: if_splits prod.splits)
  then show ?case using start(2) store_step_keys [OF store_step.create_trace] by simp
next
  case (stop now c c')
  then have "ce_db c' = StopTrace (ce_trace c) now (cs_parsed (ce_stats c)) (cs_truncated (ce_stats c)) (ce_db c)"
    by (auto simp: handleCaptureStop_def Stop_def Let_def split: if_splits)
  then show ?case using stop(2) store_step_keys [OF store_step.stop_trace] by simp
next
  case (deliver p c)
  then show ?case using store_step_keys [OF store_step.insert_message]
    by (auto simp: deliver_def Let_def split: option.splits prod.splits)
next
  case (deleted c i)
  then show ?case using delete_keys by simp
next
  case (requested c t)
  have "ce_db (request_start t c) = snd (CreateTrace t (ce_db c))" by (simp add: request_start_def split: prod.splits)
  then show ?case using requested store_step_keys [OF store_step.create_trace] by simp
next
  case (written q c now)
  then show ?case using store_step_keys [OF store_step.stop_trace] by (simp add: write_stopped_def split: prod.splits)
next
  case (uploaded l t c db)
  then show ?case using upload_keys by simp
next
  case (renamed c t)
  then show ?case using store_step_keys [OF store_step.update_trace] by simp
qed (auto simp: receive_def IncTruncated_def source_ended_def start_created_def StartWithSource_def request_stop_def stop_requested_def Stop_def Let_def)

lemma captured_store_keys: "capture_reachable x c \<Longrightarrow> store_keys (ce_db c)"
proof (induction rule: capture_reachable.induct)
  case (init now)
  show ?case by (simp add: NewEngine_def pooled_reachable_keys [OF pooled_reachable.start])
qed (rule capture_store_keys)

text \<open>The next key of the traces is not in use, on any connection.\<close>

lemma fresh_trace:
  assumes "capture_reachable x c"
  shows "\<forall>m \<in> set (st_messages (ce_db c)). m_trace m \<noteq> st_next_trace (ce_db c)" and "\<forall>t \<in> set (st_traces (ce_db c)). t_id t \<noteq> st_next_trace (ce_db c)"
proof -
  show "\<forall>t \<in> set (st_traces (ce_db c)). t_id t \<noteq> st_next_trace (ce_db c)"
    using captured_store_keys [OF assms] by (fastforce simp: store_keys_def keys_ok_def)
  have q: "\<forall>q \<in> set (capture_keys c). fst q < st_next_trace (ce_db c)" using numbered_reachable [OF assms] by (simp add: numbered_ok_def)
  show "\<forall>m \<in> set (st_messages (ce_db c)). m_trace m \<noteq> st_next_trace (ce_db c)"
  proof
    fix m assume "m \<in> set (st_messages (ce_db c))"
    then have "msg_key m \<in> set (capture_keys c)" by (simp add: capture_keys_def)
    then show "m_trace m \<noteq> st_next_trace (ce_db c)" using q by (auto simp: msg_key_def)
  qed
qed

lemma find_app: "find P (a @ b) = (case find P a of None \<Rightarrow> find P b | Some y \<Rightarrow> Some y)"
  by (induction a) auto

text \<open>The messages a source emits, one after another, with no other source in flight.\<close>

fun feed :: "externals \<Rightarrow> nat \<Rightarrow> (time \<times> message) list \<Rightarrow> capture \<Rightarrow> capture" where
  "feed x r [] c = c"
| "feed x r ((now, m) # es) c = (let c1 = receive now r m c in feed x r es (deliver x (last (ce_pending c1)) c1))"

fun session_messages :: "externals \<Rightarrow> int \<Rightarrow> int \<Rightarrow> (time \<times> message) list \<Rightarrow> message list" where
  "session_messages x i n [] = []"
| "session_messages x i n ((now, m) # es) = captured_message x now i (n + 1) m # session_messages x i (n + 1) es"

lemma session_messages_ids [simp]:
  "length (session_messages x i n es) = length es" "\<forall>m \<in> set (session_messages x i n es). m_trace m = i"
  "map m_seq (session_messages x i n es) = map (\<lambda>k. n + 1 + int k) [0..<length es]"
proof -
  show "map m_seq (session_messages x i n es) = map (\<lambda>k. n + 1 + int k) [0..<length es]"
  proof (induction x i n es rule: session_messages.induct)
    case (2 x i n now m es)
    have "map (\<lambda>k. n + 1 + int k) [0..<Suc (length es)] = (n + 1) # map (\<lambda>k. n + 1 + 1 + int k) [0..<length es]"
      by (subst upt_conv_Cons) (simp_all add: map_Suc_upt [symmetric] del: upt_Suc)
    then show ?case using 2 by simp
  qed simp
qed (induction x i n es rule: session_messages.induct; simp)+

lemma feed_inserts:
  assumes "ce_pending c = []" and "trace_exists (ce_trace c) (ce_db c)"
  shows "\<exists>l. InsertMessages (session_messages x (ce_trace c) (ce_seq c) es) (ce_db c) = Some (l, ce_db (feed x r es c))
    \<and> ce_notified (feed x r es c) = ce_notified c @ l
    \<and> cs_parsed (ce_stats (feed x r es c)) = cs_parsed (ce_stats c) + int (length es)
    \<and> cs_received (ce_stats (feed x r es c)) = cs_received (ce_stats c) + int (length es)
    \<and> cs_truncated (ce_stats (feed x r es c)) = cs_truncated (ce_stats c)
    \<and> ce_capturing (feed x r es c) = ce_capturing c \<and> ce_trace (feed x r es c) = ce_trace c"
  using assms
proof (induction x r es c rule: feed.induct)
  case (2 x r now m es c)
  let ?m = "captured_message x now (ce_trace c) (ce_seq c + 1) m"
  let ?c1 = "receive now r m c"
  let ?p = "last (ce_pending ?c1)"
  let ?c2 = "deliver x ?p ?c1"
  obtain m' db where ins: "InsertMessage ?m (ce_db c) = Some (m', db)"
    using "2.prems"(2) by (auto simp: InsertMessage_def Let_def)
  have p: "?p = \<lparr>fl_run = r, fl_trace = ce_trace c, fl_seq = ce_seq c + 1, fl_time = now, fl_msg = m\<rparr>"
      "ce_pending ?c1 = [?p]"
    using "2.prems"(1) by (simp_all add: receive_def Let_def)
  have c2: "ce_pending ?c2 = []" "ce_db ?c2 = db" "ce_trace ?c2 = ce_trace c" "ce_seq ?c2 = ce_seq c + 1"
      "ce_notified ?c2 = ce_notified c @ [m']" "ce_capturing ?c2 = ce_capturing c"
      "cs_parsed (ce_stats ?c2) = cs_parsed (ce_stats c) + 1" "cs_received (ce_stats ?c2) = cs_received (ce_stats c) + 1"
      "cs_truncated (ce_stats ?c2) = cs_truncated (ce_stats c)"
    using ins p "2.prems"(1) by (simp_all add: deliver_def receive_def Let_def)
  have "trace_exists (ce_trace c) db"
    using "2.prems"(2) ins by (auto simp: InsertMessage_def Let_def trace_exists_def split: if_splits)
  then have "trace_exists (ce_trace ?c2) (ce_db ?c2)" by (simp only: c2)
  from "2.IH" [OF refl c2(1) this] obtain l where
    "InsertMessages (session_messages x (ce_trace c) (ce_seq c + 1) es) db = Some (l, ce_db (feed x r es ?c2))"
    "ce_notified (feed x r es ?c2) = ce_notified c @ m' # l"
    "cs_parsed (ce_stats (feed x r es ?c2)) = cs_parsed (ce_stats c) + 1 + int (length es)"
    "cs_received (ce_stats (feed x r es ?c2)) = cs_received (ce_stats c) + 1 + int (length es)"
    "cs_truncated (ce_stats (feed x r es ?c2)) = cs_truncated (ce_stats c)"
    "ce_capturing (feed x r es ?c2) = ce_capturing c" "ce_trace (feed x r es ?c2) = ce_trace c"
    unfolding c2 by auto
  then show ?case using ins by (auto simp: Let_def)
qed simp

section \<open>Properties\<close>

text \<open>C18: in every state the engine reaches, however starts, stops, late messages of stopped sources and
  deletions interleave, no two messages in the database or on their way to it have the same trace and
  number, and the numbers of the current trace are among those given out since its start.\<close>

theorem capture_numbering:
  assumes "capture_reachable x c"
  shows "distinct (map (\<lambda>m. (m_trace m, m_seq m)) (st_messages (ce_db c)) @ map (\<lambda>p. (fl_trace p, fl_seq p)) (ce_pending c))
    \<and> (\<forall>m \<in> set (st_messages (ce_db c)). m_trace m = ce_trace c \<longrightarrow> 1 \<le> m_seq m \<and> m_seq m \<le> ce_seq c)"
proof -
  note ok = numbered_reachable [OF assms, unfolded numbered_ok_def]
  have "1 \<le> m_seq m \<and> m_seq m \<le> ce_seq c" if "m \<in> set (st_messages (ce_db c))" "m_trace m = ce_trace c" for m
  proof -
    have "msg_key m \<in> set (capture_keys c)" using that by (simp add: capture_keys_def)
    then show ?thesis using ok that(2) by (fastforce simp: msg_key_def)
  qed
  moreover have "distinct (map (\<lambda>m. (m_trace m, m_seq m)) (st_messages (ce_db c)) @ map (\<lambda>p. (fl_trace p, fl_seq p)) (ce_pending c))"
    using ok by (simp only: capture_keys_def msg_key_def [abs_def] fl_key_def [abs_def])
  ultimately show ?thesis by blast
qed

text \<open>Stopping the newest trace writes its time and counts.\<close>

lemma stop_newest:
  assumes "\<forall>t \<in> set (st_traces s). t_id t \<noteq> st_next_trace s" and "st_traces s' = st_traces s @ [t\<lparr>t_id := st_next_trace s\<rparr>]"
  shows "GetTrace (st_next_trace s) (StopTrace (st_next_trace s) now n k s')
    = Some (t\<lparr>t_id := st_next_trace s, t_stopped := Some now, t_count := n, t_skipped := t_skipped t + k\<rparr>)"
proof -
  let ?i = "st_next_trace s"
  let ?f = "\<lambda>r. if t_id r = ?i then r\<lparr>t_stopped := Some now, t_count := n, t_skipped := t_skipped r + k\<rparr> else r"
  have "\<forall>t \<in> set (st_traces s). t_id (?f t) \<noteq> ?i" using assms(1) by simp
  then have "find (\<lambda>t. t_id t = ?i) (map ?f (st_traces s)) = None" unfolding find_None_iff set_map by blast
  then show ?thesis unfolding GetTrace_def StopTrace_def using assms(2) by (simp add: find_app)
qed

text \<open>C19: a session. Started on an idle engine, the source's messages arrive in the new trace in their order,
  numbered from one; the stop writes their number and the time into the trace.\<close>

theorem capture_session:
  assumes "capture_reachable x c" and "ce_pending c = []" and "handleCaptureStart t source target c = Inr c1"
    and "i = st_next_trace (ce_db c)"
  shows "\<exists>c2. handleCaptureStop now (feed x r es c1) = Inr c2 \<and> \<not> ce_capturing c2
    \<and> map (\<lambda>m. m\<lparr>m_id := 0\<rparr>) (filter (\<lambda>m. m_trace m = i) (st_messages (ce_db c2)))
       = map (\<lambda>m. m\<lparr>m_id := 0, m_raw := []\<rparr>) (session_messages x i 0 es)
    \<and> map m_seq (filter (\<lambda>m. m_trace m = i) (st_messages (ce_db c2))) = map (\<lambda>k. 1 + int k) [0..<length es]
    \<and> GetTrace i (ce_db c2) = Some (t\<lparr>t_id := i, t_stopped := Some now, t_count := int (length es)\<rparr>)"
proof -
  let ?c' = "feed x r es c1"
  have c1: "ce_pending c1 = []" "ce_trace c1 = i" "ce_seq c1 = 0" "ce_capturing c1" "ce_stats c1 = no_stats"
      "st_messages (ce_db c1) = st_messages (ce_db c)" "st_traces (ce_db c1) = st_traces (ce_db c) @ [t\<lparr>t_id := i\<rparr>]"
    using assms(2,3,4) by (auto simp: handleCaptureStart_def StartWithSource_def CreateTrace_def Let_def split: if_splits)
  then have ex: "trace_exists (ce_trace c1) (ce_db c1)" by (simp add: trace_exists_def)
  from feed_inserts [OF c1(1) ex, of x es r] obtain l where
    l: "InsertMessages (session_messages x i 0 es) (ce_db c1) = Some (l, ce_db ?c')"
      "cs_parsed (ce_stats ?c') = int (length es)" "cs_truncated (ce_stats ?c') = 0" "ce_capturing ?c'" "ce_trace ?c' = i"
    by (auto simp: c1 no_stats_def)
  have old: "filter (\<lambda>m. m_trace m = i) (st_messages (ce_db c)) = []"
    using fresh_trace(1) [OF assms(1)] assms(4) by (simp add: filter_empty_conv)
  from InsertMessages_total [of "session_messages x i 0 es" "ce_db c1"] l(1) ex
  have ids: "map (\<lambda>m. m\<lparr>m_id := 0\<rparr>) l = map (\<lambda>m. m\<lparr>m_id := 0\<rparr>) (session_messages x i 0 es)"
    by (auto simp: c1)
  note rows = insert_messages_rows [OF l(1)]
  have tr: "map m_trace l = map m_trace (session_messages x i 0 es)" and sq: "map m_seq l = map m_seq (session_messages x i 0 es)"
    using arg_cong [OF ids, of "map m_trace"] arg_cong [OF ids, of "map m_seq"] by (simp_all add: comp_def)
  have "\<forall>k \<in> set (map m_trace l). k = i" unfolding tr using session_messages_ids(2) [of x i 0 es] by auto
  then have all: "\<forall>m \<in> set l. m_trace m = i" by simp
  define c2 where "c2 = (Stop ?c')\<lparr>ce_db := StopTrace i now (int (length es)) 0 (ce_db ?c')\<rparr>"
  have db: "ce_db (Stop ?c') = ce_db ?c'" by (simp add: Stop_def)
  have stop: "handleCaptureStop now ?c' = Inr c2" unfolding handleCaptureStop_def c2_def using l db by (simp add: Let_def)
  have f: "filter (\<lambda>m. m_trace m = i) (st_messages (ce_db c2)) = map (\<lambda>m. m\<lparr>m_raw := []\<rparr>) l"
    using rows all old by (simp add: c2_def StopTrace_def c1 filter_map comp_def)
  have r0: "map (\<lambda>m. m\<lparr>m_id := 0, m_raw := []\<rparr>) k = map (\<lambda>m. m\<lparr>m_raw := []\<rparr>) (map (\<lambda>m. m\<lparr>m_id := 0\<rparr>) k)" for k :: "message list"
    by simp
  have "\<not> ce_capturing c2" using l(4) by (simp add: c2_def Stop_def)
  moreover have "map (\<lambda>m. m\<lparr>m_id := 0\<rparr>) (filter (\<lambda>m. m_trace m = i) (st_messages (ce_db c2)))
       = map (\<lambda>m. m\<lparr>m_id := 0, m_raw := []\<rparr>) (session_messages x i 0 es)"
    unfolding f r0 ids [symmetric] by simp
  moreover have "map m_seq (filter (\<lambda>m. m_trace m = i) (st_messages (ce_db c2))) = map (\<lambda>k. 1 + int k) [0..<length es]"
    unfolding f using sq by (simp add: comp_def)
  moreover have "GetTrace i (ce_db c2) = Some (t\<lparr>t_id := i, t_stopped := Some now, t_count := int (length es)\<rparr>)"
    using stop_newest [OF fresh_trace(2) [OF assms(1)], of "ce_db ?c'" t now "int (length es)" 0] rows assms(4) by (simp add: c2_def c1)
  ultimately show ?thesis using stop by blast
qed

text \<open>A UDP capture on an empty database.\<close>

definition empty_capture :: capture where "empty_capture = NewEngine (migrated (built_in_charts 0))"

definition started_capture :: capture where
  "started_capture = (case handleCaptureStart sample_trace ''udp'' ''ems:4712'' empty_capture of Inr c \<Rightarrow> c | Inl _ \<Rightarrow> empty_capture)"

definition sample_events :: "(time \<times> message) list" where
  "sample_events = [(5, udp_message ''ems:4712'' [CHR 0x00]), (7, udp_message ''ems:4712'' [CHR 0x01])]"

lemmas capture_defs = started_capture_def empty_capture_def handleCaptureStart_def StartWithSource_def NewEngine_def
  sample_events_def udp_message_def

lemma empty_capture_reachable: "capture_reachable x empty_capture"
  unfolding empty_capture_def by (rule capture_reachable.init)

lemma started_capture: "handleCaptureStart sample_trace ''udp'' ''ems:4712'' empty_capture = Inr started_capture"
  by (simp add: capture_defs CreateTrace_def Let_def)

lemma started_capture_reachable: "capture_reachable x started_capture"
  using capture_reachable.step [OF empty_capture_reachable capture_step.start [OF started_capture]] .

theorem capture_session_witness:
  "\<exists>c2. handleCaptureStop 9 (feed test_externals 0 sample_events started_capture) = Inr c2
     \<and> map m_seq (filter (\<lambda>m. m_trace m = 1) (st_messages (ce_db c2))) = [1, 2]
     \<and> GetTrace 1 (ce_db c2) = Some (sample_trace\<lparr>t_id := 1, t_stopped := Some 9, t_count := 2\<rparr>)"
proof -
  have "ce_pending empty_capture = []" "1 = st_next_trace (ce_db empty_capture)"
    by (simp_all add: empty_capture_def NewEngine_def migrated_def)
  from capture_session [OF empty_capture_reachable this(1) started_capture this(2), of 9 test_externals 0 sample_events]
  show ?thesis by (auto simp: sample_events_def numeral_eq_Suc)
qed

theorem capture_numbering_witness:
  "capture_keys (receive 7 0 (udp_message ''ems:4712'' [CHR 0x01]) started_capture) = [(1, 1)]
   \<and> distinct (capture_keys (receive 7 0 (udp_message ''ems:4712'' [CHR 0x01]) started_capture))"
proof -
  let ?c = "receive 7 0 (udp_message ''ems:4712'' [CHR 0x01]) started_capture"
  have "idle_run 0 started_capture" by (simp add: idle_run_def capture_defs CreateTrace_def Let_def)
  then have "capture_reachable test_externals ?c"
    by (rule capture_reachable.step [OF started_capture_reachable capture_step.receive])
  from capture_numbering [OF this] have "distinct (capture_keys ?c)"
    by (simp only: capture_keys_def msg_key_def [abs_def] fl_key_def [abs_def])
  moreover have "capture_keys ?c = [(1, 1)]"
    by (simp add: capture_keys_def receive_def Let_def capture_defs CreateTrace_def migrated_def fl_key_def)
  ultimately show ?thesis by blast
qed

text \<open>Two stop requests that overlap have both read the same capture, and both add its truncated frames to the trace.\<close>

lemma stops_overlap:
  assumes "GetTrace i (ce_db c) = Some t" and "q = (i, n, k)"
  shows "GetTrace i (ce_db (write_stopped now2 q (write_stopped now1 q c)))
    = Some (t\<lparr>t_stopped := Some now2, t_count := n, t_skipped := t_skipped t + 2 * k\<rparr>)"
proof -
  let ?f = "\<lambda>now r. r\<lparr>t_stopped := Some now, t_count := n, t_skipped := t_skipped r + k\<rparr>"
  have w: "st_traces (ce_db (write_stopped now q c)) = map (\<lambda>r. if t_id r = i then ?f now r else r) (st_traces (ce_db c))" for now c
    by (simp add: write_stopped_def assms(2) StopTrace_def)
  have "GetTrace i (ce_db (write_stopped now q c)) = map_option (?f now) (GetTrace i (ce_db c))" for now c
    using traces.lookup_updated [OF w [of now c], of i] by (simp add: GetTrace_def)
  then show ?thesis using assms(1) by simp
qed

text \<open>The end of a stopped source is taken for the end of the source that runs now: the engine can reach a
  state in which it says that no capture is in progress, so that a stop is refused, while an uncancelled
  source goes on delivering; the next start then has two uncancelled sources fill the same trace.\<close>

theorem stale_end:
  "\<exists>c r. capture_reachable x c \<and> \<lparr>run_id = r, run_cancelled = False\<rparr> \<in> set (ce_runs c) \<and> idle_run r c
    \<and> handleCaptureStop now c = Inl ''no capture in progress''
    \<and> (\<exists>c'. handleCaptureStart t source target c = Inr c'
         \<and> map run_cancelled (ce_runs c') = [False, False]
         \<and> list_all (\<lambda>q. idle_run (run_id q) c') (ce_runs c'))"
proof -
  obtain c1 where c1: "handleCaptureStart t source target empty_capture = Inr c1"
      "ce_capturing c1" "ce_runs c1 = [\<lparr>run_id = 0, run_cancelled = False\<rparr>]" "ce_next_run c1 = 1" "ce_cancel c1 = 0" "ce_pending c1 = []"
    by (simp add: capture_defs CreateTrace_def Let_def)
  obtain c2 where c2: "handleCaptureStop now c1 = Inr c2"
      "\<not> ce_capturing c2" "ce_runs c2 = [\<lparr>run_id = 0, run_cancelled = True\<rparr>]" "ce_next_run c2 = 1" "ce_pending c2 = []"
    using c1 by (simp add: handleCaptureStop_def Stop_def Let_def)
  obtain c3 where c3: "handleCaptureStart t source target c2 = Inr c3"
      "ce_runs c3 = [\<lparr>run_id = 0, run_cancelled = True\<rparr>, \<lparr>run_id = 1, run_cancelled = False\<rparr>]" "ce_next_run c3 = 2" "ce_pending c3 = []"
    using c2 by (simp add: capture_defs CreateTrace_def Let_def)
  define c4 where "c4 = source_ended 0 c3"
  have c4: "\<not> ce_capturing c4" "ce_runs c4 = [\<lparr>run_id = 1, run_cancelled = False\<rparr>]" "ce_next_run c4 = 2" "ce_pending c4 = []"
    using c3 by (simp_all add: c4_def source_ended_def)
  have "capture_reachable x c3"
    by (rule capture_reachable.step [OF capture_reachable.step [OF capture_reachable.step
          [OF empty_capture_reachable capture_step.start [OF c1(1)]] capture_step.stop [OF c2(1)]] capture_step.start [OF c3(1)]])
  moreover have "idle_run 0 c3" using c3 by (simp add: idle_run_def)
  ultimately have "capture_reachable x c4" unfolding c4_def by (rule capture_reachable.step [OF _ capture_step.ended])
  moreover have "idle_run 1 c4" using c4 by (simp add: idle_run_def)
  moreover have "handleCaptureStop now c4 = Inl ''no capture in progress''" using c4(1) by (simp add: handleCaptureStop_def)
  moreover have "\<exists>c'. handleCaptureStart t source target c4 = Inr c' \<and> map run_cancelled (ce_runs c') = [False, False]
      \<and> list_all (\<lambda>q. idle_run (run_id q) c') (ce_runs c')"
    using c4 by (simp add: capture_defs CreateTrace_def Let_def idle_run_def)
  ultimately show ?thesis using c4(2) by (metis list.set_intros(1))
qed

end
