(* ===== verification/Connections.thy ===== *)
theory Connections
  imports OrderedMap Model
begin

text \<open>
  \<open>internal/api/connections.go\<close>: the SHIP connection of each pair of devices, followed over a trace.
\<close>

section \<open>Definitions\<close>

record state_entry =
  se_state :: string
  se_time :: time
  se_id :: int

record connection =
  cn_src :: string
  cn_dst :: string
  cn_states :: "state_entry list"
  cn_current :: string
  cn_anomalies :: "string list"

definition shipMsgTypeToState :: "ship_msg_type \<Rightarrow> string" where
  "shipMsgTypeToState t =
     (if t = ''init'' then ''init''
      else if t = ''connectionHello'' then ''hello''
      else if t = ''messageProtocolHandshake'' then ''handshake''
      else if t = ''connectionPinState'' then ''pin''
      else if t = ''accessMethods'' then ''access''
      else if t = ''data'' then ''data''
      else if t = ''connectionClose'' then ''closed''
      else [])"

definition expected_states :: "string list" where
  "expected_states = [''init'', ''hello'', ''handshake'', ''pin'', ''access'', ''data'']"

text \<open>The argument is the rest of the expected states from \<open>expectedIdx\<close> on.\<close>

fun out_of_order :: "string list \<Rightarrow> state_entry list \<Rightarrow> bool" where
  "out_of_order e [] = False"
| "out_of_order e (s # ss) =
     (if se_state s = ''closed'' then out_of_order e ss
      else (let e' = dropWhile (\<lambda>x. x \<noteq> se_state s) e in if e' = [] then True else out_of_order e' ss))"

definition detectAnomalies :: "state_entry list \<Rightarrow> string list" where
  "detectAnomalies states =
     (if states = [] then []
      else (let hasInit = list_ex (\<lambda>s. se_state s = ''init'') states;
                hasHello = list_ex (\<lambda>s. se_state s = ''hello'') states;
                reachedData = list_ex (\<lambda>s. se_state s = ''data'') states
            in (if hasInit \<and> \<not> hasHello then [''missing connectionHello after init''] else [])
               @ (if se_state (last states) = ''closed'' \<and> \<not> reachedData
                  then [''connection closed before data exchange''] else [])
               @ (if out_of_order expected_states states then [''out-of-order state transitions detected''] else [])))"

definition pair_ends :: "message \<Rightarrow> string \<times> string" where
  "pair_ends m = (if m_dev_src m = [] \<and> m_dev_dst m = [] then (m_src_addr m, m_dst_addr m) else (m_dev_src m, m_dev_dst m))"

definition new_entry :: "message \<Rightarrow> state_entry" where
  "new_entry m = \<lparr>se_state = shipMsgTypeToState (m_type m), se_time = m_time m, se_id = m_id m\<rparr>"

definition conn_key :: "string \<times> string \<Rightarrow> (string \<times> string, connection) omap \<Rightarrow> string \<times> string" where
  "conn_key k s = (if om_get s k \<noteq> None then k else if om_get s (prod.swap k) \<noteq> None then prod.swap k else k)"

definition connection_step :: "message \<Rightarrow> (string \<times> string, connection) omap \<Rightarrow> (string \<times> string, connection) omap" where
  "connection_step m s =
     (let state = shipMsgTypeToState (m_type m); (src, dst) = pair_ends m in
      if state = [] then s
      else if src = [] \<or> dst = [] then s
      else (let key = conn_key (src, dst) s;
                cs = (case om_get s key of Some c \<Rightarrow> c
                      | None \<Rightarrow> \<lparr>cn_src = src, cn_dst = dst, cn_states = [], cn_current = [], cn_anomalies = []\<rparr>)
            in om_put key (cs\<lparr>cn_states := cn_states cs @ [new_entry m], cn_current := state\<rparr>) s))"

definition buildConnectionStates :: "message list \<Rightarrow> connection list" where
  "buildConnectionStates msgs =
     map (\<lambda>cs. cs\<lparr>cn_anomalies := detectAnomalies (cn_states cs)\<rparr>) (om_values (fold connection_step msgs om_empty))"

section \<open>Lemmas\<close>

text \<open>The messages that count, and the pair they belong to, whichever way they went.\<close>

definition tracked :: "message \<Rightarrow> bool" where
  "tracked m \<longleftrightarrow> shipMsgTypeToState (m_type m) \<noteq> [] \<and> fst (pair_ends m) \<noteq> [] \<and> snd (pair_ends m) \<noteq> []"

definition same_pair :: "string \<times> string \<Rightarrow> string \<times> string \<Rightarrow> bool" where
  "same_pair p q \<longleftrightarrow> p = q \<or> p = prod.swap q"

definition pair_messages :: "string \<times> string \<Rightarrow> message list \<Rightarrow> message list" where
  "pair_messages k msgs = filter (\<lambda>m. tracked m \<and> same_pair (pair_ends m) k) msgs"

lemma same_pair_refl [simp]: "same_pair p p" "same_pair p (prod.swap p)" "same_pair (prod.swap p) p"
  by (simp_all add: same_pair_def)

lemma same_pair_sym: "same_pair p q \<Longrightarrow> same_pair q p"
  by (auto simp: same_pair_def)

lemma same_pair_trans: "same_pair p q \<Longrightarrow> same_pair q r \<Longrightarrow> same_pair p r"
  by (auto simp: same_pair_def)

definition conn_of :: "message list \<Rightarrow> string \<times> string \<Rightarrow> connection \<Rightarrow> bool" where
  "conn_of msgs k c \<longleftrightarrow> (cn_src c, cn_dst c) = k \<and> pair_messages k msgs \<noteq> []
     \<and> k = pair_ends (hd (pair_messages k msgs))
     \<and> cn_states c = map new_entry (pair_messages k msgs)
     \<and> cn_current c = se_state (last (cn_states c)) \<and> cn_anomalies c = []"

definition conns_ok :: "message list \<Rightarrow> (string \<times> string, connection) omap \<Rightarrow> bool" where
  "conns_ok msgs s \<longleftrightarrow> om_wf s \<and> (\<forall>k c. om_get s k = Some c \<longrightarrow> conn_of msgs k c)
     \<and> (\<forall>k j. om_get s k \<noteq> None \<and> om_get s j \<noteq> None \<and> same_pair k j \<longrightarrow> k = j)
     \<and> (\<forall>m \<in> set msgs. tracked m \<longrightarrow> (\<exists>k. om_get s k \<noteq> None \<and> same_pair (pair_ends m) k))"

lemma connection_step_untracked: "\<not> tracked m \<Longrightarrow> connection_step m s = s"
  by (auto simp: connection_step_def tracked_def Let_def split: prod.splits)

lemma pair_messages_snoc:
  "pair_messages k (msgs @ [m]) = pair_messages k msgs @ (if tracked m \<and> same_pair (pair_ends m) k then [m] else [])"
  by (simp add: pair_messages_def)

lemma conn_key_pair: "same_pair (pair_ends m) (conn_key (pair_ends m) s)"
  by (auto simp: conn_key_def)

text \<open>At most one connection has the pair of a message, and it is the one its key finds.\<close>

lemma conn_key_alone:
  assumes "conns_ok msgs s" and "same_pair (pair_ends m) j" and "j \<noteq> conn_key (pair_ends m) s"
  shows "om_get s j = None"
proof (rule ccontr)
  assume j: "om_get s j \<noteq> None"
  then have "om_get s (conn_key (pair_ends m) s) \<noteq> None" using assms(2) by (auto simp: conn_key_def same_pair_def)
  moreover have "same_pair (conn_key (pair_ends m) s) j" using conn_key_pair assms(2) same_pair_sym same_pair_trans by blast
  ultimately show False using assms(1,3) j unfolding conns_ok_def by blast
qed

lemma no_messages_yet:
  assumes "conns_ok msgs s" and "om_get s (conn_key (pair_ends m) s) = None"
  shows "conn_key (pair_ends m) s = pair_ends m" and "pair_messages (pair_ends m) msgs = []"
proof -
  show "conn_key (pair_ends m) s = pair_ends m" using assms(2) by (auto simp: conn_key_def)
  have none: "om_get s j = None" if "same_pair (pair_ends m) j" for j
    using conn_key_alone [OF assms(1) that] assms(2) by (cases "j = conn_key (pair_ends m) s") auto
  show "pair_messages (pair_ends m) msgs = []"
    unfolding pair_messages_def filter_empty_conv
  proof (intro ballI notI)
    fix n assume "n \<in> set msgs" and n: "tracked n \<and> same_pair (pair_ends n) (pair_ends m)"
    then obtain j where "om_get s j \<noteq> None" "same_pair (pair_ends n) j" using assms(1) unfolding conns_ok_def by blast
    moreover have "same_pair (pair_ends m) j" using n calculation(2) same_pair_sym same_pair_trans by metis
    ultimately show False using none by simp
  qed
qed

definition next_connection :: "message \<Rightarrow> (string \<times> string, connection) omap \<Rightarrow> connection" where
  "next_connection m s =
     (let cs = (case om_get s (conn_key (pair_ends m) s) of Some c \<Rightarrow> c
        | None \<Rightarrow> \<lparr>cn_src = fst (pair_ends m), cn_dst = snd (pair_ends m), cn_states = [], cn_current = [], cn_anomalies = []\<rparr>)
      in cs\<lparr>cn_states := cn_states cs @ [new_entry m], cn_current := shipMsgTypeToState (m_type m)\<rparr>)"

lemma connection_step_tracked:
  "tracked m \<Longrightarrow> connection_step m s = om_put (conn_key (pair_ends m) s) (next_connection m s) s"
  by (cases "pair_ends m") (simp add: connection_step_def tracked_def Let_def next_connection_def cong: option.case_cong)

lemma next_connection_of:
  assumes "conns_ok msgs s" and "tracked m"
  shows "conn_of (msgs @ [m]) (conn_key (pair_ends m) s) (next_connection m s)"
proof (cases "om_get s (conn_key (pair_ends m) s)")
  case (Some c)
  then have "conn_of msgs (conn_key (pair_ends m) s) c" using assms(1) unfolding conns_ok_def by blast
  then show ?thesis using Some assms(2) conn_key_pair [of m s]
    by (simp add: conn_of_def next_connection_def Let_def pair_messages_snoc new_entry_def hd_append)
next
  case None
  note k = no_messages_yet [OF assms(1) None]
  have "same_pair (pair_ends m) (pair_ends m)" using conn_key_pair [of m s] k(1) by simp
  then show ?thesis using None assms(2) k
    by (simp add: conn_of_def next_connection_def Let_def pair_messages_snoc new_entry_def)
qed

lemma other_connection:
  assumes "conns_ok msgs s" and "j \<noteq> conn_key (pair_ends m) s" and "om_get s j = Some c"
  shows "conn_of (msgs @ [m]) j c"
proof -
  have "\<not> same_pair (pair_ends m) j" using conn_key_alone [OF assms(1) _ assms(2)] assms(3) by fastforce
  moreover have "conn_of msgs j c" using assms(1,3) unfolding conns_ok_def by blast
  ultimately show ?thesis by (simp add: conn_of_def pair_messages_snoc)
qed

lemma conns_ok_step:
  assumes "conns_ok msgs s"
  shows "conns_ok (msgs @ [m]) (connection_step m s)"
proof (cases "tracked m")
  case False
  then show ?thesis using assms by (auto simp: connection_step_untracked conns_ok_def conn_of_def pair_messages_snoc)
next
  case True
  let ?k = "conn_key (pair_ends m) s" and ?s = "connection_step m s"
  note ok = assms [unfolded conns_ok_def]
  note step = connection_step_tracked [OF True, of s]
  note only = conn_key_alone [OF assms] and kk = conn_key_pair [of m s]
  have uniq: "k = j" if "om_get ?s k \<noteq> None" "om_get ?s j \<noteq> None" "same_pair k j" for k j
  proof (cases "k = ?k \<or> j = ?k")
    case True
    then show ?thesis
      using that only kk same_pair_sym same_pair_trans unfolding step om.get_put by (metis (full_types))
  next
    case False
    then have "om_get s k \<noteq> None" "om_get s j \<noteq> None" using that unfolding step om.get_put by auto
    then show ?thesis using ok that(3) by blast
  qed
  have "\<exists>k. om_get ?s k \<noteq> None \<and> same_pair (pair_ends n) k" if n: "n \<in> set (msgs @ [m])" "tracked n" for n
  proof (cases "n = m")
    case True
    then show ?thesis using kk by (intro exI [of _ ?k]) (simp add: step om.get_put)
  next
    case False
    then have "n \<in> set msgs" using n(1) by simp
    then obtain k where "om_get s k \<noteq> None" "same_pair (pair_ends n) k" using n(2) ok by blast
    then show ?thesis by (intro exI [of _ k]) (simp add: step om.get_put)
  qed
  moreover have "om_wf ?s" unfolding step by (rule om.wf_put [OF ok [THEN conjunct1]])
  moreover have "conn_of (msgs @ [m]) k c" if "om_get ?s k = Some c" for k c
    using that next_connection_of [OF assms True] other_connection [OF assms, of k m c] by (cases "k = ?k") (simp_all add: step om.get_put)
  ultimately show ?thesis unfolding conns_ok_def using uniq by blast
qed

lemma conns_ok_fold: "conns_ok msgs (fold connection_step msgs om_empty)"
proof (induction msgs rule: rev_induct)
  case Nil
  show ?case by (simp add: conns_ok_def om_simps)
next
  case (snoc m msgs)
  then show ?case using conns_ok_step by simp
qed

text \<open>The place of a state in the expected order.\<close>

definition state_rank :: "string \<Rightarrow> nat" where
  "state_rank s = length (takeWhile (\<lambda>x. x \<noteq> s) expected_states)"

lemma dropWhile_drop:
  "distinct e \<Longrightarrow> s \<in> set e \<Longrightarrow>
   dropWhile (\<lambda>x. x \<noteq> s) (drop n e) = (if n \<le> length (takeWhile (\<lambda>x. x \<noteq> s) e) then drop (length (takeWhile (\<lambda>x. x \<noteq> s) e)) e else [])"
proof (induction e arbitrary: n)
  case (Cons x e)
  show ?case
  proof (cases n)
    case 0
    then show ?thesis using Cons.IH [of 0] Cons.prems by auto
  next
    case (Suc k)
    have "x = s \<Longrightarrow> dropWhile (\<lambda>y. y \<noteq> s) (drop k e) = []"
      using Cons.prems(1) by (auto simp: dropWhile_eq_Nil_conv dest: in_set_dropD)
    then show ?thesis using Cons.IH [of k] Cons.prems Suc by auto
  qed
qed simp

lemma drop_expected:
  "s \<in> set expected_states \<Longrightarrow> dropWhile (\<lambda>x. x \<noteq> s) (drop n expected_states)
     = (if n \<le> state_rank s then drop (state_rank s) expected_states else [])"
  unfolding state_rank_def by (rule dropWhile_drop) (simp_all add: expected_states_def)

lemma state_rank_le: "s \<in> set expected_states \<Longrightarrow> state_rank s \<le> 5"
  by (auto simp: expected_states_def state_rank_def)

lemma out_of_order_iff:
  assumes "list_all (\<lambda>s. se_state s \<in> set (''closed'' # expected_states)) states" and "n \<le> 5"
  shows "out_of_order (drop n expected_states) states
    \<longleftrightarrow> \<not> sorted (n # map (\<lambda>s. state_rank (se_state s)) (filter (\<lambda>s. se_state s \<noteq> ''closed'') states))"
  using assms
proof (induction states arbitrary: n)
  case (Cons s states)
  show ?case
  proof (cases "se_state s = ''closed''")
    case False
    let ?r = "state_rank (se_state s)"
    have s: "se_state s \<in> set expected_states" using Cons.prems(1) False by simp
    then have le: "?r \<le> 5" by (rule state_rank_le)
    have "length expected_states = 6" by (simp add: expected_states_def)
    then have r: "?r \<le> 5" "drop ?r expected_states \<noteq> []" using le by simp_all
    show ?thesis
    proof (cases "n \<le> ?r")
      case True
      let ?l = "map (\<lambda>s. state_rank (se_state s)) (filter (\<lambda>s. se_state s \<noteq> ''closed'') states)"
      have o: "out_of_order (drop n expected_states) (s # states) = out_of_order (drop ?r expected_states) states"
        using False True r drop_expected [OF s] by (simp add: Let_def)
      have ih: "out_of_order (drop ?r expected_states) states = (\<not> sorted (?r # ?l))"
        by (rule Cons.IH [OF _ r(1)]) (use Cons.prems in simp)
      have l: "map (\<lambda>s. state_rank (se_state s)) (filter (\<lambda>s. se_state s \<noteq> ''closed'') (s # states)) = ?r # ?l"
        using False by simp
      have "sorted (n # ?r # ?l) = sorted (?r # ?l)" using True by auto
      then show ?thesis unfolding o ih l by blast
    next
      case False': False
      then show ?thesis using False drop_expected [OF s] by (simp add: Let_def)
    qed
  qed (use Cons in simp)
qed simp

section \<open>Properties\<close>

text \<open>C22: the connections partition the messages that tell a connection state: no two connections are of the
  same two devices, every such message is in the connection of its two ends, whichever way it went,
  and a connection's states are those of its messages in their order, the current one last.\<close>

theorem connections_partition:
  "(\<forall>c \<in> set (buildConnectionStates msgs). pair_messages (cn_src c, cn_dst c) msgs \<noteq> []
      \<and> (cn_src c, cn_dst c) = pair_ends (hd (pair_messages (cn_src c, cn_dst c) msgs))
      \<and> cn_states c = map new_entry (pair_messages (cn_src c, cn_dst c) msgs)
      \<and> cn_current c = se_state (last (cn_states c)) \<and> cn_anomalies c = detectAnomalies (cn_states c))
   \<and> (\<forall>m \<in> set msgs. tracked m \<longrightarrow> (\<exists>!c. c \<in> set (buildConnectionStates msgs) \<and> same_pair (pair_ends m) (cn_src c, cn_dst c)))"
proof -
  let ?s = "fold connection_step msgs om_empty"
  let ?f = "\<lambda>cs. cs\<lparr>cn_anomalies := detectAnomalies (cn_states cs)\<rparr>"
  note ok = conns_ok_fold [of msgs, unfolded conns_ok_def]
  have mem: "c \<in> set (buildConnectionStates msgs) \<longleftrightarrow> (\<exists>k d. om_get ?s k = Some d \<and> c = ?f d)" for c
    unfolding buildConnectionStates_def set_map image_iff Bex_def in_om_values [OF ok [THEN conjunct1]] by blast
  have key: "(cn_src d, cn_dst d) = k" if "om_get ?s k = Some d" for k d using ok that unfolding conn_of_def by blast
  have 1: "\<forall>c \<in> set (buildConnectionStates msgs). pair_messages (cn_src c, cn_dst c) msgs \<noteq> []
      \<and> (cn_src c, cn_dst c) = pair_ends (hd (pair_messages (cn_src c, cn_dst c) msgs))
      \<and> cn_states c = map new_entry (pair_messages (cn_src c, cn_dst c) msgs)
      \<and> cn_current c = se_state (last (cn_states c)) \<and> cn_anomalies c = detectAnomalies (cn_states c)"
  proof
    fix c assume "c \<in> set (buildConnectionStates msgs)"
    then obtain k d where d: "om_get ?s k = Some d" "c = ?f d" using mem by blast
    then have "conn_of msgs k d" using ok by blast
    then show "pair_messages (cn_src c, cn_dst c) msgs \<noteq> []
      \<and> (cn_src c, cn_dst c) = pair_ends (hd (pair_messages (cn_src c, cn_dst c) msgs))
      \<and> cn_states c = map new_entry (pair_messages (cn_src c, cn_dst c) msgs)
      \<and> cn_current c = se_state (last (cn_states c)) \<and> cn_anomalies c = detectAnomalies (cn_states c)"
      using d(2) by (auto simp: conn_of_def)
  qed
  have 2: "\<exists>!c. c \<in> set (buildConnectionStates msgs) \<and> same_pair (pair_ends m) (cn_src c, cn_dst c)"
    if m: "m \<in> set msgs" "tracked m" for m
  proof -
    obtain k d where d: "om_get ?s k = Some d" "same_pair (pair_ends m) k" using ok m by blast
    show ?thesis
    proof (rule ex1I [of _ "?f d"])
      show "?f d \<in> set (buildConnectionStates msgs) \<and> same_pair (pair_ends m) (cn_src (?f d), cn_dst (?f d))"
        using mem [of "?f d"] d key [OF d(1)] by auto
      fix c assume c: "c \<in> set (buildConnectionStates msgs) \<and> same_pair (pair_ends m) (cn_src c, cn_dst c)"
      then obtain j e where e: "om_get ?s j = Some e" "c = ?f e" using mem by blast
      then have "same_pair (pair_ends m) j" using c key by fastforce
      then have "same_pair k j" using d(2) same_pair_sym same_pair_trans by blast
      moreover have "om_get ?s k \<noteq> None \<and> om_get ?s j \<noteq> None" using d e by simp
      ultimately have "k = j" using ok by blast
      then show "c = ?f d" using d(1) e by simp
    qed
  qed
  show ?thesis using 1 2 by blast
qed

theorem connections_partition_witness:
  "map cn_current (buildConnectionStates
     [empty_message\<lparr>m_type := ''init'', m_dev_src := ''a'', m_dev_dst := ''b''\<rparr>,
      empty_message\<lparr>m_type := ''connectionHello'', m_dev_src := ''b'', m_dev_dst := ''a''\<rparr>]) = [''hello'']
   \<and> (\<exists>!c. c \<in> set (buildConnectionStates
     [empty_message\<lparr>m_type := ''init'', m_dev_src := ''a'', m_dev_dst := ''b''\<rparr>,
      empty_message\<lparr>m_type := ''connectionHello'', m_dev_src := ''b'', m_dev_dst := ''a''\<rparr>])
     \<and> same_pair (''b'', ''a'') (cn_src c, cn_dst c))"
proof -
  let ?m = "empty_message\<lparr>m_type := ''connectionHello'', m_dev_src := ''b'', m_dev_dst := ''a''\<rparr>"
  let ?l = "[empty_message\<lparr>m_type := ''init'', m_dev_src := ''a'', m_dev_dst := ''b''\<rparr>, ?m]"
  have "tracked ?m" "pair_ends ?m = (''b'', ''a'')" "?m \<in> set ?l"
    by (simp_all add: tracked_def pair_ends_def shipMsgTypeToState_def)
  then have "\<exists>!c. c \<in> set (buildConnectionStates ?l) \<and> same_pair (''b'', ''a'') (cn_src c, cn_dst c)"
    using connections_partition [of ?l] by metis
  moreover have "map cn_current (buildConnectionStates ?l) = [''hello'']" by code_simp
  ultimately show ?thesis by blast
qed

text \<open>On a connection the out-of-order anomaly is reported exactly when the states, closes aside, do not
  follow each other in the order of the protocol; repeated states and skipped states are no anomaly, and
  a reconnection on the same pair always is.\<close>

theorem anomalies_meaning:
  assumes "list_all (\<lambda>s. se_state s \<in> set (''closed'' # expected_states)) states"
  shows "(''out-of-order state transitions detected'' \<in> set (detectAnomalies states)
      \<longleftrightarrow> \<not> sorted (map (\<lambda>s. state_rank (se_state s)) (filter (\<lambda>s. se_state s \<noteq> ''closed'') states)))
    \<and> (''missing connectionHello after init'' \<in> set (detectAnomalies states)
      \<longleftrightarrow> ''init'' \<in> se_state ` set states \<and> ''hello'' \<notin> se_state ` set states)
    \<and> (''connection closed before data exchange'' \<in> set (detectAnomalies states)
      \<longleftrightarrow> states \<noteq> [] \<and> se_state (last states) = ''closed'' \<and> ''data'' \<notin> se_state ` set states)"
proof (cases "states = []")
  case True
  then show ?thesis by (simp add: detectAnomalies_def)
next
  case False
  have o: "out_of_order expected_states states
      \<longleftrightarrow> \<not> sorted (map (\<lambda>s. state_rank (se_state s)) (filter (\<lambda>s. se_state s \<noteq> ''closed'') states))"
    using out_of_order_iff [OF assms, of 0] by simp
  show ?thesis using False unfolding detectAnomalies_def Let_def o by (force simp: list_ex_iff)
qed

theorem anomalies_meaning_witness:
  "''out-of-order state transitions detected'' \<in> set (detectAnomalies
     [\<lparr>se_state = ''data'', se_time = 0, se_id = 1\<rparr>, \<lparr>se_state = ''closed'', se_time = 1, se_id = 2\<rparr>,
      \<lparr>se_state = ''init'', se_time = 2, se_id = 3\<rparr>])"
proof -
  let ?l = "[\<lparr>se_state = ''data'', se_time = 0, se_id = 1\<rparr>, \<lparr>se_state = ''closed'', se_time = 1, se_id = 2\<rparr>,
      \<lparr>se_state = ''init'', se_time = 2, se_id = 3\<rparr>] :: state_entry list"
  have "list_all (\<lambda>s. se_state s \<in> set (''closed'' # expected_states)) ?l" by (simp add: expected_states_def)
  from anomalies_meaning [OF this] show ?thesis by (simp add: state_rank_def expected_states_def)
qed

end
