(* ===== verification/Descriptions.thy ===== *)
theory Descriptions
  imports Store Spineparse
begin

text \<open>
  \<open>internal/api/descriptions.go\<close> and \<open>loadSetpointDescriptions\<close> of \<open>timeseries.go\<close>: names, units and phases
  of measurements, limits, setpoints and configuration keys, read from the description replies of a
  trace. A Go map is a function to options; it is only looked up and written to JSON.
\<close>

section \<open>Records\<close>

record measurement_desc =
  md_id :: string
  md_type :: string
  md_unit :: string
  md_scope :: string
  md_phase :: string
  md_label :: string

record load_limit_desc =
  lm_id :: string
  lm_measurement :: string
  lm_scope :: string
  lm_category :: string
  lm_unit :: string
  lm_phase :: string
  lm_type :: string
  lm_label :: string

record config_key_desc =
  kv_id :: string
  kv_name :: string
  kv_type :: string
  kv_unit :: string

record description_context =
  dc_measurements :: "string \<Rightarrow> measurement_desc option"
  dc_limits :: "string \<Rightarrow> load_limit_desc option"
  dc_keys :: "string \<Rightarrow> config_key_desc option"

section \<open>Labels\<close>

definition phaseLabel :: "string \<Rightarrow> string" where
  "phaseLabel phase = (if phase = ''a'' then ''Phase A'' else if phase = ''b'' then ''Phase B''
     else if phase = ''c'' then ''Phase C'' else if phase = ''abc'' then ''Total'' else phase)"

definition scopeTypeLabel :: "string \<Rightarrow> string" where
  "scopeTypeLabel scope = (if scope = ''overloadProtection'' then ''Overload Protection''
     else if scope = ''selfConsumption'' then ''Self Consumption''
     else if scope = ''discharge'' then ''Discharge'' else scope)"

definition measurementTypeLabel :: "string \<Rightarrow> string" where
  "measurementTypeLabel mtype = (if mtype = ''current'' then ''Current'' else if mtype = ''power'' then ''Power''
     else if mtype = ''energy'' then ''Energy'' else if mtype = ''voltage'' then ''Voltage'' else mtype)"

definition part :: "string \<Rightarrow> string list" where
  "part s = (if s = [] then [] else [s])"

definition in_brackets :: "string \<Rightarrow> string" where
  "in_brackets u = (if u = [] then [] else '' ['' @ u @ '']'')"

definition buildMeasurementLabel :: "measurement_desc \<Rightarrow> string" where
  "buildMeasurementLabel d =
     join '' '' ((if md_type d = [] then [] else [measurementTypeLabel (md_type d)]) @ part (md_phase d))
     @ in_brackets (md_unit d)"

definition buildLimitLabel :: "load_limit_desc \<Rightarrow> string" where
  "buildLimitLabel d =
     (let label = join '' '' ((if lm_scope d = [] then [] else [scopeTypeLabel (lm_scope d)]) @ part (lm_phase d))
      in if label = [] then ''Limit '' @ lm_id d else label @ in_brackets (lm_unit d))"

section \<open>Reading the replies\<close>

text \<open>The replies with a function set: at most ten, the first ones.\<close>

definition desc_messages :: "engine \<Rightarrow> int \<Rightarrow> string \<Rightarrow> store \<Rightarrow> message list" where
  "desc_messages e i fn s =
     (case ListMessages e i (no_filter\<lparr>mf_fn := fn, mf_classifier := ''reply'', mf_type := ''data'', mf_limit := 10\<rparr>) s of
        None \<Rightarrow> [] | Some l \<Rightarrow> l)"

text \<open>\<open>descriptions.go\<close> takes the commands only when they are an array.\<close>

definition plain_cmds :: "string \<Rightarrow> string list option" where
  "plain_cmds payload = do { p \<leftarrow> dg_payload payload; fld_val un_array [] p ''cmd'' }"

text \<open>The descriptions under a key of a command; whatever cannot be read is skipped.\<close>

definition cmd_descs :: "string \<Rightarrow> string \<Rightarrow> (string \<Rightarrow> 'a option) \<Rightarrow> string \<Rightarrow> 'a list" where
  "cmd_descs key array item cmd =
     (case do { m \<leftarrow> un_map cmd; raw \<leftarrow> jget m key; d \<leftarrow> un_map raw; fld_val (un_list item) [] d array } of
        None \<Rightarrow> [] | Some l \<Rightarrow> l)"

definition payload_descs ::
  "(string \<Rightarrow> string list option) \<Rightarrow> string \<Rightarrow> string \<Rightarrow> (string \<Rightarrow> 'a option) \<Rightarrow> message list \<Rightarrow> 'a list" where
  "payload_descs cmds key array item msgs =
     concat (map (\<lambda>m. if m_spine m = [] then []
        else (case cmds (m_spine m) of None \<Rightarrow> [] | Some cs \<Rightarrow> concat (map (cmd_descs key array item) cs))) msgs)"

text \<open>The fields of one description.\<close>

definition un_phase :: "string \<Rightarrow> (string option \<times> string option) option" where
  "un_phase s = do { m \<leftarrow> un_map s; i \<leftarrow> fld_ptr un_number m ''measurementId'';
     p \<leftarrow> fld_ptr un_string m ''acMeasuredPhases''; Some (i, p) }"

type_synonym raw_measurement = "string option \<times> string option \<times> string option \<times> string option"

definition un_measurement :: "string \<Rightarrow> raw_measurement option" where
  "un_measurement s = do { m \<leftarrow> un_map s; i \<leftarrow> fld_ptr un_number m ''measurementId'';
     t \<leftarrow> fld_ptr un_string m ''measurementType''; u \<leftarrow> fld_ptr un_string m ''unit'';
     sc \<leftarrow> fld_ptr un_string m ''scopeType''; Some (i, t, u, sc) }"

type_synonym raw_limit = "string option \<times> string option \<times> string option \<times> string option \<times> string option"

definition un_limit :: "string \<Rightarrow> raw_limit option" where
  "un_limit s = do { m \<leftarrow> un_map s; i \<leftarrow> fld_ptr un_number m ''limitId'';
     k \<leftarrow> fld_ptr un_number m ''measurementId''; c \<leftarrow> fld_ptr un_string m ''limitCategory'';
     sc \<leftarrow> fld_ptr un_string m ''scopeType''; u \<leftarrow> fld_ptr un_string m ''unit''; Some (i, k, c, sc, u) }"

definition un_key :: "string \<Rightarrow> raw_measurement option" where
  "un_key s = do { m \<leftarrow> un_map s; i \<leftarrow> fld_ptr un_number m ''keyId'';
     n \<leftarrow> fld_ptr un_string m ''keyName''; t \<leftarrow> fld_ptr un_string m ''valueType'';
     u \<leftarrow> fld_ptr un_string m ''unit''; Some (i, n, t, u) }"

definition un_setpoint :: "string \<Rightarrow> (string option \<times> string option \<times> string option) option" where
  "un_setpoint s = do { m \<leftarrow> un_map s; i \<leftarrow> fld_ptr un_number m ''setpointId'';
     t \<leftarrow> fld_ptr un_string m ''setpointType''; u \<leftarrow> fld_ptr un_string m ''unit''; Some (i, t, u) }"

text \<open>Storing: an item without identifier is skipped, a later one replaces an earlier one.\<close>

definition put_desc :: "('a \<Rightarrow> string option) \<Rightarrow> ('a \<Rightarrow> 'b) \<Rightarrow> 'a \<Rightarrow> (string \<Rightarrow> 'b option) \<Rightarrow> string \<Rightarrow> 'b option" where
  "put_desc key val x f = (case key x of None \<Rightarrow> f | Some k \<Rightarrow> f(k := Some (val x)))"

section \<open>Loading\<close>

definition phase_key :: "string option \<times> string option \<Rightarrow> string option" where
  "phase_key d = (case d of (Some i, Some p) \<Rightarrow> Some i | _ \<Rightarrow> None)"

definition loadPhaseMap :: "engine \<Rightarrow> int \<Rightarrow> store \<Rightarrow> string \<Rightarrow> string option" where
  "loadPhaseMap e i s =
     fold (put_desc phase_key (\<lambda>d. or_empty (snd d)))
       (payload_descs plain_cmds ''electricalConnectionParameterDescriptionListData''
          ''electricalConnectionParameterDescriptionData'' un_phase
          (desc_messages e i ''ElectricalConnectionParameterDescriptionListData'' s)) (\<lambda>_. None)"

definition phase_of :: "(string \<Rightarrow> string option) \<Rightarrow> string \<Rightarrow> string" where
  "phase_of phases k = (case phases k of Some p \<Rightarrow> phaseLabel p | None \<Rightarrow> [])"

definition measurement_of :: "(string \<Rightarrow> string option) \<Rightarrow> raw_measurement \<Rightarrow> measurement_desc" where
  "measurement_of phases r = (case r of (i, t, u, sc) \<Rightarrow>
     let k = or_empty i;
         d = \<lparr>md_id = k, md_type = or_empty t, md_unit = or_empty u, md_scope = or_empty sc,
              md_phase = phase_of phases k, md_label = []\<rparr>
     in d\<lparr>md_label := buildMeasurementLabel d\<rparr>)"

definition loadMeasurementDescs ::
  "engine \<Rightarrow> int \<Rightarrow> (string \<Rightarrow> string option) \<Rightarrow> store \<Rightarrow> string \<Rightarrow> measurement_desc option" where
  "loadMeasurementDescs e i phases s =
     fold (put_desc fst (measurement_of phases))
       (payload_descs plain_cmds ''measurementDescriptionListData'' ''measurementDescriptionData'' un_measurement
          (desc_messages e i ''MeasurementDescriptionListData'' s)) (\<lambda>_. None)"

definition limit_of ::
  "(string \<Rightarrow> string option) \<Rightarrow> (string \<Rightarrow> measurement_desc option) \<Rightarrow> raw_limit \<Rightarrow> load_limit_desc" where
  "limit_of phases measurements r = (case r of (i, k, c, sc, u) \<Rightarrow>
     let mid = or_empty k;
         d = \<lparr>lm_id = or_empty i, lm_measurement = mid, lm_scope = or_empty sc, lm_category = or_empty c, lm_unit = or_empty u,
              lm_phase = (if mid = [] then [] else phase_of phases mid),
              lm_type = (if mid = [] then [] else (case measurements mid of Some m \<Rightarrow> md_type m | None \<Rightarrow> [])),
              lm_label = []\<rparr>
     in d\<lparr>lm_label := buildLimitLabel d\<rparr>)"

definition loadLimitDescs :: "engine \<Rightarrow> int \<Rightarrow> (string \<Rightarrow> string option) \<Rightarrow> (string \<Rightarrow> measurement_desc option) \<Rightarrow> store
    \<Rightarrow> string \<Rightarrow> load_limit_desc option" where
  "loadLimitDescs e i phases measurements s =
     fold (put_desc fst (limit_of phases measurements))
       (payload_descs plain_cmds ''loadControlLimitDescriptionListData'' ''loadControlLimitDescriptionData'' un_limit
          (desc_messages e i ''LoadControlLimitDescriptionListData'' s)) (\<lambda>_. None)"

definition key_of :: "raw_measurement \<Rightarrow> config_key_desc" where
  "key_of r = (case r of (i, n, t, u) \<Rightarrow>
     \<lparr>kv_id = or_empty i, kv_name = or_empty n, kv_type = or_empty t, kv_unit = or_empty u\<rparr>)"

definition loadDeviceConfigDescs :: "engine \<Rightarrow> int \<Rightarrow> store \<Rightarrow> string \<Rightarrow> config_key_desc option" where
  "loadDeviceConfigDescs e i s =
     fold (put_desc fst key_of)
       (payload_descs plain_cmds ''deviceConfigurationKeyValueDescriptionListData''
          ''deviceConfigurationKeyValueDescriptionData'' un_key
          (desc_messages e i ''DeviceConfigurationKeyValueDescriptionListData'' s)) (\<lambda>_. None)"

definition loadDescriptionContext :: "engine \<Rightarrow> int \<Rightarrow> store \<Rightarrow> description_context" where
  "loadDescriptionContext e i s =
     (let phases = loadPhaseMap e i s;
          ms' = loadMeasurementDescs e i phases s
      in \<lparr>dc_measurements = ms', dc_limits = loadLimitDescs e i phases ms' s, dc_keys = loadDeviceConfigDescs e i s\<rparr>)"

definition setpoint_label :: "string option \<times> string option \<times> string option \<Rightarrow> string" where
  "setpoint_label r = (case r of (i, t, u) \<Rightarrow>
     (case t of Some n \<Rightarrow> n | None \<Rightarrow> ''Setpoint '' @ or_empty i) @ (case u of Some n \<Rightarrow> '' ['' @ n @ '']'' | None \<Rightarrow> []))"

definition loadSetpointDescriptions :: "engine \<Rightarrow> int \<Rightarrow> store \<Rightarrow> string \<Rightarrow> string option" where
  "loadSetpointDescriptions e i s =
     fold (put_desc fst setpoint_label)
       (payload_descs ExtractCmdArray ''setpointDescriptionListData'' ''setpointDescriptionData'' un_setpoint
          (desc_messages e i ''SetpointDescriptionListData'' s)) (\<lambda>_. None)"

section \<open>Lemmas\<close>

text \<open>A lookup after loading: the last item with the identifier.\<close>

lemma fold_put_desc:
  "fold (put_desc key val) xs f k =
     (if \<exists>x \<in> set xs. key x = Some k then Some (val (last (filter (\<lambda>x. key x = Some k) xs))) else f k)"
proof (induction xs rule: rev_induct)
  case (snoc x xs)
  then show ?case by (cases "key x") (auto simp: put_desc_def)
qed simp

lemma last_filter: "\<exists>x \<in> set xs. P x \<Longrightarrow> last (filter P xs) \<in> set xs \<and> P (last (filter P xs))"
  using last_in_set [of "filter P xs"] by (auto simp: filter_empty_conv)

lemma measurement_phase: "loadMeasurementDescs e i phases s j = Some m \<Longrightarrow> md_phase m = phase_of phases j"
  using last_filter [of _ "\<lambda>x. fst x = Some j"]
  by (fastforce simp: loadMeasurementDescs_def fold_put_desc measurement_of_def or_empty_def Let_def split: if_splits prod.splits)

lemma limit_label: "buildLimitLabel d \<noteq> [] \<and> (lm_scope d = [] \<and> lm_phase d = [] \<longrightarrow> buildLimitLabel d = ''Limit '' @ lm_id d)"
  by (simp add: buildLimitLabel_def Let_def part_def)

lemma limit_of_fields:
  assumes "d = limit_of phases ms' (i, k, c, sc, u)"
  shows "lm_id d = or_empty i" "lm_measurement d = or_empty k" "lm_unit d = or_empty u" "lm_scope d = or_empty sc"
    "lm_phase d = (if or_empty k = [] then [] else phase_of phases (or_empty k))"
    "lm_type d = (if or_empty k = [] then [] else (case ms' (or_empty k) of Some m \<Rightarrow> md_type m | None \<Rightarrow> []))"
    "lm_label d = buildLimitLabel d"
  using assms by (simp_all add: limit_of_def Let_def buildLimitLabel_def)

lemma plain_cmds_single:
  assumes "json_valid h" and "\<forall>kv \<in> set m. ok_member kv"
  shows "plain_cmds (dg_text h (plain_obj m)) = None"
proof -
  have d: "decode (plain_obj m) = Some (JObj (map (\<lambda>kv. (fst kv, trim_ws (snd kv))) m))"
    by (rule decode_obj [OF assms(2)])
  have v: "json_valid (plain_obj m)" by (rule obj_valid [OF assms(2)])
  show ?thesis using dg_text_payload [OF assms(1) v] d
    by (simp add: plain_cmds_def fld_val_def fld_ptr_def un_ptr_def un_array_def)
qed

section \<open>Properties\<close>

text \<open>What the description of a limit says: it is that of the last description with its identifier among
  the replies considered, with phase and type taken from the measurement it refers to; it is never
  unlabelled, and without scope and phase it is named by its identifier.\<close>

theorem limit_descriptions:
  assumes "items = payload_descs plain_cmds ''loadControlLimitDescriptionListData'' ''loadControlLimitDescriptionData''
     un_limit (desc_messages e i ''LoadControlLimitDescriptionListData'' s)"
    and "c = loadDescriptionContext e i s"
  shows "case dc_limits c k of
      None \<Rightarrow> \<forall>r \<in> set items. fst r \<noteq> Some k
    | Some d \<Rightarrow> \<exists>mid cat sc u. last (filter (\<lambda>r. fst r = Some k) items) = (Some k, mid, cat, sc, u)
        \<and> (Some k, mid, cat, sc, u) \<in> set items
        \<and> lm_id d = k \<and> lm_measurement d = or_empty mid \<and> lm_unit d = or_empty u \<and> lm_scope d = or_empty sc
        \<and> lm_phase d = (if or_empty mid = [] then [] else phase_of (loadPhaseMap e i s) (or_empty mid))
        \<and> (case dc_measurements c (or_empty mid) of
             Some m \<Rightarrow> or_empty mid \<noteq> [] \<longrightarrow> lm_type d = md_type m \<and> lm_phase d = md_phase m
           | None \<Rightarrow> lm_type d = [])
        \<and> lm_label d \<noteq> []
        \<and> (lm_scope d = [] \<and> lm_phase d = [] \<longrightarrow> lm_label d = ''Limit '' @ k)"
proof (cases "\<exists>r \<in> set items. fst r = Some k")
  case False
  then show ?thesis using assms by (simp add: loadDescriptionContext_def loadLimitDescs_def fold_put_desc Let_def)
next
  case True
  define r where "r = last (filter (\<lambda>r. fst r = Some k) items)"
  have ne: "filter (\<lambda>r. fst r = Some k) items \<noteq> []" using True by (auto simp: filter_empty_conv)
  have r: "r \<in> set items \<and> fst r = Some k" using last_in_set [OF ne] by (simp add: r_def)
  obtain mid cat sc u where ru: "r = (Some k, mid, cat, sc, u)" using r by (cases r) auto
  have ph: "md_phase m = phase_of (loadPhaseMap e i s) j" if "dc_measurements c j = Some m" for j m
    using that assms(2) measurement_phase by (simp add: loadDescriptionContext_def Let_def)
  let ?d = "limit_of (loadPhaseMap e i s) (dc_measurements c) r"
  have d: "dc_limits c k = Some ?d"
    using True assms unfolding r_def by (simp add: loadDescriptionContext_def loadLimitDescs_def fold_put_desc Let_def)
  note f = limit_of_fields [of ?d, OF arg_cong [OF ru]]
  have k: "lm_id ?d = k" by (simp add: f or_empty_def)
  have "case dc_measurements c (or_empty mid) of
      Some m \<Rightarrow> or_empty mid \<noteq> [] \<longrightarrow> lm_type ?d = md_type m \<and> lm_phase ?d = md_phase m | None \<Rightarrow> lm_type ?d = []"
    using ph by (simp add: f split: option.splits)
  moreover have "lm_label ?d \<noteq> [] \<and> (lm_scope ?d = [] \<and> lm_phase ?d = [] \<longrightarrow> lm_label ?d = ''Limit '' @ k)"
    unfolding f(7) using limit_label [of ?d] k by simp
  ultimately show ?thesis unfolding d option.case using r k f(2-5)
    by (intro exI [of _ mid] exI [of _ cat] exI [of _ sc] exI [of _ u]) (simp add: ru r_def [symmetric])
qed

text \<open>One limit described.\<close>

definition described_message :: message where
  "described_message = empty_message\<lparr>m_id := 1, m_trace := 1, m_type := ''data'', m_classifier := ''reply'',
     m_fn := ''LoadControlLimitDescriptionListData'',
     m_spine := ''{\"datagram\":{\"payload\":{\"cmd\":[{\"loadControlLimitDescriptionListData\":{\"loadControlLimitDescriptionData\":[{\"limitId\":3,\"unit\":\"A\"}]}}]}}}''\<rparr>"

definition described_store :: store where
  "described_store = (migrated [])\<lparr>st_traces := [sample_trace\<lparr>t_id := 1\<rparr>], st_messages := [described_message]\<rparr>"

lemma described_items:
  "payload_descs plain_cmds ''loadControlLimitDescriptionListData'' ''loadControlLimitDescriptionData''
     un_limit (desc_messages test_engine 1 ''LoadControlLimitDescriptionListData'' described_store)
   = [(Some ''3'', None, None, None, Some ''A'')]"
  by code_simp

theorem limit_descriptions_witness:
  "map_option lm_label (dc_limits (loadDescriptionContext test_engine 1 described_store) ''3'') = Some ''Limit 3''"
proof -
  let ?c = "loadDescriptionContext test_engine 1 described_store"
  from limit_descriptions [OF described_items [symmetric] refl, of "''3''"]
  obtain d where d: "dc_limits ?c ''3'' = Some d" "lm_id d = ''3''" "lm_scope d = []" "lm_phase d = []"
      "lm_scope d = [] \<and> lm_phase d = [] \<longrightarrow> lm_label d = ''Limit 3''"
    by (auto simp: or_empty_def split: option.splits)
  then show ?thesis by simp
qed

text \<open>Descriptions whose command arrives as a single object instead of an array of one are not read, although
  the values of such a datagram are.\<close>

theorem descriptions_need_arrays:
  assumes "json_valid h" and "\<forall>kv \<in> set m. ok_member kv"
  shows "payload_descs plain_cmds key array item [msg\<lparr>m_spine := dg_text h (plain_obj m)\<rparr>] = []
    \<and> ExtractCmdArray (dg_text h (plain_obj m)) = Some [plain_obj m]
    \<and> payload_descs ExtractCmdArray key array item [msg\<lparr>m_spine := dg_text h (plain_obj m)\<rparr>]
      = cmd_descs key array item (plain_obj m)"
proof -
  have "dg_text h (plain_obj m) \<noteq> []" by (simp add: dg_text_def plain_obj_def)
  then show ?thesis
    using plain_cmds_single [OF assms] ExtractCmdArray_single [OF assms] by (simp add: payload_descs_def)
qed

theorem descriptions_need_arrays_witness:
  "payload_descs plain_cmds ''a'' ''b'' un_limit [empty_message\<lparr>m_spine := dg_text ''{}'' (plain_obj [(''a'', ''1'')])\<rparr>] = []
   \<and> ExtractCmdArray (dg_text ''{}'' (plain_obj [(''a'', ''1'')])) = Some [plain_obj [(''a'', ''1'')]]"
proof -
  have v: "json_valid ''{}''" "\<forall>kv \<in> set [(''a'', ''1'')]. ok_member kv" by code_simp+
  show ?thesis using descriptions_need_arrays [OF v, of "''a''" "''b''" un_limit empty_message] by blast
qed

end
