(* ===== verification/TimeSeries.thy ===== *)
theory TimeSeries
  imports Descriptions OrderedMap
begin

text \<open>
  \<open>internal/api/timeseries.go\<close> and \<open>handleChartData\<close> of \<open>charts.go\<close>: the values of a trace as series, one per
  identifier. Query parameters arrive decoded; a time that does not parse is \<open>None\<close>, as in the code.
\<close>

section \<open>Definitions\<close>

record data_point =
  dp_time :: time
  dp_value :: rat
  dp_msg :: int
  dp_active :: "bool option"

record series =
  sr_id :: string
  sr_label :: string
  sr_unit :: string
  sr_points :: "data_point list"

record series_label =
  sl_label :: string
  sl_unit :: string

type_synonym labels = "string \<Rightarrow> series_label option"

definition message_items :: "extraction \<Rightarrow> string \<Rightarrow> message \<Rightarrow> (message \<times> data_item) list" where
  "message_items d filterID m =
     (if m_classifier m \<notin> set (x_classifiers d) then []
      else if m_spine m = [] then []
      else map (Pair m) (filter (\<lambda>it. \<not> (filterID \<noteq> [] \<and> i_id it \<noteq> filterID)) (ExtractGenericData (m_spine m) d)))"

definition new_series :: "labels \<Rightarrow> string \<Rightarrow> series" where
  "new_series labels k = (case labels k of
       Some l \<Rightarrow> \<lparr>sr_id = k, sr_label = sl_label l, sr_unit = sl_unit l, sr_points = []\<rparr>
     | None \<Rightarrow> \<lparr>sr_id = k, sr_label = k, sr_unit = [], sr_points = []\<rparr>)"

definition item_point :: "message \<times> data_item \<Rightarrow> data_point" where
  "item_point x = (case x of (m, it) \<Rightarrow>
     \<lparr>dp_time = m_time m, dp_value = i_value it, dp_msg = m_id m, dp_active = i_active it\<rparr>)"

definition add_item :: "labels \<Rightarrow> message \<times> data_item \<Rightarrow> (string, series) omap \<Rightarrow> (string, series) omap" where
  "add_item labels x s =
     (let k = i_id (snd x); sr = (case om_get s k of Some v \<Rightarrow> v | None \<Rightarrow> new_series labels k)
      in om_put k (sr\<lparr>sr_points := sr_points sr @ [item_point x]\<rparr>) s)"

definition extractGenericSeries :: "message list \<Rightarrow> extraction \<Rightarrow> labels \<Rightarrow> string \<Rightarrow> series list" where
  "extractGenericSeries msgs d labels filterID =
     om_values (fold (\<lambda>m s. fold (add_item labels) (message_items d filterID m) s) msgs om_empty)"

section \<open>The time series request\<close>

definition builtInDescriptors :: "string \<Rightarrow> extraction option" where
  "builtInDescriptors = map_of
     [(''measurement'', \<lparr>x_cmd = ''measurementListData'', x_array = ''measurementData'', x_id = ''measurementId'',
         x_classifiers = [''reply'', ''notify''], x_active = []\<rparr>),
      (''loadcontrol'', \<lparr>x_cmd = ''loadControlLimitListData'', x_array = ''loadControlLimitData'', x_id = ''limitId'',
         x_classifiers = [''reply'', ''notify'', ''write''], x_active = ''isLimitActive''\<rparr>),
      (''setpoint'', \<lparr>x_cmd = ''setpointListData'', x_array = ''setpointData'', x_id = ''setpointId'',
         x_classifiers = [''reply'', ''notify'', ''write''], x_active = ''isSetpointActive''\<rparr>)]"

definition builtInFunctionSets :: "string \<Rightarrow> string option" where
  "builtInFunctionSets = map_of [(''measurement'', ''MeasurementListData''),
     (''loadcontrol'', ''LoadControlLimitListData''), (''setpoint'', ''SetpointListData'')]"

definition measurement_labels :: "description_context \<Rightarrow> labels" where
  "measurement_labels c = (\<lambda>k. map_option (\<lambda>m. \<lparr>sl_label = md_label m, sl_unit = md_unit m\<rparr>) (dc_measurements c k))"

definition limit_labels :: "description_context \<Rightarrow> labels" where
  "limit_labels c = (\<lambda>k. map_option (\<lambda>m. \<lparr>sl_label = lm_label m, sl_unit = lm_unit m\<rparr>) (dc_limits c k))"

definition setpoint_labels :: "engine \<Rightarrow> int \<Rightarrow> store \<Rightarrow> labels" where
  "setpoint_labels e i s = (\<lambda>k. map_option (\<lambda>l. \<lparr>sl_label = l, sl_unit = []\<rparr>) (loadSetpointDescriptions e i s k))"

definition buildLabelsForType :: "engine \<Rightarrow> int \<Rightarrow> store \<Rightarrow> string \<Rightarrow> labels" where
  "buildLabelsForType e i s dataType =
     (if dataType = ''measurement'' then measurement_labels (loadDescriptionContext e i s)
      else if dataType = ''loadcontrol'' then limit_labels (loadDescriptionContext e i s)
      else if dataType = ''setpoint'' then setpoint_labels e i s
      else (\<lambda>_. None))"

definition data_filter :: "string \<Rightarrow> time option \<Rightarrow> time option \<Rightarrow> message_filter" where
  "data_filter fn from to = no_filter\<lparr>mf_type := ''data'', mf_limit := 100000, mf_from := from, mf_to := to, mf_fn := fn\<rparr>"

text \<open>\<open>type\<close>, \<open>timeFrom\<close>, \<open>timeTo\<close> and the identifier parameter of the type.\<close>

definition handleTimeseries ::
  "engine \<Rightarrow> int \<Rightarrow> string \<Rightarrow> time option \<Rightarrow> time option \<Rightarrow> string \<Rightarrow> store \<Rightarrow> string + string \<times> series list" where
  "handleTimeseries e i typ from to filterID s =
     (let dataType = (if typ = [] then ''measurement'' else typ) in
      case builtInDescriptors dataType of
        None \<Rightarrow> Inl (''unknown type: '' @ dataType)
      | Some d \<Rightarrow> (case ListMessages e i (data_filter (or_empty (builtInFunctionSets dataType)) from to) s of
            None \<Rightarrow> Inl ''list messages''
          | Some msgs \<Rightarrow> Inr (dataType, extractGenericSeries msgs d (buildLabelsForType e i s dataType) filterID)))"

section \<open>Charts\<close>

record chart_source =
  sc_fn :: string
  sc_cmd :: string
  sc_array :: string
  sc_id :: string
  sc_classifiers :: "string list"
  sc_filter :: "string list"

definition activeFieldForFunctionSet :: "string \<Rightarrow> string" where
  "activeFieldForFunctionSet fn = (if fn = ''LoadControlLimitListData'' then ''isLimitActive''
     else if fn = ''SetpointListData'' then ''isSetpointActive'' else [])"

definition source_extraction :: "chart_source \<Rightarrow> extraction" where
  "source_extraction src = \<lparr>x_cmd = sc_cmd src, x_array = sc_array src, x_id = sc_id src,
     x_classifiers = sc_classifiers src, x_active = activeFieldForFunctionSet (sc_fn src)\<rparr>"

definition source_labels :: "engine \<Rightarrow> int \<Rightarrow> store \<Rightarrow> string \<Rightarrow> labels" where
  "source_labels e i s fn =
     (if fn = ''MeasurementListData'' then measurement_labels (loadDescriptionContext e i s)
      else if fn = ''LoadControlLimitListData'' then limit_labels (loadDescriptionContext e i s)
      else if fn = ''SetpointListData'' then setpoint_labels e i s
      else (\<lambda>_. None))"

text \<open>One identifier filters during the extraction, several filter the series after it.\<close>

definition filtered_series :: "message list \<Rightarrow> extraction \<Rightarrow> labels \<Rightarrow> string list \<Rightarrow> series list" where
  "filtered_series msgs d labels ids =
     (let series = extractGenericSeries msgs d labels (case ids of [k] \<Rightarrow> k | _ \<Rightarrow> [])
      in if 1 < length ids then filter (\<lambda>s. sr_id s \<in> set ids) series else series)"

definition source_series ::
  "engine \<Rightarrow> int \<Rightarrow> time option \<Rightarrow> time option \<Rightarrow> store \<Rightarrow> chart_source \<Rightarrow> series list" where
  "source_series e i from to s src =
     (case ListMessages e i (data_filter (sc_fn src) from to) s of
        None \<Rightarrow> []
      | Some msgs \<Rightarrow> filtered_series msgs (source_extraction src) (source_labels e i s (sc_fn src)) (sc_filter src))"

text \<open>\<open>json.Unmarshal\<close> of a chart's sources.\<close>

definition un_source :: "string \<Rightarrow> chart_source option" where
  "un_source t = do { m \<leftarrow> un_map t; f \<leftarrow> fld_val un_string [] m ''functionSet''; c \<leftarrow> fld_val un_string [] m ''cmdKey'';
     a \<leftarrow> fld_val un_string [] m ''dataArrayKey''; k \<leftarrow> fld_val un_string [] m ''idField'';
     cs \<leftarrow> fld_val (un_list (\<lambda>v. case decode v of Some JNull \<Rightarrow> Some [] | _ \<Rightarrow> un_string v)) [] m ''classifiers'';
     fs \<leftarrow> fld_val (un_list (\<lambda>v. case decode v of Some JNull \<Rightarrow> Some [] | _ \<Rightarrow> un_string v)) [] m ''filterIds'';
     Some \<lparr>sc_fn = f, sc_cmd = c, sc_array = a, sc_id = k, sc_classifiers = cs, sc_filter = fs\<rparr> }"

definition handleChartData ::
  "engine \<Rightarrow> int \<Rightarrow> int \<Rightarrow> time option \<Rightarrow> time option \<Rightarrow> store \<Rightarrow> string + string \<times> series list" where
  "handleChartData e i chart from to s =
     (case ChartGet chart s of
        None \<Rightarrow> Inl ''chart not found''
      | Some cd \<Rightarrow> (case un_list un_source (cd_sources cd) of
            None \<Rightarrow> Inl ''invalid sources JSON''
          | Some srcs \<Rightarrow> Inr (cd_type cd, concat (map (source_series e i from to s) srcs))))"

section \<open>Lemmas\<close>

definition put_point :: "labels \<Rightarrow> message \<times> data_item \<Rightarrow> series option \<Rightarrow> series" where
  "put_point labels x v = (let sr = (case v of Some w \<Rightarrow> w | None \<Rightarrow> new_series labels (i_id (snd x)))
     in sr\<lparr>sr_points := sr_points sr @ [item_point x]\<rparr>)"

interpretation item_series: ordered_accumulator om_empty om_get om_put om_keys om_wf
    "\<lambda>x. i_id (snd x)" "put_point labels" "add_item labels" for labels
  by unfold_locales (simp add: add_item_def put_point_def Let_def)

definition all_items :: "extraction \<Rightarrow> string \<Rightarrow> message list \<Rightarrow> (message \<times> data_item) list" where
  "all_items d filterID msgs = concat (map (message_items d filterID) msgs)"

lemma fold_all_items:
  "fold (\<lambda>m s. fold (add_item labels) (message_items d k m) s) msgs s = fold (add_item labels) (all_items d k msgs) s"
  by (induction msgs arbitrary: s) (simp_all add: all_items_def)

lemma fold_put_point:
  "xs \<noteq> [] \<Longrightarrow> \<forall>x \<in> set xs. i_id (snd x) = k \<Longrightarrow>
   fold (\<lambda>x v. Some (put_point labels x v)) xs None = Some ((new_series labels k)\<lparr>sr_points := map item_point xs\<rparr>)"
proof (induction xs rule: rev_induct)
  case (snoc x xs)
  then show ?case by (cases "xs = []") (auto simp: put_point_def Let_def new_series_def split: option.splits)
qed simp

text \<open>The series, read off the items.\<close>

definition series_of :: "labels \<Rightarrow> (message \<times> data_item) list \<Rightarrow> string \<Rightarrow> series" where
  "series_of labels xs k = (new_series labels k)\<lparr>sr_points := map item_point (filter (\<lambda>x. i_id (snd x) = k) xs)\<rparr>"

lemma sr_id_series_of [simp]: "sr_id (series_of labels xs k) = k"
  by (simp add: series_of_def new_series_def split: option.splits)

lemma extract_eq:
  "extractGenericSeries msgs d labels k =
     map (series_of labels (all_items d k msgs)) (first_seen (map (\<lambda>x. i_id (snd x)) (all_items d k msgs)))"
proof -
  let ?xs = "all_items d k msgs"
  have "om_get (fold (add_item labels) ?xs om_empty) j = Some (series_of labels ?xs j)"
    if "j \<in> set (first_seen (map (\<lambda>x. i_id (snd x)) ?xs))" for j
  proof -
    have "filter (\<lambda>x. i_id (snd x) = j) ?xs \<noteq> []" using that by (auto simp: filter_empty_conv)
    moreover have "\<forall>x \<in> set (filter (\<lambda>x. i_id (snd x) = j) ?xs). i_id (snd x) = j" by simp
    ultimately show ?thesis unfolding item_series.get_feed om.get_empty series_of_def by (rule fold_put_point)
  qed
  then show ?thesis
    by (simp add: extractGenericSeries_def fold_all_items om_values_eq item_series.keys_feed_empty)
qed

lemma all_items_filter:
  "k \<noteq> [] \<Longrightarrow> all_items d k msgs = filter (\<lambda>x. i_id (snd x) = k) (all_items d [] msgs)"
  by (induction msgs) (simp_all add: all_items_def message_items_def filter_map comp_def)

lemma first_seen_filter: "first_seen (filter P xs) = filter P (first_seen xs)"
  by (induction xs) (auto simp: conj_commute intro: filter_cong)

lemma first_seen_map_filter:
  "first_seen (map f (filter (\<lambda>x. P (f x)) xs)) = filter P (first_seen (map f xs))"
  using first_seen_filter [of P "map f xs"] by (simp add: filter_map comp_def)

lemma length_by_key:
  "distinct js \<Longrightarrow> f ` set ys \<subseteq> set js \<Longrightarrow> sum_list (map (\<lambda>j. length (filter (\<lambda>x. f x = j) ys)) js) = length ys"
proof (induction js arbitrary: ys)
  case (Cons j js)
  let ?r = "filter (\<lambda>x. f x \<noteq> j) ys"
  have "filter (\<lambda>x. f x = i) ?r = filter (\<lambda>x. f x = i) ys" if "i \<in> set js" for i
    using that Cons.prems(1) by (auto intro: filter_cong)
  then have "map (\<lambda>i. length (filter (\<lambda>x. f x = i) ys)) js = map (\<lambda>i. length (filter (\<lambda>x. f x = i) ?r)) js" by simp
  moreover have "sum_list (map (\<lambda>i. length (filter (\<lambda>x. f x = i) ?r)) js) = length ?r"
    using Cons.prems by (intro Cons.IH) auto
  ultimately have "sum_list (map (\<lambda>i. length (filter (\<lambda>x. f x = i) ys)) js) = length ?r" by (simp only:)
  then show ?case using sum_length_filter_compl [of "\<lambda>x. f x = j" ys] by simp
qed simp

section \<open>Properties\<close>

text \<open>C23: the series of a trace: one per identifier, in the order in which the identifiers first appear, labelled
  from the descriptions or else by the identifier, holding the values of its items in message order,
  every item of every accepted message in exactly one of them.\<close>

theorem series_content:
  "extractGenericSeries msgs d labels k =
     map (\<lambda>j. \<lparr>sr_id = j, sr_label = (case labels j of Some l \<Rightarrow> sl_label l | None \<Rightarrow> j),
               sr_unit = (case labels j of Some l \<Rightarrow> sl_unit l | None \<Rightarrow> []),
               sr_points = map item_point (filter (\<lambda>x. i_id (snd x) = j) (concat (map (message_items d k) msgs)))\<rparr>)
       (first_seen (map (\<lambda>x. i_id (snd x)) (concat (map (message_items d k) msgs))))
   \<and> sum_list (map (\<lambda>s. length (sr_points s)) (extractGenericSeries msgs d labels k))
     = length (concat (map (message_items d k) msgs))"
proof
  let ?xs = "all_items d k msgs"
  show "extractGenericSeries msgs d labels k =
     map (\<lambda>j. \<lparr>sr_id = j, sr_label = (case labels j of Some l \<Rightarrow> sl_label l | None \<Rightarrow> j),
               sr_unit = (case labels j of Some l \<Rightarrow> sl_unit l | None \<Rightarrow> []),
               sr_points = map item_point (filter (\<lambda>x. i_id (snd x) = j) (concat (map (message_items d k) msgs)))\<rparr>)
       (first_seen (map (\<lambda>x. i_id (snd x)) (concat (map (message_items d k) msgs))))"
    by (simp add: extract_eq all_items_def series_of_def new_series_def split: option.splits)
  have "sum_list (map (\<lambda>s. length (sr_points s)) (extractGenericSeries msgs d labels k))
      = sum_list (map (\<lambda>j. length (filter (\<lambda>x. i_id (snd x) = j) ?xs)) (first_seen (map (\<lambda>x. i_id (snd x)) ?xs)))"
    by (simp add: extract_eq comp_def series_of_def)
  also have "\<dots> = length ?xs" by (rule length_by_key) simp_all
  finally show "sum_list (map (\<lambda>s. length (sr_points s)) (extractGenericSeries msgs d labels k))
     = length (concat (map (message_items d k) msgs))" by (simp add: all_items_def)
qed

text \<open>A chart source's identifiers select series alike whether the code filters while it extracts (one
  identifier) or afterwards (several): the series of all items with those identifiers, unchanged and in
  the same order. No identifier, or the empty one alone, selects every series.\<close>

theorem chart_filter:
  "filtered_series msgs d labels ids =
     (if ids = [] \<or> ids = [[]] then extractGenericSeries msgs d labels []
      else filter (\<lambda>s. sr_id s \<in> set ids) (extractGenericSeries msgs d labels []))"
proof (cases "\<exists>k. ids = [k] \<and> k \<noteq> []")
  case True
  then obtain k where k: "ids = [k]" "k \<noteq> []" by blast
  let ?xs = "all_items d [] msgs"
  have "series_of labels (filter (\<lambda>x. i_id (snd x) = k) ?xs) k = series_of labels ?xs k"
    by (simp add: series_of_def)
  then show ?thesis using k
    by (simp add: filtered_series_def extract_eq all_items_filter [OF k(2)] filter_map comp_def
        first_seen_map_filter [of "\<lambda>x. i_id (snd x)" "\<lambda>j. j = k"] cong: map_cong)
next
  case False
  then show ?thesis by (cases ids; cases "tl ids") (auto simp: filtered_series_def Let_def)
qed

text \<open>The sources of the built-in charts.\<close>

definition chart_type_name :: "string \<Rightarrow> string" where
  "chart_type_name n = (if n = ''Measurements'' then ''measurement'' else if n = ''Load Control'' then ''loadcontrol'' else ''setpoint'')"

definition type_source :: "string \<Rightarrow> chart_source option" where
  "type_source t = (case (builtInDescriptors t, builtInFunctionSets t) of
       (Some d, Some fn) \<Rightarrow> Some \<lparr>sc_fn = fn, sc_cmd = x_cmd d, sc_array = x_array d, sc_id = x_id d,
          sc_classifiers = x_classifiers d, sc_filter = []\<rparr>
     | _ \<Rightarrow> None)"

definition source_members :: "string \<Rightarrow> string \<Rightarrow> string \<Rightarrow> string \<Rightarrow> string list \<Rightarrow> jobj" where
  "source_members f c a k cs = [(''functionSet'', quote f), (''cmdKey'', quote c), (''dataArrayKey'', quote a),
     (''idField'', quote k), (''classifiers'', arr_text (map quote cs))]"

lemma source_text:
  assumes "ascii f" "ascii c" "ascii a" "ascii k" "\<forall>x \<in> set cs. ascii x"
  shows "un_list un_source (arr_text [plain_obj (source_members f c a k cs)])
    = Some [\<lparr>sc_fn = f, sc_cmd = c, sc_array = a, sc_id = k, sc_classifiers = cs, sc_filter = []\<rparr>]"
proof -
  let ?m = "source_members f c a k cs"
  have v: "\<forall>x \<in> set (map quote cs). json_valid x" using assms(5) by (auto intro: quote_valid)
  have ok: "\<forall>kv \<in> set ?m. ok_member kv"
    using assms quote_valid arr_text_valid [OF v] by (simp add: source_members_def ok_member_def)
  have m: "un_map (plain_obj ?m) = Some ?m"
    unfolding un_map_plain [OF ok] by (simp add: source_members_def trim_quote)
  have cs: "un_list (\<lambda>v. case decode v of Some JNull \<Rightarrow> Some [] | _ \<Rightarrow> un_string v) (arr_text (map quote cs)) = Some cs"
  proof -
    have "all_some (map (\<lambda>x. case decode (quote x) of Some JNull \<Rightarrow> Some [] | _ \<Rightarrow> un_string (quote x)) cs) = Some cs"
      using assms(5) by (induction cs) (simp_all add: decode_quote un_string_quote)
    then show ?thesis by (simp add: un_list_def un_array_text [OF v] comp_def trim_quote)
  qed
  have d: "decode (arr_text (map quote cs)) = Some (JArr (map quote cs))"
    using decode_arr_text [OF v] by (simp add: comp_def trim_quote)
  have "un_source (plain_obj ?m) = Some \<lparr>sc_fn = f, sc_cmd = c, sc_array = a, sc_id = k, sc_classifiers = cs, sc_filter = []\<rparr>"
    using assms cs d unfolding un_source_def m
    by (simp add: source_members_def fld_val_def fld_ptr_def un_ptr_def jfield_def to_lower_def lower_char_def
        decode_quote un_string_quote)
  then show ?thesis using un_array_text [of "[plain_obj ?m]"] obj_valid [OF ok] by (simp add: un_list_def)
qed

definition letter :: "char \<Rightarrow> bool" where
  "letter c \<longleftrightarrow> 65 \<le> ord c \<and> ord c \<le> 90 \<or> 97 \<le> ord c \<and> ord c \<le> 122"

lemma quote_letter: "letter c \<Longrightarrow> quote_char c = [c] \<and> ord c < 128"
proof -
  assume l: "letter c"
  have "c \<noteq> d" if "\<not> letter d" for d using l that by blast
  then have "c \<noteq> CHR 0x22" "c \<noteq> CHR 0x5C" "c \<noteq> CHR 0x08" "c \<noteq> CHR 0x0C" "c \<noteq> CHR 0x0A" "c \<noteq> CHR 0x0D" "c \<noteq> CHR 0x09"
      "c \<noteq> CHR ''<''" "c \<noteq> CHR ''>''" "c \<noteq> CHR ''&''"
    by (simp_all add: letter_def)
  then show ?thesis using l by (simp add: quote_char_def letter_def) linarith
qed

lemma quote_letters: "list_all letter s \<Longrightarrow> ascii s \<and> quote s = CHR 0x22 # s @ [CHR 0x22]"
proof -
  assume "list_all letter s"
  then have "ascii s \<and> concat (map quote_char s) = s" by (induction s) (auto simp: quote_letter)
  then show ?thesis by (simp add: quote_def quote_body_ascii)
qed

lemma built_in_texts:
  "''[{\"functionSet\":\"MeasurementListData\",\"cmdKey\":\"measurementListData\",\"dataArrayKey\":\"measurementData\",\"idField\":\"measurementId\",\"classifiers\":[\"reply\",\"notify\"]}]''
     = arr_text [plain_obj (source_members ''MeasurementListData'' ''measurementListData'' ''measurementData'' ''measurementId'' [''reply'', ''notify''])]"
  "''[{\"functionSet\":\"LoadControlLimitListData\",\"cmdKey\":\"loadControlLimitListData\",\"dataArrayKey\":\"loadControlLimitData\",\"idField\":\"limitId\",\"classifiers\":[\"reply\",\"notify\",\"write\"]}]''
     = arr_text [plain_obj (source_members ''LoadControlLimitListData'' ''loadControlLimitListData'' ''loadControlLimitData'' ''limitId'' [''reply'', ''notify'', ''write''])]"
  "''[{\"functionSet\":\"SetpointListData\",\"cmdKey\":\"setpointListData\",\"dataArrayKey\":\"setpointData\",\"idField\":\"setpointId\",\"classifiers\":[\"reply\",\"notify\",\"write\"]}]''
     = arr_text [plain_obj (source_members ''SetpointListData'' ''setpointListData'' ''setpointData'' ''setpointId'' [''reply'', ''notify'', ''write''])]"
  by (simp_all add: source_members_def arr_text_def plain_obj_def plain_member_def quote_letters letter_def)

lemma built_in_source:
  assumes "c \<in> set (built_in_charts now)"
  shows "un_list un_source (cd_sources c) = Some [the (type_source (chart_type_name (cd_name c)))]
    \<and> cd_name c \<in> {''Measurements'', ''Load Control'', ''Setpoints''}"
proof -
  have "cd_name c = ''Measurements'' \<and> un_list un_source (cd_sources c) = Some [the (type_source ''measurement'')]
      \<or> cd_name c = ''Load Control'' \<and> un_list un_source (cd_sources c) = Some [the (type_source ''loadcontrol'')]
      \<or> cd_name c = ''Setpoints'' \<and> un_list un_source (cd_sources c) = Some [the (type_source ''setpoint'')]"
    using assms unfolding built_in_charts_def built_in_texts
    by (auto simp: source_text type_source_def builtInDescriptors_def builtInFunctionSets_def)
  then show ?thesis by (auto simp: chart_type_name_def)
qed

text \<open>A built-in chart shows what the time series request of its type answers.\<close>

theorem built_in_charts_agree:
  assumes "c \<in> set (built_in_charts now)" and "ChartGet chart s = Some c"
  shows "\<exists>series. handleChartData e i chart from to s = Inr (cd_type c, series)
    \<and> handleTimeseries e i (chart_type_name (cd_name c)) from to [] s = Inr (chart_type_name (cd_name c), series)"
proof -
  let ?t = "chart_type_name (cd_name c)"
  note src = built_in_source [OF assms(1)]
  obtain src where t: "type_source ?t = Some src"
    using src by (auto simp: type_source_def chart_type_name_def builtInDescriptors_def builtInFunctionSets_def)
  have q: "query_ok e (data_filter fn from to)" for fn by (simp add: query_ok_def data_filter_def no_filter_def)
  then obtain msgs where m: "ListMessages e i (data_filter (sc_fn src) from to) s = Some msgs"
    by (auto simp: ListMessages_def Let_def)
  have d: "builtInDescriptors ?t = Some (source_extraction src)" "builtInFunctionSets ?t = Some (sc_fn src)"
      "sc_filter src = []" "source_labels e i s (sc_fn src) = buildLabelsForType e i s ?t" "?t \<noteq> []"
    using src t by (auto simp: type_source_def chart_type_name_def builtInDescriptors_def builtInFunctionSets_def
        source_extraction_def activeFieldForFunctionSet_def source_labels_def buildLabelsForType_def)
  have "handleChartData e i chart from to s = Inr (cd_type c, source_series e i from to s src)"
    using assms(2) src t by (simp add: handleChartData_def)
  moreover have "source_series e i from to s src = extractGenericSeries msgs (source_extraction src) (buildLabelsForType e i s ?t) []"
    using m d by (simp add: source_series_def filtered_series_def)
  moreover have "handleTimeseries e i ?t from to [] s
      = Inr (?t, extractGenericSeries msgs (source_extraction src) (buildLabelsForType e i s ?t) [])"
    using m d by (simp add: handleTimeseries_def Let_def or_empty_def)
  ultimately show ?thesis by simp
qed

theorem built_in_charts_agree_witness:
  "\<exists>series. handleChartData test_engine 1 2 None None (migrated (built_in_charts 0)) = Inr (''step'', series)
    \<and> handleTimeseries test_engine 1 ''loadcontrol'' None None [] (migrated (built_in_charts 0)) = Inr (''loadcontrol'', series)"
proof -
  let ?c = "built_in_charts 0 ! 1"
  have "?c \<in> set (built_in_charts 0)" by (simp add: built_in_charts_def)
  moreover have "ChartGet 2 (migrated (built_in_charts 0)) = Some ?c" by (simp add: ChartGet_def migrated_def built_in_charts_def)
  ultimately show ?thesis
    using built_in_charts_agree [of ?c 0 2 "migrated (built_in_charts 0)" test_engine 1 None None]
    by (simp add: built_in_charts_def chart_type_name_def)
qed

end
