(* ===== verification/Writes.thy ===== *)
theory Writes
  imports TimeSeries
begin

text \<open>
  \<open>internal/api/writetracking.go\<close> and \<open>correlation.go\<close>: the writes of limits and setpoints with their results
  and durations, and the messages related to one by their counters. \<open>sort.Slice\<close> is a parameter (it
  promises order and contents, not the order of equal elements), and so is the order in which Go
  visits a map.
\<close>

section \<open>Correlation\<close>

definition computeLatencyMs :: "message \<Rightarrow> message \<Rightarrow> rat" where
  "computeLatencyMs request response = of_int (dur_micro (time_sub (m_time response) (m_time request))) / 1000"

definition classifyRelated :: "message \<Rightarrow> message \<Rightarrow> string" where
  "classifyRelated request response =
     (if m_classifier request = ''read'' then ''read-reply''
      else if m_classifier request = ''write'' then ''write-result''
      else if m_classifier request = ''call''
        then (if m_classifier response = ''notify'' then ''subscription-notify'' else ''call-result'')
      else ''request-response'')"

record related_message =
  rm_message :: message
  rm_relationship :: string
  rm_latency :: rat
  rm_status :: string

definition handleRelatedMessages :: "engine \<Rightarrow> int \<Rightarrow> int \<Rightarrow> store \<Rightarrow> string + related_message list" where
  "handleRelatedMessages e i j s = (case GetMessage i j s of
       None \<Rightarrow> Inl ''message not found''
     | Some msg \<Rightarrow> Inr (
         (if m_ctr msg = [] then []
          else map (\<lambda>r. \<lparr>rm_message = r, rm_relationship = classifyRelated msg r,
                       rm_latency = computeLatencyMs msg r, rm_status = ExtractResultStatus (m_spine r)\<rparr>)
                 (FindByMsgCounterRef e i (m_ctr msg) s))
         @ (if m_ref msg = [] then []
            else map (\<lambda>q. \<lparr>rm_message = q, rm_relationship = classifyRelated q msg,
                       rm_latency = computeLatencyMs q msg, rm_status = ExtractResultStatus (m_spine msg)\<rparr>)
                 (FindByMsgCounter e i (m_ref msg) s))))"

definition positive_param :: "string \<Rightarrow> int \<Rightarrow> int \<Rightarrow> int" where
  "positive_param v least dflt =
     (if v = [] then dflt else (case atoi v of (n, err) \<Rightarrow> if \<not> err \<and> least \<le> n then n else dflt))"

definition handleConversation :: "engine \<Rightarrow> int \<Rightarrow> int \<Rightarrow> string \<Rightarrow> string \<Rightarrow> store \<Rightarrow> string + message list \<times> int" where
  "handleConversation e i j limit offset s = (case GetMessage i j s of
       None \<Rightarrow> Inl ''message not found''
     | Some msg \<Rightarrow>
         if m_type msg \<noteq> ShipMsgTypeData \<or> m_fn msg = [] \<or> m_dev_src msg = [] \<or> m_dev_dst msg = [] then Inr ([], 0)
         else Inr (FindConversationMessages e i (m_dev_src msg) (m_dev_dst msg) (m_fn msg)
                (positive_param limit 1 50) (positive_param offset 0 0) s))"

section \<open>Writes\<close>

record write_entry =
  we_time :: time
  we_msg :: int
  we_source :: string
  we_dest :: string
  we_type :: string
  we_item :: string
  we_label :: string
  we_unit :: string
  we_scope :: string
  we_value :: rat
  we_active :: "bool option"
  we_result :: string
  we_latency :: "rat option"
  we_duration :: "rat option"

record effective_entry =
  ef_item :: string
  ef_label :: string
  ef_unit :: string
  ef_scope :: string
  ef_type :: string
  ef_value :: rat
  ef_active :: "bool option"
  ef_result :: string
  ef_since :: time
  ef_msg :: int

definition enrichWriteLabel ::
  "string \<Rightarrow> string \<Rightarrow> description_context \<Rightarrow> (string \<Rightarrow> string option) \<Rightarrow> string \<times> string \<times> string" where
  "enrichWriteLabel dataType itemID c spLabels =
     (if dataType = ''loadcontrol'' then (case dc_limits c itemID of
          Some l \<Rightarrow> (lm_label l, lm_unit l, lm_scope l) | None \<Rightarrow> (''Limit '' @ itemID, [], []))
      else if dataType = ''setpoint'' then (case spLabels itemID of
          Some l \<Rightarrow> (l, [], []) | None \<Rightarrow> (''Setpoint '' @ itemID, [], []))
      else (itemID, [], []))"

fun first_result :: "message \<Rightarrow> message list \<Rightarrow> string \<times> rat option" where
  "first_result msg [] = (''pending'', None)"
| "first_result msg (r # rs) =
     (let status = ExtractResultStatus (m_spine r)
      in if status \<noteq> [] then (status, Some (computeLatencyMs msg r)) else first_result msg rs)"

definition correlateWriteResult :: "engine \<Rightarrow> int \<Rightarrow> store \<Rightarrow> message \<Rightarrow> string \<times> rat option" where
  "correlateWriteResult e i s msg =
     (if m_ctr msg = [] then (''pending'', None) else first_result msg (FindByMsgCounterRef e i (m_ctr msg) s))"

text \<open>The types with a write classifier, in the order \<open>names\<close> in which the built-in map is visited.\<close>

definition write_types :: "string list \<Rightarrow> (string \<times> extraction \<times> string) list" where
  "write_types names = List.map_filter (\<lambda>n. case (builtInDescriptors n, builtInFunctionSets n) of
       (Some d, Some fn) \<Rightarrow> if ''write'' \<in> set (x_classifiers d) then Some (n, d, fn) else None
     | _ \<Rightarrow> None) names"

definition write_filter :: "(string \<times> extraction \<times> string) list \<Rightarrow> message_filter" where
  "write_filter wds = no_filter\<lparr>mf_classifier := ''write'', mf_fn := join '','' (map (\<lambda>(n, d, fn). fn) wds),
     mf_type := ''data'', mf_limit := 100000\<rparr>"

definition item_entry :: "engine \<Rightarrow> int \<Rightarrow> store \<Rightarrow> string \<Rightarrow> message \<Rightarrow> data_item \<Rightarrow> write_entry" where
  "item_entry e i s n msg it =
     (case enrichWriteLabel n (i_id it) (loadDescriptionContext e i s) (loadSetpointDescriptions e i s) of
        (label, unit, scope) \<Rightarrow> (case correlateWriteResult e i s msg of
          (result, latency) \<Rightarrow>
            \<lparr>we_time = m_time msg, we_msg = m_id msg, we_source = m_dev_src msg, we_dest = m_dev_dst msg,
             we_type = n, we_item = i_id it, we_label = label, we_unit = unit, we_scope = scope,
             we_value = i_value it, we_active = i_active it, we_result = result, we_latency = latency,
             we_duration = None\<rparr>))"

definition message_writes ::
  "engine \<Rightarrow> int \<Rightarrow> store \<Rightarrow> (string \<times> extraction \<times> string) list \<Rightarrow> message \<Rightarrow> write_entry list" where
  "message_writes e i s wds msg =
     (if m_spine msg = [] then []
      else concat (map (\<lambda>(n, d, fn). if m_fn msg \<noteq> fn then []
             else map (item_entry e i s n msg) (ExtractGenericData (m_spine msg) d)) wds))"

definition elapsed_ms :: "write_entry \<Rightarrow> write_entry \<Rightarrow> rat" where
  "elapsed_ms cur next = of_int (dur_micro (time_sub (we_time next) (we_time cur))) / 1000"

fun pair_durations :: "nat list \<Rightarrow> write_entry list \<Rightarrow> write_entry list" where
  "pair_durations (a # b # js) es =
     pair_durations (b # js) (es[a := (es ! a)\<lparr>we_duration := Some (elapsed_ms (es ! a) (es ! b))\<rparr>])"
| "pair_durations _ es = es"

definition indices_by_id :: "write_entry list \<Rightarrow> string \<Rightarrow> nat list" where
  "indices_by_id es = fold (\<lambda>j m. m(we_item (es ! j) := m (we_item (es ! j)) @ [j])) [0..<length es] (\<lambda>_. [])"

text \<open>\<open>ids\<close> is the order in which the map of indices is visited.\<close>

definition computeWriteDurations :: "string list \<Rightarrow> write_entry list \<Rightarrow> write_entry list" where
  "computeWriteDurations ids es = (let byID = indices_by_id es in fold (\<lambda>k. pair_durations (byID k)) ids es)"

definition effective_of :: "write_entry \<Rightarrow> effective_entry" where
  "effective_of e = \<lparr>ef_item = we_item e, ef_label = we_label e, ef_unit = we_unit e, ef_scope = we_scope e,
     ef_type = we_type e, ef_value = we_value e, ef_active = we_active e, ef_result = we_result e,
     ef_since = we_time e, ef_msg = we_msg e\<rparr>"

definition buildEffectiveState :: "write_entry list \<Rightarrow> effective_entry list" where
  "buildEffectiveState es = map effective_of (om_values (fold (\<lambda>e. om_put (we_item e) e) es om_empty))"

definition handleWriteTracking ::
  "engine \<Rightarrow> string list \<Rightarrow> (write_entry list \<Rightarrow> write_entry list) \<Rightarrow> string list \<Rightarrow> int \<Rightarrow> store
     \<Rightarrow> string + write_entry list \<times> effective_entry list" where
  "handleWriteTracking e names srt ids i s =
     (let wds = write_types names in
      if wds = [] then Inr ([], [])
      else (case ListMessages e i (write_filter wds) s of
          None \<Rightarrow> Inl ''list messages''
        | Some msgs \<Rightarrow>
            (let entries = computeWriteDurations ids (srt (concat (map (message_writes e i s wds) msgs)))
             in Inr (entries, buildEffectiveState entries))))"

section \<open>Lemmas\<close>

lemma indices_by_id_eq: "indices_by_id es k = filter (\<lambda>j. we_item (es ! j) = k) [0..<length es]"
proof -
  have "fold (\<lambda>j m. m(we_item (es ! j) := m (we_item (es ! j)) @ [j])) js m k = m k @ filter (\<lambda>j. we_item (es ! j) = k) js"
    for js m by (induction js arbitrary: m) auto
  then show ?thesis by (simp add: indices_by_id_def)
qed

lemma length_pair_durations [simp]: "length (pair_durations js es) = length es"
  by (induction js es rule: pair_durations.induct) auto

text \<open>Where an index of an increasing list is, and which one follows it.\<close>

fun successor :: "nat \<Rightarrow> nat list \<Rightarrow> nat option" where
  "successor k (a # b # js) = (if a = k then Some b else successor k (b # js))"
| "successor k _ = None"

lemma successor_in: "successor k js = Some b \<Longrightarrow> k \<in> set js \<and> b \<in> set js"
  by (induction k js rule: successor.induct) (auto split: if_splits)

lemma pair_durations_nth:
  assumes "distinct js" and "\<forall>j \<in> set js. j < length es" and "k < length es"
  shows "pair_durations js es ! k = (case successor k js of None \<Rightarrow> es ! k
     | Some b \<Rightarrow> (es ! k)\<lparr>we_duration := Some (elapsed_ms (es ! k) (es ! b))\<rparr>)"
  using assms
proof (induction js es rule: pair_durations.induct)
  case (1 a b js es)
  let ?es = "es[a := (es ! a)\<lparr>we_duration := Some (elapsed_ms (es ! a) (es ! b))\<rparr>]"
  have time: "elapsed_ms (?es ! i) (?es ! j) = elapsed_ms (es ! i) (es ! j)" if "i < length es" "j < length es" for i j
  proof -
    have "we_time (?es ! i) = we_time (es ! i)" if "i < length es" for i using that by (cases "a = i") simp_all
    then show ?thesis using that by (simp add: elapsed_ms_def)
  qed
  have ih: "pair_durations (b # js) ?es ! k = (case successor k (b # js) of None \<Rightarrow> ?es ! k
     | Some c \<Rightarrow> (?es ! k)\<lparr>we_duration := Some (elapsed_ms (?es ! k) (?es ! c))\<rparr>)"
    using 1 by simp
  show ?case
  proof (cases "k = a")
    case True
    then have "successor k (b # js) = None" using "1.prems"(1) successor_in [of k "b # js"] by (cases "successor k (b # js)") auto
    then show ?thesis using ih True "1.prems" by simp
  next
    case False
    show ?thesis
    proof (cases "successor k (b # js)")
      case None
      then show ?thesis using ih False by simp
    next
      case (Some c)
      then have "c < length es" using successor_in [OF Some] "1.prems"(2) by auto
      then show ?thesis using ih False Some time [of k c] "1.prems"(3) by simp
    qed
  qed
qed simp_all

lemma fold_pair_durations:
  assumes "distinct ids" and "k < length es" and "\<And>i. distinct (f i) \<and> (\<forall>j \<in> set (f i). j < length es)"
    and "\<And>i j. i \<noteq> j \<Longrightarrow> set (f i) \<inter> set (f j) = {}"
  shows "length (fold (\<lambda>i. pair_durations (f i)) ids es) = length es
    \<and> (\<forall>j < length es. we_time (fold (\<lambda>i. pair_durations (f i)) ids es ! j) = we_time (es ! j))
    \<and> (k \<in> set (f i) \<longrightarrow> fold (\<lambda>i. pair_durations (f i)) ids es ! k =
        (if i \<in> set ids then (case successor k (f i) of None \<Rightarrow> es ! k
           | Some b \<Rightarrow> (es ! k)\<lparr>we_duration := Some (elapsed_ms (es ! k) (es ! b))\<rparr>) else es ! k))"
  using assms(1)
proof (induction ids rule: rev_induct)
  case (snoc l ids)
  let ?r = "fold (\<lambda>i. pair_durations (f i)) ids es"
  have len: "length ?r = length es" and tm: "\<forall>j < length es. we_time (?r ! j) = we_time (es ! j)"
    and val: "k \<in> set (f i) \<longrightarrow> ?r ! k = (if i \<in> set ids then (case successor k (f i) of None \<Rightarrow> es ! k
           | Some b \<Rightarrow> (es ! k)\<lparr>we_duration := Some (elapsed_ms (es ! k) (es ! b))\<rparr>) else es ! k)"
    using snoc by auto
  have nth: "pair_durations (f l) ?r ! j = (case successor j (f l) of None \<Rightarrow> ?r ! j
     | Some b \<Rightarrow> (?r ! j)\<lparr>we_duration := Some (elapsed_ms (?r ! j) (?r ! b))\<rparr>)" if "j < length es" for j
    using that assms(3) [of l] len by (intro pair_durations_nth) auto
  have el: "elapsed_ms (?r ! a) (?r ! b) = elapsed_ms (es ! a) (es ! b)" if "a < length es" "b < length es" for a b
    using that tm by (simp add: elapsed_ms_def)
  have 2: "\<forall>j < length es. we_time (pair_durations (f l) ?r ! j) = we_time (es ! j)"
    using nth tm by (simp split: option.splits)
  have 3: "pair_durations (f l) ?r ! k = (if i \<in> set (ids @ [l]) then (case successor k (f i) of None \<Rightarrow> es ! k
           | Some b \<Rightarrow> (es ! k)\<lparr>we_duration := Some (elapsed_ms (es ! k) (es ! b))\<rparr>) else es ! k)" if "k \<in> set (f i)"
  proof (cases "l = i")
    case True
    then have "?r ! k = es ! k" using val that snoc.prems by simp
    moreover have "b < length es" if "successor k (f i) = Some b" for b using that successor_in assms(3) [of i] by blast
    ultimately show ?thesis using nth [OF assms(2)] el [OF assms(2)] True by (simp split: option.splits)
  next
    case False
    then have "successor k (f l) = None" using that assms(4) [of l i] successor_in [of k "f l"] by (cases "successor k (f l)") auto
    then show ?thesis using nth [OF assms(2)] val that False by simp
  qed
  show ?case using 2 3 len by simp
qed simp

lemma find_filter: "find P xs = (case filter P xs of [] \<Rightarrow> None | b # _ \<Rightarrow> Some b)"
  by (induction xs) auto

lemma successor_filter:
  assumes "P k" and "k < n"
  shows "successor k (filter P [m..<n]) = (if m \<le> k then find P [Suc k..<n] else None)"
  using assms(2)
proof (induction "n - m" arbitrary: m)
  case (Suc d)
  then have m: "m < n" by simp
  then have u: "[m..<n] = m # [Suc m..<n]" by (rule upt_conv_Cons)
  have ih: "successor k (filter P [Suc m..<n]) = (if Suc m \<le> k then find P [Suc k..<n] else None)"
    using Suc by simp
  have nx: "find P [Suc m..<n] = (case filter P [Suc m..<n] of [] \<Rightarrow> None | b # _ \<Rightarrow> Some b)"
    by (rule find_filter)
  show ?case
  proof (cases "P m")
    case True
    then show ?thesis using ih nx unfolding u
      by (cases "filter P [Suc m..<n]"; cases "m = k") (auto simp: not_less_eq_eq split: list.splits)
  next
    case False
    then have "m \<noteq> k" using assms(1) by auto
    then show ?thesis using ih False unfolding u by auto
  qed
qed simp

lemma first_result_cases:
  "first_result msg rs = (case filter (\<lambda>r. ExtractResultStatus (m_spine r) \<noteq> []) rs of
      [] \<Rightarrow> (''pending'', None)
    | r # _ \<Rightarrow> (ExtractResultStatus (m_spine r), Some (computeLatencyMs msg r)))"
  by (induction rs) (simp_all add: Let_def)

section \<open>Properties\<close>

text \<open>The result of a write is that of the first message of the trace, by sequence number, that refers to
  it and carries a result; it is pending exactly when there is none.\<close>

theorem write_result:
  assumes "orders e"
  shows "case correlateWriteResult e i s msg of (result, latency) \<Rightarrow>
     result \<in> {''pending'', ''accepted'', ''rejected''}
   \<and> (result = ''pending'' \<longleftrightarrow> m_ctr msg = [] \<or>
        (\<forall>r \<in> set (st_messages s). m_trace r = i \<and> m_ref r = m_ctr msg \<longrightarrow> ExtractResultStatus (m_spine r) = []))
   \<and> (result \<noteq> ''pending'' \<longrightarrow> (\<exists>r \<in> set (st_messages s). m_trace r = i \<and> m_ref r = m_ctr msg
        \<and> ExtractResultStatus (m_spine r) = result \<and> latency = Some (computeLatencyMs msg r)
        \<and> (\<forall>q \<in> set (st_messages s). m_trace q = i \<and> m_ref q = m_ctr msg \<and> ExtractResultStatus (m_spine q) \<noteq> []
             \<longrightarrow> m_seq r \<le> m_seq q)))"
proof (cases "m_ctr msg = []")
  case True
  then show ?thesis by (simp add: correlateWriteResult_def)
next
  case False
  let ?refs = "FindByMsgCounterRef e i (m_ctr msg) s"
  let ?hits = "filter (\<lambda>r. ExtractResultStatus (m_spine r) \<noteq> []) ?refs"
  have set: "set ?refs = {r \<in> set (st_messages s). m_trace r = i \<and> m_ref r = m_ctr msg}"
    using e_by_seq_perm(1) [OF assms] by (simp add: FindByMsgCounterRef_def)
  have st: "ExtractResultStatus p \<in> {[], ''accepted'', ''rejected''}" for p
    using result_status_values by (simp add: ExtractResultStatus_def split: option.splits)
  have srt: "sorted (map m_seq ?hits)"
    using e_by_seq_perm(3) [OF assms] by (simp add: FindByMsgCounterRef_def sorted_filter)
  have c: "correlateWriteResult e i s msg = (case ?hits of [] \<Rightarrow> (''pending'', None)
      | r # _ \<Rightarrow> (ExtractResultStatus (m_spine r), Some (computeLatencyMs msg r)))"
    using False by (simp add: correlateWriteResult_def first_result_cases)
  show ?thesis
  proof (cases ?hits)
    case Nil
    then have "\<forall>r \<in> set ?refs. ExtractResultStatus (m_spine r) = []" by (auto simp: filter_empty_conv)
    then show ?thesis using c Nil set by auto
  next
    case (Cons r hs)
    have "r \<in> set ?hits" using Cons by simp
    then have r: "r \<in> set (st_messages s)" "m_trace r = i" "m_ref r = m_ctr msg" "ExtractResultStatus (m_spine r) \<noteq> []"
      using set by auto
    moreover have "m_seq r \<le> m_seq q" if "q \<in> set (st_messages s)" "m_trace q = i" "m_ref q = m_ctr msg"
        "ExtractResultStatus (m_spine q) \<noteq> []" for q
    proof -
      have "q \<in> set ?hits" using that set by simp
      then show ?thesis using srt Cons by auto
    qed
    moreover have "ExtractResultStatus (m_spine r) \<in> {''accepted'', ''rejected''}" using st [of "m_spine r"] r(4) by blast
    ultimately show ?thesis using c Cons False by auto
  qed
qed

theorem write_result_witness:
  "fst (correlateWriteResult test_engine 1 sample_store (sample_message 4 ''write'' ''7'' [])) = ''pending''"
proof -
  have "m_ctr (sample_message 4 ''write'' ''7'' []) = ''7''" by (simp add: sample_message_def)
  moreover have "\<forall>r \<in> set (st_messages sample_store). m_ref r \<noteq> ''7''" by (simp add: sample_defs)
  ultimately show ?thesis
    using write_result [OF test_engine_orders, where i = 1 and s = sample_store and msg = "sample_message 4 ''write'' ''7'' []"]
    by (auto split: prod.splits)
qed

text \<open>C24: whatever the order in which the map of indices is visited, every write gets as its duration the time
  to the next write with the same item identifier, and the last one gets none.\<close>

theorem write_durations:
  assumes "distinct ids" and "set ids = we_item ` set es" and "k < length es"
  shows "length (computeWriteDurations ids es) = length es
    \<and> computeWriteDurations ids es ! k =
       (case find (\<lambda>j. we_item (es ! j) = we_item (es ! k)) [Suc k..<length es] of
          None \<Rightarrow> es ! k
        | Some j \<Rightarrow> (es ! k)\<lparr>we_duration := Some (elapsed_ms (es ! k) (es ! j))\<rparr>)"
proof -
  let ?f = "\<lambda>i. filter (\<lambda>j. we_item (es ! j) = i) [0..<length es]"
  let ?i = "we_item (es ! k)"
  have mem: "k \<in> set (?f ?i)" "?i \<in> set ids" using assms(2,3) by auto
  have suc: "successor k (?f ?i) = find (\<lambda>j. we_item (es ! j) = ?i) [Suc k..<length es]"
    using successor_filter [of "\<lambda>j. we_item (es ! j) = ?i" k "length es" 0] assms(3) by simp
  have f: "\<And>j. distinct (?f j) \<and> (\<forall>m \<in> set (?f j). m < length es)" "\<And>i j. i \<noteq> j \<Longrightarrow> set (?f i) \<inter> set (?f j) = {}" by auto
  have e: "computeWriteDurations ids es = fold (\<lambda>i. pair_durations (?f i)) ids es"
    by (simp only: computeWriteDurations_def Let_def indices_by_id_eq)
  show ?thesis unfolding e using fold_pair_durations [OF assms(1,3), of ?f ?i, OF f] mem unfolding suc by (simp only: if_True simp_thms)
qed

definition sample_write :: "time \<Rightarrow> string \<Rightarrow> string \<Rightarrow> write_entry" where
  "sample_write t typ k = \<lparr>we_time = t, we_msg = 0, we_source = [], we_dest = [], we_type = typ, we_item = k, we_label = [],
     we_unit = [], we_scope = [], we_value = 0, we_active = None, we_result = ''pending'', we_latency = None, we_duration = None\<rparr>"

theorem write_durations_witness:
  "map we_duration (computeWriteDurations [''1''] [sample_write 0 ''loadcontrol'' ''1'', sample_write 2000000 ''loadcontrol'' ''1''])
     = [Some 2, None]"
proof -
  let ?es = "[sample_write 0 ''loadcontrol'' ''1'', sample_write 2000000 ''loadcontrol'' ''1'']"
  have "set [''1''] = we_item ` set ?es" by (simp add: sample_write_def)
  note d = write_durations [OF _ this]
  have "length (computeWriteDurations [''1''] ?es) = 2" using d [of 0] by simp
  moreover have "we_duration (computeWriteDurations [''1''] ?es ! 0) = Some 2" "we_duration (computeWriteDurations [''1''] ?es ! 1) = None"
    using d [of 0] d [of 1]
    by (simp_all add: sample_write_def elapsed_ms_def time_sub_def clamp64_def dur_micro_def trunc_div_def max_int64_def min_int64_def)
  ultimately show ?thesis by (cases "computeWriteDurations [''1''] ?es"; cases "tl (computeWriteDurations [''1''] ?es)") auto
qed

text \<open>The effective state has one entry per item identifier, in the order of their first writes, that of
  the last write: the identifier alone counts, so a limit and a setpoint (or items of two devices)
  with the same identifier replace each other.\<close>

theorem effective_state:
  "buildEffectiveState es =
     map (\<lambda>k. effective_of (last (filter (\<lambda>w. we_item w = k) es))) (first_seen (map we_item es))
   \<and> distinct (map ef_item (buildEffectiveState es))"
proof -
  let ?s = "fold (\<lambda>w. om_put (we_item w) w) es om_empty"
  have keys: "om_keys ?s = first_seen (map we_item es)"
    using om.keys_fold [OF om.wf_empty, of we_item "\<lambda>w. w" es] by (simp add: om.keys_empty)
  have "om_get ?s k = Some (last (filter (\<lambda>w. we_item w = k) es))" if "k \<in> set (first_seen (map we_item es))" for k
    using om.get_fold_last [of k we_item es "\<lambda>w. w" om_empty] that by simp
  then have eq: "buildEffectiveState es =
     map (\<lambda>k. effective_of (last (filter (\<lambda>w. we_item w = k) es))) (first_seen (map we_item es))"
    by (simp add: buildEffectiveState_def om_values_eq keys)
  have "we_item (last (filter (\<lambda>w. we_item w = k) es)) = k" if "k \<in> set (first_seen (map we_item es))" for k
    using that last_filter [of es "\<lambda>w. we_item w = k"] by auto
  then have "map ef_item (buildEffectiveState es) = first_seen (map we_item es)"
    unfolding eq map_map by (intro map_idI) (simp add: effective_of_def)
  then show ?thesis using eq by simp
qed

end
