(* ===== verification/Mdns.thy ===== *)
theory Mdns
  imports OrderedMap Model
begin

text \<open>
  Package \<open>internal/mdns\<close> and the handlers of \<open>api/mdns_handler.go\<close>. The monitor is a state machine: what it is sent (entries of the resolver,
  ticks of the sweeper, requests) are its events, each with the time the code reads from the clock. The
  order of the events is the order in which they take the monitor's mutex. The devices are a Go map of
  pointers keyed by instance name; where the code ranges over it, the order visited is an argument.
\<close>

section \<open>Addresses\<close>

text \<open>\<open>net.IP.String\<close>: the dotted form for IPv4 and IPv4-mapped addresses, RFC 5952 for the other
  addresses of 16 bytes.\<close>

definition ip4_str :: "bytes \<Rightarrow> string" where
  "ip4_str a = join ''.'' (map (\<lambda>c. nat_str (ord c)) a)"

fun groups16 :: "bytes \<Rightarrow> nat list" where
  "groups16 (a # b # r) = (256 * ord a + ord b) # groups16 r"
| "groups16 _ = []"

fun hex_nat :: "nat \<Rightarrow> string" where
  "hex_nat n = (if n < 16 then [hex_digit n] else hex_nat (n div 16) @ [hex_digit (n mod 16)])"

definition zero_run :: "nat list \<Rightarrow> nat" where
  "zero_run gs = length (takeWhile (\<lambda>g. g = 0) gs)"

text \<open>The first longest run of two or more zero groups: its start and end, \<open>(255, 255)\<close> for none.\<close>

definition longest_zeros :: "nat list \<Rightarrow> nat \<times> nat" where
  "longest_zeros gs = fold (\<lambda>i (a, b). let l = zero_run (drop i gs)
     in if 2 \<le> l \<and> b - a < l then (i, i + l) else (a, b)) [0..<8] (255, 255)"

function ip6_from :: "nat \<times> nat \<Rightarrow> nat list \<Rightarrow> nat \<Rightarrow> string" where
  "ip6_from z gs i = (if 8 \<le> i then []
     else if i = fst z \<and> i < snd z then ''::'' @ (if 8 \<le> snd z then [] else hex_nat (gs ! snd z) @ ip6_from z gs (Suc (snd z)))
     else (if 0 < i then '':'' else []) @ hex_nat (gs ! i) @ ip6_from z gs (Suc i))"
  by pat_completeness auto
termination by (relation "measure (\<lambda>(z, gs, i). 9 - i)") auto

definition ip_str :: "bytes \<Rightarrow> string" where
  "ip_str a =
     (if a = [] then ''<nil>''
      else if length a \<noteq> 4 \<and> length a \<noteq> 16 then ''?'' @ hex_encode a
      else if length a = 4 then ip4_str a
      else if take 12 a = replicate 10 (byte 0) @ [byte 255, byte 255] then ip4_str (drop 12 a)
      else ip6_from (longest_zeros (groups16 a)) (groups16 a) 0)"

section \<open>State\<close>

record mdns_device =
  md_instance :: string
  md_host :: string
  md_addrs :: "string list"
  md_port :: int
  md_ski :: string
  md_brand :: string
  md_model :: string
  md_type :: string
  md_ident :: string
  md_first :: time
  md_last :: time
  md_online :: bool

text \<open>The fields of a \<open>zeroconf.ServiceEntry\<close> the monitor reads.\<close>

record service_entry =
  en_instance :: string
  en_host :: string
  en_port :: int
  en_v4 :: "bytes list"
  en_v6 :: "bytes list"
  en_txt :: "string list"

text \<open>\<open>mo_told\<close>: the calls of callbacks so far, with the copy of the device each was given. The browse and
  sweep goroutines of the last start are cancelled when \<open>mo_running\<close> is false.\<close>

record monitor =
  mo_devices :: "(string, mdns_device) omap"
  mo_running :: bool
  mo_callbacks :: "nat list"
  mo_told :: "(nat \<times> mdns_device) list"

definition NewMonitor :: monitor where
  "NewMonitor = \<lparr>mo_devices = om_empty, mo_running = False, mo_callbacks = [], mo_told = []\<rparr>"

section \<open>Operations\<close>

definition StartMonitor :: "monitor \<Rightarrow> string + monitor" where
  "StartMonitor m = (if mo_running m then Inl ''mDNS monitor already running'' else Inr (m\<lparr>mo_running := True\<rparr>))"

definition StopMonitor :: "monitor \<Rightarrow> monitor" where
  "StopMonitor m = (if \<not> mo_running m then m else m\<lparr>mo_running := False\<rparr>)"

definition OnDevice :: "nat \<Rightarrow> monitor \<Rightarrow> monitor" where
  "OnDevice cb m = m\<lparr>mo_callbacks := mo_callbacks m @ [cb]\<rparr>"

definition Devices :: "(string list \<Rightarrow> string list) \<Rightarrow> monitor \<Rightarrow> mdns_device list" where
  "Devices visit m = map (\<lambda>k. the (om_get (mo_devices m) k)) (visit (om_keys (mo_devices m)))"

text \<open>A record without \<open>=\<close>, or with nothing before it, is skipped; of two with one key the later counts.\<close>

definition parseTXTRecords :: "string list \<Rightarrow> (string \<Rightarrow> string option)" where
  "parseTXTRecords txt = fold (\<lambda>e r. case split_once (CHR ''='') e of
       Some (k, v) \<Rightarrow> if k = [] then r else r(k \<mapsto> v) | None \<Rightarrow> r) txt Map.empty"

definition entry_addrs :: "service_entry \<Rightarrow> string list" where
  "entry_addrs en = map ip_str (en_v4 en) @ map ip_str (en_v6 en)"

text \<open>\<open>if v, ok := txtMap[k]; ok { field = v }\<close>, and the value of a missing key.\<close>

definition txt_or :: "(string \<Rightarrow> string option) \<Rightarrow> string \<Rightarrow> string \<Rightarrow> string" where
  "txt_or t k v = (case t k of Some u \<Rightarrow> u | None \<Rightarrow> v)"

definition seen_again :: "time \<Rightarrow> service_entry \<Rightarrow> mdns_device \<Rightarrow> mdns_device" where
  "seen_again now en d = (let t = parseTXTRecords (en_txt en) in
     d\<lparr>md_host := en_host en, md_addrs := entry_addrs en, md_port := en_port en, md_last := now, md_online := True,
       md_ski := txt_or t ''ski'' (md_ski d), md_brand := txt_or t ''brand'' (md_brand d),
       md_model := txt_or t ''model'' (md_model d), md_type := txt_or t ''type'' (md_type d),
       md_ident := txt_or t ''id'' (md_ident d)\<rparr>)"

definition first_seen_device :: "time \<Rightarrow> service_entry \<Rightarrow> mdns_device" where
  "first_seen_device now en = (let t = parseTXTRecords (en_txt en) in
     \<lparr>md_instance = en_instance en, md_host = en_host en, md_addrs = entry_addrs en, md_port = en_port en,
      md_ski = txt_or t ''ski'' [], md_brand = txt_or t ''brand'' [], md_model = txt_or t ''model'' [],
      md_type = txt_or t ''type'' [], md_ident = txt_or t ''id'' [], md_first = now, md_last = now, md_online = True\<rparr>)"

definition entry_device :: "time \<Rightarrow> service_entry \<Rightarrow> mdns_device option \<Rightarrow> mdns_device" where
  "entry_device now en old = (case old of Some d \<Rightarrow> seen_again now en d | None \<Rightarrow> first_seen_device now en)"

definition handleEntry :: "time \<Rightarrow> service_entry \<Rightarrow> monitor \<Rightarrow> monitor" where
  "handleEntry now en m =
     (let d = entry_device now en (om_get (mo_devices m) (en_instance en))
      in m\<lparr>mo_devices := om_put (en_instance en) d (mo_devices m),
           mo_told := mo_told m @ map (\<lambda>cb. (cb, d)) (mo_callbacks m)\<rparr>)"

definition offlineThreshold :: duration where "offlineThreshold = sec 60"
definition sweepInterval :: duration where "sweepInterval = sec 15"

definition sweep_device :: "time \<Rightarrow> mdns_device \<Rightarrow> mdns_device" where
  "sweep_device now d = (if md_online d \<and> md_last d < now - offlineThreshold then d\<lparr>md_online := False\<rparr> else d)"

definition sweep :: "time \<Rightarrow> monitor \<Rightarrow> monitor" where
  "sweep now m = m\<lparr>mo_devices := om_map (\<lambda>_. sweep_device now) (mo_devices m)\<rparr>"

section \<open>Handlers\<close>

text \<open>The callback the start handler registers broadcasts to the WebSocket clients; it is number 0.\<close>

definition broadcast_cb :: nat where "broadcast_cb = 0"

definition handleMDNSStart :: "monitor \<Rightarrow> string + monitor" where
  "handleMDNSStart m = (if mo_running m then Inl ''mDNS monitor already running'' else StartMonitor (OnDevice broadcast_cb m))"

definition handleMDNSStop :: "monitor \<Rightarrow> string + monitor" where
  "handleMDNSStop m = (if \<not> mo_running m then Inl ''mDNS monitor not running'' else Inr (StopMonitor m))"

definition handleMDNSStatus :: "monitor \<Rightarrow> bool \<times> nat" where
  "handleMDNSStatus m = (mo_running m, length (Devices id m))"

section \<open>Events\<close>

datatype mdns_event = StartRequest | StopRequest | Entry time service_entry | Tick time

definition keep_or :: "monitor \<Rightarrow> string + monitor \<Rightarrow> monitor" where
  "keep_or m r = (case r of Inl _ \<Rightarrow> m | Inr m' \<Rightarrow> m')"

fun mdns_step :: "mdns_event \<Rightarrow> monitor \<Rightarrow> monitor" where
  "mdns_step StartRequest m = keep_or m (handleMDNSStart m)"
| "mdns_step StopRequest m = keep_or m (handleMDNSStop m)"
| "mdns_step (Entry now en) m = handleEntry now en m"
| "mdns_step (Tick now) m = sweep now m"

definition mdns_run :: "mdns_event list \<Rightarrow> monitor" where
  "mdns_run es = fold mdns_step es NewMonitor"

section \<open>Lemmas: one device\<close>

text \<open>What the events do to the entry of instance \<open>i\<close>.\<close>

fun device_step :: "string \<Rightarrow> mdns_event \<Rightarrow> mdns_device option \<Rightarrow> mdns_device option" where
  "device_step i (Entry now en) old = (if en_instance en = i then Some (entry_device now en old) else old)"
| "device_step i (Tick now) old = map_option (sweep_device now) old"
| "device_step i _ old = old"

fun entries_of :: "string \<Rightarrow> mdns_event list \<Rightarrow> (time \<times> service_entry) list" where
  "entries_of i [] = []"
| "entries_of i (Entry now en # es) = (if en_instance en = i then (now, en) # entries_of i es else entries_of i es)"
| "entries_of i (_ # es) = entries_of i es"

fun ticks :: "mdns_event list \<Rightarrow> time list" where
  "ticks [] = []"
| "ticks (Tick now # es) = now # ticks es"
| "ticks (_ # es) = ticks es"

lemma keep_or_devices [simp]:
  "mo_devices (keep_or m (handleMDNSStart m)) = mo_devices m" "mo_devices (keep_or m (handleMDNSStop m)) = mo_devices m"
  by (simp_all add: keep_or_def handleMDNSStart_def handleMDNSStop_def StartMonitor_def StopMonitor_def OnDevice_def)

lemma device_run: "om_get (mo_devices (fold mdns_step es m)) i = fold (device_step i) es (om_get (mo_devices m) i)"
proof (induction es arbitrary: m)
  case (Cons e es)
  show ?case unfolding fold_simps o_apply Cons.IH by (cases e) (auto simp: handleEntry_def sweep_def Let_def om_simps)
qed simp

lemma device_of_run: "om_get (mo_devices (mdns_run es)) i = fold (device_step i) es None"
  by (simp add: mdns_run_def device_run NewMonitor_def om_simps)

lemma sweep_device_simps [simp]:
  "md_first (sweep_device now d) = md_first d" "md_last (sweep_device now d) = md_last d"
  "md_host (sweep_device now d) = md_host d" "md_addrs (sweep_device now d) = md_addrs d"
  "md_port (sweep_device now d) = md_port d" "md_ski (sweep_device now d) = md_ski d"
  "md_brand (sweep_device now d) = md_brand d" "md_model (sweep_device now d) = md_model d"
  "md_type (sweep_device now d) = md_type d" "md_ident (sweep_device now d) = md_ident d"
  "md_instance (sweep_device now d) = md_instance d"
  by (simp_all add: sweep_device_def)

text \<open>The value a TXT key had last.\<close>

definition last_txt :: "string \<Rightarrow> (time \<times> service_entry) list \<Rightarrow> string" where
  "last_txt k l = fold (\<lambda>(_, en). txt_or (parseTXTRecords (en_txt en)) k) l []"

lemma last_txt_snoc: "last_txt k (l @ [(t, en)]) = txt_or (parseTXTRecords (en_txt en)) k (last_txt k l)"
  by (simp add: last_txt_def)

lemma last_txt_Nil [simp]: "last_txt k [] = []"
  by (simp add: last_txt_def)

lemma entries_snoc:
  "entries_of i (es @ [Entry t en]) = (if en_instance en = i then entries_of i es @ [(t, en)] else entries_of i es)"
  "entries_of i (es @ [Tick t]) = entries_of i es" "entries_of i (es @ [StartRequest]) = entries_of i es"
  "entries_of i (es @ [StopRequest]) = entries_of i es"
  by (induction i es rule: entries_of.induct) auto

definition record_ok :: "(time \<times> service_entry) list \<Rightarrow> mdns_device \<Rightarrow> bool" where
  "record_ok l d \<longleftrightarrow> l \<noteq> [] \<and> md_first d = fst (hd l) \<and> md_last d = fst (last l)
     \<and> md_host d = en_host (snd (last l)) \<and> md_port d = en_port (snd (last l)) \<and> md_addrs d = entry_addrs (snd (last l))
     \<and> md_ski d = last_txt ''ski'' l \<and> md_brand d = last_txt ''brand'' l \<and> md_model d = last_txt ''model'' l
     \<and> md_type d = last_txt ''type'' l \<and> md_ident d = last_txt ''id'' l"

lemma record_first: "record_ok [(t, en)] (first_seen_device t en)"
  using last_txt_snoc [of _ "[]" t en] by (simp add: record_ok_def first_seen_device_def Let_def)

lemma record_again: "record_ok l d \<Longrightarrow> record_ok (l @ [(t, en)]) (seen_again t en d)"
  by (simp add: record_ok_def seen_again_def Let_def last_txt_snoc)

lemma record_sweep: "record_ok l d \<Longrightarrow> record_ok l (sweep_device t d)"
  by (simp add: record_ok_def)

lemma record_run:
  "case fold (device_step i) es None of None \<Rightarrow> entries_of i es = [] | Some d \<Rightarrow> record_ok (entries_of i es) d"
proof (induction es rule: rev_induct)
  case (snoc e es)
  then show ?case
    by (cases e) (auto simp: entries_snoc entry_device_def record_again record_sweep record_first split: option.splits)
qed simp

lemma silent_steps:
  "entries_of i es = [] \<Longrightarrow> fold (device_step i) es (Some d)
     = Some (d\<lparr>md_online := md_online d \<and> \<not> list_ex (\<lambda>s. md_last d + offlineThreshold < s) (ticks es)\<rparr>)"
  by (induction i es arbitrary: d rule: entries_of.induct) (auto simp: sweep_device_def split: if_splits)

lemma entry_online: "md_online (entry_device t en old)" "md_last (entry_device t en old) = t"
  by (simp_all add: entry_device_def seen_again_def first_seen_device_def Let_def split: option.split)

lemma told_online: "list_all (\<lambda>c. md_online (snd c)) (mo_told m) \<Longrightarrow> list_all (\<lambda>c. md_online (snd c)) (mo_told (fold mdns_step es m))"
proof (induction es arbitrary: m)
  case (Cons e es)
  have "list_all (\<lambda>c. md_online (snd c)) (mo_told (mdns_step e m))"
    using Cons.prems entry_online(1)
    by (cases e) (auto simp: list_all_iff handleEntry_def sweep_def Let_def keep_or_def handleMDNSStart_def
        handleMDNSStop_def StartMonitor_def StopMonitor_def OnDevice_def)
  then show ?case using Cons.IH by simp
qed simp

lemma start_stop:
  "fold mdns_step (concat (replicate k [StartRequest, StopRequest])) (m\<lparr>mo_running := False\<rparr>)
     = m\<lparr>mo_running := False, mo_callbacks := mo_callbacks m @ replicate k broadcast_cb\<rparr>"
proof (induction k arbitrary: m)
  case (Suc k)
  have "fold mdns_step [StartRequest, StopRequest] (m\<lparr>mo_running := False\<rparr>)
      = (m\<lparr>mo_callbacks := mo_callbacks m @ [broadcast_cb]\<rparr>)\<lparr>mo_running := False\<rparr>"
    by (simp add: keep_or_def handleMDNSStart_def handleMDNSStop_def StartMonitor_def StopMonitor_def OnDevice_def)
  then show ?case using Suc.IH [of "m\<lparr>mo_callbacks := mo_callbacks m @ [broadcast_cb]\<rparr>"] by simp
qed simp

section \<open>Properties\<close>

text \<open>The record of a device. An instance is known exactly when it has been announced; it was first and last
  seen at its first and last announcement, host, port and addresses are those of the last one, and each TXT
  field is the value it was last announced with, kept over announcements that leave the key out.\<close>

theorem mdns_device_record:
  "case om_get (mo_devices (mdns_run es)) i of
     None \<Rightarrow> entries_of i es = []
   | Some d \<Rightarrow> (let l = entries_of i es in l \<noteq> []
       \<and> md_first d = fst (hd l) \<and> md_last d = fst (last l)
       \<and> md_host d = en_host (snd (last l)) \<and> md_port d = en_port (snd (last l)) \<and> md_addrs d = entry_addrs (snd (last l))
       \<and> md_ski d = last_txt ''ski'' l \<and> md_brand d = last_txt ''brand'' l \<and> md_model d = last_txt ''model'' l
       \<and> md_type d = last_txt ''type'' l \<and> md_ident d = last_txt ''id'' l)"
  using record_run [of i es] unfolding device_of_run record_ok_def Let_def .

text \<open>C32: a device that falls silent goes offline. Swept every fifteen seconds, it is still online at the first
  four sweeps after its last announcement and offline from the fifth on, whatever else happens: between
  sixty and seventy-five seconds of silence.\<close>

theorem silent_goes_offline:
  assumes "en_instance en = i" and "entries_of i post = []"
    and "ticks post = map (\<lambda>k. a + int k * sweepInterval) [0..<n]"
    and "t < a" and "a \<le> t + sweepInterval"
  shows "\<exists>d. om_get (mo_devices (mdns_run (pre @ Entry t en # post))) i = Some d \<and> (md_online d \<longleftrightarrow> n < 5)"
proof -
  let ?d = "entry_device t en (fold (device_step i) pre None)"
  have "fold (device_step i) (pre @ Entry t en # post) None
      = Some (?d\<lparr>md_online := \<not> list_ex (\<lambda>s. t + offlineThreshold < s) (ticks post)\<rparr>)"
    using silent_steps [OF assms(2), of ?d] assms(1) by (simp add: entry_online)
  moreover have "list_ex (\<lambda>s. t + offlineThreshold < s) (ticks post) \<longleftrightarrow> 5 \<le> n"
  proof
    assume "list_ex (\<lambda>s. t + offlineThreshold < s) (ticks post)"
    then obtain k where "k < n" "t + offlineThreshold < a + int k * sweepInterval"
      unfolding assms(3) by (auto simp: list_ex_iff)
    then show "5 \<le> n" using assms(5) by (simp add: offlineThreshold_def sweepInterval_def sec_def)
  next
    assume "5 \<le> n"
    then have "a + int 4 * sweepInterval \<in> set (ticks post)" unfolding assms(3) by force
    moreover have "t + offlineThreshold < a + int 4 * sweepInterval"
      using assms(4) by (simp add: offlineThreshold_def sweepInterval_def sec_def)
    ultimately show "list_ex (\<lambda>s. t + offlineThreshold < s) (ticks post)" by (auto simp: list_ex_iff)
  qed
  ultimately show ?thesis by (auto simp: device_of_run)
qed

definition sample_entry :: service_entry where
  "sample_entry = \<lparr>en_instance = ''EVSE'', en_host = ''evse.local.'', en_port = 4712,
     en_v4 = [map char_of [192, 168, 1, 20 :: nat]], en_v6 = [], en_txt = [''txtvers=1'', ''ski=ab12'', ''brand='']\<rparr>"

theorem silent_goes_offline_witness:
  "\<exists>d. om_get (mo_devices (mdns_run [StartRequest, Entry 0 sample_entry, Tick (sec 10), Tick (sec 25), Tick (sec 40),
     Tick (sec 55), Tick (sec 70)])) ''EVSE'' = Some d \<and> \<not> md_online d"
  using silent_goes_offline [of sample_entry "''EVSE''" "[Tick (sec 10), Tick (sec 25), Tick (sec 40), Tick (sec 55), Tick (sec 70)]"
      "sec 10" 5 0 "[StartRequest]"]
  by (simp add: sample_entry_def sweepInterval_def sec_def upt_conv_Cons)

text \<open>What the clients are told. No call of a callback ever says that a device is offline, and every start of
  the monitor adds one more broadcast of each later announcement, which stopping does not take back.\<close>

theorem mdns_broadcasts:
  "list_all (\<lambda>(cb, d). md_online d) (mo_told (mdns_run es))
   \<and> mo_told (mdns_run (concat (replicate k [StartRequest, StopRequest]) @ [StartRequest, Entry t en]))
     = replicate (Suc k) (broadcast_cb, first_seen_device t en)"
proof
  show "list_all (\<lambda>(cb, d). md_online d) (mo_told (mdns_run es))"
    using told_online [of NewMonitor es] by (simp add: mdns_run_def NewMonitor_def case_prod_unfold)
  have "NewMonitor = NewMonitor\<lparr>mo_running := False\<rparr>" by (simp add: NewMonitor_def)
  then have "fold mdns_step (concat (replicate k [StartRequest, StopRequest])) NewMonitor
      = NewMonitor\<lparr>mo_running := False, mo_callbacks := replicate k broadcast_cb\<rparr>"
    using start_stop [of k NewMonitor] by (simp add: NewMonitor_def)
  then show "mo_told (mdns_run (concat (replicate k [StartRequest, StopRequest]) @ [StartRequest, Entry t en]))
      = replicate (Suc k) (broadcast_cb, first_seen_device t en)"
    by (simp add: mdns_run_def keep_or_def handleMDNSStart_def StartMonitor_def OnDevice_def handleEntry_def
        NewMonitor_def entry_device_def om_simps map_replicate_const replicate_append_same Let_def)
qed

end
