(* ===== verification/Hub.thy ===== *)
theory Hub
  imports JsonFacts "HOL-Library.Multiset"
begin

text \<open>
  \<open>internal/api/hub.go\<close>: the WebSocket hub. A broadcast holds the read lock while it offers its data to the
  registered clients one after the other, in the arbitrary order of a Go map; several broadcasts may run
  at once, and the write pumps of the clients take from their channels meanwhile. Registering and
  unregistering take the write lock, so they wait for the broadcasts in progress. Sending on a closed
  channel, and closing one twice, would be a panic: \<open>hu_panic\<close>. The connection itself (gorilla/websocket)
  appears as writes that succeed or fail and reads that fail.
\<close>

section \<open>State\<close>

text \<open>\<open>wc_offered\<close>, \<open>wc_due\<close> and \<open>wc_lost\<close> are history: what the client was offered and whether the channel took
  it, what was broadcast while it was registered, and the data whose write failed.\<close>

record ws_client =
  wc_buffer :: "string list"
  wc_closed :: bool
  wc_pump :: bool
  wc_reader :: bool
  wc_failed :: bool
  wc_hand :: "string option"
  wc_sent :: "string list"
  wc_lost :: "string list"
  wc_offered :: "(string \<times> bool) list"
  wc_due :: "string list"

definition clientBufferSize :: nat where "clientBufferSize = 256"

definition new_client :: ws_client where
  "new_client = \<lparr>wc_buffer = [], wc_closed = False, wc_pump = True, wc_reader = True, wc_failed = False,
     wc_hand = None, wc_sent = [], wc_lost = [], wc_offered = [], wc_due = []\<rparr>"

text \<open>\<open>hu_casts\<close>: the broadcasts in progress, with the clients they have not reached yet.\<close>

record hub =
  hu_clients :: "nat list"
  hu_conn :: "nat \<Rightarrow> ws_client"
  hu_next :: nat
  hu_casts :: "(string \<times> nat list) list"
  hu_panic :: bool

definition NewHub :: hub where
  "NewHub = \<lparr>hu_clients = [], hu_conn = \<lambda>_. new_client, hu_next = 0, hu_casts = [], hu_panic = False\<rparr>"

definition on_client :: "nat \<Rightarrow> (ws_client \<Rightarrow> ws_client) \<Rightarrow> hub \<Rightarrow> hub" where
  "on_client c f h = h\<lparr>hu_conn := (hu_conn h)(c := f (hu_conn h c))\<rparr>"

section \<open>Operations\<close>

definition Register :: "hub \<Rightarrow> hub" where
  "Register h = h\<lparr>hu_clients := hu_clients h @ [hu_next h], hu_conn := (hu_conn h)(hu_next h := new_client),
                  hu_next := Suc (hu_next h)\<rparr>"

definition ClientCount :: "hub \<Rightarrow> nat" where
  "ClientCount h = length (hu_clients h)"

definition ws_event :: "string \<Rightarrow> string \<Rightarrow> string" where
  "ws_event eventType payload = plain_obj [(''type'', quote eventType), (''payload'', payload)]"

text \<open>The start of a broadcast: the payload is marshalled and the lock taken. \<open>None\<close>: marshalling failed.\<close>

definition BroadcastEvent :: "string \<Rightarrow> string option \<Rightarrow> hub \<Rightarrow> hub" where
  "BroadcastEvent eventType payload h = (case payload of
       None \<Rightarrow> h
     | Some p \<Rightarrow> (let data = ws_event eventType p in
         h\<lparr>hu_casts := hu_casts h @ [(data, hu_clients h)],
           hu_conn := \<lambda>c. if c \<in> set (hu_clients h) then (hu_conn h c)\<lparr>wc_due := wc_due (hu_conn h c) @ [data]\<rparr> else hu_conn h c\<rparr>))"

text \<open>\<open>select { case client.send <- data: default: }\<close>\<close>

definition offer :: "string \<Rightarrow> ws_client \<Rightarrow> ws_client" where
  "offer data cl =
     (if length (wc_buffer cl) < clientBufferSize
      then cl\<lparr>wc_buffer := wc_buffer cl @ [data], wc_offered := wc_offered cl @ [(data, True)]\<rparr>
      else cl\<lparr>wc_offered := wc_offered cl @ [(data, False)]\<rparr>)"

text \<open>The broadcast number \<open>k\<close> reaches client \<open>c\<close>.\<close>

definition broadcast_to :: "nat \<Rightarrow> nat \<Rightarrow> hub \<Rightarrow> hub" where
  "broadcast_to k c h = (case hu_casts h ! k of (data, todo) \<Rightarrow>
     (if wc_closed (hu_conn h c) then h\<lparr>hu_panic := True\<rparr>
      else (on_client c (offer data) h)\<lparr>hu_casts := (hu_casts h)[k := (data, remove1 c todo)]\<rparr>))"

definition broadcast_end :: "nat \<Rightarrow> hub \<Rightarrow> hub" where
  "broadcast_end k h = h\<lparr>hu_casts := take k (hu_casts h) @ drop (Suc k) (hu_casts h)\<rparr>"

definition unregister :: "nat \<Rightarrow> hub \<Rightarrow> hub" where
  "unregister c h =
     (if c \<in> set (hu_clients h)
      then (if wc_closed (hu_conn h c) then h\<lparr>hu_panic := True\<rparr>
            else (on_client c (\<lambda>cl. cl\<lparr>wc_closed := True\<rparr>) h)\<lparr>hu_clients := remove1 c (hu_clients h)\<rparr>)
      else h)"

text \<open>The write pump: \<open>for msg := range client.send\<close>. A failed write unregisters the client and ends the pump;
  a closed channel is drained first.\<close>

definition pump_take :: "ws_client \<Rightarrow> ws_client" where
  "pump_take cl = (case wc_buffer cl of [] \<Rightarrow> cl | x # xs \<Rightarrow> cl\<lparr>wc_hand := Some x, wc_buffer := xs\<rparr>)"

definition pump_write :: "ws_client \<Rightarrow> ws_client" where
  "pump_write cl = (case wc_hand cl of None \<Rightarrow> cl | Some x \<Rightarrow> cl\<lparr>wc_hand := None, wc_sent := wc_sent cl @ [x]\<rparr>)"

definition pump_fail :: "ws_client \<Rightarrow> ws_client" where
  "pump_fail cl = (case wc_hand cl of None \<Rightarrow> cl
     | Some x \<Rightarrow> cl\<lparr>wc_hand := None, wc_lost := wc_lost cl @ [x], wc_pump := False, wc_failed := True\<rparr>)"

section \<open>Steps\<close>

inductive socket_step :: "hub \<Rightarrow> hub \<Rightarrow> bool" where
  register: "hu_casts h = [] \<Longrightarrow> socket_step h (Register h)"
| broadcast: "socket_step h (BroadcastEvent t p h)"
| reach: "k < length (hu_casts h) \<Longrightarrow> c \<in> set (snd (hu_casts h ! k)) \<Longrightarrow> socket_step h (broadcast_to k c h)"
| finish: "k < length (hu_casts h) \<Longrightarrow> snd (hu_casts h ! k) = [] \<Longrightarrow> socket_step h (broadcast_end k h)"
| take_next: "c < hu_next h \<Longrightarrow> wc_pump (hu_conn h c) \<Longrightarrow> wc_hand (hu_conn h c) = None \<Longrightarrow> socket_step h (on_client c pump_take h)"
| written: "c < hu_next h \<Longrightarrow> wc_pump (hu_conn h c) \<Longrightarrow> socket_step h (on_client c pump_write h)"
| failed: "c < hu_next h \<Longrightarrow> wc_pump (hu_conn h c) \<Longrightarrow> socket_step h (on_client c pump_fail h)"
| drained: "c < hu_next h \<Longrightarrow> wc_closed (hu_conn h c) \<Longrightarrow> wc_buffer (hu_conn h c) = [] \<Longrightarrow> wc_hand (hu_conn h c) = None
    \<Longrightarrow> socket_step h (on_client c (\<lambda>cl. cl\<lparr>wc_pump := False\<rparr>) h)"
| pump_leaves: "c < hu_next h \<Longrightarrow> hu_casts h = [] \<Longrightarrow> wc_failed (hu_conn h c)
    \<Longrightarrow> socket_step h (unregister c (on_client c (\<lambda>cl. cl\<lparr>wc_failed := False\<rparr>) h))"
| reader_leaves: "c < hu_next h \<Longrightarrow> hu_casts h = [] \<Longrightarrow> wc_reader (hu_conn h c)
    \<Longrightarrow> socket_step h (unregister c (on_client c (\<lambda>cl. cl\<lparr>wc_reader := False\<rparr>) h))"

inductive hub_reachable :: "hub \<Rightarrow> bool" where
  init: "hub_reachable NewHub"
| step: "hub_reachable h \<Longrightarrow> socket_step h h' \<Longrightarrow> hub_reachable h'"

section \<open>Lemmas: the invariant\<close>

definition in_hand :: "ws_client \<Rightarrow> string list" where
  "in_hand cl = (case wc_hand cl of None \<Rightarrow> [] | Some x \<Rightarrow> [x])"

definition accepted :: "ws_client \<Rightarrow> string list" where
  "accepted cl = map fst (filter snd (wc_offered cl))"

definition client_ok :: "ws_client \<Rightarrow> bool" where
  "client_ok cl \<longleftrightarrow> length (wc_buffer cl) \<le> clientBufferSize
     \<and> wc_sent cl @ wc_lost cl @ in_hand cl @ wc_buffer cl = accepted cl
     \<and> list_all snd (take clientBufferSize (wc_offered cl))
     \<and> (wc_lost cl = [] \<or> \<not> wc_pump cl)"

text \<open>What the broadcasts in progress still owe a client.\<close>

definition owed :: "(string \<times> nat list) list \<Rightarrow> nat \<Rightarrow> string multiset" where
  "owed casts c = mset (map fst (filter (\<lambda>k. c \<in> set (snd k)) casts))"

definition hub_ok :: "hub \<Rightarrow> bool" where
  "hub_ok h \<longleftrightarrow> \<not> hu_panic h \<and> distinct (hu_clients h)
     \<and> (\<forall>c \<in> set (hu_clients h). c < hu_next h \<and> \<not> wc_closed (hu_conn h c))
     \<and> (\<forall>k \<in> set (hu_casts h). distinct (snd k) \<and> set (snd k) \<subseteq> set (hu_clients h))
     \<and> (\<forall>c. client_ok (hu_conn h c))
     \<and> (\<forall>c. mset (map fst (wc_offered (hu_conn h c))) + owed (hu_casts h) c = mset (wc_due (hu_conn h c)))"

lemma on_client_simps [simp]:
  "hu_clients (on_client c f h) = hu_clients h" "hu_next (on_client c f h) = hu_next h"
  "hu_casts (on_client c f h) = hu_casts h" "hu_panic (on_client c f h) = hu_panic h"
  "hu_conn (on_client c f h) d = (if d = c then f (hu_conn h c) else hu_conn h d)"
  by (simp_all add: on_client_def)

lemma offered_length: "client_ok cl \<Longrightarrow> length (wc_buffer cl) \<le> length (wc_offered cl)"
proof -
  assume "client_ok cl"
  then have "length (wc_buffer cl) \<le> length (accepted cl)" unfolding client_ok_def by (metis length_append le_add2 add.assoc)
  also have "\<dots> \<le> length (wc_offered cl)" by (simp add: accepted_def)
  finally show ?thesis .
qed

lemma offer_ok: "client_ok cl \<Longrightarrow> client_ok (offer data cl)"
  using offered_length [of cl]
  by (auto simp: client_ok_def offer_def accepted_def in_hand_def take_Cons')

lemma pump_ok:
  "client_ok cl \<Longrightarrow> wc_pump cl \<Longrightarrow> wc_hand cl = None \<Longrightarrow> client_ok (pump_take cl)"
  "client_ok cl \<Longrightarrow> wc_pump cl \<Longrightarrow> client_ok (pump_write cl)"
  "client_ok cl \<Longrightarrow> wc_pump cl \<Longrightarrow> client_ok (pump_fail cl)"
  by (auto simp: client_ok_def pump_take_def pump_write_def pump_fail_def accepted_def in_hand_def split: list.splits option.splits)

lemma flags_ok [simp]:
  "client_ok (cl\<lparr>wc_failed := b\<rparr>) = client_ok cl" "client_ok (cl\<lparr>wc_reader := b\<rparr>) = client_ok cl"
  "client_ok (cl\<lparr>wc_closed := b\<rparr>) = client_ok cl" "client_ok (cl\<lparr>wc_due := l\<rparr>) = client_ok cl"
  "client_ok cl \<Longrightarrow> client_ok (cl\<lparr>wc_pump := False\<rparr>)" "client_ok new_client"
  by (auto simp: client_ok_def in_hand_def accepted_def new_client_def)

lemma pump_keeps [simp]:
  "wc_offered (pump_take cl) = wc_offered cl" "wc_offered (pump_write cl) = wc_offered cl" "wc_offered (pump_fail cl) = wc_offered cl"
  "wc_due (pump_take cl) = wc_due cl" "wc_due (pump_write cl) = wc_due cl" "wc_due (pump_fail cl) = wc_due cl"
  "wc_closed (pump_take cl) = wc_closed cl" "wc_closed (pump_write cl) = wc_closed cl" "wc_closed (pump_fail cl) = wc_closed cl"
  by (simp_all add: pump_take_def pump_write_def pump_fail_def split: list.split option.split)

lemma on_client_ok:
  assumes "hub_ok h" and "client_ok (f (hu_conn h c))"
    and "wc_offered (f (hu_conn h c)) = wc_offered (hu_conn h c)" and "wc_due (f (hu_conn h c)) = wc_due (hu_conn h c)"
    and "wc_closed (f (hu_conn h c)) = wc_closed (hu_conn h c)"
  shows "hub_ok (on_client c f h)"
  using assms by (auto simp: hub_ok_def)

lemma unregister_ok:
  assumes "hub_ok h" and "hu_casts h = []"
  shows "hub_ok (unregister c h)"
  using assms by (auto simp: hub_ok_def unregister_def owed_def dest: notin_set_remove1)

lemma owed_remove:
  assumes "k < length casts" and "casts ! k = (data, todo)" and "c \<in> set todo" and "distinct todo"
  shows "owed casts d = (if d = c then {#data#} else {#}) + owed (casts[k := (data, remove1 c todo)]) d"
proof -
  have s: "casts = take k casts @ (data, todo) # drop (Suc k) casts" using assms(1,2) by (metis id_take_nth_drop)
  have "casts[k := (data, remove1 c todo)] = take k casts @ (data, remove1 c todo) # drop (Suc k) casts"
    using assms(1) by (simp add: upd_conv_take_nth_drop)
  then show ?thesis using assms(3,4) by (subst s) (auto simp: owed_def)
qed

lemma broadcast_to_ok:
  assumes ok: "hub_ok h" and k: "k < length (hu_casts h)" "c \<in> set (snd (hu_casts h ! k))"
  shows "hub_ok (broadcast_to k c h)"
proof -
  obtain data todo where kt: "hu_casts h ! k = (data, todo)" by fastforce
  have mem: "(data, todo) \<in> set (hu_casts h)" using k(1) kt by (metis nth_mem)
  then have "distinct (snd (data, todo)) \<and> set (snd (data, todo)) \<subseteq> set (hu_clients h)" using ok unfolding hub_ok_def by blast
  then have t: "distinct todo" "set todo \<subseteq> set (hu_clients h)" by simp_all
  then have opened: "\<not> wc_closed (hu_conn h c)" using ok k(2) kt by (auto simp: hub_ok_def)
  let ?casts = "(hu_casts h)[k := (data, remove1 c todo)]"
  have h': "broadcast_to k c h = (on_client c (offer data) h)\<lparr>hu_casts := ?casts\<rparr>"
    using opened kt by (simp add: broadcast_to_def)
  have own: "hu_conn (broadcast_to k c h) d = (if d = c then offer data (hu_conn h c) else hu_conn h d)" for d
    by (simp add: h')
  have simple: "wc_closed (offer data cl) = wc_closed cl" "wc_due (offer data cl) = wc_due cl"
      "mset (map fst (wc_offered (offer data cl))) = mset (map fst (wc_offered cl)) + {#data#}" for cl
    by (simp_all add: offer_def)
  have "mset (map fst (wc_offered (hu_conn (broadcast_to k c h) d))) + owed ?casts d
      = mset (wc_due (hu_conn (broadcast_to k c h) d))" for d
  proof -
    have o: "mset (map fst (wc_offered (hu_conn h d))) + owed (hu_casts h) d = mset (wc_due (hu_conn h d))"
      using ok unfolding hub_ok_def by blast
    have r: "owed (hu_casts h) d = (if d = c then {#data#} else {#}) + owed ?casts d"
      using k(2) kt by (intro owed_remove [OF k(1) kt _ t(1)]) simp
    show ?thesis
    proof (cases "d = c")
      case True
      have r': "owed (hu_casts h) c = {#data#} + owed ?casts c" using r True by simp
      show ?thesis unfolding True own simple if_True refl [THEN eqTrueI] using o unfolding True r' by (simp only: ac_simps)
    next
      case False
      then show ?thesis using o r by (simp only: own if_False add_0_left)
    qed
  qed
  moreover have "\<forall>q \<in> set ?casts. distinct (snd q) \<and> set (snd q) \<subseteq> set (hu_clients h)"
    using ok t by (auto simp: hub_ok_def dest!: set_update_subset_insert [THEN subsetD] dest: notin_set_remove1)
  moreover have "client_ok (hu_conn (broadcast_to k c h) d)" for d using ok by (simp add: own offer_ok hub_ok_def)
  moreover have "wc_closed (hu_conn (broadcast_to k c h) d) = wc_closed (hu_conn h d)" for d by (simp add: own simple)
  moreover have "hu_casts (broadcast_to k c h) = ?casts" "hu_clients (broadcast_to k c h) = hu_clients h"
      "hu_next (broadcast_to k c h) = hu_next h" "hu_panic (broadcast_to k c h) = hu_panic h"
    by (simp_all add: h')
  ultimately show ?thesis using ok unfolding hub_ok_def by (simp only: simp_thms) blast
qed

lemma socket_step_ok: "socket_step h h' \<Longrightarrow> hub_ok h \<Longrightarrow> hub_ok h'"
proof (induction rule: socket_step.induct)
  case (register h)
  moreover have "wc_offered new_client = []" "wc_due new_client = []" "\<not> wc_closed new_client" by (simp_all add: new_client_def)
  ultimately show ?case by (auto simp: hub_ok_def Register_def owed_def)
next
  case (broadcast h t p)
  then show ?case by (cases p) (auto simp: hub_ok_def BroadcastEvent_def Let_def owed_def)
next
  case (finish k h)
  have "hu_casts h = take k (hu_casts h) @ hu_casts h ! k # drop (Suc k) (hu_casts h)"
    using finish(1) by (simp add: id_take_nth_drop)
  then have "owed (hu_casts h) c = owed (take k (hu_casts h) @ drop (Suc k) (hu_casts h)) c" for c
    using finish(2) unfolding owed_def by (metis (no_types, lifting) empty_iff empty_set filter.simps(2) filter_append)
  then show ?case using finish
    by (auto simp: hub_ok_def broadcast_end_def dest: in_set_takeD in_set_dropD)
next
  case (pump_leaves c h)
  then show ?case by (intro unregister_ok on_client_ok) (auto simp: hub_ok_def)
next
  case (reader_leaves c h)
  then show ?case by (intro unregister_ok on_client_ok) (auto simp: hub_ok_def)
next
  case (reach k h c)
  then show ?case using broadcast_to_ok by blast
qed (auto intro!: on_client_ok pump_ok simp: hub_ok_def)

lemma hub_reachable_ok: "hub_reachable h \<Longrightarrow> hub_ok h"
proof (induction rule: hub_reachable.induct)
  case init
  show ?case by (simp add: hub_ok_def NewHub_def owed_def) (simp add: new_client_def)
next
  case (step h h')
  then show ?case using socket_step_ok by blast
qed

section \<open>Lemmas: draining\<close>

text \<open>A write pump ends only after a failed write, or with a closed and empty channel.\<close>

definition pump_alive :: "ws_client \<Rightarrow> bool" where
  "pump_alive cl \<longleftrightarrow> wc_pump cl \<or> wc_lost cl \<noteq> [] \<or> (wc_closed cl \<and> wc_buffer cl = [] \<and> wc_hand cl = None)"

lemma alive_ops:
  "pump_alive new_client" "wc_pump cl \<Longrightarrow> pump_alive (pump_take cl)" "wc_pump cl \<Longrightarrow> pump_alive (pump_write cl)"
  "wc_pump cl \<Longrightarrow> pump_alive (pump_fail cl)" "pump_alive cl \<Longrightarrow> \<not> wc_closed cl \<Longrightarrow> pump_alive (offer d cl)"
  "pump_alive (cl\<lparr>wc_due := l\<rparr>) = pump_alive cl" "pump_alive (cl\<lparr>wc_failed := b\<rparr>) = pump_alive cl" "pump_alive (cl\<lparr>wc_reader := b\<rparr>) = pump_alive cl"
  "pump_alive cl \<Longrightarrow> pump_alive (cl\<lparr>wc_closed := True\<rparr>)"
  by (auto simp: pump_alive_def new_client_def pump_take_def pump_write_def pump_fail_def offer_def split: list.split option.split)

lemma alive_step: "socket_step h h' \<Longrightarrow> \<forall>c. pump_alive (hu_conn h c) \<Longrightarrow> \<forall>c. pump_alive (hu_conn h' c)"
proof (induction rule: socket_step.induct)
  case (broadcast h t p)
  then show ?case by (cases p) (simp_all add: BroadcastEvent_def Let_def alive_ops)
next
  case (reach k h c)
  then show ?case by (auto simp: broadcast_to_def alive_ops split: prod.split)
next
  case (drained c h)
  then show ?case by (auto simp: pump_alive_def)
qed (auto simp: Register_def broadcast_end_def unregister_def alive_ops)

lemma hub_reachable_alive: "hub_reachable h \<Longrightarrow> pump_alive (hu_conn h c)"
proof -
  assume "hub_reachable h"
  then have "\<forall>c. pump_alive (hu_conn h c)"
    by (induction rule: hub_reachable.induct) (simp_all add: NewHub_def alive_ops alive_step)
  then show ?thesis ..
qed

text \<open>The pump of a client can move when it has something in hand or in its channel; a move is one of its three actions.\<close>

definition pump_ready :: "nat \<Rightarrow> hub \<Rightarrow> bool" where
  "pump_ready c h \<longleftrightarrow> wc_pump (hu_conn h c) \<and> (wc_hand (hu_conn h c) \<noteq> None \<or> wc_buffer (hu_conn h c) \<noteq> [])"

definition pump_moved :: "nat \<Rightarrow> hub \<Rightarrow> hub \<Rightarrow> bool" where
  "pump_moved c h h' \<longleftrightarrow> (wc_hand (hu_conn h c) = None \<and> wc_buffer (hu_conn h c) \<noteq> [] \<and> h' = on_client c pump_take h)
     \<or> (wc_hand (hu_conn h c) \<noteq> None \<and> (h' = on_client c pump_write h \<or> h' = on_client c pump_fail h))"

text \<open>How far a pump has come: two moves for each message.\<close>

definition pumped :: "ws_client \<Rightarrow> nat" where
  "pumped cl = 2 * length (wc_sent cl) + length (in_hand cl)"

definition carries_on :: "ws_client \<Rightarrow> ws_client \<Rightarrow> bool" where
  "carries_on cl cl' \<longleftrightarrow> (\<exists>a. accepted cl' = accepted cl @ a) \<and> (wc_lost cl' = [] \<longrightarrow> wc_lost cl = [] \<and> pumped cl \<le> pumped cl')"

lemma carries_on_refl: "carries_on cl cl"
  by (simp add: carries_on_def)

lemma carries_on_trans: "carries_on a b \<Longrightarrow> carries_on b c \<Longrightarrow> carries_on a c"
  by (auto simp: carries_on_def)

lemma carries_on_ops:
  "wc_hand cl = None \<Longrightarrow> carries_on cl (pump_take cl)" "carries_on cl (pump_write cl)" "carries_on cl (pump_fail cl)" "carries_on cl (offer d cl)"
  "carries_on cl (cl\<lparr>wc_due := l\<rparr>)" "carries_on cl (cl\<lparr>wc_failed := b\<rparr>)" "carries_on cl (cl\<lparr>wc_reader := b\<rparr>)" "carries_on cl (cl\<lparr>wc_pump := b\<rparr>)"
  "carries_on cl (cl\<lparr>wc_closed := b\<rparr>)"
  by (auto simp: carries_on_def accepted_def pumped_def in_hand_def pump_take_def pump_write_def pump_fail_def offer_def split: list.split option.split)

lemma socket_step_carries: "socket_step h h' \<Longrightarrow> c < hu_next h \<Longrightarrow> carries_on (hu_conn h c) (hu_conn h' c) \<and> c < hu_next h'"
proof (induction rule: socket_step.induct)
  case (broadcast h t p)
  then show ?case by (cases p) (simp_all add: BroadcastEvent_def Let_def carries_on_ops carries_on_refl)
next
  case (reach k h d)
  then show ?case by (auto simp: broadcast_to_def carries_on_ops carries_on_refl split: prod.split)
next
  case (pump_leaves d h)
  then show ?case using carries_on_trans [OF carries_on_ops(6) carries_on_ops(9)] by (auto simp: unregister_def carries_on_ops carries_on_refl)
next
  case (reader_leaves d h)
  then show ?case using carries_on_trans [OF carries_on_ops(7) carries_on_ops(9)] by (auto simp: unregister_def carries_on_ops carries_on_refl)
qed (auto simp: Register_def broadcast_end_def carries_on_ops carries_on_refl)

lemma moved_pumped:
  "pump_moved c h h' \<Longrightarrow> wc_lost (hu_conn h' c) = [] \<Longrightarrow> pumped (hu_conn h c) < pumped (hu_conn h' c)"
  by (auto simp: pump_moved_def pumped_def in_hand_def pump_take_def pump_write_def pump_fail_def split: list.split_asm option.split_asm)

text \<open>A client with something left to send has a pump that can move.\<close>

lemma left_ready:
  assumes "hub_reachable h" and "wc_lost (hu_conn h c) = []" and "wc_sent (hu_conn h c) \<noteq> accepted (hu_conn h c)"
  shows "pump_ready c h"
proof -
  have "wc_sent (hu_conn h c) @ in_hand (hu_conn h c) @ wc_buffer (hu_conn h c) = accepted (hu_conn h c)"
    using hub_reachable_ok [OF assms(1)] assms(2) by (metis append_Nil client_ok_def hub_ok_def)
  then have "wc_hand (hu_conn h c) \<noteq> None \<or> wc_buffer (hu_conn h c) \<noteq> []" using assms(3) by (auto simp: in_hand_def)
  then show ?thesis using hub_reachable_alive [OF assms(1), of c] assms(2) by (auto simp: pump_alive_def pump_ready_def)
qed

lemma ready_moves:
  assumes "pump_ready c h" and "c < hu_next h"
  shows "\<exists>h'. socket_step h h' \<and> pump_moved c h h'"
proof (cases "wc_hand (hu_conn h c)")
  case None
  then have "socket_step h (on_client c pump_take h) \<and> pump_moved c h (on_client c pump_take h)"
    using assms by (auto simp: pump_ready_def pump_moved_def intro: socket_step.take_next)
  then show ?thesis ..
next
  case (Some d)
  then have "socket_step h (on_client c pump_write h) \<and> pump_moved c h (on_client c pump_write h)"
    using assms by (auto simp: pump_ready_def pump_moved_def intro: socket_step.written)
  then show ?thesis ..
qed

text \<open>Runs: any interleaving of the steps, in which the goroutine of the client's pump is not kept waiting for ever while it can move.\<close>

definition hub_run :: "(nat \<Rightarrow> hub) \<Rightarrow> bool" where
  "hub_run r \<longleftrightarrow> hub_reachable (r 0) \<and> (\<forall>i. socket_step (r i) (r (Suc i)))"

definition fair_pump :: "nat \<Rightarrow> (nat \<Rightarrow> hub) \<Rightarrow> bool" where
  "fair_pump c r \<longleftrightarrow> (\<forall>i. \<exists>j \<ge> i. \<not> pump_ready c (r j) \<or> pump_moved c (r j) (r (Suc j)))"

lemma run_reachable: "hub_run r \<Longrightarrow> hub_reachable (r i)"
  by (induction i) (auto simp: hub_run_def intro: hub_reachable.step)

lemma run_carries:
  assumes "hub_run r" and "c < hu_next (r k)" and "k \<le> j"
  shows "carries_on (hu_conn (r k) c) (hu_conn (r j) c) \<and> c < hu_next (r j)"
  using assms(3)
proof (induction rule: dec_induct)
  case base
  then show ?case using assms(2) by (simp add: carries_on_refl)
next
  case (step n)
  have "socket_step (r n) (r (Suc n))" using assms(1) by (simp add: hub_run_def)
  then show ?case using step.IH socket_step_carries carries_on_trans by blast
qed

text \<open>Without a failed write the pump comes as far as one likes, as long as something of the channel's past is left.\<close>

lemma run_pumps:
  assumes "hub_run r" and "fair_pump c r" and "c < hu_next (r k)"
    and "\<forall>j \<ge> k. wc_lost (hu_conn (r j) c) = [] \<and> pump_ready c (r j)"
  shows "\<exists>j \<ge> k. n \<le> pumped (hu_conn (r j) c)"
proof (induction n)
  case (Suc n)
  then obtain i where i: "k \<le> i" "n \<le> pumped (hu_conn (r i) c)" by blast
  obtain j where j: "i \<le> j" "\<not> pump_ready c (r j) \<or> pump_moved c (r j) (r (Suc j))" using assms(2) unfolding fair_pump_def by blast
  then have m: "pump_moved c (r j) (r (Suc j))" using assms(4) i(1) by auto
  have "c < hu_next (r i)" using run_carries [OF assms(1,3) i(1)] by simp
  then have "pumped (hu_conn (r i) c) \<le> pumped (hu_conn (r j) c)"
    using run_carries [OF assms(1) _ j(1), of c] assms(4) i(1) j(1) by (simp add: carries_on_def)
  moreover have "pumped (hu_conn (r j) c) < pumped (hu_conn (r (Suc j)) c)"
    using moved_pumped [OF m] assms(4) i(1) j(1) by simp
  ultimately have "Suc n \<le> pumped (hu_conn (r (Suc j)) c)" using i(2) by simp
  moreover have "k \<le> Suc j" using i(1) j(1) by simp
  ultimately show ?case by blast
qed auto

section \<open>Properties\<close>

text \<open>C33: whatever registers, fails, leaves and broadcasts at the same time, the hub never sends on a closed
  channel nor closes one twice; no channel holds more than its capacity; a client has been sent a prefix of
  what its channel took, in that order; its first 256 messages are never dropped; and each broadcast made
  while it was registered has been offered to it exactly once, or is about to be.\<close>

theorem hub_delivery:
  assumes "hub_reachable h"
  shows "\<not> hu_panic h \<and> length (wc_buffer (hu_conn h c)) \<le> 256
    \<and> (\<exists>rest. map fst (filter snd (wc_offered (hu_conn h c))) = wc_sent (hu_conn h c) @ rest)
    \<and> list_all snd (take 256 (wc_offered (hu_conn h c)))
    \<and> mset (map fst (wc_offered (hu_conn h c))) + owed (hu_casts h) c = mset (wc_due (hu_conn h c))"
proof -
  have ok: "hub_ok h" using assms by (rule hub_reachable_ok)
  then have "wc_sent (hu_conn h c) @ wc_lost (hu_conn h c) @ in_hand (hu_conn h c) @ wc_buffer (hu_conn h c)
      = accepted (hu_conn h c)"
    unfolding hub_ok_def client_ok_def by blast
  then show ?thesis using ok unfolding hub_ok_def client_ok_def accepted_def clientBufferSize_def by metis
qed

definition sample_hub :: hub where
  "sample_hub = on_client 0 pump_take (broadcast_to 0 0 (BroadcastEvent ''message'' (Some ''{}'') (Register NewHub)))"

lemma sample_hub_reachable: "hub_reachable sample_hub"
proof -
  let ?h1 = "Register NewHub" and ?h2 = "BroadcastEvent ''message'' (Some ''{}'') (Register NewHub)"
  let ?h3 = "broadcast_to 0 0 ?h2"
  note steps = NewHub_def Register_def BroadcastEvent_def broadcast_to_def new_client_def Let_def offer_def clientBufferSize_def
  have "hub_reachable ?h1" by (rule hub_reachable.step [OF hub_reachable.init]) (simp add: socket_step.register NewHub_def)
  then have "hub_reachable ?h2" by (rule hub_reachable.step) (rule socket_step.broadcast)
  moreover have "socket_step ?h2 ?h3" by (rule socket_step.reach) (simp_all add: steps)
  ultimately have "hub_reachable ?h3" by (rule hub_reachable.step)
  moreover have "socket_step ?h3 sample_hub" unfolding sample_hub_def
    by (rule socket_step.take_next) (simp_all add: steps on_client_def)
  ultimately show ?thesis by (rule hub_reachable.step)
qed

theorem hub_delivery_witness:
  "\<not> hu_panic sample_hub \<and> length (wc_offered (hu_conn sample_hub 0)) = 1"
  using hub_delivery [OF sample_hub_reachable, of 0]
  by (simp add: sample_hub_def NewHub_def Register_def BroadcastEvent_def broadcast_to_def new_client_def Let_def
      offer_def clientBufferSize_def)

text \<open>C34: what a channel took is sent, in every interleaving of the hub. In any run in which the pump of a client is not kept from moving for ever, all that
  the channel had taken at some moment has been sent to the client at a later one, in its order, or a write to the client has failed; and at any
  moment at which something is unsent and no write has failed, the pump runs and can move: it does not quit with a channel that is not empty.\<close>

theorem hub_drains:
  assumes "hub_run r" and "fair_pump c r" and "c < hu_next (r k)"
  shows "(\<exists>j \<ge> k. wc_lost (hu_conn (r j) c) \<noteq> [] \<or> (\<exists>rest. wc_sent (hu_conn (r j) c) = accepted (hu_conn (r k) c) @ rest))
    \<and> (wc_lost (hu_conn (r k) c) = [] \<and> wc_sent (hu_conn (r k) c) \<noteq> accepted (hu_conn (r k) c)
        \<longrightarrow> wc_pump (hu_conn (r k) c) \<and> (\<exists>h'. socket_step (r k) h' \<and> pump_moved c (r k) h'))"
proof (intro conjI impI)
  let ?A = "accepted (hu_conn (r k) c)"
  show "\<exists>j \<ge> k. wc_lost (hu_conn (r j) c) \<noteq> [] \<or> (\<exists>rest. wc_sent (hu_conn (r j) c) = ?A @ rest)"
  proof (rule ccontr)
    assume no: "\<not> ?thesis"
    have short: "length (wc_sent (hu_conn (r j) c)) < length ?A \<and> pump_ready c (r j)" if j: "k \<le> j" for j
    proof -
      let ?cl = "hu_conn (r j) c"
      have l: "wc_lost ?cl = []" using no j by blast
      obtain a where a: "accepted ?cl = ?A @ a" using run_carries [OF assms(1,3) j] by (auto simp: carries_on_def)
      have all: "wc_sent ?cl @ in_hand ?cl @ wc_buffer ?cl = accepted ?cl"
        using hub_reachable_ok [OF run_reachable [OF assms(1), of j]] l by (metis append_Nil client_ok_def hub_ok_def)
      have "length (wc_sent ?cl) < length ?A"
      proof (rule ccontr)
        assume "\<not> length (wc_sent ?cl) < length ?A"
        then have "take (length ?A) (wc_sent ?cl) = take (length ?A) (accepted ?cl)" unfolding all [symmetric] by simp
        then have "wc_sent ?cl = ?A @ drop (length ?A) (wc_sent ?cl)" using a append_take_drop_id [of "length ?A" "wc_sent ?cl"] by simp
        then show False using no j by blast
      qed
      moreover from this have "wc_sent ?cl \<noteq> accepted ?cl" using a by auto
      ultimately show ?thesis using left_ready [OF run_reachable [OF assms(1)] l] by blast
    qed
    have "\<forall>j \<ge> k. wc_lost (hu_conn (r j) c) = [] \<and> pump_ready c (r j)" using no short by blast
    from run_pumps [OF assms this, of "2 * length ?A"] obtain j where j: "k \<le> j" "2 * length ?A \<le> pumped (hu_conn (r j) c)" by blast
    have "length (in_hand (hu_conn (r j) c)) \<le> 1" by (simp add: in_hand_def split: option.split)
    then show False using j(2) short [OF j(1)] by (simp add: pumped_def)
  qed
next
  assume "wc_lost (hu_conn (r k) c) = [] \<and> wc_sent (hu_conn (r k) c) \<noteq> accepted (hu_conn (r k) c)"
  then have "pump_ready c (r k)" using left_ready [OF run_reachable [OF assms(1)]] by blast
  then show "wc_pump (hu_conn (r k) c)" "\<exists>h'. socket_step (r k) h' \<and> pump_moved c (r k) h'"
    using ready_moves [OF _ assms(3)] by (simp_all add: pump_ready_def)
qed

text \<open>The run that sends the message in hand and then does nothing any more: broadcasts whose payload cannot be marshalled.\<close>

definition sample_run :: "nat \<Rightarrow> hub" where
  "sample_run i = (if i = 0 then sample_hub else on_client 0 pump_write sample_hub)"

lemmas sample_hub_simps = sample_hub_def NewHub_def Register_def BroadcastEvent_def broadcast_to_def new_client_def Let_def
  offer_def clientBufferSize_def pump_take_def

lemma sample_run_ok: "hub_run sample_run" "fair_pump 0 sample_run"
proof -
  have "socket_step sample_hub (on_client 0 pump_write sample_hub)"
    by (rule socket_step.written) (simp_all add: sample_hub_simps)
  moreover have "socket_step h h" for h using socket_step.broadcast [of h "[]" None] by (simp add: BroadcastEvent_def)
  ultimately show "hub_run sample_run" using sample_hub_reachable by (auto simp: hub_run_def sample_run_def)
  have "\<not> pump_ready 0 (sample_run (Suc i))" for i
    by (simp add: sample_run_def pump_ready_def sample_hub_simps pump_write_def)
  then show "fair_pump 0 sample_run" unfolding fair_pump_def by (metis le_SucI le_refl)
qed

theorem hub_drains_witness:
  "accepted (hu_conn (sample_run 0) 0) = [ws_event ''message'' ''{}'']
   \<and> (\<exists>j rest. wc_sent (hu_conn (sample_run j) 0) = ws_event ''message'' ''{}'' # rest)"
proof -
  have a: "accepted (hu_conn (sample_run 0) 0) = [ws_event ''message'' ''{}'']" by (simp add: sample_run_def sample_hub_simps accepted_def)
  have "0 < hu_next (sample_run 0)" by (simp add: sample_run_def sample_hub_simps)
  from hub_drains [OF sample_run_ok this]
  obtain j where "wc_lost (hu_conn (sample_run j) 0) \<noteq> [] \<or> (\<exists>rest. wc_sent (hu_conn (sample_run j) 0) = accepted (hu_conn (sample_run 0) 0) @ rest)"
    by blast
  moreover have "wc_lost (hu_conn (sample_run j) 0) = []" by (simp add: sample_run_def sample_hub_simps pump_write_def)
  ultimately show ?thesis using a by auto
qed

end
