(* ===== verification/Indent.thy ===== *)
theory Indent
  imports JsonFacts
begin

text \<open>
  \<open>json.Encoder\<close> with \<open>SetIndent("", "  ")\<close>: the encoder marshals a value to a compact text and
  \<open>appendIndent\<close> (\<open>encoding/json/indent.go\<close>) lays it out. Text so laid out decodes to the same members
  and elements, each laid out one level deeper. A \<open>json.Decoder\<close> reads the first value of its input.
\<close>

section \<open>Laying out\<close>

text \<open>In a string, after a backslash, directly after an opening bracket, depth.\<close>

type_synonym layout = "bool \<times> bool \<times> bool \<times> nat"

definition new_line :: "nat \<Rightarrow> string" where
  "new_line d = CHR 0x0A # concat (replicate d ''  '')"

definition open_br :: "char \<Rightarrow> bool" where
  "open_br c \<longleftrightarrow> c = CHR ''{'' \<or> c = CHR ''[''"

definition close_br :: "char \<Rightarrow> bool" where
  "close_br c \<longleftrightarrow> c = CHR ''}'' \<or> c = CHR '']''"

fun layout_step :: "layout \<Rightarrow> char \<Rightarrow> string \<times> layout" where
  "layout_step (ins, esc, need, d) c =
     (if ins then ([c], (esc \<or> c \<noteq> CHR 0x22, \<not> esc \<and> c = CHR 0x5C, need, d))
      else if is_ws c then ([], (False, False, need, d))
      else if close_br c then
        (if need then ([c], (False, False, False, d)) else (new_line (d - 1) @ [c], (False, False, False, d - 1)))
      else (let pre = (if need then new_line (d + 1) else []); d' = (if need then d + 1 else d) in
        if open_br c then (pre @ [c], (False, False, True, d'))
        else if c = CHR '','' then (pre @ c # new_line d', (False, False, False, d'))
        else if c = CHR '':'' then (pre @ [c, CHR '' ''], (False, False, False, d'))
        else (pre @ [c], (c = CHR 0x22, False, False, d'))))"

fun layout_text :: "layout \<Rightarrow> string \<Rightarrow> string" where
  "layout_text st [] = []"
| "layout_text st (c # s) = (case layout_step st c of (out, st') \<Rightarrow> out @ layout_text st' s)"

fun layout_state :: "layout \<Rightarrow> string \<Rightarrow> layout" where
  "layout_state st [] = st"
| "layout_state st (c # s) = layout_state (snd (layout_step st c)) s"

abbreviation at_depth :: "nat \<Rightarrow> layout" where
  "at_depth d \<equiv> (False, False, False, d)"

definition indent_at :: "nat \<Rightarrow> string \<Rightarrow> string" where
  "indent_at d s = layout_text (at_depth d) s"

definition encode_indented :: "string \<Rightarrow> string" where
  "encode_indented s = indent_at 0 s @ [CHR 0x0A]"

section \<open>The first value of a text\<close>

text \<open>\<open>Decoder.readValue\<close>: up to the bracket that closes the value; a number or literal ends where something
  else begins.\<close>

fun first_value :: "scanner \<Rightarrow> string \<Rightarrow> string \<Rightarrow> string option" where
  "first_value q acc [] = (if json_valid acc then Some acc else None)"
| "first_value q acc (c # s) = (let q' = json_step q c in
     if fst q' = Bad then (if snd q = [] \<and> value_done (fst q) then Some acc else None)
     else if fst q' = EndTop then Some (if is_ws c then acc else acc @ [c])
     else first_value q' (acc @ [c]) s)"

definition decoder_value :: "string \<Rightarrow> string option" where
  "decoder_value s = first_value (BeginValue, []) [] s"

section \<open>Layout of a value\<close>

lemma layout_append: "layout_text st (a @ b) = layout_text st a @ layout_text (layout_state st a) b"
  by (induction a arbitrary: st) (auto split: prod.split simp del: layout_step.simps)

lemma layout_state_append: "layout_state st (a @ b) = layout_state (layout_state st a) b"
  by (induction a arbitrary: st) (auto simp del: layout_step.simps)

text \<open>The layout state and the balance of brackets.\<close>

definition in_balance :: "nat \<Rightarrow> balance \<Rightarrow> layout \<Rightarrow> bool" where
  "in_balance d b st = (case (b, st) of ((n, i, e), (ins, esc, need, k)) \<Rightarrow>
     i = ins \<and> e = esc \<and> (esc \<longrightarrow> ins) \<and> (need \<longrightarrow> \<not> ins \<and> 0 < n) \<and> k + (if need then 1 else 0) = d + n)"

lemma ws_plain: "is_ws c \<Longrightarrow> \<not> open_br c \<and> \<not> close_br c \<and> c \<noteq> CHR 0x22 \<and> c \<noteq> CHR 0x5C \<and> c \<noteq> CHR '','' \<and> c \<noteq> CHR '':''"
  by (auto simp: open_br_def close_br_def is_ws_def)

lemma balance_step:
  "in_balance d b st \<Longrightarrow> bal_step b c = Some b' \<Longrightarrow> in_balance d b' (snd (layout_step st c))"
proof -
  assume inv: "in_balance d b st" and b': "bal_step b c = Some b'"
  obtain n i e ins esc need k where st: "b = (n, i, e)" "st = (ins, esc, need, k)" by (cases b; cases st)
  from inv have i: "i = ins" "e = esc" "esc \<longrightarrow> ins" "need \<longrightarrow> \<not> ins \<and> 0 < n" "k + (if need then 1 else 0) = d + n"
    by (auto simp: in_balance_def st)
  show ?thesis
  proof (cases ins)
    case True
    then show ?thesis using i b' by (cases esc) (auto simp: in_balance_def st split: if_splits)
  next
    case out: False
    then have o: "\<not> esc" using i by simp
    consider "is_ws c" | "close_br c" "\<not> is_ws c" | "open_br c" "\<not> is_ws c" "\<not> close_br c"
      | "\<not> is_ws c" "\<not> close_br c" "\<not> open_br c" by blast
    then show ?thesis
    proof cases
      case 1
      then have "b' = (n, False, False)" using b' out o i ws_plain [of c] by (auto simp: st open_br_def close_br_def)
      then show ?thesis using 1 i out o by (simp add: in_balance_def st)
    next
      case 2
      then have "0 < n \<and> b' = (n - 1, False, False)" using b' out o i by (auto simp: st close_br_def split: if_splits)
      then show ?thesis using 2 i out o by (auto simp: in_balance_def st)
    next
      case 3
      then have "b' = (Suc n, False, False)" using b' out o i by (auto simp: st open_br_def)
      then show ?thesis using 3 i out o by (auto simp: in_balance_def st Let_def)
    next
      case 4
      then have "b' = (n, c = CHR 0x22, False)" using b' out o i by (auto simp: st open_br_def close_br_def split: if_splits)
      then show ?thesis using 4 i out o by (auto simp: in_balance_def st Let_def)
    qed
  qed
qed

lemma balance_run:
  "in_balance d b st \<Longrightarrow> solid sep b v = Some b' \<Longrightarrow> in_balance d b' (layout_state st v)"
proof (induction v arbitrary: b st)
  case (Cons c v)
  then obtain b1 where b1: "bal_step b c = Some b1" "solid sep b1 v = Some b'"
    by (auto split: if_splits option.splits)
  then show ?case using Cons.IH [OF balance_step [OF Cons.prems(1) b1(1)] b1(2)] by (simp del: layout_step.simps)
qed simp

lemma value_layout:
  assumes "json_valid v"
  shows "layout_state (at_depth d) v = at_depth d"
proof -
  have "in_balance d bal0 (layout_state (at_depth d) v)"
    by (rule balance_run [OF _ value_solid [OF assms disjI1 [OF refl]]]) (simp add: in_balance_def)
  then show ?thesis by (auto simp: in_balance_def split: prod.splits if_splits)
qed

text \<open>After an opening bracket the first byte goes to a line of its own.\<close>

lemma layout_need:
  assumes "\<not> is_ws c" and "\<not> close_br c"
  shows "layout_text (False, False, True, d) (c # s) = new_line (d + 1) @ layout_text (at_depth (d + 1)) (c # s)"
    and "layout_state (False, False, True, d) (c # s) = layout_state (at_depth (d + 1)) (c # s)"
  using assms by (auto simp: Let_def)

definition plain_char :: "char \<Rightarrow> bool" where
  "plain_char c \<longleftrightarrow> \<not> is_ws c \<and> \<not> open_br c \<and> \<not> close_br c \<and> c \<noteq> CHR 0x22 \<and> c \<noteq> CHR '','' \<and> c \<noteq> CHR '':''"

lemma indent_plain: "list_all plain_char s \<Longrightarrow> indent_at d s = s"
  unfolding indent_at_def by (induction s) (auto simp: plain_char_def Let_def)

lemma quote_char_layout:
  "ord c < 128 \<Longrightarrow> layout_text (True, False, False, d) (quote_char c @ s) = quote_char c @ layout_text (True, False, False, d) s"
proof -
  have h: "hex_digit n \<noteq> CHR 0x22 \<and> hex_digit n \<noteq> CHR 0x5C" if "n < 16" for n
    using is_hex_digit [OF that] by (auto simp: is_hex_def is_digit_def)
  have "ord c div 16 < 16" using ord_less [of c] by presburger
  then show ?thesis using h [of "ord c div 16"] h [of "ord c mod 16"] by (simp add: quote_char_def u00_def)
qed

lemma indent_quote: "ascii k \<Longrightarrow> layout_text (at_depth d) (quote k) = quote k"
proof -
  assume k: "ascii k"
  have "layout_text (True, False, False, d) (quote_body k @ s) = quote_body k @ layout_text (True, False, False, d) s" for s
    using k unfolding quote_body_ascii [OF k]
    by (induction k) (auto simp: quote_char_layout quote_body_ascii simp del: layout_text.simps layout_step.simps)
  then show ?thesis by (simp add: quote_def open_br_def close_br_def Let_def)
qed

lemma quote_layout: "ascii k \<Longrightarrow> layout_state (at_depth d) (quote k) = at_depth d"
  by (rule value_layout) (rule quote_valid)

section \<open>Layout of objects and arrays\<close>

definition starts :: "string \<Rightarrow> bool" where
  "starts v \<longleftrightarrow> v \<noteq> [] \<and> \<not> is_ws (hd v) \<and> \<not> close_br (hd v)"

lemma layout_pieces:
  "ps \<noteq> [] \<Longrightarrow> \<forall>p \<in> set ps. layout_state (at_depth d) p = at_depth d \<Longrightarrow>
   new_line d @ layout_text (at_depth d) (join '','' ps @ s)
     = join '','' (map (\<lambda>p. new_line d @ layout_text (at_depth d) p) ps) @ layout_text (at_depth d) s"
proof (induction ps)
  case (Cons p ps)
  show ?case
  proof (cases ps)
    case Nil
    then show ?thesis using Cons.prems by (simp add: layout_append)
  next
    case (Cons q qs)
    have comma: "layout_text (at_depth d) (CHR '','' # r) = CHR '','' # new_line d @ layout_text (at_depth d) r" for r
      by (simp add: Let_def open_br_def close_br_def)
    have "new_line d @ layout_text (at_depth d) (join '','' ps @ s)
        = join '','' (map (\<lambda>p. new_line d @ layout_text (at_depth d) p) ps) @ layout_text (at_depth d) s"
      using Cons.IH Cons.prems Cons by simp
    then show ?thesis using Cons.prems Cons by (simp add: layout_append comma del: layout_step.simps layout_text.simps)
  qed
qed simp

lemma layout_brackets:
  assumes "open_br b" and "close_br c" and "ps \<noteq> []" and "\<forall>p \<in> set ps. layout_state (at_depth (d + 1)) p = at_depth (d + 1)"
    and "starts (hd ps)"
  shows "layout_text (at_depth d) (b # join '','' ps @ [c])
    = b # join '','' (map (\<lambda>p. new_line (d + 1) @ layout_text (at_depth (d + 1)) p) ps) @ new_line d @ [c]"
proof -
  obtain x r where x: "join '','' ps @ [c] = x # r" and sx: "\<not> is_ws x" "\<not> close_br x"
    using assms(3,5) by (cases ps; cases "tl ps"; cases "hd ps") (auto simp: starts_def)
  have b: "layout_step (at_depth d) b = ([b], (False, False, True, d))"
    using assms(1) by (auto simp: open_br_def close_br_def Let_def)
  have c: "layout_text (at_depth (d + 1)) [c] = new_line d @ [c]"
    using assms(2) by (auto simp: close_br_def)
  have "layout_text (at_depth d) (b # x # r) = b # layout_text (False, False, True, d) (x # r)"
    by (simp only: layout_text.simps b prod.case append_Cons append_Nil)
  also have "\<dots> = b # new_line (d + 1) @ layout_text (at_depth (d + 1)) (x # r)" by (simp only: layout_need [OF sx])
  also have "\<dots> = b # join '','' (map (\<lambda>p. new_line (d + 1) @ layout_text (at_depth (d + 1)) p) ps) @ layout_text (at_depth (d + 1)) [c]"
    using layout_pieces [OF assms(3,4), of "[c]"] unfolding x by simp
  finally show ?thesis unfolding x c .
qed

lemma array_layout:
  assumes "vs \<noteq> []" and "\<forall>v \<in> set vs. json_valid v" and "starts (hd vs)"
  shows "indent_at d (''['' @ join '','' vs @ '']'')
    = ''['' @ join '','' (map (\<lambda>v. new_line (d + 1) @ indent_at (d + 1) v) vs) @ new_line d @ '']''"
  using layout_brackets [of "CHR ''[''" "CHR '']''" vs d] assms value_layout
  by (simp add: indent_at_def open_br_def close_br_def)

definition laid_member :: "nat \<Rightarrow> string \<times> string \<Rightarrow> string" where
  "laid_member d kv = new_line d @ quote (fst kv) @ '': '' @ indent_at d (snd kv)"

lemma member_layout:
  assumes "ok_member kv"
  shows "new_line d @ layout_text (at_depth d) (plain_member kv) = laid_member d kv"
    and "layout_state (at_depth d) (plain_member kv) = at_depth d"
proof -
  have k: "ascii (fst kv)" and v: "json_valid (snd kv)" using assms by (simp_all add: ok_member_def)
  have c: "layout_text (at_depth d) (CHR '':'' # s) = '': '' @ layout_text (at_depth d) s"
      "layout_state (at_depth d) (CHR '':'' # s) = layout_state (at_depth d) s" for s
    by (simp_all add: Let_def open_br_def close_br_def)
  show "new_line d @ layout_text (at_depth d) (plain_member kv) = laid_member d kv"
    by (simp only: plain_member_def layout_append indent_quote [OF k] quote_layout [OF k] c laid_member_def indent_at_def append_assoc)
  show "layout_state (at_depth d) (plain_member kv) = at_depth d"
    by (simp only: plain_member_def layout_state_append quote_layout [OF k] c value_layout [OF v])
qed

lemma object_layout:
  assumes "m \<noteq> []" and "\<forall>kv \<in> set m. ok_member kv"
  shows "indent_at d (plain_obj m) = ''{'' @ join '','' (map (laid_member (d + 1)) m) @ new_line d @ ''}''"
proof -
  have "starts (plain_member kv)" for kv by (simp add: starts_def plain_member_def quote_def close_br_def)
  then have "layout_text (at_depth d) (CHR ''{'' # join '','' (map plain_member m) @ ''}'')
      = CHR ''{'' # join '','' (map (\<lambda>p. new_line (d + 1) @ layout_text (at_depth (d + 1)) p) (map plain_member m)) @ new_line d @ ''}''"
    using layout_brackets [of "CHR ''{''" "CHR ''}''" "map plain_member m" d] assms member_layout(2)
    by (simp add: open_br_def close_br_def hd_map del: layout_text.simps)
  moreover have "map (\<lambda>p. new_line (d + 1) @ layout_text (at_depth (d + 1)) p) (map plain_member m) = map (laid_member (d + 1)) m"
    using assms(2) member_layout(1) unfolding map_map by (intro map_cong refl) (simp only: comp_apply)
  ultimately show ?thesis by (simp only: indent_at_def plain_obj_def append_Cons append_Nil)
qed

section \<open>Objects with white space\<close>

definition padded :: "string \<times> string \<times> string \<Rightarrow> string" where
  "padded p = fst p @ plain_member (snd p)"

definition ok_padded :: "string \<times> string \<times> string \<Rightarrow> bool" where
  "ok_padded p \<longleftrightarrow> list_all is_ws (fst p) \<and> ok_member (snd p)"

definition padded_obj :: "(string \<times> string \<times> string) list \<Rightarrow> string" where
  "padded_obj l = CHR ''{'' # join '','' (map padded l) @ ''}''"

lemma run_ws_key: "list_all is_ws w \<Longrightarrow> json_run (BeginString, ks) w = (BeginString, ks)"
    "list_all is_ws w \<Longrightarrow> json_run (BeginStringOrEmpty, ks) w = (BeginStringOrEmpty, ks)"
  by (induction w) (auto simp: begin_string_def)

lemma padded_run:
  "l \<noteq> [] \<Longrightarrow> \<forall>p \<in> set l. ok_padded p \<Longrightarrow>
   json_run (BeginString, CKey # st) (join '','' (map padded l) @ ''}'') = end_value (CHR ''}'') (CVal # st)"
proof (induction l)
  case (Cons p l)
  then have p: "list_all is_ws (fst p)" "ok_member (snd p)" by (simp_all add: ok_padded_def)
  have run: "json_run (BeginString, CKey # st) (padded p @ c # s) = json_run (end_value c (CVal # st)) s" if "delim c" for c s
    using member_run [OF p(2) that, of st] by (simp add: padded_def run_ws_key [OF p(1)])
  show ?case
  proof (cases l)
    case Nil
    then show ?thesis using run [of "CHR ''}''" "[]"] by (simp del: json_run_append)
  next
    case (Cons q qs)
    then have "json_run (BeginString, CKey # st) (join '','' (map padded l) @ ''}'') = end_value (CHR ''}'') (CVal # st)"
      using Cons.IH Cons.prems by simp
    then show ?thesis using Cons run [of "CHR '',''" "join '','' (map padded l) @ ''}''"]
      by (simp del: json_run_append)
  qed
qed simp

lemma padded_first: "ok_padded p \<Longrightarrow>
  json_run (BeginStringOrEmpty, ks) (padded p @ s) = json_run (BeginString, ks) (padded p @ s)"
proof -
  assume "ok_padded p"
  then have w: "list_all is_ws (fst p)" by (simp add: ok_padded_def)
  show ?thesis by (simp add: padded_def run_ws_key [OF w] plain_member_def quote_def begin_string_def)
qed

lemma padded_obj_run:
  assumes "l \<noteq> []" and "\<forall>p \<in> set l. ok_padded p"
  shows "json_run (BeginValue, ks) (padded_obj l) = end_value (CHR ''}'') (CVal # ks)"
proof -
  obtain p qs where l: "l = p # qs" using assms(1) by (cases l) auto
  obtain s where s: "join '','' (map padded l) @ ''}'' = padded p @ s" unfolding l by (cases qs) simp_all
  have "json_run (BeginValue, ks) (padded_obj l) = json_run (BeginStringOrEmpty, CKey # ks) (padded p @ s)"
    unfolding padded_obj_def s by (simp add: begin_value_def)
  also have "\<dots> = json_run (BeginString, CKey # ks) (padded p @ s)"
    using padded_first assms(2) unfolding l by simp
  finally show ?thesis using padded_run [OF assms] unfolding s by simp
qed

lemma padded_valid: "l \<noteq> [] \<Longrightarrow> \<forall>p \<in> set l. ok_padded p \<Longrightarrow> json_valid (padded_obj l)"
  by (rule done_json_valid [of _ EndTop]) (simp_all add: padded_obj_run value_done_def)

lemma ws_solid: "list_all is_ws w \<Longrightarrow> sep = CHR '','' \<or> sep = CHR '':'' \<Longrightarrow> solid sep bal0 w = Some bal0"
proof (induction w)
  case (Cons c w)
  then have "is_ws c" by simp
  then have "bal_step bal0 c = Some bal0" "c \<noteq> sep"
    using ws_plain [of c] Cons.prems(2) by (auto simp: open_br_def close_br_def)
  then show ?case using Cons by simp
qed simp

lemma trim_ws_before: "list_all is_ws w \<Longrightarrow> trim_ws (w @ v) = trim_ws v"
proof -
  assume "list_all is_ws w"
  then have "dropWhile is_ws (w @ v) = dropWhile is_ws v" by (induction w) auto
  then show ?thesis by (simp add: trim_ws_def trim_by_def trim_left_by_def)
qed

lemma trim_ws_after: "list_all is_ws w \<Longrightarrow> trim_ws (v @ w) = trim_ws v"
proof -
  assume w: "list_all is_ws w"
  then have rw: "dropWhile is_ws (rev w @ r) = dropWhile is_ws r" for r
    by (induction w arbitrary: r) auto
  show ?thesis
  proof (cases "list_all is_ws v")
    case True
    then show ?thesis using w trim_by_Nil_iff [of is_ws v] trim_by_Nil_iff [of is_ws "v @ w"] by (simp add: trim_ws_def)
  next
    case False
    then have "dropWhile is_ws (v @ w) = dropWhile is_ws v @ w" by (auto simp: list_all_iff dropWhile_append)
    then show ?thesis by (simp add: trim_ws_def trim_by_def trim_left_by_def trim_right_by_def rw)
  qed
qed

lemma mk_padded:
  assumes "ok_padded p"
  shows "mk_member (padded p) = (fst (snd p), trim_ws (snd (snd p)))"
proof -
  have p: "list_all is_ws (fst p)" "ascii (fst (snd p))" "json_valid (snd (snd p))"
    using assms by (simp_all add: ok_padded_def ok_member_def)
  have "split_top (CHR '':'') bal0 (join [CHR '':''] [fst p @ quote (fst (snd p)), snd (snd p)]) = [fst p @ quote (fst (snd p)), snd (snd p)]"
    using quote_solid [OF p(2), of "CHR '':''"] value_solid [OF p(3), of "CHR '':''"] ws_solid [OF p(1), of "CHR '':''"]
    by (intro split_top_join) (auto simp: solid_append)
  then have "split_top (CHR '':'') bal0 (padded p) = [fst p @ quote (fst (snd p)), snd (snd p)]"
    by (simp add: padded_def plain_member_def)
  then show ?thesis using p by (simp add: mk_member_def trim_ws_before trim_quote unquote_quote)
qed

lemma decode_padded:
  assumes "l \<noteq> []" and "\<forall>p \<in> set l. ok_padded p"
  shows "decode (padded_obj l) = Some (JObj (map (\<lambda>p. (fst (snd p), trim_ws (snd (snd p)))) l))"
proof -
  have trim: "trim_ws (padded_obj l) = padded_obj l"
    using trim_by_ends [of is_ws "CHR ''{''" "CHR ''}''" "join '','' (map padded l)"] by (simp add: trim_ws_def padded_obj_def)
  have "\<not> list_all is_ws (padded p)" for p by (simp add: padded_def plain_member_def quote_def)
  then have "trim_ws (join '','' (map padded l)) \<noteq> []"
    using join_not_all_ws [of "map padded l"] assms(1) by (simp add: trim_ws_def trim_by_Nil_iff)
  moreover have "solid (CHR '','') bal0 (padded p) = Some bal0" if "ok_padded p" for p
    using that member_solid [of "snd p"] ws_solid [of "fst p" "CHR '',''"] by (simp add: padded_def ok_padded_def solid_append)
  then have "split_top (CHR '','') bal0 (join '','' (map padded l)) = map padded l"
    using split_top_join [of "map padded l" "CHR '',''"] assms by simp
  moreover have "map (mk_member \<circ> padded) l = map (\<lambda>p. (fst (snd p), trim_ws (snd (snd p)))) l"
    using assms(2) mk_padded by simp
  ultimately show ?thesis
    using padded_valid [OF assms] trim by (auto simp: decode_def decode_valid_def padded_obj_def)
qed

section \<open>Layout keeps a text valid\<close>

definition empty_start :: "jst \<Rightarrow> bool" where
  "empty_start p \<longleftrightarrow> p = BeginValueOrEmpty \<or> p = BeginStringOrEmpty"

lemma ws_kept:
  "list_all is_ws w \<Longrightarrow> fst q \<in> {BeginValueOrEmpty, BeginStringOrEmpty, BeginValue, BeginString} \<Longrightarrow> json_run q w = q"
proof (induction w)
  case (Cons c w)
  then have c: "is_ws c" by simp
  obtain p ks where q: "q = (p, ks)" by (cases q)
  have "json_step q c = q" using Cons.prems(2) c unfolding q by (elim insertE) (simp_all add: begin_value_def begin_string_def)
  then show ?case using Cons by simp
qed simp

lemma new_line_ws [simp]: "list_all is_ws (new_line d)"
  by (auto simp: new_line_def list_all_iff is_ws_def)

lemma after_separator:
  assumes "fst (json_step q c) \<noteq> Bad" and "\<not> in_str (fst q)" and "lit_ok q" and "c = CHR '','' \<or> c = CHR '':''"
  shows "fst (json_step q c) \<in> {BeginValue, BeginString}"
proof -
  obtain p ks where q: "q = (p, ks)" by (cases q)
  have e: "fst (end_value c ks) = Bad \<or> fst (end_value c ks) \<in> {BeginValue, BeginString}"
    using assms(4) by (cases ks) (auto split: jctx.splits)
  have c: "\<not> is_ws c" "\<not> is_digit c" "c \<notin> set ''{[}]-0tfn.eE+aelrsu''" "c \<noteq> CHR 0x22" using assms(4) by auto
  show ?thesis
  proof (cases p)
    case (Lit l)
    then show ?thesis using assms(1,3) c(3) unfolding q by (cases l) (auto simp: lit_ok_def split: if_splits)
  qed (use assms(1,2) c e in \<open>simp_all add: q begin_value_def begin_string_def num0_def exp_sign_def\<close>)
qed

lemma after_open:
  assumes "fst (json_step q c) \<noteq> Bad" and "\<not> in_str (fst q)" and "lit_ok q" and "open_br c"
  shows "empty_start (fst (json_step q c))"
proof -
  obtain p ks where q: "q = (p, ks)" by (cases q)
  have e: "fst (end_value c k) = Bad" for k
    using assms(4) by (cases k) (auto simp: open_br_def split: jctx.splits)
  show ?thesis
  proof (cases p)
    case (Lit l)
    then show ?thesis using assms q by (cases l) (auto simp: lit_ok_def open_br_def split: if_splits)
  qed (use assms q e in \<open>auto simp: begin_value_def begin_string_def num0_def exp_sign_def open_br_def empty_start_def is_digit_def split: if_splits\<close>)
qed

lemma ws_before_close:
  assumes "fst (json_step q c) \<noteq> Bad" and "\<not> in_str (fst q)" and "lit_ok q" and "close_br c" and w: "list_all is_ws w"
  shows "json_step (json_run q w) c = json_step q c"
proof -
  obtain p ks where q: "q = (p, ks)" by (cases q)
  have nw: "\<not> is_ws c" "delim c" "\<not> is_digit c" using assms(4) by (auto simp: close_br_def is_digit_def)
  have "empty_start p \<or> (value_done p \<and> p \<noteq> EndTop)"
  proof (cases p)
    case (Lit l)
    then show ?thesis using assms q by (cases l) (auto simp: lit_ok_def close_br_def split: if_splits)
  qed (use assms q nw in \<open>auto simp: begin_value_def begin_string_def num0_def exp_sign_def close_br_def empty_start_def value_done_def\<close>)
  then show ?thesis
  proof
    assume "empty_start p"
    then show ?thesis using ws_kept [OF w, of q] q by (auto simp: empty_start_def simp del: json_step.simps)
  next
    assume p: "value_done p \<and> p \<noteq> EndTop"
    then have c: "json_step q c = end_value c ks" using value_done_delim nw(2) q by blast
    then obtain k ks' where ks: "ks = k # ks'" using assms(1) nw(1) by (cases ks) auto
    have ev: "json_run (EndValue, ks) v = (EndValue, ks)" if "list_all is_ws v" for v
      using that by (induction v) (auto simp: ks)
    show ?thesis
    proof (cases w)
      case (Cons a v)
      then have "json_step q a = end_value a ks" "is_ws a" using p w q value_done_delim [of p a ks] by (auto simp: delim_def)
      then have "json_run q w = (EndValue, ks)" using Cons w ev ks by simp
      then show ?thesis using c by simp
    qed simp
  qed
qed

definition layout_ok :: "scanner \<Rightarrow> layout \<Rightarrow> bool" where
  "layout_ok q st = (case st of (ins, esc, need, d) \<Rightarrow>
     ins = in_str (fst q) \<and> esc = (fst q = InEsc) \<and> (need \<longrightarrow> empty_start (fst q)))"

lemma rel_not_Bad: "compact_rel q q' \<Longrightarrow> fst q \<noteq> Bad \<Longrightarrow> fst q' \<noteq> Bad"
  by (auto simp: compact_rel_def value_done_def)

lemma rel_same: "compact_rel q q' \<Longrightarrow> empty_start (fst q) \<Longrightarrow> q' = q"
  by (auto simp: compact_rel_def empty_start_def)

lemma rel_lit: "compact_rel q q' \<Longrightarrow> lit_ok q \<Longrightarrow> lit_ok q' \<and> (\<not> in_str (fst q) \<longrightarrow> \<not> in_str (fst q'))"
  by (cases q; cases q') (auto simp: compact_rel_def lit_ok_def value_done_def)

lemma layout_step_run:
  assumes nb: "fst (json_step q c) \<noteq> Bad" and rel: "compact_rel q q'" and ok: "scan_ok q" and lay: "layout_ok q st"
  shows "compact_rel (json_step q c) (json_run q' (fst (layout_step st c))) \<and> layout_ok (json_step q c) (snd (layout_step st c))"
proof -
  obtain ins esc need d where st: "st = (ins, esc, need, d)" by (cases st)
  have lit: "lit_ok q" using ok by (simp add: scan_ok_def)
  note inst = in_str_step [OF lit nb]
  have i: "ins = in_str (fst q)" "esc = (fst q = InEsc)" "need \<longrightarrow> empty_start (fst q)" using lay by (simp_all add: layout_ok_def st)
  show ?thesis
  proof (cases ins)
    case True
    then have "q' = q" "\<not> need" using compact_rel_str rel i by (auto simp: empty_start_def)
    then show ?thesis using True i inst by (auto simp: st layout_ok_def simp del: json_step.simps)
  next
    case out: False
    then have os: "\<not> in_str (fst q)" "\<not> in_str (fst q')" "lit_ok q'" using i rel_lit [OF rel lit] by auto
    have esc: "\<not> esc" "fst (json_step q c) \<noteq> InEsc" using i inst os by auto
    show ?thesis
    proof (cases "is_ws c")
      case True
      then have "compact_rel (json_step q c) q'" using compact_rel_ws rel nb os lit ok by (auto simp: scan_ok_def)
      moreover have "need \<longrightarrow> empty_start (fst (json_step q c))"
        using i(3) True ws_kept [of "[c]" q] by (auto simp: empty_start_def simp del: json_step.simps)
      ultimately show ?thesis using True out esc os inst by (auto simp: st layout_ok_def simp del: json_step.simps)
    next
      case nw: False
      have rel': "compact_rel (json_step q c) (json_step q' c)" using compact_rel_step rel nb nw by blast
      then have nb': "fst (json_step q' c) \<noteq> Bad" using rel_not_Bad nb by blast
      have pre: "json_run q' (new_line k) = q'" if need for k
      proof -
      have e: "empty_start (fst q)" using that i(3) by blast
      then have "q' = q" using rel_same rel by blast
      then show ?thesis using e ws_kept [OF new_line_ws, of q k] by (auto simp: empty_start_def)
    qed
      consider "close_br c" | "open_br c" "\<not> close_br c" | "c = CHR '','' \<or> c = CHR '':''" "\<not> close_br c" "\<not> open_br c"
        | "\<not> close_br c" "\<not> open_br c" "c \<noteq> CHR '',''" "c \<noteq> CHR '':''" by blast
      then show ?thesis
      proof cases
        case 1
        then have "json_step (json_run q' (new_line k)) c = json_step q' c" for k
          using ws_before_close [OF nb' os(2,3)] by simp
        moreover have "\<not> in_str (fst (json_step q c))" using 1 inst os by (auto simp: close_br_def simp del: json_step.simps)
        ultimately show ?thesis using 1 out nw rel' esc by (auto simp: st layout_ok_def simp del: json_step.simps)
      next
        case 2
        then have "empty_start (fst (json_step q c))" using after_open [OF nb os(1) lit] by simp
        moreover have "\<not> in_str (fst (json_step q c))" using 2 inst os by (auto simp: open_br_def simp del: json_step.simps)
        ultimately show ?thesis using 2 out nw rel' esc pre by (auto simp: st layout_ok_def Let_def simp del: json_step.simps)
      next
        case 3
        have "json_run (json_step q' c) w = json_step q' c" if "list_all is_ws w" for w
          using after_separator [OF nb' os(2,3) 3(1)] ws_kept [OF that] by auto
        from this [of "new_line _"] this [of "'' ''"]
        have ws: "json_run (json_step q' c) (new_line k) = json_step q' c" "json_step (json_step q' c) (CHR '' '') = json_step q' c" for k
          by simp_all
        moreover have "\<not> in_str (fst (json_step q c))" using 3 inst os by (auto simp del: json_step.simps)
        ultimately show ?thesis using 3 out nw rel' esc pre by (auto simp: st layout_ok_def Let_def simp del: json_step.simps)
      next
        case 4
        then show ?thesis using out nw rel' esc pre inst os by (auto simp: st layout_ok_def Let_def simp del: json_step.simps)
      qed
    qed
  qed
qed

lemma layout_run:
  "fst (json_run q s) \<noteq> Bad \<Longrightarrow> compact_rel q q' \<Longrightarrow> scan_ok q \<Longrightarrow> layout_ok q st \<Longrightarrow>
   compact_rel (json_run q s) (json_run q' (layout_text st s))"
proof (induction s arbitrary: q q' st)
  case (Cons c s)
  have nb: "fst (json_step q c) \<noteq> Bad" using Cons.prems(1) json_run_not_Bad by simp
  note step = layout_step_run [OF nb Cons.prems(2-4)]
  have "compact_rel (json_run (json_step q c) s)
      (json_run (json_run q' (fst (layout_step st c))) (layout_text (snd (layout_step st c)) s))"
    using Cons.prems(1) step scan_ok_step [OF Cons.prems(3)] by (intro Cons.IH) auto
  then show ?case by (simp add: case_prod_unfold del: layout_step.simps json_step.simps)
qed simp

theorem indent_valid:
  assumes "json_valid v"
  shows "json_valid (indent_at d v)"
proof -
  from assms obtain p where run: "json_run (BeginValue, []) v = (p, [])" and p: "value_done p"
    by (rule json_valid_done)
  then have "compact_rel (p, []) (json_run (BeginValue, []) (indent_at d v))"
    using layout_run [of "(BeginValue, [])" v "(BeginValue, [])" "at_depth d"]
    by (auto simp: indent_at_def scan_ok_def value_done_def layout_ok_def)
  then obtain p' where "json_run (BeginValue, []) (indent_at d v) = (p', [])" "value_done p'"
    using p by (cases "json_run (BeginValue, []) (indent_at d v)") (auto simp: compact_rel_def)
  then show ?thesis by (rule done_json_valid)
qed

section \<open>Decoding what was laid out\<close>

lemma join_tail: "ps \<noteq> [] \<Longrightarrow> join s ps @ w = join s (butlast ps @ [last ps @ w])"
proof (induction ps)
  case (Cons p ps)
  show ?case
  proof (cases ps)
    case (Cons q qs)
    then have "butlast ps @ [last ps @ w] \<noteq> []" by simp
    then obtain x xs where x: "butlast ps @ [last ps @ w] = x # xs" by (cases "butlast ps @ [last ps @ w]") auto
    have "join s (p # ps) @ w = p @ s @ join s ps @ w" by (simp add: Cons)
    also have "\<dots> = p @ s @ join s (x # xs)" using Cons.IH x Cons by simp
    also have "\<dots> = join s (p # butlast ps @ [last ps @ w])" by (simp add: x)
    finally show ?thesis using Cons by simp
  qed simp
qed simp

lemma valid_ws:
  assumes "json_valid v" and "list_all is_ws a" and "list_all is_ws b"
  shows "json_valid (a @ v @ b)"
proof -
  obtain p where run: "json_run (BeginValue, []) v = (p, [])" and p: "value_done p"
    using assms(1) by (rule json_valid_done)
  have top: "json_run (EndTop, []) w = (EndTop, [])" if "list_all is_ws w" for w
    using that by (induction w) auto
  have "json_run (p, []) b = (if b = [] then p else EndTop, [])"
  proof (cases b)
    case (Cons c r)
    then have c: "is_ws c" "list_all is_ws r" using assms(3) by auto
    then have "json_step (p, []) c = (EndTop, [])"
      using p value_done_delim [of p c "[]"] by (cases "p = EndTop") (auto simp: delim_def)
    then show ?thesis using Cons top [OF c(2)] by simp
  qed simp
  then show ?thesis
    using run p ws_kept [OF assms(2), of "(BeginValue, [])"]
    by (intro done_json_valid [of _ "if b = [] then p else EndTop"]) (auto simp: value_done_def)
qed

definition laid_padded :: "nat \<Rightarrow> jobj \<Rightarrow> (string \<times> string \<times> string) list" where
  "laid_padded d m = (let l = map (\<lambda>kv. (new_line (d + 1), fst kv, '' '' @ indent_at (d + 1) (snd kv))) m
     in butlast l @ [(fst (last l), fst (snd (last l)), snd (snd (last l)) @ new_line d)])"

lemma laid_obj_padded:
  assumes "m \<noteq> []" and "\<forall>kv \<in> set m. ok_member kv"
  shows "indent_at d (plain_obj m) = padded_obj (laid_padded d m)"
    and "\<forall>p \<in> set (laid_padded d m). ok_padded p"
    and "map (\<lambda>p. (fst (snd p), trim_ws (snd (snd p)))) (laid_padded d m) = map (\<lambda>kv. (fst kv, trim_ws (indent_at (d + 1) (snd kv)))) m"
proof -
  let ?f = "\<lambda>kv. (new_line (d + 1), fst kv, '' '' @ indent_at (d + 1) (snd kv))"
  obtain m' k v where m: "m = m' @ [(k, v)]" using assms(1) by (cases m rule: rev_cases) auto
  have lp: "laid_padded d m = map ?f m' @ [(new_line (d + 1), k, '' '' @ indent_at (d + 1) v @ new_line d)]"
    by (simp add: laid_padded_def m)
  have f: "padded (?f kv) = laid_member (d + 1) kv" for kv
    by (simp add: padded_def plain_member_def laid_member_def)
  have "join '','' (map (laid_member (d + 1)) m) @ new_line d
      = join '','' (map (laid_member (d + 1)) m' @ [laid_member (d + 1) (k, v) @ new_line d])"
    using join_tail [of "map (laid_member (d + 1)) m"] by (simp add: m)
  moreover have "map padded (laid_padded d m) = map (laid_member (d + 1)) m' @ [laid_member (d + 1) (k, v) @ new_line d]"
    using f by (simp add: lp) (simp add: padded_def plain_member_def laid_member_def)
  ultimately show "indent_at d (plain_obj m) = padded_obj (laid_padded d m)"
    using object_layout [OF assms, of d] by (simp add: padded_obj_def)
  have sp: "list_all is_ws '' ''" by (simp add: is_ws_def)
  have "json_valid ('' '' @ indent_at (d + 1) u)" "json_valid ('' '' @ indent_at (d + 1) u @ new_line d)" if "json_valid u" for u
    using valid_ws [OF indent_valid [OF that] sp, of "[]"] valid_ws [OF indent_valid [OF that] sp, of "new_line d"] by simp_all
  then show "\<forall>p \<in> set (laid_padded d m). ok_padded p"
    using assms(2) unfolding lp by (auto simp: m ok_padded_def ok_member_def)
  have "trim_ws ('' '' @ u) = trim_ws u" "trim_ws ('' '' @ u @ new_line d) = trim_ws u" for u
    using trim_ws_before [OF sp] trim_ws_after [OF new_line_ws] by (metis append_assoc)+
  then show "map (\<lambda>p. (fst (snd p), trim_ws (snd (snd p)))) (laid_padded d m) = map (\<lambda>kv. (fst kv, trim_ws (indent_at (d + 1) (snd kv)))) m"
    unfolding lp by (simp add: m)
qed

theorem decode_laid_obj:
  assumes "m \<noteq> []" and "\<forall>kv \<in> set m. ok_member kv"
  shows "decode (indent_at d (plain_obj m)) = Some (JObj (map (\<lambda>kv. (fst kv, trim_ws (indent_at (d + 1) (snd kv)))) m))"
  using decode_padded [OF _ laid_obj_padded(2) [OF assms, of d]] laid_obj_padded(1,3) [OF assms, of d]
  by (simp add: laid_padded_def Let_def)

lemma laid_obj_trim: "m \<noteq> [] \<Longrightarrow> \<forall>kv \<in> set m. ok_member kv \<Longrightarrow> trim_ws (indent_at d (plain_obj m)) = indent_at d (plain_obj m)"
  using trim_by_ends [of is_ws "CHR ''{''" "CHR ''}''" "join '','' (map padded (laid_padded d m))"]
  by (simp add: laid_obj_padded(1) padded_obj_def trim_ws_def)

definition array_text :: "string list \<Rightarrow> string" where
  "array_text vs = ''['' @ join '','' vs @ '']''"

lemma laid_array_pieces:
  assumes "vs \<noteq> []" and "\<forall>v \<in> set vs. json_valid v" and "starts (hd vs)"
  shows "\<exists>ps. indent_at d (array_text vs) = array_text ps \<and> (\<forall>v \<in> set ps. json_valid v)
    \<and> map trim_ws ps = map (\<lambda>v. trim_ws (indent_at (d + 1) v)) vs"
proof -
  let ?f = "\<lambda>v. new_line (d + 1) @ indent_at (d + 1) v"
  obtain vs' v where vs: "vs = vs' @ [v]" using assms(1) by (cases vs rule: rev_cases) auto
  let ?ps = "map ?f vs' @ [?f v @ new_line d]"
  have "join '','' (map ?f vs) @ new_line d = join '','' ?ps"
    using join_tail [of "map ?f vs" "'',''" "new_line d"] by (simp add: vs)
  then have "indent_at d (array_text vs) = array_text ?ps"
    using array_layout [OF assms, of d] by (simp add: array_text_def)
  moreover have "json_valid (?f u)" "json_valid (?f u @ new_line d)" if "json_valid u" for u
    using valid_ws [OF indent_valid [OF that] new_line_ws, of "[]"] valid_ws [OF indent_valid [OF that] new_line_ws new_line_ws]
    by simp_all
  then have valid: "\<forall>p \<in> set ?ps. json_valid p" using assms(2) by (simp add: vs)
  have "trim_ws (?f u) = trim_ws (indent_at (d + 1) u)" "trim_ws (?f u @ new_line d) = trim_ws (indent_at (d + 1) u)" for u
    using trim_ws_before [OF new_line_ws] trim_ws_after [OF new_line_ws] by (metis append_assoc)+
  then have "map trim_ws ?ps = map (\<lambda>v. trim_ws (indent_at (d + 1) v)) vs" by (simp add: vs)
  ultimately show ?thesis using valid by blast
qed

theorem decode_laid_array:
  assumes "\<forall>v \<in> set vs. json_valid v" and "vs \<noteq> [] \<Longrightarrow> starts (hd vs)"
  shows "decode (indent_at d (array_text vs)) = Some (JArr (map (\<lambda>v. trim_ws (indent_at (d + 1) v)) vs))"
proof (cases "vs = []")
  case True
  have "indent_at d (array_text []) = array_text []"
    by (simp add: indent_at_def array_text_def open_br_def close_br_def Let_def)
  then show ?thesis using True decode_array [of "[]"] by (simp add: array_text_def)
next
  case False
  then obtain ps where ps: "indent_at d (array_text vs) = array_text ps" "\<forall>v \<in> set ps. json_valid v"
      "map trim_ws ps = map (\<lambda>v. trim_ws (indent_at (d + 1) v)) vs"
    using laid_array_pieces [OF _ assms(1)] assms(2) by blast
  show ?thesis unfolding ps(1) using decode_array [OF ps(2)] ps(3) by (simp add: array_text_def)
qed

lemma array_text_valid: "\<forall>v \<in> set vs. json_valid v \<Longrightarrow> json_valid (array_text vs)"
  unfolding array_text_def by (rule array_valid)

lemma laid_array_trim:
  assumes "\<forall>v \<in> set vs. json_valid v" and "vs \<noteq> [] \<Longrightarrow> starts (hd vs)"
  shows "trim_ws (indent_at d (array_text vs)) = indent_at d (array_text vs)"
proof (cases "vs = []")
  case True
  then show ?thesis
    using trim_by_ends [of is_ws "CHR ''[''" "CHR '']''" "[]"]
    by (simp add: indent_at_def array_text_def open_br_def close_br_def Let_def trim_ws_def)
next
  case False
  then show ?thesis
    using laid_array_pieces [OF _ assms(1), of d] assms(2) trim_by_ends [of is_ws "CHR ''[''" "CHR '']''"]
    by (auto simp: trim_ws_def array_text_def)
qed

lemma first_value_closed:
  "fst (json_run q (s @ [c])) = EndTop \<Longrightarrow> \<not> is_ws c \<Longrightarrow> fst q \<noteq> EndTop \<Longrightarrow>
   first_value q acc (s @ c # r) = Some (acc @ s @ [c])"
proof (induction s arbitrary: q acc)
  case Nil
  then show ?case by (simp add: Let_def del: json_step.simps)
next
  case (Cons x s)
  have run: "fst (json_run (json_step q x) (s @ [c])) = EndTop" using Cons.prems(1) by simp
  then have nb: "fst (json_step q x) \<noteq> Bad" using json_run_not_Bad [of q x "s @ [c]"] by simp
  have top: "fst (json_run (EndTop, ks) (w @ [c])) = Bad" for ks w
    using Cons.prems(2) by (induction w) auto
  have nt: "fst (json_step q x) \<noteq> EndTop"
  proof
    assume "fst (json_step q x) = EndTop"
    then have "json_step q x = (EndTop, snd (json_step q x))" by (simp add: prod_eq_iff del: json_step.simps)
    then have "fst (json_run (json_step q x) (s @ [c])) = Bad" using top by metis
    then show False using run by simp
  qed
  have "first_value (json_step q x) (acc @ [x]) (s @ c # r) = Some ((acc @ [x]) @ s @ [c])"
    using nt run Cons.prems(2) by (intro Cons.IH) 
  then show ?case using nb nt by (simp add: Let_def del: json_step.simps)
qed

lemma decoder_value_obj:
  assumes "m \<noteq> []" and "\<forall>kv \<in> set m. ok_member kv"
  shows "decoder_value (encode_indented (plain_obj m)) = Some (indent_at 0 (plain_obj m))"
proof -
  note p = laid_obj_padded(1,2) [OF assms, of 0]
  have "laid_padded 0 m \<noteq> []" by (simp add: laid_padded_def Let_def)
  then have run: "fst (json_run (BeginValue, []) (padded_obj (laid_padded 0 m))) = EndTop"
    using padded_obj_run [OF _ p(2), of "[]"] by simp
  let ?s = "CHR ''{'' # join '','' (map padded (laid_padded 0 m))"
  have "padded_obj (laid_padded 0 m) = ?s @ [CHR ''}'']" by (simp add: padded_obj_def)
  then show ?thesis
    using first_value_closed [of "(BeginValue, [])" ?s "CHR ''}''" "[]" "[CHR 0x0A]"] run
    by (simp add: decoder_value_def encode_indented_def p(1) del: json_run_append first_value.simps)
qed

section \<open>Numbers and strings\<close>

lemma plain_digit: "is_digit c \<Longrightarrow> plain_char c"
  by (auto simp: plain_char_def is_digit_def is_ws_def open_br_def close_br_def)

lemma indent_nat [simp]: "indent_at d (nat_str n) = nat_str n"
  using nat_str_digits [of n] by (intro indent_plain) (auto simp: list_all_iff plain_digit)

lemma indent_quoted [simp]: "ascii k \<Longrightarrow> indent_at d (quote k) = quote k"
  unfolding indent_at_def by (rule indent_quote)

lemma digits_run: "list_all is_digit s \<Longrightarrow> json_run (Num1, ks) s = (Num1, ks)"
  by (induction s) auto

lemma nat_str_start: "10 \<le> n \<Longrightarrow> \<exists>c r. nat_str n = c # r \<and> is_digit c \<and> c \<noteq> CHR ''0'' \<and> list_all is_digit r"
proof (induction n rule: nat_str.induct)
  case (1 n)
  have digit: "list_all is_digit [digit_char (n mod 10)]" by simp
  show ?case
  proof (cases "n div 10 < 10")
    case True
    then have "nat_str n = digit_char (n div 10) # [digit_char (n mod 10)]"
      using 1 by (simp add: nat_str.simps [of n] nat_str.simps [of "n div 10"])
    moreover have "digit_char (n div 10) \<noteq> CHR ''0''"
    proof
      assume "digit_char (n div 10) = CHR ''0''"
      then have "n div 10 = digit_val (CHR ''0'')" using digit_val_digit_char [OF True] by simp
      then show False using 1(2) by (simp add: digit_val_def div_eq_0_iff)
    qed
    ultimately show ?thesis using digit True by (intro exI [of _ "digit_char (n div 10)"] exI [of _ "[digit_char (n mod 10)]"]) auto
  next
    case False
    then obtain c r where "nat_str (n div 10) = c # r" "is_digit c" "c \<noteq> CHR ''0''" "list_all is_digit r"
      using 1 by auto
    then show ?thesis using 1(2) digit by (auto simp: nat_str.simps [of n])
  qed
qed

lemma trim_nat: "trim_ws (nat_str n) = nat_str n"
proof -
  have "\<not> is_ws c" if "c \<in> set (nat_str n)" for c
    using that nat_str_digits [of n] ws_not_digit by (auto simp: list_all_iff)
  then show ?thesis unfolding trim_ws_def by (intro trim_by_id) auto
qed

lemma decode_nat: "decode (nat_str n) = Some (JNum (nat_str n))"
proof -
  obtain c r where c: "nat_str n = c # r" using nat_str_not_Nil by (cases "nat_str n") auto
  then have cd: "is_digit c" "list_all is_digit r" using nat_str_digits [of n] by simp_all
  have num: "begin_value c [] = (if c = CHR ''0'' then Num0 else Num1, [])"
  proof -
    have "\<not> is_ws c" using cd(1) ws_not_digit by blast
    moreover have "c \<notin> set ''{[-tfn'' \<and> c \<noteq> CHR 0x22" using cd(1) by (auto simp: is_digit_def)
    ultimately show ?thesis using cd(1) by (simp add: begin_value_def)
  qed
  have "json_valid (nat_str n)"
  proof (cases "n < 10")
    case True
    then have "r = []" using c by (simp add: nat_str.simps [of n])
    then show ?thesis using num c
      by (intro done_json_valid [of _ "if c = CHR ''0'' then Num0 else Num1"]) (auto simp: value_done_def)
  next
    case False
    then have "c \<noteq> CHR ''0''" using nat_str_start [of n] c by auto
    then show ?thesis using num c digits_run [OF cd(2)]
      by (intro done_json_valid [of _ Num1]) (auto simp: value_done_def)
  qed
  moreover have "trim_ws (nat_str n) = nat_str n" by (rule trim_nat)
  moreover have "c \<notin> set ''{[tfn'' \<and> c \<noteq> CHR 0x22" using cd(1) by (auto simp: is_digit_def)
  ultimately show ?thesis by (auto simp: decode_def decode_valid_def c)
qed

lemma nat_valid: "json_valid (nat_str n)"
  using decode_nat [of n] by (simp add: decode_def split: if_splits)

lemma un_int_nat: "int n \<le> max_int64 \<Longrightarrow> un_int (nat_str n) = Some (int n)"
  by (simp add: un_int_def decode_nat atoi_nat_str)

end
