(* ===== verification/Eet.thy ===== *)
theory Eet
  imports Indent LogImport
begin

text \<open>
  \<open>internal/store/fileio.go\<close>, the \<open>.eet\<close> trace files, and \<open>ImportFileAutoDetect\<close> of \<open>logimport.go\<close>. A file is
  its text: \<open>ExportTrace\<close> is the encoder's output (\<open>None\<close> when encoding fails and nothing is written),
  \<open>ImportTrace\<close> decodes any text. The text of a time depends on the time's location, which the model's times
  do not have: it is the parameter \<open>clock\<close>, with what \<open>time.Time\<close> documents about it in \<open>clock_ok\<close>. A nil
  pointer dereference is the outcome \<open>Panicked\<close>.
\<close>

section \<open>RFC 3339\<close>

text \<open>A number of two digits between bounds.\<close>

definition num_in :: "nat \<Rightarrow> nat \<Rightarrow> string \<Rightarrow> int option" where
  "num_in lo hi s = (if s \<noteq> [] \<and> list_all is_digit s \<and> lo \<le> digits_val s \<and> digits_val s \<le> hi then Some (int (digits_val s)) else None)"

text \<open>The offset at the end of the text, in minutes. The strict form is that of \<open>UnmarshalJSON\<close>, the lenient one
  that of \<open>time.Parse\<close>.\<close>

definition zone_offset :: "bool \<Rightarrow> string \<Rightarrow> int option" where
  "zone_offset strict s =
     (if s = ''Z'' then Some 0
      else (case s of
          [g, h1, h2, c, m1, m2] \<Rightarrow>
            (case (num_in 0 (if strict then 23 else 24) [h1, h2], num_in 0 (if strict then 59 else 60) [m1, m2]) of
               (Some h, Some m) \<Rightarrow> if c \<noteq> CHR '':'' then None
                 else if g = CHR ''+'' then Some (60 * h + m) else if g = CHR ''-'' then Some (- (60 * h + m)) else None
             | _ \<Rightarrow> None)
        | _ \<Rightarrow> None))"

text \<open>The fraction of a second: nanoseconds, further digits are dropped, and the rest.\<close>

definition fraction :: "bool \<Rightarrow> string \<Rightarrow> int \<times> string" where
  "fraction strict s = (case s of
       p # d # _ \<Rightarrow> if (p = CHR ''.'' \<or> (\<not> strict \<and> p = CHR '','')) \<and> is_digit d
         then (int (digits_val (pad_right 9 (takeWhile is_digit (tl s)))), dropWhile is_digit (tl s))
         else (0, s)
     | _ \<Rightarrow> (0, s))"

definition clock_fields :: "bool \<Rightarrow> string \<Rightarrow> (int \<times> int \<times> int \<times> string) option" where
  "clock_fields strict s =
     (let n = (if strict \<or> (2 \<le> length s \<and> is_digit (s ! 1)) then 2 else 1); r = drop n s in
      if length r < 6 \<or> r ! 0 \<noteq> CHR '':'' \<or> r ! 3 \<noteq> CHR '':'' then None
      else (case (num_in 0 23 (take n s), num_in 0 59 (take 2 (drop 1 r)), num_in 0 59 (take 2 (drop 4 r))) of
          (Some h, Some m, Some sc) \<Rightarrow> Some (h, m, sc, drop 6 r)
        | _ \<Rightarrow> None))"

definition parse_rfc3339 :: "bool \<Rightarrow> string \<Rightarrow> time option" where
  "parse_rfc3339 strict s =
     (if length s < 11 \<or> s ! 4 \<noteq> CHR ''-'' \<or> s ! 7 \<noteq> CHR ''-'' \<or> s ! 10 \<noteq> CHR ''T'' then None
      else (case (num_in 0 9999 (take 4 s), num_in 1 12 (take 2 (drop 5 s)), num_in 1 31 (take 2 (drop 8 s)), clock_fields strict (drop 11 s)) of
          (Some y, Some mo, Some d, Some (h, mi, sc, r)) \<Rightarrow>
            if days_in y mo < d then None
            else (case fraction strict r of (ns, z) \<Rightarrow> (case zone_offset strict z of
                 None \<Rightarrow> None
               | Some off \<Rightarrow> Some (time_date y mo d h mi sc ns - off * sec 60)))
        | _ \<Rightarrow> None))"

text \<open>\<open>Time.UnmarshalJSON\<close>: the bytes between the quotes, as they are.\<close>

definition un_time :: "string \<Rightarrow> time option" where
  "un_time s = (case decode s of
       Some (JStr _) \<Rightarrow> parse_rfc3339 True (butlast (tl (trim_ws s)))
     | _ \<Rightarrow> None)"

section \<open>The file\<close>

record eet_trace =
  et_name :: string
  et_descr :: string
  et_started :: time
  et_stopped :: "time option"

record eet_message =
  em_seq :: int
  em_time :: time
  em_dir :: string
  em_src_addr :: string
  em_dst_addr :: string
  em_raw_hex :: string
  em_norm :: string
  em_type :: string
  em_ship :: string
  em_spine :: string
  em_classifier :: string
  em_fn :: string
  em_ctr :: string
  em_ref :: string
  em_dev_src :: string
  em_dev_dst :: string
  em_ent_src :: string
  em_ent_dst :: string
  em_feat_src :: string
  em_feat_dst :: string
  em_error :: string

definition eetFormatVersion :: string where "eetFormatVersion = ''1.0''"

text \<open>The two copies of the fields, in \<open>ExportTrace\<close> and in \<open>ImportTrace\<close>.\<close>

definition eet_of_trace :: "trace \<Rightarrow> eet_trace" where
  "eet_of_trace t = \<lparr>et_name = t_name t, et_descr = t_descr t, et_started = t_started t, et_stopped = t_stopped t\<rparr>"

definition eet_of_message :: "message \<Rightarrow> eet_message" where
  "eet_of_message m = \<lparr>em_seq = m_seq m, em_time = m_time m, em_dir = m_dir m, em_src_addr = m_src_addr m,
     em_dst_addr = m_dst_addr m, em_raw_hex = m_raw_hex m, em_norm = m_norm m, em_type = m_type m, em_ship = m_ship m,
     em_spine = m_spine m, em_classifier = m_classifier m, em_fn = m_fn m, em_ctr = m_ctr m, em_ref = m_ref m,
     em_dev_src = m_dev_src m, em_dev_dst = m_dev_dst m, em_ent_src = m_ent_src m, em_ent_dst = m_ent_dst m,
     em_feat_src = m_feat_src m, em_feat_dst = m_feat_dst m, em_error = m_error m\<rparr>"

definition trace_of_eet :: "time \<Rightarrow> eet_trace \<Rightarrow> nat \<Rightarrow> trace" where
  "trace_of_eet now f n = \<lparr>t_id = 0, t_name = et_name f, t_descr = et_descr f, t_started = et_started f,
     t_stopped = et_stopped f, t_count = int n, t_created = now, t_skipped = 0\<rparr>"

definition message_of_eet :: "eet_message \<Rightarrow> message" where
  "message_of_eet e = \<lparr>m_id = 0, m_trace = 0, m_seq = em_seq e, m_time = em_time e, m_dir = em_dir e,
     m_src_addr = em_src_addr e, m_dst_addr = em_dst_addr e, m_raw = [], m_raw_hex = em_raw_hex e, m_norm = em_norm e,
     m_type = em_type e, m_ship = em_ship e, m_spine = em_spine e, m_classifier = em_classifier e, m_fn = em_fn e,
     m_ctr = em_ctr e, m_ref = em_ref e, m_dev_src = em_dev_src e, m_dev_dst = em_dev_dst e, m_ent_src = em_ent_src e,
     m_ent_dst = em_ent_dst e, m_feat_src = em_feat_src e, m_feat_dst = em_feat_dst e, m_error = em_error e\<rparr>"

section \<open>Encoding\<close>

type_synonym clock = "time \<Rightarrow> string option"

definition time_char :: "char \<Rightarrow> bool" where
  "time_char c \<longleftrightarrow> is_digit c \<or> c \<in> set ''-:.TZ+''"

text \<open>What \<open>Time.MarshalJSON\<close> documents: an RFC 3339 text of the same instant, or an error.\<close>

definition clock_ok :: "clock \<Rightarrow> bool" where
  "clock_ok show_time \<longleftrightarrow> (\<forall>t s. show_time t = Some s \<longrightarrow> list_all time_char s \<and> parse_rfc3339 True s = Some t)"

type_synonym field = "string \<times> string option"

definition members :: "field list \<Rightarrow> jobj" where
  "members fs = concat (map (\<lambda>(k, v). case v of None \<Rightarrow> [] | Some u \<Rightarrow> [(k, u)]) fs)"

definition text_always :: "string \<Rightarrow> string \<Rightarrow> field" where
  "text_always k v = (k, Some (quote v))"

text \<open>\<open>omitempty\<close> on a string and on a raw message. A raw message is compacted.\<close>

definition text_field :: "string \<Rightarrow> string \<Rightarrow> field" where
  "text_field k v = (k, if v = [] then None else Some (quote v))"

definition raw_field :: "string \<Rightarrow> string \<Rightarrow> field" where
  "raw_field k v = (k, if v = [] then None else Some (compact v))"

definition trace_fields :: "clock \<Rightarrow> eet_trace \<Rightarrow> field list option" where
  "trace_fields show_time t =
     (case (show_time (et_started t), map_option show_time (et_stopped t)) of
        (None, _) \<Rightarrow> None
      | (_, Some None) \<Rightarrow> None
      | (Some s, st) \<Rightarrow> Some [text_always ''name'' (et_name t), text_field ''description'' (et_descr t),
          text_always ''startedAt'' s, (''stoppedAt'', map_option (\<lambda>u. quote (the u)) st)])"

definition raw_ok :: "string \<Rightarrow> bool" where
  "raw_ok v \<longleftrightarrow> v = [] \<or> json_valid v"

definition message_fields :: "clock \<Rightarrow> eet_message \<Rightarrow> field list option" where
  "message_fields show_time e =
     (case show_time (em_time e) of
        None \<Rightarrow> None
      | Some ts \<Rightarrow> if \<not> (raw_ok (em_norm e) \<and> raw_ok (em_ship e) \<and> raw_ok (em_spine e)) then None
        else Some [(''sequenceNum'', Some (int_str (em_seq e))), text_always ''timestamp'' ts, text_always ''direction'' (em_dir e),
          text_field ''sourceAddr'' (em_src_addr e), text_field ''destAddr'' (em_dst_addr e), text_always ''rawHex'' (em_raw_hex e),
          raw_field ''normalizedJson'' (em_norm e), text_always ''shipMsgType'' (em_type e), raw_field ''shipPayload'' (em_ship e),
          raw_field ''spinePayload'' (em_spine e), text_field ''cmdClassifier'' (em_classifier e), text_field ''functionSet'' (em_fn e),
          text_field ''msgCounter'' (em_ctr e), text_field ''msgCounterRef'' (em_ref e), text_field ''deviceSource'' (em_dev_src e),
          text_field ''deviceDest'' (em_dev_dst e), text_field ''entitySource'' (em_ent_src e), text_field ''entityDest'' (em_ent_dst e),
          text_field ''featureSource'' (em_feat_src e), text_field ''featureDest'' (em_feat_dst e), text_field ''parseError'' (em_error e)])"

definition obj_of :: "field list \<Rightarrow> string" where
  "obj_of fs = plain_obj (members fs)"

definition eet_text :: "clock \<Rightarrow> eet_trace \<Rightarrow> eet_message list \<Rightarrow> string option" where
  "eet_text show_time t es =
     (case (trace_fields show_time t, all_some (map (message_fields show_time) es)) of
        (Some tf, Some mfs) \<Rightarrow> Some (obj_of [text_always ''version'' eetFormatVersion, (''trace'', Some (obj_of tf)),
          (''messages'', Some (array_text (map obj_of mfs)))])
      | _ \<Rightarrow> None)"

definition ExportTrace :: "clock \<Rightarrow> trace \<Rightarrow> message list \<Rightarrow> string option" where
  "ExportTrace show_time t msgs = map_option encode_indented (eet_text show_time (eet_of_trace t) (map eet_of_message msgs))"

section \<open>Decoding\<close>

definition un_trace :: "string \<Rightarrow> eet_trace option" where
  "un_trace s = (case un_map s of
       None \<Rightarrow> None
     | Some m \<Rightarrow> (case (fld_val un_string [] m ''name'', fld_val un_string [] m ''description'',
           fld_val un_time zero_time m ''startedAt'', fld_ptr un_time m ''stoppedAt'') of
          (Some n, Some d, Some st, Some stp) \<Rightarrow> Some \<lparr>et_name = n, et_descr = d, et_started = st, et_stopped = stp\<rparr>
        | _ \<Rightarrow> None))"

definition text_of :: "jobj \<Rightarrow> string \<Rightarrow> string option" where
  "text_of m k = fld_val un_string [] m k"

definition un_message :: "string \<Rightarrow> eet_message option" where
  "un_message s = (case un_map s of
       None \<Rightarrow> None
     | Some m \<Rightarrow> (case (fld_val un_int 0 m ''sequenceNum'', fld_val un_time zero_time m ''timestamp'',
           all_some (map (text_of m) [''direction'', ''sourceAddr'', ''destAddr'', ''rawHex'', ''shipMsgType'', ''cmdClassifier'',
             ''functionSet'', ''msgCounter'', ''msgCounterRef'', ''deviceSource'', ''deviceDest'', ''entitySource'', ''entityDest'',
             ''featureSource'', ''featureDest'', ''parseError''])) of
          (Some n, Some ts, Some [dir, sa, da, rh, ty, cl, fn, ctr, ref, ds, dd, es, ed, fs, fd, er]) \<Rightarrow>
            Some \<lparr>em_seq = n, em_time = ts, em_dir = dir, em_src_addr = sa, em_dst_addr = da, em_raw_hex = rh,
              em_norm = fld_raw m ''normalizedJson'', em_type = ty, em_ship = fld_raw m ''shipPayload'', em_spine = fld_raw m ''spinePayload'',
              em_classifier = cl, em_fn = fn, em_ctr = ctr, em_ref = ref, em_dev_src = ds, em_dev_dst = dd, em_ent_src = es,
              em_ent_dst = ed, em_feat_src = fs, em_feat_dst = fd, em_error = er\<rparr>
        | _ \<Rightarrow> None))"

text \<open>\<open>Version\<close>, \<open>Trace\<close> and \<open>Messages []*EETMessage\<close>; a null element is a nil pointer.\<close>

definition empty_eet_trace :: eet_trace where
  "empty_eet_trace = \<lparr>et_name = [], et_descr = [], et_started = zero_time, et_stopped = None\<rparr>"

definition un_eet :: "string \<Rightarrow> (string \<times> eet_trace \<times> eet_message option list) option" where
  "un_eet s = (case un_map s of
       None \<Rightarrow> None
     | Some m \<Rightarrow> (case (fld_val un_string [] m ''version'', fld_val un_trace empty_eet_trace m ''trace'',
           fld_val (un_list (un_ptr un_message)) [] m ''messages'') of
          (Some v, Some t, Some es) \<Rightarrow> Some (v, t, es)
        | _ \<Rightarrow> None))"

datatype 'a outcome = Panicked | Failed string | Done 'a

definition ImportTrace :: "externals \<Rightarrow> time \<Rightarrow> string \<Rightarrow> (trace \<times> message list) outcome" where
  "ImportTrace x now s =
     (case (case decoder_value s of None \<Rightarrow> None | Some v \<Rightarrow> un_eet v) of
        None \<Rightarrow> Failed (''decode eet file: '' @ x_json_error x s)
      | Some (v, t, es) \<Rightarrow>
          if v \<noteq> eetFormatVersion then Failed (''unsupported eet version '' @ quote v @ '' (expected '' @ quote eetFormatVersion @ '')'')
          else if None \<in> set es then Panicked
          else Done (trace_of_eet now t (length es), map (\<lambda>e. message_of_eet (the e)) es))"

section \<open>Any file\<close>

definition of_sum :: "string + 'a \<Rightarrow> 'a outcome" where
  "of_sum r = (case r of Inl e \<Rightarrow> Failed e | Inr a \<Rightarrow> Done a)"

definition is_dlt_file :: "bytes \<Rightarrow> bool" where
  "is_dlt_file s \<longleftrightarrow> take 4 s = ''DLT'' @ [byte 1]"

definition ImportFileAutoDetect :: "externals \<Rightarrow> time \<Rightarrow> string \<Rightarrow> bytes \<Rightarrow> (trace \<times> message list) outcome" where
  "ImportFileAutoDetect x now name s =
     (if is_dlt_file s then of_sum (ImportDLTBinaryFile x now name s)
      else (case import_as x now name s (DetectLogFormat (take 4096 s)) of
          Some r \<Rightarrow> of_sum r
        | None \<Rightarrow> ImportTrace x now s))"

section \<open>Lemmas: reading fields back\<close>

definition laid :: "nat \<Rightarrow> string \<Rightarrow> string" where
  "laid d u = trim_ws (indent_at d u)"

definition fields_ok :: "field list \<Rightarrow> bool" where
  "fields_ok fs \<longleftrightarrow> members fs \<noteq> [] \<and> distinct (map (to_lower \<circ> fst) fs)
     \<and> (\<forall>(k, v) \<in> set fs. ascii k \<and> (\<forall>u. v = Some u \<longrightarrow> json_valid u))"

lemma members_simps [simp]:
  "members [] = []" "members ((k, v) # fs) = (case v of None \<Rightarrow> members fs | Some u \<Rightarrow> (k, u) # members fs)"
  by (auto simp: members_def split: option.split)

lemma members_ok: "\<forall>(k, v) \<in> set fs. ascii k \<and> (\<forall>u. v = Some u \<longrightarrow> json_valid u) \<Longrightarrow> \<forall>kv \<in> set (members fs). ok_member kv"
  by (induction fs) (auto simp: ok_member_def split: option.splits)

lemma members_keys: "kv \<in> set (members fs) \<Longrightarrow> fst kv \<in> fst ` set fs"
  by (induction fs) (auto split: option.splits)

lemma jfield_members:
  assumes "distinct (map (to_lower \<circ> fst) fs)" and "(k, v) \<in> set fs"
  shows "jfield (map (\<lambda>kv. (fst kv, f (snd kv))) (members fs)) k = map_option f v"
proof -
  have d: "distinct (map (to_lower \<circ> fst) fs) \<Longrightarrow> distinct (map fst (map (\<lambda>(a, b). (to_lower a, b)) (map (\<lambda>kv. (fst kv, f (snd kv))) (members fs))))" for fs :: "field list"
  proof (induction fs)
    case (Cons q qs)
    have "kv \<in> set (members qs) \<Longrightarrow> to_lower (fst kv) \<in> (\<lambda>a. to_lower (fst a)) ` set qs" for kv
      using members_keys [of kv qs] by (auto intro: rev_image_eqI)
    then show ?case using Cons by (cases q; cases "snd q") (auto simp: comp_def case_prod_unfold)
  qed simp
  have "distinct (map (to_lower \<circ> fst) fs) \<Longrightarrow> (k, v) \<in> set fs \<Longrightarrow>
      map_of (map (\<lambda>(a, b). (to_lower a, b)) (map (\<lambda>kv. (fst kv, f (snd kv))) (members fs))) (to_lower k) = map_option f v" for fs :: "field list"
  proof (induction fs)
    case (Cons q qs)
    obtain a b where q: "q = (a, b)" by (cases q)
    show ?case
    proof (cases "q = (k, v)")
      case True
      then have "to_lower k \<notin> to_lower ` fst ` set qs" using Cons.prems(1) by (auto simp: image_comp)
      then have "to_lower (fst kv) \<noteq> to_lower k" if "kv \<in> set (members qs)" for kv using members_keys [OF that] by (metis imageI)
      then have "map_of (map (\<lambda>(a, b). (to_lower a, b)) (map (\<lambda>kv. (fst kv, f (snd kv))) (members qs))) (to_lower k) = None"
        by (force simp: map_of_eq_None_iff)
      then show ?thesis using True by (cases v) auto
    next
      case False
      then have "to_lower a \<noteq> to_lower k" using Cons.prems q by (auto simp: image_iff)
      then show ?thesis using Cons False q by (cases b) auto
    qed
  qed simp
  then show ?thesis unfolding jfield_def map_of_rev_distinct [OF d [OF assms(1)]] using assms by blast
qed

lemma read_fields:
  assumes "fields_ok fs"
  shows "\<exists>m. un_map (indent_at d (obj_of fs)) = Some m \<and> (\<forall>(k, v) \<in> set fs. jfield m k = map_option (laid (d + 1)) v)"
proof -
  let ?m = "map (\<lambda>kv. (fst kv, laid (d + 1) (snd kv))) (members fs)"
  have "un_map (indent_at d (obj_of fs)) = Some ?m"
    using decode_laid_obj [OF _ members_ok, of fs d] assms by (simp add: fields_ok_def un_map_def obj_of_def laid_def)
  moreover have "\<forall>(k, v) \<in> set fs. jfield ?m k = map_option (laid (d + 1)) v"
    using jfield_members [of fs _ _ "laid (d + 1)"] assms unfolding fields_ok_def by blast
  ultimately show ?thesis by blast
qed

lemma obj_laid:
  assumes "fields_ok fs"
  shows "laid d (obj_of fs) = indent_at d (obj_of fs)" "json_valid (obj_of fs)" "starts (obj_of fs)"
    "\<exists>m. decode (indent_at d (obj_of fs)) = Some (JObj m)"
proof -
  have m: "members fs \<noteq> []" "\<forall>kv \<in> set (members fs). ok_member kv" using assms members_ok by (auto simp: fields_ok_def)
  show "laid d (obj_of fs) = indent_at d (obj_of fs)" using laid_obj_trim [OF m] by (simp add: laid_def obj_of_def)
  show "json_valid (obj_of fs)" using obj_valid [OF m(2)] by (simp add: obj_of_def)
  show "starts (obj_of fs)" by (simp add: starts_def obj_of_def plain_obj_def close_br_def)
  show "\<exists>m. decode (indent_at d (obj_of fs)) = Some (JObj m)" using decode_laid_obj [OF m, of d] by (simp add: obj_of_def)
qed

lemma laid_quote [simp]: "ascii u \<Longrightarrow> laid d (quote u) = quote u"
  by (simp add: laid_def trim_quote)

lemma laid_nat [simp]: "laid d (nat_str n) = nat_str n"
  by (simp add: laid_def trim_nat)

lemma read_text:
  assumes "ascii u"
  shows "jfield m k = Some (quote u) \<Longrightarrow> fld_val un_string [] m k = Some u"
    and "jfield m k = (if u = [] then None else Some (quote u)) \<Longrightarrow> fld_val un_string [] m k = Some u"
  using assms by (simp_all add: fld_val_def fld_ptr_def un_ptr_def decode_quote un_string_quote split: if_splits)

lemma time_char_facts: "time_char c \<Longrightarrow> ord c < 128 \<and> quote_char c = [c]"
proof -
  assume c: "time_char c"
  show ?thesis
  proof (cases "is_digit c")
    case True
    then have "c \<noteq> CHR 0x22 \<and> c \<noteq> CHR 0x5C \<and> c \<noteq> CHR ''<'' \<and> c \<noteq> CHR ''>'' \<and> c \<noteq> CHR ''&''
      \<and> c \<noteq> CHR 0x09 \<and> c \<noteq> CHR 0x0D \<and> c \<noteq> CHR 0x0A \<and> c \<noteq> CHR 0x0C \<and> c \<noteq> CHR 0x08" by (auto simp: is_digit_def)
    then show ?thesis using True by (simp add: quote_char_def is_digit_def)
  next
    case False
    then have "c \<in> set ''-:.TZ+''" using c by (simp add: time_char_def)
    then show ?thesis by (simp, elim disjE) (simp_all add: quote_char_def)
  qed
qed

lemma time_char_quote: "list_all time_char s \<Longrightarrow> ascii s \<and> quote_body s = s"
proof -
  assume s: "list_all time_char s"
  have a: "ascii s" using s time_char_facts by (auto simp: ascii_def list_all_iff)
  have "concat (map quote_char s) = s" using s by (induction s) (simp_all add: time_char_facts)
  then show ?thesis using a by (simp add: quote_body_ascii)
qed

lemma read_time:
  assumes "clock_ok show_time" and "show_time t = Some s"
  shows "un_time (quote s) = Some t" "ascii s" "decode (quote s) = Some (JStr s)"
proof -
  have s: "list_all time_char s" "parse_rfc3339 True s = Some t" using assms unfolding clock_ok_def by blast+
  then have q: "ascii s" "quote_body s = s" using time_char_quote by blast+
  then show "ascii s" "decode (quote s) = Some (JStr s)" by (simp_all add: decode_quote)
  then show "un_time (quote s) = Some t" using s q trim_quote [of s] by (simp add: un_time_def) (simp add: quote_def)
qed

lemma fld_val_time:
  "clock_ok show_time \<Longrightarrow> show_time t = Some s \<Longrightarrow> jfield m k = Some (quote s) \<Longrightarrow> fld_val un_time z m k = Some t"
  by (simp add: fld_val_def fld_ptr_def un_ptr_def read_time)

section \<open>Lemmas: what comes back\<close>

text \<open>A raw message as it comes back: compacted and laid out at the depth of its member.\<close>

definition relaid :: "nat \<Rightarrow> string \<Rightarrow> string" where
  "relaid d v = (if v = [] then [] else laid d (compact v))"

definition eet_relaid :: "nat \<Rightarrow> eet_message \<Rightarrow> eet_message" where
  "eet_relaid d e = e\<lparr>em_norm := relaid d (em_norm e), em_ship := relaid d (em_ship e), em_spine := relaid d (em_spine e)\<rparr>"

definition eet_ascii :: "eet_message \<Rightarrow> bool" where
  "eet_ascii e \<longleftrightarrow> list_all ascii [em_dir e, em_src_addr e, em_dst_addr e, em_raw_hex e, em_type e, em_classifier e, em_fn e,
     em_ctr e, em_ref e, em_dev_src e, em_dev_dst e, em_ent_src e, em_ent_dst e, em_feat_src e, em_feat_dst e, em_error e]
     \<and> 0 \<le> em_seq e \<and> em_seq e \<le> max_int64"

definition message_keys :: "string list" where
  "message_keys = [''sequenceNum'', ''timestamp'', ''direction'', ''sourceAddr'', ''destAddr'', ''rawHex'', ''normalizedJson'',
     ''shipMsgType'', ''shipPayload'', ''spinePayload'', ''cmdClassifier'', ''functionSet'', ''msgCounter'', ''msgCounterRef'',
     ''deviceSource'', ''deviceDest'', ''entitySource'', ''entityDest'', ''featureSource'', ''featureDest'', ''parseError'']"

lemma message_keys_distinct: "distinct (map to_lower message_keys)" "list_all ascii message_keys"
  by code_simp+

lemma trace_keys_distinct: "distinct (map to_lower [''name'', ''description'', ''startedAt'', ''stoppedAt''])"
    "distinct (map to_lower [''version'', ''trace'', ''messages''])"
  by code_simp+

lemma raw_valid: "raw_ok v \<Longrightarrow> v \<noteq> [] \<Longrightarrow> json_valid (compact v)"
  by (simp add: raw_ok_def compact_valid)

definition value_ok :: "field \<Rightarrow> bool" where
  "value_ok f \<longleftrightarrow> (case snd f of None \<Rightarrow> True | Some u \<Rightarrow> json_valid u)"

lemma value_ok_fields [simp]:
  "ascii v \<Longrightarrow> value_ok (text_always k v)" "ascii v \<Longrightarrow> value_ok (text_field k v)" "raw_ok v \<Longrightarrow> value_ok (raw_field k v)"
  by (simp_all add: value_ok_def text_always_def text_field_def raw_field_def quote_valid raw_valid)

lemma message_fields_ok:
  assumes "message_fields show_time e = Some fs" and "clock_ok show_time" and "eet_ascii e"
  shows "fields_ok fs"
proof -
  obtain ts where ts: "show_time (em_time e) = Some ts" "raw_ok (em_norm e)" "raw_ok (em_ship e)" "raw_ok (em_spine e)"
    using assms(1) by (auto simp: message_fields_def split: option.splits if_splits)
  have k: "map fst fs = message_keys"
    using assms(1) ts by (auto simp: message_fields_def message_keys_def text_always_def text_field_def raw_field_def)
  have a: "ascii ts" by (rule read_time [OF assms(2) ts(1)])
  have n: "int_str (em_seq e) = nat_str (nat (em_seq e))" using assms(3) by (simp add: int_str_def eet_ascii_def)
  have "list_all value_ok fs"
    using assms(1,3) ts a by (auto simp: message_fields_def eet_ascii_def n) (simp_all add: value_ok_def nat_valid)
  then have "\<forall>(k, v) \<in> set fs. \<forall>u. v = Some u \<longrightarrow> json_valid u" by (auto simp: list_all_iff value_ok_def)
  moreover have "\<forall>kv \<in> set fs. ascii (fst kv)" using k message_keys_distinct(2) by (metis image_eqI list.set_map list_all_iff)
  moreover have "members fs \<noteq> []" using assms(1) ts by (auto simp: message_fields_def)
  moreover have "distinct (map (to_lower \<circ> fst) fs)" using message_keys_distinct(1) by (simp flip: k map_map)
  ultimately show ?thesis unfolding fields_ok_def by (simp add: case_prod_unfold)
qed

lemma message_back:
  assumes "message_fields show_time e = Some fs" and "clock_ok show_time" and "eet_ascii e"
  shows "un_message (indent_at d (obj_of fs)) = Some (eet_relaid (d + 1) e)"
proof -
  obtain ts where ts: "show_time (em_time e) = Some ts" "raw_ok (em_norm e)" "raw_ok (em_ship e)" "raw_ok (em_spine e)"
    using assms(1) by (auto simp: message_fields_def split: option.splits if_splits)
  obtain m where m: "un_map (indent_at d (obj_of fs)) = Some m"
      "\<forall>(k, v) \<in> set fs. jfield m k = map_option (laid (d + 1)) v"
    using read_fields [OF message_fields_ok [OF assms]] by blast
  have n: "int_str (em_seq e) = nat_str (nat (em_seq e))" "0 \<le> em_seq e" "em_seq e \<le> max_int64"
    using assms(3) by (simp_all add: int_str_def eet_ascii_def)
  have a: "ascii ts" by (rule read_time [OF assms(2) ts(1)])
  note fs = assms(1) [unfolded message_fields_def, simplified ts option.case, simplified]
  have seq: "fld_val un_int 0 m ''sequenceNum'' = Some (em_seq e)"
    using m(2) fs n by (auto simp: fld_val_def fld_ptr_def un_ptr_def decode_nat un_int_nat)
  have tm: "fld_val un_time zero_time m ''timestamp'' = Some (em_time e)"
    using m(2) fs a by (intro fld_val_time [OF assms(2) ts(1)]) (auto simp: text_always_def)
  have txt1: "ascii u \<Longrightarrow> text_always k u \<in> set fs \<Longrightarrow> text_of m k = Some u" for k u
    using m(2) unfolding text_of_def by (intro read_text(1)) (auto simp: text_always_def)
  have txt2: "ascii u \<Longrightarrow> text_field k u \<in> set fs \<Longrightarrow> text_of m k = Some u" for k u
    using m(2) unfolding text_of_def by (intro read_text(2)) (auto simp: text_field_def)
  have tx: "ascii u \<Longrightarrow> text_always k u \<in> set fs \<or> text_field k u \<in> set fs \<Longrightarrow> text_of m k = Some u" for k u
    using txt1 txt2 by blast
  have texts: "all_some (map (text_of m) [''direction'', ''sourceAddr'', ''destAddr'', ''rawHex'', ''shipMsgType'', ''cmdClassifier'',
       ''functionSet'', ''msgCounter'', ''msgCounterRef'', ''deviceSource'', ''deviceDest'', ''entitySource'', ''entityDest'',
       ''featureSource'', ''featureDest'', ''parseError''])
     = Some [em_dir e, em_src_addr e, em_dst_addr e, em_raw_hex e, em_type e, em_classifier e, em_fn e, em_ctr e, em_ref e,
         em_dev_src e, em_dev_dst e, em_ent_src e, em_ent_dst e, em_feat_src e, em_feat_dst e, em_error e]"
  proof -
    note a = assms(3) [unfolded eet_ascii_def list.pred_inject, simplified]
    have "text_of m ''direction'' = Some (em_dir e)" "text_of m ''sourceAddr'' = Some (em_src_addr e)"
        "text_of m ''destAddr'' = Some (em_dst_addr e)" "text_of m ''rawHex'' = Some (em_raw_hex e)"
        "text_of m ''shipMsgType'' = Some (em_type e)" "text_of m ''cmdClassifier'' = Some (em_classifier e)"
        "text_of m ''functionSet'' = Some (em_fn e)" "text_of m ''msgCounter'' = Some (em_ctr e)"
        "text_of m ''msgCounterRef'' = Some (em_ref e)" "text_of m ''deviceSource'' = Some (em_dev_src e)"
        "text_of m ''deviceDest'' = Some (em_dev_dst e)" "text_of m ''entitySource'' = Some (em_ent_src e)"
        "text_of m ''entityDest'' = Some (em_ent_dst e)" "text_of m ''featureSource'' = Some (em_feat_src e)"
        "text_of m ''featureDest'' = Some (em_feat_dst e)" "text_of m ''parseError'' = Some (em_error e)"
      by (rule tx; use a in \<open>simp add: fs [symmetric]\<close>)+
    then show ?thesis by simp
  qed
  have raw: "raw_field k v \<in> set fs \<Longrightarrow> fld_raw m k = relaid (d + 1) v" for k v
    using m(2) by (auto simp: raw_field_def fld_raw_def relaid_def)
  have raws: "fld_raw m ''normalizedJson'' = relaid (d + 1) (em_norm e)" "fld_raw m ''shipPayload'' = relaid (d + 1) (em_ship e)"
      "fld_raw m ''spinePayload'' = relaid (d + 1) (em_spine e)"
    by (rule raw; simp add: fs [symmetric])+
  show ?thesis unfolding un_message_def m(1) option.case seq tm texts raws
    by (cases e) (simp add: eet_relaid_def)
qed

lemma trace_back:
  assumes "trace_fields show_time t = Some fs" and "clock_ok show_time" and "ascii (et_name t)" and "ascii (et_descr t)"
  shows "fields_ok fs" and "un_trace (indent_at d (obj_of fs)) = Some t"
proof -
  obtain s where s: "show_time (et_started t) = Some s" using assms(1) by (auto simp: trace_fields_def split: option.splits)
  obtain stop where stop: "et_stopped t = None \<and> stop = None \<or> (\<exists>u w. et_stopped t = Some u \<and> show_time u = Some w \<and> stop = Some w)"
    using assms(1) s by (cases "et_stopped t") (auto simp: trace_fields_def split: option.splits)
  have fs: "fs = [text_always ''name'' (et_name t), text_field ''description'' (et_descr t), text_always ''startedAt'' s,
      (''stoppedAt'', map_option quote stop)]"
    using assms(1) s stop by (auto simp: trace_fields_def)
  have a: "ascii s" "\<And>w. stop = Some w \<Longrightarrow> ascii w" using s stop read_time(2) [OF assms(2)] by blast+
  have k: "map fst fs = [''name'', ''description'', ''startedAt'', ''stoppedAt'']"
    by (simp add: fs text_always_def text_field_def)
  have "list_all value_ok fs" using assms(3,4) a by (simp add: fs) (auto simp: value_ok_def quote_valid split: option.split)
  then have "\<forall>(k, v) \<in> set fs. \<forall>u. v = Some u \<longrightarrow> json_valid u" by (auto simp: list_all_iff value_ok_def)
  moreover have "\<forall>kv \<in> set fs. ascii (fst kv)" by (simp add: fs text_always_def text_field_def)
  moreover have "distinct (map (to_lower \<circ> fst) fs)" using trace_keys_distinct(1) by (simp flip: k map_map)
  ultimately show ok: "fields_ok fs" unfolding fields_ok_def by (simp add: case_prod_unfold fs text_always_def)
  obtain m where m: "un_map (indent_at d (obj_of fs)) = Some m" "\<forall>(k, v) \<in> set fs. jfield m k = map_option (laid (d + 1)) v"
    using read_fields [OF ok] by blast
  have n: "fld_val un_string [] m ''name'' = Some (et_name t)"
    using m(2) assms(3) by (intro read_text(1)) (auto simp: fs text_always_def)
  have ds: "fld_val un_string [] m ''description'' = Some (et_descr t)"
    using m(2) assms(4) by (intro read_text(2)) (auto simp: fs text_field_def)
  have st: "fld_val un_time zero_time m ''startedAt'' = Some (et_started t)"
    using m(2) a(1) by (intro fld_val_time [OF assms(2) s]) (auto simp: fs text_always_def)
  have sj: "jfield m ''stoppedAt'' = map_option (laid (d + 1)) (map_option quote stop)" using m(2) by (simp add: fs)
  have "fld_ptr un_time m ''stoppedAt'' = Some (et_stopped t)"
  proof (cases stop)
    case None
    then show ?thesis using sj stop by (simp add: fld_ptr_def)
  next
    case (Some w)
    then obtain u where u: "et_stopped t = Some u" "show_time u = Some w" using stop by auto
    then show ?thesis using sj Some read_time [OF assms(2) u(2)] by (simp add: fld_ptr_def un_ptr_def)
  qed
  then show "un_trace (indent_at d (obj_of fs)) = Some t"
    unfolding un_trace_def m(1) option.case n ds st by (cases t) simp
qed

lemma all_some_Some: "all_some l = Some r \<longleftrightarrow> l = map Some r"
  by (induction l arbitrary: r) (auto split: option.splits)

lemma messages_back:
  assumes "map (message_fields show_time) es = map Some mfs" and "clock_ok show_time" and "list_all eet_ascii es"
  shows "list_all fields_ok mfs"
    and "all_some (map (\<lambda>fs. un_ptr un_message (indent_at d (obj_of fs))) mfs) = Some (map (\<lambda>e. Some (eet_relaid (d + 1) e)) es)"
proof -
  show ok: "list_all fields_ok mfs"
    using assms by (induction es arbitrary: mfs) (auto dest: message_fields_ok)
  show "all_some (map (\<lambda>fs. un_ptr un_message (indent_at d (obj_of fs))) mfs) = Some (map (\<lambda>e. Some (eet_relaid (d + 1) e)) es)"
    using assms ok
  proof (induction es arbitrary: mfs)
    case (Cons e es)
    then obtain fs fss where f: "mfs = fs # fss" "message_fields show_time e = Some fs" by auto
    then have "un_message (indent_at d (obj_of fs)) = Some (eet_relaid (d + 1) e)" using Cons.prems message_back by simp
    moreover obtain m where "decode (indent_at d (obj_of fs)) = Some (JObj m)" using Cons.prems f obj_laid(4) by fastforce
    ultimately show ?case using Cons f by (simp add: un_ptr_def)
  qed simp
qed

lemma file_back:
  assumes "eet_text show_time t es = Some s" and "clock_ok show_time" and "ascii (et_name t)" and "ascii (et_descr t)" and "list_all eet_ascii es"
  shows "decoder_value (encode_indented s) = Some (indent_at 0 s)"
    and "un_eet (indent_at 0 s) = Some (eetFormatVersion, t, map (\<lambda>e. Some (eet_relaid 3 e)) es)"
    and "json_valid s"
proof -
  obtain tf mfs where tf: "trace_fields show_time t = Some tf" and mfs: "all_some (map (message_fields show_time) es) = Some mfs"
    using assms(1) by (auto simp: eet_text_def split: option.splits)
  let ?fs = "[text_always ''version'' eetFormatVersion, (''trace'', Some (obj_of tf)), (''messages'', Some (array_text (map obj_of mfs)))]"
  have s: "s = obj_of ?fs" using assms(1) by (simp add: eet_text_def tf mfs)
  note tb = trace_back [OF tf assms(2-4)]
  have em: "map (message_fields show_time) es = map Some mfs" using mfs by (simp add: all_some_Some)
  note mb = messages_back [OF em assms(2,5)]
  have mv: "\<forall>v \<in> set (map obj_of mfs). json_valid v" "map obj_of mfs \<noteq> [] \<Longrightarrow> starts (hd (map obj_of mfs))"
    using mb(1) obj_laid by (auto simp: list_all_iff hd_map)
  have ok: "fields_ok ?fs"
    using trace_keys_distinct(2) obj_laid(2) [OF tb(1)] array_text_valid [OF mv(1)]
    by (simp add: fields_ok_def text_always_def quote_valid eetFormatVersion_def)
  show "json_valid s" unfolding s by (rule obj_laid(2) [OF ok])
  show "decoder_value (encode_indented s) = Some (indent_at 0 s)"
  proof -
    have "members ?fs \<noteq> []" "\<forall>kv \<in> set (members ?fs). ok_member kv"
      using ok members_ok [of ?fs] unfolding fields_ok_def by blast+
    then show ?thesis unfolding s obj_of_def by (rule decoder_value_obj)
  qed
  obtain m where m: "un_map (indent_at 0 (obj_of ?fs)) = Some m" "\<forall>(k, v) \<in> set ?fs. jfield m k = map_option (laid 1) v"
    using read_fields [OF ok, of 0] by auto
  have v: "fld_val un_string [] m ''version'' = Some eetFormatVersion"
    using m(2) by (intro read_text(1)) (auto simp: text_always_def eetFormatVersion_def)
  have jt: "jfield m ''trace'' = Some (indent_at 1 (obj_of tf))" "jfield m ''messages'' = Some (indent_at 1 (array_text (map obj_of mfs)))"
    using m(2) obj_laid(1) [OF tb(1)] laid_array_trim [OF mv] by (simp_all add: laid_def)
  have t: "fld_val un_trace empty_eet_trace m ''trace'' = Some t"
    using jt(1) tb(2) [of 1] obj_laid(4) [OF tb(1), of 1] by (auto simp: fld_val_def fld_ptr_def un_ptr_def)
  have lm: "map (\<lambda>v. trim_ws (indent_at 2 v)) (map obj_of mfs) = map (\<lambda>fs. indent_at 2 (obj_of fs)) mfs"
    using mb(1) obj_laid(1) by (auto simp: laid_def list_all_iff)
  have arr: "decode (indent_at 1 (array_text (map obj_of mfs))) = Some (JArr (map (\<lambda>fs. indent_at 2 (obj_of fs)) mfs))"
    using decode_laid_array [OF mv, of 1] lm by (simp add: numeral_2_eq_2)
  have "all_some (map (un_ptr un_message) (map (\<lambda>fs. indent_at 2 (obj_of fs)) mfs)) = Some (map (\<lambda>e. Some (eet_relaid 3 e)) es)"
    using mb(2) [of 2] by (simp add: comp_def)
  then have "fld_val (un_list (un_ptr un_message)) [] m ''messages'' = Some (map (\<lambda>e. Some (eet_relaid 3 e)) es)"
    using jt(2) arr by (simp add: fld_val_def fld_ptr_def un_ptr_def un_list_def un_array_def)
  then show "un_eet (indent_at 0 s) = Some (eetFormatVersion, t, map (\<lambda>e. Some (eet_relaid 3 e)) es)"
    unfolding s un_eet_def m(1) option.case v t by simp
qed

section \<open>Properties\<close>

definition message_ascii :: "message \<Rightarrow> bool" where
  "message_ascii m \<longleftrightarrow> eet_ascii (eet_of_message m)"

lemma eet_back:
  assumes "ExportTrace show_time t msgs = Some s" and "clock_ok show_time"
    and "ascii (t_name t)" and "ascii (t_descr t)" and "list_all message_ascii msgs"
  shows "ImportTrace x now s = Done
    (t\<lparr>t_id := 0, t_count := int (length msgs), t_created := now, t_skipped := 0\<rparr>,
     map (\<lambda>m. m\<lparr>m_id := 0, m_trace := 0, m_raw := [], m_norm := relaid 3 (m_norm m), m_ship := relaid 3 (m_ship m),
       m_spine := relaid 3 (m_spine m)\<rparr>) msgs)"
proof -
  obtain u where u: "eet_text show_time (eet_of_trace t) (map eet_of_message msgs) = Some u" "s = encode_indented u"
    using assms(1) by (auto simp: ExportTrace_def)
  have asc: "ascii (et_name (eet_of_trace t))" "ascii (et_descr (eet_of_trace t))" "list_all eet_ascii (map eet_of_message msgs)"
    using assms(3-5) by (auto simp: eet_of_trace_def list_all_iff message_ascii_def)
  note fb = file_back [OF u(1) assms(2) asc]
  have "trace_of_eet now (eet_of_trace t) n = t\<lparr>t_id := 0, t_count := int n, t_created := now, t_skipped := 0\<rparr>" for n
    by (cases t) (simp add: trace_of_eet_def eet_of_trace_def)
  moreover have "message_of_eet (eet_relaid 3 (eet_of_message m)) = m\<lparr>m_id := 0, m_trace := 0, m_raw := [], m_norm := relaid 3 (m_norm m),
      m_ship := relaid 3 (m_ship m), m_spine := relaid 3 (m_spine m)\<rparr>" for m
    by (cases m) (simp add: message_of_eet_def eet_relaid_def eet_of_message_def)
  ultimately show ?thesis
    by (auto simp: ImportTrace_def u(2) fb(1) fb(2) comp_def)
qed

lemma eet_not_dlt:
  assumes "ExportTrace show_time t msgs = Some s"
  shows "\<not> is_dlt_file s"
  using assms by (auto simp: ExportTrace_def eet_text_def is_dlt_file_def encode_indented_def indent_at_def obj_of_def plain_obj_def
      open_br_def close_br_def Let_def split: option.splits)

lemma eet_layout:
  assumes "ExportTrace show_time t msgs = Some s" and "clock_ok show_time"
    and "ascii (t_name t)" and "ascii (t_descr t)" and "list_all message_ascii msgs"
  obtains u where "s = encode_indented u" and "json_valid u"
proof -
  obtain u where u: "eet_text show_time (eet_of_trace t) (map eet_of_message msgs) = Some u" "s = encode_indented u"
    using assms(1) by (auto simp: ExportTrace_def)
  have asc: "ascii (et_name (eet_of_trace t))" "ascii (et_descr (eet_of_trace t))" "list_all eet_ascii (map eet_of_message msgs)"
    using assms(3-5) by (auto simp: eet_of_trace_def list_all_iff message_ascii_def)
  show ?thesis using that u(2) file_back(3) [OF u(1) assms(2) asc] by blast
qed

text \<open>C26: what is exported can be imported. The text \<open>ExportTrace\<close> writes decodes to the trace with a fresh
  identity and the messages in their order, each with all its decoded fields; the raw payloads come back as the
  same JSON laid out at their depth, and the count of truncated frames, the raw bytes and the identifiers do not
  come back.\<close>

theorem eet_roundtrip:
  assumes "ExportTrace show_time t msgs = Some s" and "clock_ok show_time"
    and "ascii (t_name t)" and "ascii (t_descr t)" and "list_all message_ascii msgs"
  shows "ImportTrace x now s = Done
    (t\<lparr>t_id := 0, t_count := int (length msgs), t_created := now, t_skipped := 0\<rparr>,
     map (\<lambda>m. m\<lparr>m_id := 0, m_trace := 0, m_raw := [], m_norm := relaid 3 (m_norm m), m_ship := relaid 3 (m_ship m),
       m_spine := relaid 3 (m_spine m)\<rparr>) msgs)"
  by (rule eet_back [OF assms])

definition utc_epoch :: clock where
  "utc_epoch t = (if t = 0 then Some ''1970-01-01T00:00:00Z'' else None)"

lemma utc_epoch_ok: "clock_ok utc_epoch"
proof -
  have "list_all time_char ''1970-01-01T00:00:00Z''" "parse_rfc3339 True ''1970-01-01T00:00:00Z'' = Some 0" by code_simp+
  then show ?thesis by (simp add: clock_ok_def utc_epoch_def)
qed

definition eet_sample :: message where
  "eet_sample = empty_message\<lparr>m_seq := 7, m_time := 0, m_dir := DirectionIncoming, m_type := ShipMsgTypeData, m_spine := ''[1, 2]''\<rparr>"

definition eet_sample_trace :: trace where
  "eet_sample_trace = \<lparr>t_id = 4, t_name = ''t'', t_descr = [], t_started = 0, t_stopped = Some 0, t_count = 9, t_created = 0, t_skipped = 2\<rparr>"

theorem eet_roundtrip_witness:
  "\<exists>s. ExportTrace utc_epoch eet_sample_trace [eet_sample] = Some s
     \<and> (\<forall>x. ImportTrace x 5 s = Done (eet_sample_trace\<lparr>t_id := 0, t_count := 1, t_created := 5, t_skipped := 0\<rparr>,
         [eet_sample\<lparr>m_spine := relaid 3 ''[1, 2]''\<rparr>]))"
proof -
  have v: "json_valid ''[1, 2]''" by code_simp
  obtain s where s: "ExportTrace utc_epoch eet_sample_trace [eet_sample] = Some s"
    using v by (auto simp: ExportTrace_def eet_text_def trace_fields_def message_fields_def eet_of_trace_def eet_of_message_def
        eet_sample_def eet_sample_trace_def utc_epoch_def empty_message_def raw_ok_def)
  have "list_all message_ascii [eet_sample]"
    by (simp add: message_ascii_def eet_ascii_def eet_of_message_def eet_sample_def empty_message_def ship_types directions max_int64_def)
  then show ?thesis
    using s eet_roundtrip [OF s utc_epoch_ok]
    by (simp add: eet_sample_trace_def) (simp add: eet_sample_def empty_message_def relaid_def)
qed

end
