(* ===== verification/LineShape.thy ===== *)
theory LineShape
  imports Indent LogDetect
begin

text \<open>
  How the lines of a text laid out by \<open>json.Encoder\<close> with \<open>SetIndent\<close> begin, and why \<open>DetectLogFormat\<close> takes
  none of them for a line of a log: a line that starts with a digit is a number with nothing but a comma after it,
  a line that starts with an opening bracket holds nothing else or an empty array.
\<close>

section \<open>The lines a log can have\<close>

datatype line_state = LStart | LBracket | LScalar | LFree | LOff

fun line_step :: "line_state \<Rightarrow> char \<Rightarrow> line_state" where
  "line_step LOff c = LOff"
| "line_step LStart c = (if c = newline then LStart else if is_space c then LStart
     else if c = CHR ''['' then LBracket else if is_digit c then LScalar else LFree)"
| "line_step LBracket c = (if c = newline then LStart else if c = CHR '']'' then LFree else LOff)"
| "line_step LScalar c = (if c = newline then LStart else if is_space c then LOff else LScalar)"
| "line_step LFree c = (if c = newline then LStart else LFree)"

definition line_run :: "line_state \<Rightarrow> string \<Rightarrow> line_state" where
  "line_run = foldl line_step"

lemma line_run_simps [simp]:
  "line_run l [] = l" "line_run l (c # s) = line_run (line_step l c) s"
  "line_run l (s @ t) = line_run (line_run l s) t" "line_run LOff s = LOff"
proof -
  show "line_run LOff s = LOff" by (induction s) (simp_all add: line_run_def)
qed (simp_all add: line_run_def)

lemma line_run_prefix: "line_run l s \<noteq> LOff \<Longrightarrow> line_run l (take n s) \<noteq> LOff"
  using line_run_simps(3) [of l "take n s" "drop n s"] by auto

lemma line_run_lines: "l \<noteq> LOff \<Longrightarrow> line_run l s \<noteq> LOff \<Longrightarrow>
   line_run l (hd (split_char newline s)) \<noteq> LOff \<and> (\<forall>t \<in> set (tl (split_char newline s)). line_run LStart t \<noteq> LOff)"
proof (induction s arbitrary: l)
  case (Cons c s)
  show ?case
  proof (cases "c = newline")
    case True
    then have "line_step l c = LStart" using Cons.prems(1) by (cases l) auto
    then show ?thesis using Cons True by (cases "split_char newline s") auto
  next
    case False
    have ne: "line_step l c \<noteq> LOff" using Cons.prems(2) by auto
    obtain x xs where x: "split_char newline s = x # xs" by (cases "split_char newline s") auto
    then show ?thesis using Cons.IH [OF ne] Cons.prems(2) False by simp
  qed
qed simp

lemma line_run_spaces: "list_all is_space s \<Longrightarrow> line_run LStart s = LStart"
  by (induction s) auto

lemma scalar_no_space: "newline \<notin> set t \<Longrightarrow> line_run LScalar t \<noteq> LOff \<Longrightarrow> c \<in> set t \<Longrightarrow> \<not> is_space c"
  by (induction t) (auto split: if_splits)

text \<open>A line that begins with a digit is taken only if it holds a space, one that begins with a bracket only if
  the next character does not close it.\<close>

lemma lang_cats_sp: "sp \<in> set rs \<Longrightarrow> rx_lang (cats rs) s \<Longrightarrow> \<exists>c \<in> set s. rx_space c"
proof (induction rs arbitrary: s)
  case (Cons r rs)
  from Cons.prems(2) obtain u v where "s = u @ v" "rx_lang r u" "rx_lang (cats rs) v" by (auto simp: lang_cats(2) simp del: cats.simps)
  then show ?case using Cons.IH [of v] Cons.prems(1) lang_sp by (cases "r = sp") auto
qed simp

lemma prefix_sp: "rx_prefix (cats rs) s \<Longrightarrow> sp \<in> set rs \<Longrightarrow> \<exists>c \<in> set s. rx_space c"
  using lang_cats_sp by (fastforce simp: rx_prefix_iff)

lemma go_shape:
  assumes "rx_prefix eebusgoPrefixRegex s"
  shows "(is_digit (hd s) \<and> (\<exists>c \<in> set s. rx_space c)) \<or> (\<exists>d t. s = CHR ''['' # d # t \<and> is_digit d)"
proof -
  obtain u v where s: "s = u @ v" "rx_lang eebusgoPrefixRegex u" using assms by (auto simp: rx_prefix_iff)
  then obtain pre q where p: "u = pre @ q" "pre = [] \<or> rx_lang (cats [some is_digit, sp]) pre" "rx_lang (cats [Str ''['', hms_rx]) q"
    unfolding eebusgoPrefixRegex_def lang_cats(2) [of "Opt (cats [some is_digit, sp])"] rx_lang.simps by blast
  obtain h where h: "q = CHR ''['' # h" "rx_lang hms_rx h" using p(3) by (auto simp: lang_cats)
  have "2 \<le> length h \<and> is_digit (hd h)"
    using h(2) by (auto simp: hms_rx_def lang_cats(2) lang_dg numeral_2_eq_2 length_Suc_conv simp del: cats.simps)
  then obtain d t where d: "h = d # t" "is_digit d" by (cases h) auto
  show ?thesis
  proof (cases "pre = []")
    case False
    then have pre: "rx_lang (cats [some is_digit, sp]) pre" using p(2) by blast
    then obtain x xs where "pre = x # xs" "is_digit x" by (cases pre) (auto simp: lang_cats lang_some Cons_eq_append_conv)
    then show ?thesis using s(1) p(1) lang_cats_sp [OF _ pre] by auto
  qed (use s(1) p(1) h d in auto)
qed

lemma bracket_shapes:
  "rx_prefix eebustesterPrefixRegex s \<Longrightarrow> \<exists>d t. s = CHR ''['' # d # t \<and> d \<noteq> CHR '']''"
  "rx_prefix evccPrefixRegex s \<Longrightarrow> \<exists>d t. s = CHR ''['' # d # t \<and> d \<noteq> CHR '']''"
proof -
  assume "rx_prefix eebustesterPrefixRegex s"
  then obtain u v where s: "s = u @ v" "rx_lang eebustesterPrefixRegex u" by (auto simp: rx_prefix_iff)
  then obtain ds w where p: "u = CHR ''['' # ds @ w" "rx_lang (dg 8) ds"
    by (auto simp: eebustesterPrefixRegex_def lang_cats(2) simp del: cats.simps)
  obtain d t where "ds = d # t" "is_digit d" using p(2) by (cases ds) (auto simp: lang_dg)
  then show "\<exists>d t. s = CHR ''['' # d # t \<and> d \<noteq> CHR '']''" using s p by (auto simp: is_digit_def)
next
  assume "rx_prefix evccPrefixRegex s"
  then show "\<exists>d t. s = CHR ''['' # d # t \<and> d \<noteq> CHR '']''" using evcc_begin [of s]
    by (cases s; cases "tl s") auto
qed

lemma detect_line_none:
  assumes "newline \<notin> set t" and "t \<noteq> []" and "\<not> is_space (hd t)" and "line_run LStart t \<noteq> LOff"
  shows "detect_line t = LogFormatUnknown"
proof -
  obtain c r where t: "t = c # r" using assms(2) by (cases t) auto
  have nl: "c \<noteq> newline" "newline \<notin> set r" using assms(1) t by auto
  have digits: "\<not> is_digit c" if "\<exists>d \<in> set t. rx_space d" "c \<noteq> CHR ''[''"
  proof
    assume d: "is_digit c"
    then have "line_run LScalar r \<noteq> LOff" using assms(3,4) t nl that(2) by (simp split: if_splits)
    then show False using scalar_no_space [OF nl(2)] that(1) t d digit_no_space rx_space_is_space by auto
  qed
  have br: "r = [] \<or> hd r = CHR '']''" if "c = CHR ''[''"
    using assms(3,4) t that nl by (cases r) (auto split: if_splits)
  have ns: "\<not> rx_space (hd t)" using assms(3) rx_space_is_space by blast
  have nd: "\<not> is_digit (CHR ''['')" by (simp add: is_digit_def)
  have hub: "\<not> rx_prefix eebushubPrefixRegex t"
    using hub_begin [of t] prefix_sp [of _ t] digits nd t unfolding eebushubPrefixRegex_def by (cases "c = CHR ''[''") fastforce+
  have dlt: "\<not> rx_prefix dltTextPrefixRegex t"
    using dlt_begin [of t] prefix_sp [of _ t] digits nd t ns unfolding dltTextPrefixRegex_def by (cases "c = CHR ''[''") fastforce+
  have "\<not> rx_prefix eebustesterPrefixRegex t" "\<not> rx_prefix evccPrefixRegex t"
    using bracket_shapes [of t] br t by auto
  moreover have "\<not> rx_prefix eebusgoPrefixRegex t"
    using go_shape [of t] digits nd br t by (cases "c = CHR ''[''") (auto simp: is_digit_def)
  ultimately show ?thesis using hub dlt by (simp add: detect_line_def)
qed

lemma trim_space_line:
  "\<exists>a b. l = a @ trim_space l @ b \<and> list_all is_space a"
proof -
  have "l = takeWhile is_space l @ dropWhile is_space l" by simp
  moreover have "\<exists>b. u = trim_right_by P u @ b" for u :: string and P
    unfolding trim_right_by_def by (metis rev_append rev_rev_ident takeWhile_dropWhile_id)
  ultimately show ?thesis unfolding trim_space_def trim_by_def trim_left_by_def
    by (metis append_assoc list_all_iff set_takeWhileD)
qed

lemma detect_none:
  assumes "line_run LStart s \<noteq> LOff"
  shows "DetectLogFormat s = LogFormatUnknown"
proof -
  have line: "trim_space l = [] \<or> detect_line (trim_space l) = LogFormatUnknown" if "line_run LStart l \<noteq> LOff" "newline \<notin> set l" for l
  proof (cases "trim_space l = []")
    case False
    obtain a b where l: "l = a @ trim_space l @ b" "list_all is_space a" using trim_space_line by blast
    then have "line_run LStart (trim_space l @ b) \<noteq> LOff" using that(1) line_run_spaces [OF l(2)] by (metis line_run_simps(3))
    then have "line_run LStart (trim_space l) \<noteq> LOff" by auto
    moreover have "\<not> is_space (hd (trim_space l))" using False trim_by_trimmed [of is_space l] by (simp add: trim_space_def)
    moreover have "newline \<notin> set (trim_space l)" using that(2) l(1) by (metis Un_iff set_append)
    ultimately show ?thesis using detect_line_none False by blast
  qed simp
  have "detect_lines ls = LogFormatUnknown" if "\<forall>l \<in> set ls. line_run LStart l \<noteq> LOff \<and> newline \<notin> set l" for ls
    using that
  proof (induction ls)
    case (Cons l ls)
    then show ?case using line [of l] by (auto simp: Let_def)
  qed simp
  moreover have "line_run LStart t \<noteq> LOff \<and> newline \<notin> set t" if "t \<in> set (split_char newline (take 4096 s))" for t
    using line_run_lines [OF _ line_run_prefix [OF assms], of 4096] that split_char_parts [OF that]
    by (cases "split_char newline (take 4096 s)") auto
  ultimately show ?thesis unfolding DetectLogFormat_def by (meson in_set_takeD)
qed

section \<open>The lines of a layout\<close>

definition number_state :: "jst \<Rightarrow> bool" where
  "number_state p \<longleftrightarrow> p \<in> {Json.Num1, Json.Num0, Dot, Dot0, Exp, ExpSign, Exp0}"

definition value_pos :: "scanner \<Rightarrow> bool" where
  "value_pos q \<longleftrightarrow> number_state (fst q) \<or> fst q \<in> {BeginValue, BeginValueOrEmpty, Neg} \<longrightarrow> (\<forall>ks. snd q \<noteq> CKey # ks)"

lemma value_pos_end: "fst (end_value c ks) \<noteq> Bad \<Longrightarrow> value_pos (end_value c ks)"
  by (cases ks) (auto simp: value_pos_def number_state_def split: jctx.splits)

lemma value_pos_step:
  assumes "value_pos q" and "lit_ok q" and "fst (json_step q c) \<noteq> Bad"
  shows "value_pos (json_step q c)"
proof -
  obtain p ks where q: "q = (p, ks)" by (cases q)
  show ?thesis
  proof (cases p)
    case (Lit l)
    then show ?thesis using assms unfolding q by (cases l) (auto simp: value_pos_def number_state_def split: if_splits)
  qed (use assms value_pos_end in \<open>auto simp: q begin_value_def begin_string_def num0_def exp_sign_def value_pos_def number_state_def split: if_splits list.splits\<close>)
qed

text \<open>A line inside a string is free; a bracket at the start of a line waits for its first element; a number at the
  start of a line is followed by nothing but the rest of it.\<close>

definition line_ok :: "scanner \<Rightarrow> layout \<Rightarrow> line_state \<Rightarrow> bool" where
  "line_ok q st l \<longleftrightarrow> (case st of (ins, esc, need, d) \<Rightarrow> l \<noteq> LOff
     \<and> (ins \<longrightarrow> l = LFree) \<and> (l = LBracket \<longrightarrow> need \<and> fst q = BeginValueOrEmpty) \<and> (need \<longrightarrow> l = LBracket \<or> l = LFree)
     \<and> (l = LStart \<longrightarrow> fst q = BeginValue \<or> fst q = BeginString)
     \<and> (l = LScalar \<longrightarrow> (number_state (fst q) \<or> fst q = EndValue \<or> fst q = EndTop) \<and> (\<forall>ks. snd q \<noteq> CKey # ks)))"

lemma run_new_line [simp]: "l \<noteq> LOff \<Longrightarrow> line_run l (new_line d) = LStart"
proof -
  assume "l \<noteq> LOff"
  then have "line_step l newline = LStart" by (cases l) auto
  moreover have "list_all is_space (concat (replicate d ''  ''))" by (induction d) (auto simp: is_space_def)
  ultimately show ?thesis by (simp add: new_line_def line_run_spaces flip: newline_def)
qed

lemma end_value_chars:
  "fst (end_value c ks) \<noteq> Bad \<Longrightarrow> \<not> is_ws c \<Longrightarrow> \<forall>k. ks \<noteq> CKey # k \<Longrightarrow> close_br c \<or> c = CHR '','' "
  by (cases ks) (auto simp: close_br_def split: jctx.splits if_splits)

lemma scalar_step:
  assumes "number_state p \<or> p = EndValue \<or> p = EndTop" and "\<forall>k. ks \<noteq> CKey # k" and "fst (json_step (p, ks) c) \<noteq> Bad"
    and "\<not> is_ws c"
  shows "close_br c \<or> c = CHR '','' \<or> ((is_digit c \<or> c \<in> set ''.eE+-'') \<and> number_state (fst (json_step (p, ks) c)) \<and> snd (json_step (p, ks) c) = ks)"
  using assms end_value_chars [of c ks]
  by (cases p) (auto simp: number_state_def num0_def exp_sign_def split: if_splits)

lemma start_step:
  assumes "p = BeginValue \<or> p = BeginString \<or> empty_start p" and "fst (json_step (p, ks) c) \<noteq> Bad" and "\<not> is_ws c" and "\<not> close_br c"
  shows "\<not> is_space c" and "c \<noteq> CHR '',''" and "c \<noteq> CHR '':''"
    and "is_digit c \<Longrightarrow> number_state (fst (json_step (p, ks) c)) \<and> snd (json_step (p, ks) c) = ks \<and> (p = BeginValue \<or> p = BeginValueOrEmpty)"
proof -
  have p: "p = BeginValue \<or> p = BeginString \<or> p = BeginValueOrEmpty \<or> p = BeginStringOrEmpty"
    using assms(1) by (auto simp: empty_start_def)
  have c: "c \<noteq> CHR '']''" "c \<noteq> CHR ''}''" using assms(4) by (auto simp: close_br_def)
  have "(c \<in> set ''{[-0tfn'' \<or> c = CHR 0x22 \<or> is_digit c) \<and> (is_digit c \<longrightarrow> number_state (fst (json_step (p, ks) c)) \<and> snd (json_step (p, ks) c) = ks \<and> (p = BeginValue \<or> p = BeginValueOrEmpty))"
    using p assms(2,3) c
    by (elim disjE) (auto simp: begin_value_def begin_string_def number_state_def is_digit_def split: if_splits)
  then show "\<not> is_space c" "c \<noteq> CHR '',''" "c \<noteq> CHR '':''"
      "is_digit c \<Longrightarrow> number_state (fst (json_step (p, ks) c)) \<and> snd (json_step (p, ks) c) = ks \<and> (p = BeginValue \<or> p = BeginValueOrEmpty)"
    by (auto simp: is_space_def is_digit_def)
qed

lemma bracket_step:
  assumes "fst (json_step (p, ks) (CHR ''['')) \<noteq> Bad" and "\<not> in_str p" and "lit_ok (p, ks)"
  shows "fst (json_step (p, ks) (CHR ''['')) = BeginValueOrEmpty"
proof -
  have "fst (end_value (CHR ''['') k) = Bad" for k by (cases k) (auto simp: is_ws_def split: jctx.splits)
  then show ?thesis using assms
    by (cases p rule: jst.exhaust; (auto simp: begin_value_def begin_string_def num0_def exp_sign_def is_ws_def is_digit_def split: if_splits; fail)?)
      (rename_tac x, case_tac x, auto simp: lit_ok_def split: if_splits)
qed

lemma line_step_layout:
  assumes nb: "fst (json_step q c) \<noteq> Bad" and ok: "scan_ok q" and lay: "layout_ok q st" and pos: "value_pos q" and l: "line_ok q st l"
  shows "line_ok (json_step q c) (snd (layout_step st c)) (line_run l (fst (layout_step st c)))"
proof -
  obtain ins esc need d where st: "st = (ins, esc, need, d)" by (cases st)
  obtain p ks where q: "q = (p, ks)" by (cases q)
  have lit: "lit_ok q" using ok by (simp add: scan_ok_def)
  note inst = in_str_step [OF lit nb]
  have i: "ins = in_str p" "esc = (p = InEsc)" "need \<longrightarrow> empty_start p" using lay by (simp_all add: layout_ok_def st q)
  have lo: "l \<noteq> LOff" "ins \<longrightarrow> l = LFree" "l = LBracket \<longrightarrow> need \<and> p = BeginValueOrEmpty" "need \<longrightarrow> l = LBracket \<or> l = LFree"
      "l = LStart \<longrightarrow> p = BeginValue \<or> p = BeginString"
      "l = LScalar \<longrightarrow> (number_state p \<or> p = EndValue \<or> p = EndTop) \<and> (\<forall>k. ks \<noteq> CKey # k)"
    using l by (auto simp: line_ok_def st q)
  show ?thesis
  proof (cases ins)
    case True
    then have "c \<noteq> newline" using nb i unfolding q by (cases p) (auto simp: newline_def is_hex_def is_digit_def split: if_splits)
    then show ?thesis using True lo i by (simp add: st line_ok_def empty_start_def)
  next
    case out: False
    then have os: "\<not> in_str p" using i by simp
    show ?thesis
    proof (cases "is_ws c")
      case True
      have "l = LScalar \<Longrightarrow> (fst (json_step q c) = EndValue \<or> fst (json_step q c) = EndTop) \<and> snd (json_step q c) = ks"
        using lo(6) nb True unfolding q
        by (cases p; cases ks) (auto simp: number_state_def num0_def exp_sign_def is_ws_def is_digit_def split: if_splits)
      moreover have "l = LBracket \<or> l = LStart \<Longrightarrow> json_step q c = q"
        using lo(3,5) True unfolding q by (auto simp: begin_value_def begin_string_def)
      ultimately show ?thesis using True out lo by (auto simp: st q line_ok_def simp del: json_step.simps)
    next
      case nw: False
      then have nn: "c \<noteq> newline" by (auto simp: newline_def is_ws_def)
      define l1 where "l1 = (if need then LStart else l)"
      have l1: "line_run l (if need then new_line k else []) = l1" for k using lo(1) by (simp add: l1_def)
      have l1p: "l1 = LStart \<Longrightarrow> p = BeginValue \<or> p = BeginString \<or> empty_start p" "l1 \<noteq> LOff" "l1 \<noteq> LBracket"
        using lo i(3) by (auto simp: l1_def split: if_splits)
      have l1s: "l1 = LScalar \<Longrightarrow> (is_digit c \<or> c \<in> set ''.eE+-'') \<and> number_state (fst (json_step q c)) \<and> snd (json_step q c) = ks \<and> (\<forall>k. ks \<noteq> CKey # k)"
        if "\<not> close_br c" "c \<noteq> CHR '',''"
        using scalar_step [of p ks c] that lo(6) nb nw unfolding q l1_def by (auto split: if_splits)
      consider "close_br c" | "open_br c" "\<not> close_br c" | "c = CHR '',''" | "c = CHR '':''"
        | "\<not> close_br c" "\<not> open_br c" "c \<noteq> CHR '',''" "c \<noteq> CHR '':''" by blast
      then show ?thesis
      proof cases
        case 1
        have "c = CHR '']''" if "l = LBracket"
          using lo(3) that nb 1 unfolding q by (auto simp: close_br_def begin_value_def is_ws_def is_digit_def)
        then have "line_run l (fst (layout_step st c)) = LFree"
          using 1 out nw nn lo by (cases l) (auto simp: st close_br_def is_space_def is_digit_def)
        then show ?thesis using 1 out nw by (simp add: st line_ok_def del: json_step.simps)
      next
        case 2
        have e: "empty_start (fst (json_step q c))" using after_open [OF nb _ lit 2(1)] os q by simp
        have b: "c = CHR ''['' \<Longrightarrow> fst (json_step q c) = BeginValueOrEmpty" using bracket_step nb os lit unfolding q by blast
        have "l1 \<noteq> LScalar" using l1s 2 by (auto simp: open_br_def is_digit_def)
        then have "line_step l1 c = LFree \<or> (line_step l1 c = LBracket \<and> c = CHR ''['')"
          using l1p nn 2(1) by (cases l1) (auto simp: open_br_def is_space_def is_digit_def)
        then show ?thesis using 2 out nw b l1 by (auto simp: st line_ok_def Let_def open_br_def simp del: json_step.simps)
      next
        case 3
        then have "\<not> close_br c" by (simp add: close_br_def)
        then have nd: "\<not> need" using start_step(2) [of p ks c] i(3) nb nw 3 unfolding q by blast
        then have "line_step l c \<noteq> LOff" using lo nn 3 by (cases l) (auto simp: is_space_def)
        moreover have "fst (json_step q c) = BeginValue \<or> fst (json_step q c) = BeginString"
          using after_separator [OF nb _ lit] os 3 q by auto
        ultimately show ?thesis using 3 out nw nd by (auto simp: st line_ok_def Let_def open_br_def close_br_def simp del: json_step.simps line_step.simps)
      next
        case 4
        then have nc: "\<not> close_br c" "c \<noteq> CHR '',''" by (simp_all add: close_br_def)
        have "l1 \<noteq> LStart" using l1p(1) start_step(3) [of p ks c] nb nw 4 nc unfolding q by blast
        moreover have "l1 \<noteq> LScalar" using l1s [OF nc] 4 by (auto simp: is_digit_def simp del: json_step.simps)
        ultimately have "l1 \<noteq> LStart" "l1 \<noteq> LScalar" by blast+
        then have "l1 = LFree" using l1p by (cases l1) auto
        then have "\<not> need" "l = LFree" by (auto simp: l1_def split: if_splits)
        then show ?thesis using 4 out nw nn by (simp add: st line_ok_def Let_def open_br_def close_br_def newline_def del: json_step.simps)
      next
        case 5
        have f: "c = CHR 0x22 \<Longrightarrow> line_step l1 c = LFree"
          using l1p l1s 5 nn by (cases l1) (auto simp: is_space_def is_digit_def)
        have s: "line_step l1 c = LFree \<or> (line_step l1 c = LScalar \<and> number_state (fst (json_step q c)) \<and> (\<forall>k. snd (json_step q c) \<noteq> CKey # k))"
        proof (cases l1)
          case LStart
          note b = start_step [OF l1p(1) [OF LStart] nb [unfolded q] nw 5(1)]
          have "c \<noteq> CHR ''[''" using 5 by (auto simp: open_br_def)
          then show ?thesis using LStart nn b pos unfolding q by (auto simp: value_pos_def simp del: json_step.simps)
        next
          case LScalar
          then show ?thesis using l1s 5 nn by (auto simp: is_space_def is_digit_def)
        qed (use l1p nn in auto)
        then show ?thesis using 5 out nw l1 f by (auto simp: st line_ok_def Let_def simp del: json_step.simps line_step.simps)
      qed
    qed
  qed
qed

lemma line_layout:
  "fst (json_run q s) \<noteq> Bad \<Longrightarrow> scan_ok q \<Longrightarrow> layout_ok q st \<Longrightarrow> value_pos q \<Longrightarrow> line_ok q st l \<Longrightarrow> line_run l (layout_text st s) \<noteq> LOff"
proof (induction s arbitrary: q st l)
  case Nil
  then show ?case by (auto simp: line_ok_def)
next
  case (Cons c s)
  have nb: "fst (json_step q c) \<noteq> Bad" using Cons.prems(1) json_run_not_Bad by simp
  note ok = line_step_layout [OF nb Cons.prems(2-5)] layout_step_run [OF nb _ Cons.prems(2,3), of q]
    scan_ok_step [OF Cons.prems(2), of c] value_pos_step [OF Cons.prems(4) _ nb]
  have "line_run (line_run l (fst (layout_step st c))) (layout_text (snd (layout_step st c)) s) \<noteq> LOff"
    using Cons.prems(1,2) ok by (intro Cons.IH [of "json_step q c"]) (auto simp: scan_ok_def)
  then show ?case by (simp add: case_prod_unfold del: layout_step.simps)
qed

theorem laid_out_no_log:
  assumes "json_valid v"
  shows "DetectLogFormat (encode_indented v) = LogFormatUnknown"
proof (rule detect_none)
  have nb: "fst (json_run (BeginValue, []) v) \<noteq> Bad"
    using assms by (auto elim!: json_valid_done simp: value_done_def)
  have "line_run LStart (layout_text (at_depth 0) v) \<noteq> LOff"
    by (rule line_layout [OF nb]) (auto simp: scan_ok_def layout_ok_def value_pos_def line_ok_def)
  then have "line_step (line_run LStart (indent_at 0 v)) newline \<noteq> LOff"
    by (cases "line_run LStart (indent_at 0 v)") (simp_all add: indent_at_def)
  then show "line_run LStart (encode_indented v) \<noteq> LOff" by (simp add: encode_indented_def flip: newline_def)
qed

end
