(* ===== verification/MessageApi.thy ===== *)
theory MessageApi
  imports Eet LineShape Store
begin

text \<open>
  The handlers of \<open>internal/api\<close> that move messages and traces in and out of the database:
  \<open>messages.go\<close>, \<open>messages_export.go\<close>, \<open>traces.go\<close>, \<open>fileio_handler.go\<close>, with \<open>response.go\<close>. A response is
  its status, the headers the code sets and its body; a handler that panics sends none (\<open>None\<close>). A request is
  the text of its path values, the first value of each query parameter and its body. What a handler takes from
  outside the database is the record \<open>web\<close>.
\<close>

section \<open>Responses\<close>

record web =
  wb_ext :: externals
  wb_engine :: engine
  wb_clock :: clock
  wb_utc :: "time \<Rightarrow> string"
  wb_stamp :: string
  wb_now :: time
  wb_now_text :: string
  wb_db_error :: string

record response =
  rp_status :: nat
  rp_headers :: "(string \<times> string) list"
  rp_body :: string

text \<open>\<open>writeJSON\<close> of the text of a value; \<open>None\<close> for a value that cannot be encoded: the status is out by then.\<close>

definition writeJSON :: "(string \<times> string) list \<Rightarrow> nat \<Rightarrow> string option \<Rightarrow> response" where
  "writeJSON hs status v = \<lparr>rp_status = status, rp_headers = hs @ [(''Content-Type'', ''application/json'')],
     rp_body = (case v of None \<Rightarrow> [] | Some s \<Rightarrow> s @ [newline])\<rparr>"

definition writeError :: "nat \<Rightarrow> string \<Rightarrow> response" where
  "writeError status msg = writeJSON [] status (Some (obj_of [text_always ''error'' msg]))"

definition parseID :: "string \<Rightarrow> int option" where
  "parseID s = (case atoi s of (i, err) \<Rightarrow> if err then None else Some i)"

definition int_always :: "string \<Rightarrow> int \<Rightarrow> field" where
  "int_always k v = (k, Some (int_str v))"

definition message_json :: "clock \<Rightarrow> message \<Rightarrow> string option" where
  "message_json show_time m =
     (case show_time (m_time m) of
        None \<Rightarrow> None
      | Some ts \<Rightarrow> if \<not> (raw_ok (m_norm m) \<and> raw_ok (m_ship m) \<and> raw_ok (m_spine m)) then None
        else Some (obj_of [int_always ''id'' (m_id m), int_always ''traceId'' (m_trace m), int_always ''sequenceNum'' (m_seq m),
          text_always ''timestamp'' ts, text_always ''direction'' (m_dir m),
          text_field ''sourceAddr'' (m_src_addr m), text_field ''destAddr'' (m_dst_addr m), text_field ''rawHex'' (m_raw_hex m),
          raw_field ''normalizedJson'' (m_norm m), text_always ''shipMsgType'' (m_type m), raw_field ''shipPayload'' (m_ship m),
          raw_field ''spinePayload'' (m_spine m), text_field ''cmdClassifier'' (m_classifier m), text_field ''functionSet'' (m_fn m),
          text_field ''msgCounter'' (m_ctr m), text_field ''msgCounterRef'' (m_ref m), text_field ''deviceSource'' (m_dev_src m),
          text_field ''deviceDest'' (m_dev_dst m), text_field ''entitySource'' (m_ent_src m), text_field ''entityDest'' (m_ent_dst m),
          text_field ''featureSource'' (m_feat_src m), text_field ''featureDest'' (m_feat_dst m), text_field ''parseError'' (m_error m)]))"

definition summary_json :: "clock \<Rightarrow> summary \<Rightarrow> string option" where
  "summary_json show_time m =
     map_option (\<lambda>ts. obj_of [int_always ''id'' (s_id m), int_always ''traceId'' (s_trace m), int_always ''sequenceNum'' (s_seq m),
       text_always ''timestamp'' ts, text_always ''direction'' (s_dir m), text_always ''shipMsgType'' (s_type m),
       text_field ''cmdClassifier'' (s_classifier m), text_field ''functionSet'' (s_fn m),
       text_field ''msgCounter'' (s_ctr m), text_field ''msgCounterRef'' (s_ref m), text_field ''deviceSource'' (s_dev_src m),
       text_field ''deviceDest'' (s_dev_dst m), text_field ''sourceAddr'' (s_src_addr m), text_field ''destAddr'' (s_dst_addr m)])
     (show_time (s_time m))"

definition trace_json :: "clock \<Rightarrow> trace \<Rightarrow> string option" where
  "trace_json show_time t =
     (case (show_time (t_started t), map_option show_time (t_stopped t), show_time (t_created t)) of
        (Some s, st, Some c) \<Rightarrow> if st = Some None then None
          else Some (obj_of [int_always ''id'' (t_id t), text_always ''name'' (t_name t), text_field ''description'' (t_descr t),
            text_always ''startedAt'' s, (''stoppedAt'', map_option (\<lambda>u. quote (the u)) st), int_always ''messageCount'' (t_count t),
            text_always ''createdAt'' c, (''skippedTruncated'', if t_skipped t = 0 then None else Some (int_str (t_skipped t)))])
      | _ \<Rightarrow> None)"

definition list_json :: "string option list \<Rightarrow> string option" where
  "list_json l = map_option array_text (all_some l)"

section \<open>Messages\<close>

type_synonym query = "(string \<times> string) list"

definition query_value :: "query \<Rightarrow> string \<Rightarrow> string" where
  "query_value q k = (case map_of q k of None \<Rightarrow> [] | Some v \<Rightarrow> v)"

text \<open>A number that cannot be read counts as the value \<open>Atoi\<close> gives with its error.\<close>

definition query_int :: "query \<Rightarrow> string \<Rightarrow> int" where
  "query_int q k = (if query_value q k = [] then 0 else fst (atoi (query_value q k)))"

definition query_time :: "query \<Rightarrow> string \<Rightarrow> time option" where
  "query_time q k = (if query_value q k = [] then None else parse_rfc3339 False (query_value q k))"

definition buildMessageFilter :: "query \<Rightarrow> message_filter" where
  "buildMessageFilter q = \<lparr>mf_classifier = query_value q ''cmdClassifier'', mf_fn = query_value q ''functionSet'',
     mf_dir = query_value q ''direction'', mf_type = query_value q ''shipMsgType'',
     mf_limit = query_int q ''limit'', mf_offset = query_int q ''offset'', mf_search = query_value q ''search'',
     mf_from = query_time q ''timeFrom'', mf_to = query_time q ''timeTo'',
     mf_dev_src = query_value q ''deviceSource'', mf_dev_dst = query_value q ''deviceDest'', mf_dev = query_value q ''device'',
     mf_ent_src = query_value q ''entitySource'', mf_ent_dst = query_value q ''entityDest'',
     mf_feat_src = query_value q ''featureSource'', mf_feat_dst = query_value q ''featureDest''\<rparr>"

text \<open>A listing without rows is a nil slice, whose text is \<open>null\<close>.\<close>

definition handleListMessages :: "web \<Rightarrow> string \<Rightarrow> query \<Rightarrow> store \<Rightarrow> response" where
  "handleListMessages w idText q s =
     (case parseID idText of
        None \<Rightarrow> writeError 400 ''invalid trace ID''
      | Some i \<Rightarrow> let f = buildMessageFilter q in
          (case (ListMessages (wb_engine w) i f s, CountFilteredMessages (wb_engine w) i f s) of
             (Some msgs, Some cnt) \<Rightarrow>
               writeJSON [(''X-Total-Count'', int_str cnt), (''X-Unfiltered-Count'', int_str (CountMessages i s))] 200
                 (if msgs = [] then Some ''null'' else list_json (map (message_json (wb_clock w)) msgs))
           | _ \<Rightarrow> writeError 500 (wb_db_error w)))"

definition handleListMessageSummaries :: "web \<Rightarrow> string \<Rightarrow> query \<Rightarrow> store \<Rightarrow> response" where
  "handleListMessageSummaries w idText q s =
     (case parseID idText of
        None \<Rightarrow> writeError 400 ''invalid trace ID''
      | Some i \<Rightarrow> (case ListMessageSummaries (wb_engine w) i ((buildMessageFilter q)\<lparr>mf_limit := 0, mf_offset := 0\<rparr>) s of
             None \<Rightarrow> writeError 500 (wb_db_error w)
           | Some l \<Rightarrow> writeJSON [] 200 (list_json (map (summary_json (wb_clock w)) l))))"

definition handleGetMessage :: "web \<Rightarrow> string \<Rightarrow> string \<Rightarrow> store \<Rightarrow> response" where
  "handleGetMessage w idText midText s =
     (case (parseID idText, parseID midText) of
        (None, _) \<Rightarrow> writeError 400 ''invalid trace ID''
      | (_, None) \<Rightarrow> writeError 400 ''invalid message ID''
      | (Some i, Some j) \<Rightarrow> (case GetMessage i j s of
             None \<Rightarrow> writeError 404 ''message not found''
           | Some m \<Rightarrow> writeJSON [] 200 (message_json (wb_clock w) m)))"

section \<open>Export of a filtered set\<close>

text \<open>\<open>csv.Writer\<close>: a field is quoted when it contains a separator, a quote or a line break, when it starts with
  a space (\<open>unicode.IsSpace\<close> of its first rune) or is \<open>\.\<close>.\<close>

definition space_first :: "string \<Rightarrow> bool" where
  "space_first s \<longleftrightarrow> (case s of
       [] \<Rightarrow> False
     | c # r \<Rightarrow> is_space c \<or> (c = byte 194 \<and> take 1 r \<in> {[byte 133], [byte 160]})
         \<or> take 3 s \<in> {[byte 225, byte 154, byte 128], [byte 226, byte 129, byte 159], [byte 227, byte 128, byte 128]}
         \<or> (take 2 s = [byte 226, byte 128]
            \<and> (\<exists>d \<in> set (take 1 (drop 2 s)). in_rng d 128 138 \<or> ord d \<in> {168, 169, 175})))"

definition csv_quoted :: "string \<Rightarrow> bool" where
  "csv_quoted s \<longleftrightarrow> s \<noteq> [] \<and> (s = [CHR 0x5C, CHR ''.''] \<or> list_ex (\<lambda>c. c \<in> {CHR '','', CHR 0x22, CHR 0x0D, newline}) s \<or> space_first s)"

definition csv_field :: "string \<Rightarrow> string" where
  "csv_field s = (if csv_quoted s
     then CHR 0x22 # concat (map (\<lambda>c. if c = CHR 0x22 then [c, c] else [c]) s) @ [CHR 0x22] else s)"

definition csv_record :: "string list \<Rightarrow> string" where
  "csv_record fs = join '','' (map csv_field fs) @ [newline]"

definition csv_columns :: "string list" where
  "csv_columns = [''id'', ''sequenceNum'', ''timestamp'', ''direction'', ''shipMsgType'', ''cmdClassifier'', ''functionSet'',
     ''msgCounter'', ''msgCounterRef'', ''deviceSource'', ''deviceDest'', ''entitySource'', ''entityDest'', ''featureSource'',
     ''featureDest'', ''sourceAddr'', ''destAddr'', ''shipPayload'', ''spinePayload'', ''parseError'']"

definition csv_row :: "(time \<Rightarrow> string) \<Rightarrow> message \<Rightarrow> string list" where
  "csv_row utc m = [int_str (m_id m), int_str (m_seq m), utc (m_time m), m_dir m, m_type m, m_classifier m, m_fn m,
     m_ctr m, m_ref m, m_dev_src m, m_dev_dst m, m_ent_src m, m_ent_dst m, m_feat_src m,
     m_feat_dst m, m_src_addr m, m_dst_addr m, m_ship m, m_spine m, m_error m]"

definition writeMessagesCSV :: "(time \<Rightarrow> string) \<Rightarrow> message list \<Rightarrow> string" where
  "writeMessagesCSV utc msgs = concat (map csv_record (csv_columns # map (csv_row utc) msgs))"

definition export_name :: "web \<Rightarrow> int \<Rightarrow> string \<Rightarrow> string \<times> string" where
  "export_name w i ext = (''Content-Disposition'',
     ''attachment; filename=\"trace-'' @ int_str i @ ''-messages-'' @ wb_stamp w @ ext @ ''\"'')"

definition handleExportMessages :: "web \<Rightarrow> string \<Rightarrow> query \<Rightarrow> store \<Rightarrow> response" where
  "handleExportMessages w idText q s =
     (case parseID idText of
        None \<Rightarrow> writeError 400 ''invalid trace ID''
      | Some i \<Rightarrow> (case ListMessages (wb_engine w) i ((buildMessageFilter q)\<lparr>mf_limit := 0, mf_offset := 0\<rparr>) s of
             None \<Rightarrow> writeError 500 (wb_db_error w)
           | Some msgs \<Rightarrow>
               let format = (if query_value q ''format'' = [] then ''csv'' else query_value q ''format'') in
               if format = ''json'' then
                 \<lparr>rp_status = 200, rp_headers = [(''Content-Type'', ''application/json''), export_name w i ''.json''],
                  rp_body = (case list_json (map (message_json (wb_clock w)) msgs) of None \<Rightarrow> [] | Some v \<Rightarrow> encode_indented v)\<rparr>
               else if format = ''csv'' then
                 \<lparr>rp_status = 200, rp_headers = [(''Content-Type'', ''text/csv; charset=utf-8''), export_name w i ''.csv''],
                  rp_body = writeMessagesCSV (wb_utc w) msgs\<rparr>
               else writeError 400 ''format must be csv or json''))"

section \<open>Traces\<close>

definition handleListTraces :: "web \<Rightarrow> store \<Rightarrow> response" where
  "handleListTraces w s = writeJSON [] 200 (list_json (map (trace_json (wb_clock w)) (ListTraces (wb_engine w) s)))"

definition un_request :: "string list \<Rightarrow> string \<Rightarrow> string list option" where
  "un_request ks body = (case decoder_value body of
       None \<Rightarrow> None
     | Some v \<Rightarrow> (case un_map v of None \<Rightarrow> None | Some m \<Rightarrow> all_some (map (text_of m) ks)))"

definition handleCreateTrace :: "web \<Rightarrow> string \<Rightarrow> store \<Rightarrow> response \<times> store" where
  "handleCreateTrace w body s = (case un_request [''name'', ''description''] body of
       Some [name, descr] \<Rightarrow>
         (let t = \<lparr>t_id = 0, t_name = (if name = [] then ''Trace '' @ wb_now_text w else name), t_descr = descr,
             t_started = wb_now w, t_stopped = None, t_count = 0, t_created = wb_now w, t_skipped = 0\<rparr>;
           (t', s') = CreateTrace t s in (writeJSON [] 201 (trace_json (wb_clock w) t'), s'))
     | _ \<Rightarrow> (writeError 400 ''invalid JSON'', s))"

definition handleGetTrace :: "web \<Rightarrow> string \<Rightarrow> store \<Rightarrow> response" where
  "handleGetTrace w idText s = (case parseID idText of
       None \<Rightarrow> writeError 400 ''invalid trace ID''
     | Some i \<Rightarrow> (case GetTrace i s of
          None \<Rightarrow> writeError 404 ''trace not found''
        | Some t \<Rightarrow> writeJSON [] 200 (trace_json (wb_clock w) t)))"

text \<open>Renaming reads the trace and writes it back; other requests may come in between. The answer and what is
  written are those of the trace as read.\<close>

definition rename_request :: "web \<Rightarrow> string \<Rightarrow> string \<Rightarrow> store \<Rightarrow> response + trace" where
  "rename_request w idText body s = (case parseID idText of
       None \<Rightarrow> Inl (writeError 400 ''invalid trace ID'')
     | Some i \<Rightarrow> (case un_request [''name''] body of
          Some [name] \<Rightarrow>
            if name = [] then Inl (writeError 400 ''name is required'')
            else (case GetTrace i s of
                None \<Rightarrow> Inl (writeError 404 ''trace not found'')
              | Some t \<Rightarrow> Inr (t\<lparr>t_name := name\<rparr>))
        | _ \<Rightarrow> Inl (writeError 400 ''invalid JSON'')))"

definition rename_write :: "web \<Rightarrow> trace \<Rightarrow> store \<Rightarrow> response \<times> store" where
  "rename_write w t s = (writeJSON [] 200 (trace_json (wb_clock w) t), UpdateTrace t s)"

definition handleRenameTrace :: "web \<Rightarrow> string \<Rightarrow> string \<Rightarrow> store \<Rightarrow> response \<times> store" where
  "handleRenameTrace w idText body s = (case rename_request w idText body s of
       Inl r \<Rightarrow> (r, s)
     | Inr t \<Rightarrow> rename_write w t s)"

definition handleDeleteTrace :: "web \<Rightarrow> string \<Rightarrow> store \<Rightarrow> response \<times> store" where
  "handleDeleteTrace w idText s = (case parseID idText of
       None \<Rightarrow> (writeError 400 ''invalid trace ID'', s)
     | Some i \<Rightarrow> (\<lparr>rp_status = 204, rp_headers = [], rp_body = []\<rparr>, DeleteTrace i s))"

section \<open>Files\<close>

text \<open>\<open>strings.TrimSuffix(name, filepath.Ext(name))\<close>\<close>

definition base_name :: "string \<Rightarrow> string" where
  "base_name name = (case last_index ''.'' name of
       None \<Rightarrow> name
     | Some i \<Rightarrow> if CHR ''/'' \<in> set (drop i name) then name else take i name)"

definition handleImport :: "web \<Rightarrow> (string \<times> bytes) option \<Rightarrow> store \<Rightarrow> response option \<times> store" where
  "handleImport w file s = (case file of
       None \<Rightarrow> (Some (writeError 400 ''missing file field''), s)
     | Some (filename, content) \<Rightarrow>
         (case ImportFileAutoDetect (wb_ext w) (wb_now w) (base_name filename) content of
            Panicked \<Rightarrow> (None, s)
          | Failed e \<Rightarrow> (Some (writeError 400 e), s)
          | Done (t, msgs) \<Rightarrow>
              (case CreateTrace t s of (t', s1) \<Rightarrow>
                 (case InsertMessages (map (\<lambda>m. m\<lparr>m_trace := t_id t'\<rparr>) msgs) s1 of
                    None \<Rightarrow> (Some (writeError 500 (wb_db_error w)), s1)
                  | Some (_, s2) \<Rightarrow> (Some (writeJSON [] 201 (trace_json (wb_clock w) t')), s2)))))"

definition export_limit :: int where "export_limit = 100000"

definition handleExport :: "web \<Rightarrow> string \<Rightarrow> store \<Rightarrow> response" where
  "handleExport w idText s = (case parseID idText of
       None \<Rightarrow> writeError 400 ''invalid trace ID''
     | Some i \<Rightarrow> (case GetTrace i s of
          None \<Rightarrow> writeError 404 ''trace not found''
        | Some t \<Rightarrow> (case ListMessages (wb_engine w) i (no_filter\<lparr>mf_limit := export_limit\<rparr>) s of
             None \<Rightarrow> writeError 500 (wb_db_error w)
           | Some msgs \<Rightarrow>
               \<lparr>rp_status = 200, rp_headers = [(''Content-Type'', ''application/json''),
                  (''Content-Disposition'', ''attachment; filename=\"'' @ t_name t @ ''.eet\"'')],
                rp_body = (case ExportTrace (wb_clock w) t msgs of None \<Rightarrow> [] | Some f \<Rightarrow> f)\<rparr>)))"

section \<open>Lemmas: CSV\<close>

text \<open>A reader of RFC 4180 text: whether it is inside quotes, the field and the record so far (in reverse).\<close>

fun csv_read :: "bool \<Rightarrow> string \<Rightarrow> string list \<Rightarrow> string \<Rightarrow> string list list" where
  "csv_read q cur fs [] = (if cur = [] \<and> fs = [] then [] else [rev (rev cur # fs)])"
| "csv_read True cur fs (c # s) =
     (if c \<noteq> CHR 0x22 then csv_read True (c # cur) fs s
      else (case s of [] \<Rightarrow> [rev (rev cur # fs)]
        | d # r \<Rightarrow> if d = CHR 0x22 then csv_read True (d # cur) fs r else csv_read False cur fs s))"
| "csv_read False cur fs (c # s) =
     (if c = CHR 0x22 then csv_read True cur fs s
      else if c = CHR '','' then csv_read False [] (rev cur # fs) s
      else if c = newline then rev (rev cur # fs) # csv_read False [] [] s
      else csv_read False (c # cur) fs s)"

definition csv_plain :: "string \<Rightarrow> bool" where
  "csv_plain s \<longleftrightarrow> list_all (\<lambda>c. c \<notin> {CHR '','', CHR 0x22, CHR 0x0D, newline}) s"

lemma read_plain: "csv_plain s \<Longrightarrow> csv_read False cur fs (s @ r) = csv_read False (rev s @ cur) fs r"
  by (induction s arbitrary: cur) (auto simp: csv_plain_def newline_def)

lemma read_quoted:
  "c \<noteq> CHR 0x22 \<Longrightarrow> csv_read True cur fs (concat (map (\<lambda>c. if c = CHR 0x22 then [c, c] else [c]) s) @ CHR 0x22 # c # r)
     = csv_read False (rev s @ cur) fs (c # r)"
  by (induction s arbitrary: cur) auto

lemma read_field: "c \<noteq> CHR 0x22 \<Longrightarrow> csv_read False [] fs (csv_field s @ c # r) = csv_read False (rev s) fs (c # r)"
proof (cases "csv_quoted s")
  case True
  assume "c \<noteq> CHR 0x22"
  then show ?thesis using True read_quoted [of c "[]"] by (simp add: csv_field_def newline_def)
next
  case False
  then have "csv_plain s"
    by (cases "s = []") (auto simp: csv_quoted_def csv_plain_def list_ex_iff list_all_iff)
  then show ?thesis using False read_plain [of s "[]"] by (simp add: csv_field_def)
qed

lemma read_record: "row \<noteq> [] \<Longrightarrow> csv_read False [] fs (csv_record row @ r) = (rev fs @ row) # csv_read False [] [] r"
proof (induction row arbitrary: fs)
  case (Cons f row)
  show ?case
  proof (cases row)
    case Nil
    then show ?thesis using read_field [of newline] by (simp add: csv_record_def newline_def)
  next
    case (Cons g row')
    have "csv_record (f # row) @ r = csv_field f @ CHR '','' # (csv_record row @ r)" by (simp add: csv_record_def Cons)
    then have "csv_read False [] fs (csv_record (f # row) @ r) = csv_read False [] (f # fs) (csv_record row @ r)"
      using read_field [of "CHR '',''"] by (simp add: newline_def)
    then show ?thesis using Cons.IH Cons by simp
  qed
qed simp

lemma read_records: "\<forall>row \<in> set rows. row \<noteq> [] \<Longrightarrow> csv_read False [] [] (concat (map csv_record rows)) = rows"
  by (induction rows) (auto simp: read_record)

section \<open>Lemmas: from one database to another\<close>

lemma ListMessages_no_filter:
  assumes "orders e" and "CountMessages i s \<le> n" and "0 < n"
  shows "ListMessages e i (no_filter\<lparr>mf_limit := n\<rparr>) s = Some (e_by_seq e (filter (\<lambda>m. m_trace m = i) (st_messages s)))"
proof -
  have sel: "selected e i (no_filter\<lparr>mf_limit := n\<rparr>) s = filter (\<lambda>m. m_trace m = i) (st_messages s)"
    by (simp add: selected_eq matches_def no_filter_def)
  have "length (e_by_seq e (filter (\<lambda>m. m_trace m = i) (st_messages s))) \<le> nat n"
    using assms(2) e_by_seq_perm(2) [OF assms(1)] by (simp add: CountMessages_def)
  moreover have "query_ok e (no_filter\<lparr>mf_limit := n\<rparr>)" "mf_offset (no_filter\<lparr>mf_limit := n\<rparr>) = 0" by (simp_all add: query_ok_def no_filter_def)
  ultimately show ?thesis using assms(3) unfolding ListMessages_def sel by simp
qed

lemma find_snoc: "\<forall>x \<in> set l. \<not> P x \<Longrightarrow> P y \<Longrightarrow> find P (l @ [y]) = Some y"
  by (induction l) auto

lemma insert_into_new_trace:
  assumes "store_ok s" and "CreateTrace t s = (t', s1)"
  shows "\<exists>l s2. InsertMessages (map (\<lambda>m. m\<lparr>m_trace := t_id t'\<rparr>) msgs) s1 = Some (l, s2)
    \<and> map (\<lambda>m. m\<lparr>m_id := 0\<rparr>) (filter (\<lambda>m. m_trace m = t_id t') (st_messages s2))
        = map (\<lambda>m. m\<lparr>m_id := 0, m_trace := t_id t', m_raw := []\<rparr>) msgs
    \<and> GetTrace (t_id t') s2 = Some t'"
proof -
  let ?l = "map (\<lambda>m. m\<lparr>m_trace := t_id t'\<rparr>) msgs"
  have t': "t' = t\<lparr>t_id := st_next_trace s\<rparr>" "st_traces s1 = st_traces s @ [t']" "st_messages s1 = st_messages s"
    using assms(2) by (auto simp: CreateTrace_def Let_def)
  have "\<forall>m \<in> set ?l. trace_exists (m_trace m) s1" using t' by (simp add: trace_exists_def)
  from InsertMessages_total [OF this] obtain l s2 where l: "InsertMessages ?l s1 = Some (l, s2)"
      "map (\<lambda>m. m\<lparr>m_id := 0\<rparr>) l = map (\<lambda>m. m\<lparr>m_id := 0\<rparr>) ?l" by blast
  note rows = insert_messages_rows [OF l(1)]
  have "\<forall>k \<in> set (map t_id (st_traces s)). k < st_next_trace s" using assms(1) by (simp add: store_ok_def keys_ok_def)
  then have fresh: "\<forall>r \<in> set (st_traces s). t_id r \<noteq> t_id t'" "\<forall>m \<in> set (st_messages s). m_trace m \<noteq> t_id t'"
    using assms(1) t'(1) by (fastforce simp: store_ok_def trace_exists_def)+
  have "m_trace m = t_id t'" if "m \<in> set l" for m
  proof -
    have "m\<lparr>m_id := 0\<rparr> \<in> set (map (\<lambda>m. m\<lparr>m_id := 0\<rparr>) ?l)" using that l(2) by (metis imageI list.set_map)
    then show ?thesis by (auto dest!: arg_cong [of _ _ m_trace])
  qed
  then have "filter (\<lambda>m. m_trace m = t_id t') (st_messages s2) = map (\<lambda>m. m\<lparr>m_raw := []\<rparr>) l"
    using rows fresh(2) t'(3) by (simp add: filter_empty_conv filter_id_conv)
  moreover have "map (\<lambda>m. m\<lparr>m_id := 0\<rparr>) (map (\<lambda>m. m\<lparr>m_raw := []\<rparr>) l) = map (\<lambda>m. m\<lparr>m_id := 0, m_trace := t_id t', m_raw := []\<rparr>) msgs"
  proof -
    have "map (\<lambda>m. m\<lparr>m_id := 0\<rparr>) (map (\<lambda>m. m\<lparr>m_raw := []\<rparr>) l) = map (\<lambda>m. m\<lparr>m_raw := []\<rparr>) (map (\<lambda>m. m\<lparr>m_id := 0\<rparr>) l)"
      by simp
    also have "\<dots> = map (\<lambda>m. m\<lparr>m_id := 0, m_trace := t_id t', m_raw := []\<rparr>) msgs" unfolding l(2) by simp
    finally show ?thesis .
  qed
  moreover have "find (\<lambda>r. t_id r = t_id t') (st_traces s @ [t']) = Some t'"
    using fresh(1) find_snoc [of "st_traces s" "\<lambda>r. t_id r = t_id t'"] by simp
  ultimately show ?thesis using l(1) rows t'(2) by (intro exI [of _ l] exI [of _ s2]) (simp add: GetTrace_def)
qed

section \<open>Samples\<close>

definition sample_web :: "externals \<Rightarrow> web" where
  "sample_web x = \<lparr>wb_ext = x, wb_engine = test_engine, wb_clock = utc_epoch, wb_utc = \<lambda>t. ''now'', wb_stamp = ''1'', wb_now = 0,
     wb_now_text = ''2'', wb_db_error = ''e''\<rparr>"

definition transfer_store :: store where
  "transfer_store = snd (the (InsertMessages [eet_sample\<lparr>m_trace := 1\<rparr>] (snd (CreateTrace eet_sample_trace (migrated (built_in_charts 0))))))"

lemma transfer_store_rows:
  "st_messages transfer_store = [eet_sample\<lparr>m_id := 1, m_trace := 1\<rparr>]" "GetTrace 1 transfer_store = Some (eet_sample_trace\<lparr>t_id := 1\<rparr>)"
  by (simp_all add: transfer_store_def CreateTrace_def GetTrace_def InsertMessage_def trace_exists_def migrated_def Let_def eet_sample_def empty_message_def)

lemma transfer_reachable: "store_reachable transfer_store"
proof -
  let ?s = "snd (CreateTrace eet_sample_trace (migrated (built_in_charts 0)))"
  have "store_reachable ?s" by (rule store_reachable.step [OF store_reachable.start store_step.create_trace])
  moreover obtain l where "InsertMessages [eet_sample\<lparr>m_trace := 1\<rparr>] ?s = Some (l, transfer_store)"
    by (simp add: transfer_store_def CreateTrace_def InsertMessage_def trace_exists_def migrated_def Let_def)
  ultimately show ?thesis by (blast intro: store_reachable.step store_step.insert_messages)
qed

lemma sample_ids: "parseID ''1'' = Some 1"
  by (simp add: parseID_def atoi_def digits_val_def digit_val_def is_digit_def max_int64_def min_int64_def)

section \<open>Properties\<close>

text \<open>C27: an export of filtered messages is not the whole set. Whatever the paging in the request, the rows of the CSV
  file read back, whatever bytes the fields hold, as the header and the first hundred matching messages; the count
  the listing announces and the summaries cover all of them.\<close>

theorem csv_export:
  assumes "orders (wb_engine w)" and "parseID idText = Some i" and "query_ok (wb_engine w) (buildMessageFilter q)"
    and "query_value q ''format'' \<in> {[], ''csv''}"
  shows "\<exists>rows. rp_status (handleExportMessages w idText q s) = 200
    \<and> csv_read False [] [] (rp_body (handleExportMessages w idText q s)) = csv_columns # map (csv_row (wb_utc w)) (take 100 rows)
    \<and> sorted (map m_seq rows) \<and> set rows = {m \<in> set (st_messages s). m_trace m = i \<and> matches (wb_engine w) (buildMessageFilter q) m}
    \<and> (''X-Total-Count'', int_str (int (length rows))) \<in> set (rp_headers (handleListMessages w idText q s))
    \<and> rp_body (handleListMessageSummaries w idText q s)
        = rp_body (writeJSON [] 200 (list_json (map (\<lambda>m. summary_json (wb_clock w) (ToSummary m)) rows)))"
proof (intro exI conjI)
  let ?f = "buildMessageFilter q" and ?e = "wb_engine w"
  let ?rows = "e_by_seq ?e (selected ?e i ?f s)"
  note perm = e_by_seq_perm [OF assms(1)]
  have l: "ListMessages ?e i (?f\<lparr>mf_limit := 0, mf_offset := 0\<rparr>) s = Some (take 100 ?rows)"
    using assms(3) by (simp add: ListMessages_def)
  have h: "handleExportMessages w idText q s =
      \<lparr>rp_status = 200, rp_headers = [(''Content-Type'', ''text/csv; charset=utf-8''), export_name w i ''.csv''],
       rp_body = writeMessagesCSV (wb_utc w) (take 100 ?rows)\<rparr>"
    using assms(2,4) by (auto simp: handleExportMessages_def l)
  show "rp_status (handleExportMessages w idText q s) = 200" by (simp add: h)
  have "\<forall>row \<in> set (csv_columns # map (csv_row (wb_utc w)) (take 100 ?rows)). row \<noteq> []"
    by (auto simp: csv_columns_def csv_row_def)
  then show "csv_read False [] [] (rp_body (handleExportMessages w idText q s)) = csv_columns # map (csv_row (wb_utc w)) (take 100 ?rows)"
    unfolding h response.simps writeMessagesCSV_def by (rule read_records)
  show "sorted (map m_seq ?rows)" by (rule perm)
  show "set ?rows = {m \<in> set (st_messages s). m_trace m = i \<and> matches ?e ?f m}" by (auto simp: perm selected_eq)
  show "(''X-Total-Count'', int_str (int (length ?rows))) \<in> set (rp_headers (handleListMessages w idText q s))"
    using assms(2,3) by (simp add: handleListMessages_def CountFilteredMessages_def ListMessages_def perm writeJSON_def Let_def)
  show "rp_body (handleListMessageSummaries w idText q s)
      = rp_body (writeJSON [] 200 (list_json (map (\<lambda>m. summary_json (wb_clock w) (ToSummary m)) ?rows)))"
    using assms(2,3) by (simp add: handleListMessageSummaries_def ListMessageSummaries_def comp_def)
qed

theorem csv_export_witness:
  "\<forall>x. \<exists>rows. csv_read False [] [] (rp_body (handleExportMessages (sample_web x) ''1'' [(''direction'', ''incoming'')] transfer_store))
     = csv_columns # map (csv_row (\<lambda>t. ''now'')) (take 100 rows) \<and> set rows = {eet_sample\<lparr>m_id := 1, m_trace := 1\<rparr>}"
proof -
  let ?f = "buildMessageFilter [(''direction'', ''incoming'')]" and ?m = "eet_sample\<lparr>m_id := 1, m_trace := 1\<rparr>"
  have f: "mf_dir ?f = ''incoming''" "mf_classifier ?f = []" "mf_fn ?f = []" "mf_type ?f = []" "mf_from ?f = None" "mf_to ?f = None"
      "mf_dev_src ?f = []" "mf_dev_dst ?f = []" "mf_dev ?f = []" "mf_ent_src ?f = []" "mf_ent_dst ?f = []" "mf_feat_src ?f = []"
      "mf_feat_dst ?f = []" "mf_search ?f = []"
    by (simp_all add: buildMessageFilter_def query_value_def query_time_def)
  have m: "matches test_engine ?f ?m" by (simp add: matches_def f) (simp add: eet_sample_def directions)
  have w: "orders (wb_engine (sample_web x))" "query_ok (wb_engine (sample_web x)) ?f" "wb_engine (sample_web x) = test_engine" for x
    by (simp_all add: sample_web_def test_engine_orders query_ok_def f)
  have fmt: "query_value [(''direction'', ''incoming'')] ''format'' \<in> {[], ''csv''}" by (simp add: query_value_def)
  have utc: "wb_utc (sample_web x) = (\<lambda>t. ''now'')" for x by (simp add: sample_web_def)
  have sel: "{n \<in> set (st_messages transfer_store). m_trace n = 1 \<and> matches (wb_engine (sample_web x)) ?f n} = {?m}" for x
    using m by (auto simp: w(3) transfer_store_rows(1))
  show ?thesis
  proof
    fix x
    note E = csv_export [OF w(1) sample_ids w(2) fmt, of x transfer_store]
    show "\<exists>rows. csv_read False [] [] (rp_body (handleExportMessages (sample_web x) ''1'' [(''direction'', ''incoming'')] transfer_store))
        = csv_columns # map (csv_row (\<lambda>t. ''now'')) (take 100 rows) \<and> set rows = {?m}"
      by (rule ex_forward [OF E], elim conjE, rule conjI) (simp_all only: utc sel)
  qed
qed

text \<open>C25: a trace survives the way from one database to another. A trace of at most a hundred thousand messages that
  is exported as a file and uploaded to any database the program can reach is a new trace there with the same name,
  description and times, which holds the messages of the old one in the order of their numbers, with all their fields;
  raw payloads are laid out anew, the count of skipped frames is lost.\<close>

theorem export_import:
  assumes "orders (wb_engine w)" and "clock_ok (wb_clock w)" and "parseID idText = Some i" and "GetTrace i s = Some t"
    and "ascii (t_name t)" and "ascii (t_descr t)" and "list_all message_ascii (filter (\<lambda>m. m_trace m = i) (st_messages s))"
    and "CountMessages i s \<le> export_limit"
    and "rp_body (handleExport w idText s) \<noteq> []"
    and "store_reachable s2"
  shows "\<exists>r s3. handleImport w (Some (name, rp_body (handleExport w idText s))) s2 = (Some r, s3) \<and> rp_status r = 201
    \<and> GetTrace (st_next_trace s2) s3 = Some (t\<lparr>t_id := st_next_trace s2, t_count := CountMessages i s, t_created := wb_now w, t_skipped := 0\<rparr>)
    \<and> map (\<lambda>m. m\<lparr>m_id := 0\<rparr>) (filter (\<lambda>m. m_trace m = st_next_trace s2) (st_messages s3))
      = map (\<lambda>m. m\<lparr>m_id := 0, m_trace := st_next_trace s2, m_raw := [], m_norm := relaid 3 (m_norm m), m_ship := relaid 3 (m_ship m),
          m_spine := relaid 3 (m_spine m)\<rparr>) (e_by_seq (wb_engine w) (filter (\<lambda>m. m_trace m = i) (st_messages s)))"
proof -
  let ?rows = "e_by_seq (wb_engine w) (filter (\<lambda>m. m_trace m = i) (st_messages s))"
  have l: "ListMessages (wb_engine w) i (no_filter\<lparr>mf_limit := export_limit\<rparr>) s = Some ?rows"
    by (rule ListMessages_no_filter [OF assms(1,8)]) (simp add: export_limit_def)
  obtain f where f: "ExportTrace (wb_clock w) t ?rows = Some f" "rp_body (handleExport w idText s) = f"
    using assms(9) by (cases "ExportTrace (wb_clock w) t ?rows") (auto simp: handleExport_def assms(3,4) l)
  have asc: "list_all message_ascii ?rows" using assms(7) e_by_seq_perm(1) [OF assms(1)] by (simp add: list_all_iff)
  let ?t = "t\<lparr>t_id := 0, t_count := int (length ?rows), t_created := wb_now w, t_skipped := 0\<rparr>"
  let ?msgs = "map (\<lambda>m. m\<lparr>m_id := 0, m_trace := 0, m_raw := [], m_norm := relaid 3 (m_norm m), m_ship := relaid 3 (m_ship m),
       m_spine := relaid 3 (m_spine m)\<rparr>) ?rows"
  have imp: "ImportTrace (wb_ext w) (wb_now w) f = Done (?t, ?msgs)"
    by (rule eet_back [OF f(1) assms(2,5,6) asc])
  have "DetectLogFormat (take 4096 f) = LogFormatUnknown"
    using eet_layout [OF f(1) assms(2,5,6) asc] laid_out_no_log by (metis DetectLogFormat_def min.idem take_take)
  then have auto: "ImportFileAutoDetect (wb_ext w) (wb_now w) (base_name name) f = Done (?t, ?msgs)"
    using eet_not_dlt [OF f(1)] imp by (simp add: ImportFileAutoDetect_def import_as_def)
  obtain t' s1 where ct: "CreateTrace ?t s2 = (t', s1)" by fastforce
  have t': "t' = ?t\<lparr>t_id := st_next_trace s2\<rparr>" using ct by (auto simp: CreateTrace_def Let_def)
  obtain ls s3 where ins: "InsertMessages (map (\<lambda>m. m\<lparr>m_trace := t_id t'\<rparr>) ?msgs) s1 = Some (ls, s3)"
      "map (\<lambda>m. m\<lparr>m_id := 0\<rparr>) (filter (\<lambda>m. m_trace m = t_id t') (st_messages s3)) = map (\<lambda>m. m\<lparr>m_id := 0, m_trace := t_id t', m_raw := []\<rparr>) ?msgs"
      "GetTrace (t_id t') s3 = Some t'"
    using insert_into_new_trace [OF store_reachable_ok [OF assms(10)] ct] by blast
  have n: "int (length ?rows) = CountMessages i s" using e_by_seq_perm(2) [OF assms(1)] by (simp add: CountMessages_def)
  have "handleImport w (Some (name, f)) s2 = (Some (writeJSON [] 201 (trace_json (wb_clock w) t')), s3)"
    by (simp only: handleImport_def option.case prod.case auto outcome.case ct ins(1))
  moreover have "t_id t' = st_next_trace s2" "t' = t\<lparr>t_id := st_next_trace s2, t_count := CountMessages i s, t_created := wb_now w, t_skipped := 0\<rparr>"
    using n by (simp_all add: t')
  ultimately show ?thesis
    unfolding f(2) using ins(2,3) by (intro exI [of _ "writeJSON [] 201 (trace_json (wb_clock w) t')"] exI [of _ s3])
      (simp add: writeJSON_def comp_def)
qed

theorem export_import_witness:
  "\<forall>x. \<exists>r s3. handleImport (sample_web x) (Some (''a.eet'', rp_body (handleExport (sample_web x) ''1'' transfer_store))) transfer_store = (Some r, s3)
     \<and> map (\<lambda>m. m\<lparr>m_id := 0\<rparr>) (filter (\<lambda>m. m_trace m = 2) (st_messages s3)) = [eet_sample\<lparr>m_trace := 2, m_spine := relaid 3 ''[1, 2]''\<rparr>]"
proof
  fix x
  let ?w = "sample_web x"
  have w: "orders (wb_engine ?w)" "clock_ok (wb_clock ?w)" by (simp_all add: sample_web_def test_engine_orders utc_epoch_ok)
  have asc: "ascii (t_name (eet_sample_trace\<lparr>t_id := 1\<rparr>))" "ascii (t_descr (eet_sample_trace\<lparr>t_id := 1\<rparr>))" by (simp_all add: eet_sample_trace_def)
  have msgs: "list_all message_ascii (filter (\<lambda>m. m_trace m = 1) (st_messages transfer_store))"
    by (simp add: transfer_store_rows(1) message_ascii_def eet_ascii_def eet_of_message_def)
      (simp add: eet_sample_def empty_message_def ship_types directions max_int64_def)
  have cnt: "CountMessages 1 transfer_store \<le> export_limit" by (simp add: CountMessages_def transfer_store_rows(1) export_limit_def)
  note reach = transfer_reachable
  have next_id: "st_next_trace transfer_store = 2" by (simp add: transfer_store_def CreateTrace_def InsertMessage_def trace_exists_def migrated_def Let_def eet_sample_def empty_message_def)
  have v: "json_valid ''[1, 2]''" by code_simp
  have rows: "e_by_seq (wb_engine ?w) (filter (\<lambda>m. m_trace m = 1) (st_messages transfer_store)) = [eet_sample\<lparr>m_id := 1, m_trace := 1\<rparr>]"
    by (simp add: transfer_store_rows(1) sample_web_def test_engine_def)
  have fields: "\<exists>fs. message_fields utc_epoch (eet_of_message (eet_sample\<lparr>m_id := 1, m_trace := 1\<rparr>)) = Some fs"
    using v by (simp add: message_fields_def eet_of_message_def eet_sample_def utc_epoch_def empty_message_def raw_ok_def)
  have "\<exists>fs. trace_fields utc_epoch (eet_of_trace (eet_sample_trace\<lparr>t_id := 1\<rparr>)) = Some fs"
    by (simp add: trace_fields_def eet_of_trace_def eet_sample_trace_def utc_epoch_def)
  then have "\<exists>u. ExportTrace utc_epoch (eet_sample_trace\<lparr>t_id := 1\<rparr>) [eet_sample\<lparr>m_id := 1, m_trace := 1\<rparr>] = Some (encode_indented u)"
    using fields by (auto simp: ExportTrace_def eet_text_def)
  moreover have "wb_clock ?w = utc_epoch" by (simp add: sample_web_def)
  moreover have "ListMessages (wb_engine ?w) 1 (no_filter\<lparr>mf_limit := export_limit\<rparr>) transfer_store = Some [eet_sample\<lparr>m_id := 1, m_trace := 1\<rparr>]"
    using ListMessages_no_filter [OF w(1) cnt] rows by (simp add: export_limit_def)
  ultimately have body: "rp_body (handleExport ?w ''1'' transfer_store) \<noteq> []"
    by (auto simp: handleExport_def sample_ids transfer_store_rows(2) encode_indented_def)
  obtain r s3 where "handleImport ?w (Some (''a.eet'', rp_body (handleExport ?w ''1'' transfer_store))) transfer_store = (Some r, s3)"
      "map (\<lambda>m. m\<lparr>m_id := 0\<rparr>) (filter (\<lambda>m. m_trace m = 2) (st_messages s3))
        = map (\<lambda>m. m\<lparr>m_id := 0, m_trace := 2, m_raw := [], m_norm := relaid 3 (m_norm m), m_ship := relaid 3 (m_ship m),
            m_spine := relaid 3 (m_spine m)\<rparr>) [eet_sample\<lparr>m_id := 1, m_trace := 1\<rparr>]"
    using export_import [OF w sample_ids transfer_store_rows(2) asc msgs cnt body reach, of "''a.eet''"]
    unfolding rows next_id by blast
  moreover have "eet_sample\<lparr>m_id := 0, m_trace := 2, m_raw := [], m_norm := relaid 3 [], m_ship := relaid 3 [], m_spine := relaid 3 ''[1, 2]''\<rparr>
      = eet_sample\<lparr>m_trace := 2, m_spine := relaid 3 ''[1, 2]''\<rparr>"
    by (simp add: eet_sample_def empty_message_def relaid_def)
  moreover have "m_norm eet_sample = []" "m_ship eet_sample = []" "m_spine eet_sample = ''[1, 2]''"
    by (simp_all add: eet_sample_def empty_message_def)
  ultimately show "\<exists>r s3. handleImport ?w (Some (''a.eet'', rp_body (handleExport ?w ''1'' transfer_store))) transfer_store = (Some r, s3)
     \<and> map (\<lambda>m. m\<lparr>m_id := 0\<rparr>) (filter (\<lambda>m. m_trace m = 2) (st_messages s3)) = [eet_sample\<lparr>m_trace := 2, m_spine := relaid 3 ''[1, 2]''\<rparr>]"
    by (intro exI [of _ r] exI [of _ s3]) simp
qed

end
