(* ===== verification/DeviceTree.thy ===== *)
theory DeviceTree
  imports Lifecycle Store
begin

text \<open>
  The devices of a trace with their entities and features, as \<open>api/depgraph.go\<close> collects them for the
  dependency graph and the life cycles, and as \<open>cmd/eebustracer/devices.go\<close> collects them for its report.
  Both merge the announcements of a device over all its discovery messages. \<open>ParseDiscoveryEntities\<close> is that of
  \<open>Spineparse\<close>, with its parameter \<open>grow\<close>; the copies between the packages' structs of the same fields are
  \<open>parseDiscoveryEntities\<close> and \<open>node_of\<close>.
\<close>

section \<open>The accumulator of the API\<close>

definition parseDiscoveryEntities :: "(nat \<Rightarrow> nat) \<Rightarrow> string \<Rightarrow> disc_entity list" where
  "parseDiscoveryEntities grow s = map (\<lambda>e. \<lparr>e_address = e_address e, e_type = e_type e,
     e_features = map (\<lambda>f. \<lparr>f_address = f_address f, f_type = f_type f, f_role = f_role f, f_functions = f_functions f\<rparr>) (e_features e)\<rparr>)
     (ParseDiscoveryEntities grow s)"

definition node_of :: "disc_feature \<Rightarrow> feature_node" where
  "node_of f = \<lparr>fn_address = f_address f, fn_type = f_type f, fn_role = f_role f, fn_functions = f_functions f\<rparr>"

text \<open>\<open>entityMap\<close> with \<open>entityOrder\<close>, and \<open>featureSeen\<close> as the pairs it holds.\<close>

record accumulator =
  ac_addr :: string
  ac_entities :: "(string, entity_node) omap"
  ac_seen :: "(string \<times> string) set"
  ac_last :: int

definition newDeviceEntityAccumulator :: "string \<Rightarrow> accumulator" where
  "newDeviceEntityAccumulator addr = \<lparr>ac_addr = addr, ac_entities = om_empty, ac_seen = {}, ac_last = 0\<rparr>"

definition merge_feature :: "string \<Rightarrow> disc_feature \<Rightarrow> accumulator \<Rightarrow> accumulator" where
  "merge_feature e f a =
     (if (e, f_address f) \<in> ac_seen a then a
      else (case om_get (ac_entities a) e of
          None \<Rightarrow> a
        | Some n \<Rightarrow> a\<lparr>ac_seen := insert (e, f_address f) (ac_seen a),
              ac_entities := om_put e (n\<lparr>en_features := en_features n @ [node_of f]\<rparr>) (ac_entities a)\<rparr>))"

definition merge_entity :: "disc_entity \<Rightarrow> accumulator \<Rightarrow> accumulator" where
  "merge_entity e a =
     (let a1 = (case om_get (ac_entities a) (e_address e) of
           None \<Rightarrow> a\<lparr>ac_entities := om_put (e_address e)
                 \<lparr>en_address = e_address e, en_type = e_type e, en_features = []\<rparr> (ac_entities a)\<rparr>
         | Some _ \<Rightarrow> a)
      in fold (merge_feature (e_address e)) (e_features e) a1)"

definition merge :: "disc_entity list \<Rightarrow> accumulator \<Rightarrow> accumulator" where
  "merge es a = fold merge_entity es a"

definition build :: "accumulator \<Rightarrow> device_info" where
  "build a = \<lparr>di_addr = ac_addr a, di_entities = om_values (ac_entities a), di_last_disc = ac_last a\<rparr>"

definition discovery_step :: "(nat \<Rightarrow> nat) \<Rightarrow> message \<Rightarrow> (string, accumulator) omap \<Rightarrow> (string, accumulator) omap" where
  "discovery_step grow m s =
     (if \<not> is_snapshot m \<or> m_dev_src m = [] then s
      else (let a = (case om_get s (m_dev_src m) of None \<Rightarrow> newDeviceEntityAccumulator (m_dev_src m) | Some a \<Rightarrow> a);
                a1 = (if m_spine m = [] then a
                      else (merge (parseDiscoveryEntities grow (m_spine m)) a)\<lparr>ac_last := m_id m\<rparr>)
            in om_put (m_dev_src m) a1 s))"

definition extractDevicesFromDiscovery :: "(nat \<Rightarrow> nat) \<Rightarrow> message list \<Rightarrow> device_info list" where
  "extractDevicesFromDiscovery grow msgs = map build (om_values (fold (discovery_step grow) msgs om_empty))"

definition note_address :: "string \<Rightarrow> device_info list \<times> string set \<Rightarrow> device_info list \<times> string set" where
  "note_address addr st = (if addr = [] \<or> addr \<in> snd st then st
     else (fst st @ [\<lparr>di_addr = addr, di_entities = [], di_last_disc = 0\<rparr>], insert addr (snd st)))"

definition extractDevicesFromMessages :: "message list \<Rightarrow> device_info list" where
  "extractDevicesFromMessages msgs = fst (fold note_address (concat (map (\<lambda>m. [m_dev_src m, m_dev_dst m]) msgs)) ([], {}))"

section \<open>The report of the command line\<close>

text \<open>\<open>idx\<close> holds the last position of an address; \<open>featSeen\<close> the addresses of the entity's features.\<close>

fun add_features :: "disc_feature list \<Rightarrow> disc_feature list \<Rightarrow> disc_feature list" where
  "add_features fs [] = fs"
| "add_features fs (g # gs) =
     (if f_address g \<in> f_address ` set fs then add_features fs gs else add_features (fs @ [g]) gs)"

definition merge_into :: "disc_entity \<Rightarrow> disc_entity \<Rightarrow> disc_entity" where
  "merge_into e old = (let new = old\<lparr>e_features := add_features (e_features old) (e_features e)\<rparr>
     in if e_type new = [] \<and> e_type e \<noteq> [] then new\<lparr>e_type := e_type e\<rparr> else new)"

definition merge_incoming :: "disc_entity \<Rightarrow> disc_entity list \<Rightarrow> disc_entity list" where
  "merge_incoming e existing = (case last_pos (e_address e) existing of
       Some i \<Rightarrow> existing[i := merge_into e (existing ! i)]
     | None \<Rightarrow> existing @ [e])"

definition mergeDiscoveryEntities :: "disc_entity list \<Rightarrow> disc_entity list \<Rightarrow> disc_entity list" where
  "mergeDiscoveryEntities existing incoming = fold merge_incoming incoming existing"

definition discovery_fn :: string where "discovery_fn = ''NodeManagementDetailedDiscoveryData''"

definition announces_entities :: "message \<Rightarrow> bool" where
  "announces_entities m \<longleftrightarrow> m_fn m = discovery_fn \<and> is_snapshot m \<and> m_dev_src m \<noteq> [] \<and> m_spine m \<noteq> []"

definition entities_step :: "(nat \<Rightarrow> nat) \<Rightarrow> message \<Rightarrow> (string \<Rightarrow> disc_entity list) \<Rightarrow> string \<Rightarrow> disc_entity list" where
  "entities_step grow m by =
     (if announces_entities m then
        (let ents = ParseDiscoveryEntities grow (m_spine m) in
         if ents \<noteq> [] then by(m_dev_src m := mergeDiscoveryEntities (by (m_dev_src m)) ents) else by)
      else by)"

record device_report =
  dr_addr :: string
  dr_actor :: string
  dr_entities :: "disc_entity list"
  dr_cases :: "use_case list"
  dr_count :: int

definition first_actor :: "string \<Rightarrow> device_use_cases list \<Rightarrow> string" where
  "first_actor addr ducs = (case filter (\<lambda>d. du_device d = addr \<and> du_actor d \<noteq> []) ducs of [] \<Rightarrow> [] | d # _ \<Rightarrow> du_actor d)"

definition buildDeviceReports :: "(nat \<Rightarrow> nat) \<Rightarrow> message list \<Rightarrow> device_report list" where
  "buildDeviceReports grow msgs =
     (let order = first_seen (filter (\<lambda>a. a \<noteq> []) (concat (map (\<lambda>m. [m_dev_src m, m_dev_dst m]) msgs)));
          entities = fold (entities_step grow) msgs (\<lambda>_. []);
          ducs = DetectUseCases msgs
      in map (\<lambda>addr. \<lparr>dr_addr = addr, dr_actor = first_actor addr ducs, dr_entities = entities addr,
           dr_cases = concat (map du_cases (filter (\<lambda>d. du_device d = addr) ducs)),
           dr_count = int (length (filter (\<lambda>m. m_dev_src m = addr) msgs))\<rparr>) (fold insert_text order []))"

section \<open>What both have merged\<close>

text \<open>The entities device \<open>addr\<close> announces in a list of discovery messages, in their order.\<close>

definition announced_by :: "(nat \<Rightarrow> nat) \<Rightarrow> string \<Rightarrow> message list \<Rightarrow> disc_entity list" where
  "announced_by grow addr msgs = concat (map (\<lambda>m. ParseDiscoveryEntities grow (m_spine m))
     (filter (\<lambda>m. is_snapshot m \<and> m_dev_src m = addr \<and> m_spine m \<noteq> []) msgs))"

text \<open>The elements whose key has not appeared before.\<close>

fun first_by :: "('a \<Rightarrow> 'k) \<Rightarrow> 'a list \<Rightarrow> 'a list" where
  "first_by k [] = []"
| "first_by k (x # xs) = x # filter (\<lambda>y. k y \<noteq> k x) (first_by k xs)"

definition of_entity :: "string \<Rightarrow> disc_entity list \<Rightarrow> disc_entity list" where
  "of_entity a es = filter (\<lambda>e. e_address e = a) es"

definition features_of :: "string \<Rightarrow> disc_entity list \<Rightarrow> disc_feature list" where
  "features_of a es = concat (map e_features (of_entity a es))"

definition entity_of :: "string \<Rightarrow> disc_entity list \<Rightarrow> entity_node" where
  "entity_of a es = \<lparr>en_address = a, en_type = e_type (hd (of_entity a es)),
     en_features = map node_of (first_by f_address (features_of a es))\<rparr>"

section \<open>Lemmas: keeping the first of each key\<close>

lemma first_by_set: "k ` set (first_by k xs) = k ` set xs"
proof (induction xs)
  case (Cons x xs)
  have "k ` set (filter (\<lambda>y. k y \<noteq> k x) (first_by k xs)) = k ` set (first_by k xs) - {k x}" by auto
  then show ?case using Cons by auto
qed simp

lemma first_by_filter: "(\<And>a b. k a = k b \<Longrightarrow> P a = P b) \<Longrightarrow> first_by k (filter P xs) = filter P (first_by k xs)"
proof (induction xs)
  case (Cons x xs)
  have ih: "first_by k (filter P xs) = filter P (first_by k xs)" by (rule Cons.IH [OF Cons.prems])
  have px: "P y \<Longrightarrow> \<not> P x \<Longrightarrow> k y \<noteq> k x" for y using Cons.prems by blast
  have c1: "filter P (filter (\<lambda>y. k y \<noteq> k x) l) = filter (\<lambda>y. k y \<noteq> k x) (filter P l)" for l
    unfolding filter_filter by (rule filter_cong) auto
  have c2: "\<not> P x \<Longrightarrow> filter (\<lambda>y. k y \<noteq> k x) (filter P l) = filter P l" for l
    unfolding filter_filter by (rule filter_cong [OF refl]) (use px in blast)
  show ?case by (cases "P x") (simp_all only: first_by.simps filter.simps c1 c2 ih if_True if_False not_False_eq_True)
qed simp

lemma first_by_append: "first_by k (xs @ ys) = first_by k xs @ filter (\<lambda>y. k y \<notin> k ` set xs) (first_by k ys)"
  by (induction xs) (simp_all add: conj_commute)

lemma first_by_idem: "first_by k (first_by k xs) = first_by k xs"
proof (induction xs)
  case (Cons x xs)
  have "first_by k (filter (\<lambda>y. k y \<noteq> k x) (first_by k xs)) = filter (\<lambda>y. k y \<noteq> k x) (first_by k xs)"
    by (subst first_by_filter) (auto simp: Cons)
  then show ?case by simp
qed simp

lemma first_by_again: "first_by k (first_by k xs @ ys) = first_by k (xs @ ys)"
  by (simp add: first_by_append first_by_idem first_by_set)

lemma add_features_eq: "add_features fs gs = fs @ filter (\<lambda>g. f_address g \<notin> f_address ` set fs) (first_by f_address gs)"
proof (induction gs arbitrary: fs)
  case (Cons g gs)
  let ?old = "\<lambda>y. f_address y \<notin> f_address ` set fs"
  have 1: "f_address g \<in> f_address ` set fs \<Longrightarrow> filter ?old (filter (\<lambda>y. f_address y \<noteq> f_address g) l) = filter ?old l" for l
    unfolding filter_filter by (rule filter_cong) auto
  have 2: "filter (\<lambda>y. f_address y \<notin> f_address ` set (fs @ [g])) l = filter ?old (filter (\<lambda>y. f_address y \<noteq> f_address g) l)" for l
    unfolding filter_filter by (rule filter_cong) auto
  show ?case
    by (cases "f_address g \<in> f_address ` set fs") (simp_all only: add_features.simps if_True if_False Cons 2 first_by.simps filter.simps 1 not_True_eq_False append_assoc append_Cons append_Nil simp_thms)
qed simp

lemma add_features_first: "first_by f_address (add_features fs gs) = first_by f_address (fs @ gs)"
proof -
  let ?old = "\<lambda>y. f_address y \<notin> f_address ` set fs"
  have "first_by f_address (filter ?old (first_by f_address gs)) = filter ?old (first_by f_address gs)"
    by (subst first_by_filter) (auto simp: first_by_idem)
  then show ?thesis unfolding add_features_eq first_by_append by simp
qed

section \<open>Lemmas: the accumulator\<close>

definition upd_entity :: "disc_entity \<Rightarrow> entity_node option \<Rightarrow> entity_node" where
  "upd_entity e v =
     (let n = (case v of None \<Rightarrow> \<lparr>en_address = e_address e, en_type = e_type e, en_features = []\<rparr> | Some n \<Rightarrow> n)
      in n\<lparr>en_features := en_features n @ map node_of (filter (\<lambda>f. f_address f \<notin> fn_address ` set (en_features n)) (first_by f_address (e_features e)))\<rparr>)"

definition put_entity :: "disc_entity \<Rightarrow> (string, entity_node) omap \<Rightarrow> (string, entity_node) omap" where
  "put_entity e s = om_put (e_address e) (upd_entity e (om_get s (e_address e))) s"

definition seen_ok :: "accumulator \<Rightarrow> bool" where
  "seen_ok a \<longleftrightarrow> (\<forall>e f. (e, f) \<in> ac_seen a \<longleftrightarrow> (\<exists>n. om_get (ac_entities a) e = Some n \<and> f \<in> fn_address ` set (en_features n)))"

lemma om_put_put [simp]: "om_put k v (om_put k u s) = om_put k v s"
  by (simp add: om_put_def)

lemma om_put_same: "om_get s k = Some v \<Longrightarrow> om_put k v s = s"
  by (cases s) (auto simp: om_put_def om_get_def)

lemma node_of_address [simp]: "fn_address (node_of f) = f_address f"
  by (simp add: node_of_def)

text \<open>The fields a merge leaves alone.\<close>

definition same_device :: "accumulator \<Rightarrow> accumulator \<Rightarrow> bool" where
  "same_device a b \<longleftrightarrow> ac_addr a = ac_addr b \<and> ac_last a = ac_last b"

lemma merge_features:
  assumes "seen_ok a" and "om_get (ac_entities a) e = Some n"
  shows "seen_ok (fold (merge_feature e) fs a) \<and> same_device (fold (merge_feature e) fs a) a
    \<and> ac_entities (fold (merge_feature e) fs a) = om_put e (n\<lparr>en_features := en_features n
        @ map node_of (filter (\<lambda>f. f_address f \<notin> fn_address ` set (en_features n)) (first_by f_address fs))\<rparr>) (ac_entities a)"
  using assms
proof (induction fs arbitrary: a n)
  case Nil
  then show ?case by (simp add: om_put_same same_device_def)
next
  case (Cons f fs)
  let ?old = "\<lambda>n y. f_address y \<notin> fn_address ` set (en_features n)"
  show ?case
  proof (cases "(e, f_address f) \<in> ac_seen a")
    case True
    then have m: "merge_feature e f a = a" by (simp add: merge_feature_def)
    have "f_address f \<in> fn_address ` set (en_features n)" using True Cons.prems by (auto simp: seen_ok_def)
    then have "filter (?old n) (first_by f_address (f # fs)) = filter (?old n) (first_by f_address fs)"
      unfolding first_by.simps filter.simps filter_filter by simp (metis (mono_tags, lifting))
    then show ?thesis using Cons.IH [OF Cons.prems] by (simp add: m)
  next
    case False
    let ?n = "n\<lparr>en_features := en_features n @ [node_of f]\<rparr>"
    let ?a = "a\<lparr>ac_seen := insert (e, f_address f) (ac_seen a), ac_entities := om_put e ?n (ac_entities a)\<rparr>"
    have m: "merge_feature e f a = ?a" using False Cons.prems(2) by (simp add: merge_feature_def)
    have nf: "f_address f \<notin> fn_address ` set (en_features n)" using False Cons.prems by (auto simp: seen_ok_def)
    have ok: "seen_ok ?a" using Cons.prems by (auto simp: seen_ok_def om.get_put)
    have "filter (?old ?n) (first_by f_address fs) = filter (?old n) (filter (\<lambda>y. f_address y \<noteq> f_address f) (first_by f_address fs))"
      unfolding filter_filter by (rule filter_cong) auto
    then show ?thesis using Cons.IH [OF ok, of ?n] nf by (simp add: m om.get_put same_device_def)
  qed
qed

lemma merge_entity_put:
  assumes "seen_ok a"
  shows "seen_ok (merge_entity e a) \<and> same_device (merge_entity e a) a \<and> ac_entities (merge_entity e a) = put_entity e (ac_entities a)"
proof (cases "om_get (ac_entities a) (e_address e)")
  case None
  let ?n = "\<lparr>en_address = e_address e, en_type = e_type e, en_features = []\<rparr>"
  let ?a = "a\<lparr>ac_entities := om_put (e_address e) ?n (ac_entities a)\<rparr>"
  have "seen_ok ?a" using assms None by (auto simp: seen_ok_def om.get_put)
  from merge_features [OF this, of "e_address e" ?n "e_features e"] show ?thesis
    by (simp add: merge_entity_def None put_entity_def upd_entity_def om.get_put same_device_def)
next
  case (Some n)
  from merge_features [OF assms Some, of "e_features e"] show ?thesis by (simp add: merge_entity_def Some put_entity_def upd_entity_def)
qed

lemma merge_put:
  "seen_ok a \<Longrightarrow> seen_ok (merge es a) \<and> same_device (merge es a) a \<and> ac_entities (merge es a) = fold put_entity es (ac_entities a)"
proof (induction es arbitrary: a)
  case (Cons e es)
  note e = merge_entity_put [OF Cons.prems, of e]
  with Cons.IH [of "merge_entity e a"] show ?case by (simp add: merge_def same_device_def)
qed (simp add: merge_def same_device_def)

section \<open>Lemmas: the merged tree\<close>

interpretation entities: ordered_accumulator om_empty om_get om_put om_keys om_wf e_address upd_entity put_entity
  by unfold_locales (simp add: put_entity_def)

lemma upd_more:
  assumes "en_features n = map node_of (first_by f_address fs)"
  shows "fold (\<lambda>e v. Some (upd_entity e v)) es (Some n)
    = Some (n\<lparr>en_features := map node_of (first_by f_address (fs @ concat (map e_features es)))\<rparr>)"
  using assms
proof (induction es arbitrary: n fs)
  case (Cons e es)
  have "fn_address ` set (en_features n) = f_address ` set fs"
    unfolding Cons.prems by (simp add: image_image first_by_set)
  then have "upd_entity e (Some n) = n\<lparr>en_features := map node_of (first_by f_address (fs @ e_features e))\<rparr>"
    by (simp add: upd_entity_def Cons.prems first_by_append)
  then show ?case using Cons.IH [of "n\<lparr>en_features := map node_of (first_by f_address (fs @ e_features e))\<rparr>" "fs @ e_features e"] by simp
qed simp

lemma upd_all:
  assumes "es \<noteq> []"
  shows "fold (\<lambda>e v. Some (upd_entity e v)) es None
    = Some \<lparr>en_address = e_address (hd es), en_type = e_type (hd es), en_features = map node_of (first_by f_address (concat (map e_features es)))\<rparr>"
proof -
  obtain e r where es: "es = e # r" using assms by (cases es) auto
  have "upd_entity e None = \<lparr>en_address = e_address e, en_type = e_type e, en_features = map node_of (first_by f_address (e_features e))\<rparr>"
    by (simp add: upd_entity_def)
  then show ?thesis using upd_more [of "\<lparr>en_address = e_address e, en_type = e_type e, en_features = map node_of (first_by f_address (e_features e))\<rparr>" "e_features e" r]
    by (simp add: es)
qed

lemma of_entity_hd: "a \<in> e_address ` set es \<Longrightarrow> of_entity a es \<noteq> [] \<and> e_address (hd (of_entity a es)) = a"
proof -
  assume "a \<in> e_address ` set es"
  then have ne: "of_entity a es \<noteq> []" by (auto simp: of_entity_def filter_empty_conv)
  then have "hd (of_entity a es) \<in> set (of_entity a es)" by simp
  then show ?thesis using ne by (simp add: of_entity_def)
qed

lemma merged_entities:
  "om_values (fold put_entity es om_empty) = map (\<lambda>a. entity_of a es) (first_seen (map e_address es))"
proof -
  have "the (om_get (fold put_entity es om_empty) a) = entity_of a es" if "a \<in> e_address ` set es" for a
    using of_entity_hd [OF that] upd_all [of "of_entity a es"]
    by (simp add: entities.get_feed om.get_empty of_entity_def entity_of_def features_of_def)
  then show ?thesis by (simp add: om_values_eq entities.keys_feed_empty)
qed

lemma parse_copy [simp]: "parseDiscoveryEntities grow s = ParseDiscoveryEntities grow s"
proof -
  have 1: "\<lparr>f_address = f_address f, f_type = f_type f, f_role = f_role f, f_functions = f_functions f\<rparr> = f" for f :: disc_feature
    by (cases f) simp
  have 2: "\<lparr>e_address = e_address e, e_type = e_type e, e_features = e_features e\<rparr> = e" for e :: disc_entity
    by (cases e) simp
  show ?thesis by (simp only: parseDiscoveryEntities_def 1 2 list.map_ident)
qed

definition shows_device :: "message \<Rightarrow> bool" where
  "shows_device m \<longleftrightarrow> is_snapshot m \<and> m_dev_src m \<noteq> []"

definition upd_device :: "(nat \<Rightarrow> nat) \<Rightarrow> message \<Rightarrow> accumulator option \<Rightarrow> accumulator" where
  "upd_device grow m v = (let a = (case v of None \<Rightarrow> newDeviceEntityAccumulator (m_dev_src m) | Some a \<Rightarrow> a)
     in if m_spine m = [] then a else (merge (ParseDiscoveryEntities grow (m_spine m)) a)\<lparr>ac_last := m_id m\<rparr>)"

definition put_device :: "(nat \<Rightarrow> nat) \<Rightarrow> message \<Rightarrow> (string, accumulator) omap \<Rightarrow> (string, accumulator) omap" where
  "put_device grow m s = om_put (m_dev_src m) (upd_device grow m (om_get s (m_dev_src m))) s"

interpretation devices: ordered_accumulator om_empty om_get om_put om_keys om_wf m_dev_src "upd_device grow" "put_device grow" for grow
  by unfold_locales (simp add: put_device_def)

lemma discovery_fold: "fold (discovery_step grow) msgs s = fold (put_device grow) (filter shows_device msgs) s"
  by (induction msgs arbitrary: s)
    (simp_all add: discovery_step_def shows_device_def put_device_def upd_device_def Let_def)

text \<open>The accumulator of a device after its messages.\<close>

definition last_payload :: "message list \<Rightarrow> int" where
  "last_payload l = (let sel = filter (\<lambda>m. m_spine m \<noteq> []) l in if sel = [] then 0 else m_id (last sel))"

definition payload_entities :: "(nat \<Rightarrow> nat) \<Rightarrow> message list \<Rightarrow> disc_entity list" where
  "payload_entities grow l = concat (map (\<lambda>m. ParseDiscoveryEntities grow (m_spine m)) (filter (\<lambda>m. m_spine m \<noteq> []) l))"

definition collected :: "(nat \<Rightarrow> nat) \<Rightarrow> string \<Rightarrow> message list \<Rightarrow> accumulator \<Rightarrow> bool" where
  "collected grow addr l a \<longleftrightarrow> seen_ok a \<and> ac_addr a = addr \<and> ac_last a = last_payload l
     \<and> ac_entities a = fold put_entity (payload_entities grow l) om_empty"

lemma collected_new: "collected grow addr [] (newDeviceEntityAccumulator addr)"
  by (simp add: collected_def newDeviceEntityAccumulator_def seen_ok_def om.get_empty last_payload_def payload_entities_def)

lemma collected_step:
  assumes "collected grow addr l a"
  shows "collected grow addr (l @ [m]) (upd_device grow m (Some a))"
proof -
  have "seen_ok a" using assms by (simp add: collected_def)
  note mp = merge_put [OF this, of "ParseDiscoveryEntities grow (m_spine m)"]
  have "seen_ok (b\<lparr>ac_last := i\<rparr>) = seen_ok b" for b i by (simp add: seen_ok_def)
  then show ?thesis using assms mp
    by (auto simp: collected_def upd_device_def last_payload_def payload_entities_def same_device_def)
qed

lemma collected_fold:
  "collected grow addr l a \<Longrightarrow> \<exists>b. fold (\<lambda>m v. Some (upd_device grow m v)) sel (Some a) = Some b \<and> collected grow addr (l @ sel) b"
proof (induction sel arbitrary: l a)
  case (Cons m sel)
  from Cons.IH [OF collected_step [OF Cons.prems]] show ?case by simp
qed simp

lemma collected_all:
  assumes "sel \<noteq> []" and "\<forall>m \<in> set sel. m_dev_src m = addr"
  shows "\<exists>b. fold (\<lambda>m v. Some (upd_device grow m v)) sel None = Some b \<and> collected grow addr sel b"
proof -
  obtain m r where sel: "sel = m # r" using assms(1) by (cases sel) auto
  have "upd_device grow m None = upd_device grow m (Some (newDeviceEntityAccumulator addr))"
    using assms(2) by (simp add: sel upd_device_def)
  then have "collected grow addr [m] (upd_device grow m None)" using collected_step [OF collected_new, of grow addr m] by simp
  from collected_fold [OF this, of r] show ?thesis by (simp add: sel)
qed

section \<open>Lemmas: the report\<close>

definition report_entity :: "string \<Rightarrow> disc_entity list \<Rightarrow> disc_entity" where
  "report_entity a es = (let l = of_entity a es in
     \<lparr>e_address = a, e_type = hd (filter (\<lambda>t. t \<noteq> []) (map e_type l) @ [[]]),
      e_features = add_features (e_features (hd l)) (concat (map e_features (tl l)))\<rparr>)"

lemma add_features_append: "add_features (add_features fs gs) hs = add_features fs (gs @ hs)"
  by (induction gs arbitrary: fs) auto

lemma of_entity_snoc: "of_entity a (es @ [e]) = (if e_address e = a then of_entity a es @ [e] else of_entity a es)"
  by (simp add: of_entity_def)

lemma report_entity_new: "a \<notin> e_address ` set es \<Longrightarrow> e_address e = a \<Longrightarrow> report_entity a (es @ [e]) = e"
proof -
  assume "a \<notin> e_address ` set es" and "e_address e = a"
  moreover from this have "\<forall>x \<in> set es. e_address x \<noteq> a" by blast
  ultimately have "of_entity a (es @ [e]) = [e]" by (simp add: of_entity_def filter_empty_conv)
  then show ?thesis using \<open>e_address e = a\<close> by (cases e) (simp add: report_entity_def)
qed

lemma report_entity_again:
  assumes "e_address e \<in> e_address ` set es"
  shows "report_entity (e_address e) (es @ [e]) = merge_into e (report_entity (e_address e) es)"
proof -
  obtain x r where l: "of_entity (e_address e) es = x # r" using of_entity_hd [OF assms] by (cases "of_entity (e_address e) es") auto
  have "hd (filter (\<lambda>t. t \<noteq> []) (ts @ [t]) @ [[]]) = (if hd (filter (\<lambda>t. t \<noteq> []) ts @ [[]]) = [] then t else hd (filter (\<lambda>t. t \<noteq> []) ts @ [[]]))"
    for ts and t :: string
    by (cases "filter (\<lambda>t. t \<noteq> []) ts") (auto simp: filter_eq_Cons_iff)
  from this [of "map e_type (x # r)" "e_type e"] show ?thesis
    by (auto simp: report_entity_def of_entity_snoc l merge_into_def add_features_append Let_def)
qed

definition report_entities :: "disc_entity list \<Rightarrow> disc_entity list" where
  "report_entities es = map (\<lambda>a. report_entity a es) (first_seen (map e_address es))"

lemma report_address [simp]: "e_address (report_entity a es) = a"
  by (simp add: report_entity_def Let_def)

lemma merge_incoming_report: "merge_incoming e (report_entities es) = report_entities (es @ [e])"
proof -
  let ?ks = "first_seen (map e_address es)" and ?a = "e_address e"
  have addr: "map e_address (report_entities es) = ?ks" by (simp add: report_entities_def comp_def)
  have other: "a \<noteq> ?a \<Longrightarrow> report_entity a (es @ [e]) = report_entity a es" for a by (simp add: report_entity_def of_entity_snoc)
  show ?thesis
  proof (cases "?a \<in> e_address ` set es")
    case False
    then have "last_pos ?a (report_entities es) = None" unfolding last_pos_None by (simp add: report_entities_def image_image)
    moreover have "map (\<lambda>a. report_entity a (es @ [e])) ?ks = map (\<lambda>a. report_entity a es) ?ks"
      using False by (intro map_cong [OF refl] other) (auto simp: image_iff)
    ultimately show ?thesis using False report_entity_new
      by (simp add: merge_incoming_def report_entities_def first_seen_append)
  next
    case True
    then obtain i where i: "i < length ?ks" "?ks ! i = ?a" by (metis in_set_conv_nth set_first_seen list.set_map)
    then have "last_pos (e_address (report_entities es ! i)) (report_entities es) = Some i"
      using last_pos_distinct [of "report_entities es" i] unfolding addr by (simp add: report_entities_def)
    then have "merge_incoming e (report_entities es) = (report_entities es)[i := merge_into e (report_entity ?a es)]"
      using i by (simp add: merge_incoming_def report_entities_def)
    also have "\<dots> = map (\<lambda>a. report_entity a (es @ [e])) ?ks"
    proof (rule nth_equalityI)
      fix j assume "j < length ((report_entities es)[i := merge_into e (report_entity ?a es)])"
      then have j: "j < length ?ks" by (simp add: report_entities_def)
      then have "j \<noteq> i \<Longrightarrow> ?ks ! j \<noteq> ?a" using i nth_eq_iff_index_eq [OF distinct_first_seen [of "map e_address es"]] by metis
      then show "(report_entities es)[i := merge_into e (report_entity ?a es)] ! j = map (\<lambda>a. report_entity a (es @ [e])) ?ks ! j"
        using i j report_entity_again [OF True] other by (cases "j = i") (simp_all add: report_entities_def)
    qed (simp add: report_entities_def)
    finally show ?thesis using True by (simp add: report_entities_def first_seen_append)
  qed
qed

lemma merge_report: "mergeDiscoveryEntities (report_entities es) fs = report_entities (es @ fs)"
proof (induction fs arbitrary: es)
  case (Cons f fs)
  then show ?case using Cons.IH [of "es @ [f]"] by (simp add: mergeDiscoveryEntities_def merge_incoming_report)
qed (simp add: mergeDiscoveryEntities_def)

lemma entities_step_eq:
  "entities_step grow m by addr = mergeDiscoveryEntities (by addr)
     (if announces_entities m \<and> m_dev_src m = addr then ParseDiscoveryEntities grow (m_spine m) else [])"
  by (auto simp: entities_step_def mergeDiscoveryEntities_def Let_def)

lemma announced_disc:
  "announced_by grow addr (filter (\<lambda>m. m_fn m = discovery_fn) msgs)
    = concat (map (\<lambda>m. ParseDiscoveryEntities grow (m_spine m))
        (filter (\<lambda>m. m_fn m = discovery_fn \<and> is_snapshot m \<and> m_dev_src m = addr \<and> m_spine m \<noteq> []) msgs))"
  unfolding announced_by_def filter_filter by (simp add: conj_ac)

lemma entities_fold:
  assumes "addr \<noteq> []"
  shows "(fold (entities_step grow) msgs by) addr
    = mergeDiscoveryEntities (by addr) (announced_by grow addr (filter (\<lambda>m. m_fn m = discovery_fn) msgs))"
  unfolding announced_disc
proof (induction msgs arbitrary: "by")
  case (Cons m msgs)
  have m: "mergeDiscoveryEntities (mergeDiscoveryEntities l xs) ys = mergeDiscoveryEntities l (xs @ ys)" for l xs ys
    by (simp add: mergeDiscoveryEntities_def)
  have "fold (entities_step grow) (m # msgs) by addr = fold (entities_step grow) msgs (entities_step grow m by) addr" by simp
  then show ?case unfolding Cons.IH entities_step_eq m using assms by (auto simp: announces_entities_def)
qed (simp add: mergeDiscoveryEntities_def)

lemma insert_texts_set: "set (fold insert_text xs ys) = set xs \<union> set ys"
  by (induction xs arbitrary: ys) auto

lemma device_trees_eq:
  "extractDevicesFromDiscovery grow msgs =
     map (\<lambda>addr. \<lparr>di_addr = addr,
         di_entities = map (\<lambda>a. entity_of a (announced_by grow addr msgs)) (first_seen (map e_address (announced_by grow addr msgs))),
         di_last_disc = last_payload (filter (\<lambda>m. is_snapshot m \<and> m_dev_src m = addr) msgs)\<rparr>)
       (first_seen (map m_dev_src (filter (\<lambda>m. is_snapshot m \<and> m_dev_src m \<noteq> []) msgs)))"
proof -
  let ?rel = "filter shows_device msgs"
  have dev: "build (the (om_get (fold (put_device grow) ?rel om_empty) addr)) = \<lparr>di_addr = addr,
         di_entities = map (\<lambda>a. entity_of a (announced_by grow addr msgs)) (first_seen (map e_address (announced_by grow addr msgs))),
         di_last_disc = last_payload (filter (\<lambda>m. is_snapshot m \<and> m_dev_src m = addr) msgs)\<rparr>"
    if addr: "addr \<in> m_dev_src ` set ?rel" for addr
  proof -
    let ?sel = "filter (\<lambda>m. m_dev_src m = addr) ?rel"
    have ne: "?sel \<noteq> []" "\<forall>m \<in> set ?sel. m_dev_src m = addr" using addr by (auto simp: filter_empty_conv)
    have eq: "?sel = filter (\<lambda>m. is_snapshot m \<and> m_dev_src m = addr) msgs"
      unfolding filter_filter by (rule filter_cong) (use addr in \<open>auto simp: shows_device_def\<close>)
    obtain b where b: "fold (\<lambda>m v. Some (upd_device grow m v)) ?sel None = Some b" "collected grow addr ?sel b"
      using collected_all [OF ne] by blast
    have "payload_entities grow (filter (\<lambda>m. is_snapshot m \<and> m_dev_src m = addr) msgs) = announced_by grow addr msgs"
      unfolding payload_entities_def announced_by_def filter_filter by (simp add: conj_ac)
    moreover have "om_get (fold (put_device grow) ?rel om_empty) addr = Some b" using b(1) by (simp only: devices.get_feed om.get_empty)
    ultimately show ?thesis using b(2) unfolding eq by (simp add: build_def collected_def merged_entities)
  qed
  have rel: "?rel = filter (\<lambda>m. is_snapshot m \<and> m_dev_src m \<noteq> []) msgs" by (rule filter_cong) (auto simp: shows_device_def)
  show ?thesis unfolding extractDevicesFromDiscovery_def discovery_fold om_values_eq devices.keys_feed_empty map_map rel [symmetric]
    by (rule map_cong [OF refl]) (use dev in simp)
qed

section \<open>Properties\<close>

text \<open>The devices of the dependency graph. There is one per address that sent a discovery reply or notification, in
  the order of their first ones; its entities are those it announced in any of them, in the order of their first
  announcement, with the type of that one and with the first feature of each address over all announcements. An
  announcement never takes anything away.\<close>

theorem device_trees:
  "extractDevicesFromDiscovery grow msgs =
     map (\<lambda>addr. \<lparr>di_addr = addr,
         di_entities = map (\<lambda>a. entity_of a (announced_by grow addr msgs)) (first_seen (map e_address (announced_by grow addr msgs))),
         di_last_disc = last_payload (filter (\<lambda>m. is_snapshot m \<and> m_dev_src m = addr) msgs)\<rparr>)
       (first_seen (map m_dev_src (filter (\<lambda>m. is_snapshot m \<and> m_dev_src m \<noteq> []) msgs)))"
  by (rule device_trees_eq)

text \<open>The two values of an entity's announcements: the graph takes the type of the first one and each feature once, the report the
  first type that is not empty and all features of the first announcement with the new ones of the others.\<close>

definition same_entity :: "disc_entity list \<Rightarrow> entity_node \<Rightarrow> disc_entity \<Rightarrow> bool" where
  "same_entity es n e \<longleftrightarrow> (let l = of_entity (en_address n) es in
     l \<noteq> [] \<and> e_address e = en_address n
     \<and> en_type n = e_type (hd l) \<and> e_type e = hd (filter (\<lambda>t. t \<noteq> []) (map e_type l) @ [[]])
     \<and> en_features n = map node_of (first_by f_address (e_features e))
     \<and> (en_features n = map node_of (e_features e) \<longleftrightarrow> distinct (map f_address (e_features (hd l)))))"

lemma first_by_distinct: "first_by k xs = xs \<longleftrightarrow> distinct (map k xs)"
proof
  have "distinct (map k (first_by k xs))" for xs
  proof (induction xs)
    case (Cons x xs)
    then show ?case by (auto simp: distinct_map inj_on_def)
  qed simp
  then show "distinct (map k xs)" if "first_by k xs = xs" using that by metis
  show "first_by k xs = xs" if "distinct (map k xs)" using that
  proof (induction xs)
    case (Cons x xs)
    then have "filter (\<lambda>y. k y \<noteq> k x) xs = xs" by (intro filter_True) (metis distinct.simps(2) image_eqI list.set_map list.simps(9))
    then show ?case using Cons by simp
  qed simp
qed

lemma add_features_distinct: "distinct (map f_address (add_features fs gs)) \<longleftrightarrow> distinct (map f_address fs)"
  by (induction gs arbitrary: fs) auto

lemma node_of_inj: "inj node_of"
  by (rule injI) (simp add: node_of_def disc_feature.equality)

lemma same_entity_built: "a \<in> e_address ` set es \<Longrightarrow> same_entity es (entity_of a es) (report_entity a es)"
proof -
  assume a: "a \<in> e_address ` set es"
  obtain x r where l: "of_entity a es = x # r" using of_entity_hd [OF a] by (cases "of_entity a es") auto
  have f: "first_by f_address (features_of a es) = first_by f_address (e_features (report_entity a es))"
    by (simp add: report_entity_def features_of_def l add_features_first)
  have "map node_of fs = map node_of gs \<longleftrightarrow> fs = gs" for fs gs using node_of_inj by (simp add: inj_map_eq_map)
  then have "map node_of (first_by f_address (e_features (report_entity a es))) = map node_of (e_features (report_entity a es))
      \<longleftrightarrow> distinct (map f_address (e_features x))"
    by (simp add: first_by_distinct report_entity_def l add_features_distinct Let_def)
  then show ?thesis using l by (simp add: same_entity_def entity_of_def f) (simp add: report_entity_def)
qed

text \<open>C28: how the tree of the command line and that of the web interface compare. Every device of the dependency graph is in
  the report, with the same entities in the same order. The graph's features are those of the report with each address once, and exactly those of
  the report when the entity's first announcement names no feature twice; the graph's type is that of the first announcement, the report's the first
  type that is not empty, so that they differ exactly when the first announcement has none and a later one has.\<close>

theorem report_and_graph_agree:
  "list_all (\<lambda>d. list_ex (\<lambda>r. dr_addr r = di_addr d
       \<and> list_all2 (\<lambda>n e. en_address n = e_address e \<and> (en_type n = e_type e \<or> en_type n = [])
            \<and> en_features n = map node_of (first_by f_address (e_features e))
            \<and> same_entity (announced_by grow (di_addr d) (filter (\<lambda>m. m_fn m = discovery_fn) msgs)) n e) (di_entities d) (dr_entities r))
     (buildDeviceReports grow msgs)) (extractDevicesFromDiscovery grow (filter (\<lambda>m. m_fn m = discovery_fn) msgs))"
proof -
  let ?disc = "filter (\<lambda>m. m_fn m = discovery_fn) msgs"
  have ex: "\<exists>r \<in> set (buildDeviceReports grow msgs). dr_addr r = addr \<and> dr_entities r = report_entities (announced_by grow addr ?disc)"
    if "addr \<in> m_dev_src ` {m \<in> set msgs. m_dev_src m \<noteq> []}" for addr
  proof -
    have "addr \<noteq> []" "addr \<in> set (first_seen (filter (\<lambda>a. a \<noteq> []) (concat (map (\<lambda>m. [m_dev_src m, m_dev_dst m]) msgs))))" using that by auto
    moreover from this have "(fold (entities_step grow) msgs (\<lambda>_. [])) addr = report_entities (announced_by grow addr ?disc)"
      using merge_report [of "[]" "announced_by grow addr ?disc"] by (simp add: entities_fold report_entities_def)
    ultimately show ?thesis unfolding buildDeviceReports_def Let_def set_map insert_texts_set by (auto simp del: set_first_seen)
  qed
  have pair: "en_address n = e_address e \<and> (en_type n = e_type e \<or> en_type n = []) \<and> en_features n = map node_of (first_by f_address (e_features e))"
    if "same_entity es n e" for es n e
    using that by (cases "of_entity (en_address n) es") (auto simp: same_entity_def)
  have "list_all2 (\<lambda>n e. en_address n = e_address e \<and> (en_type n = e_type e \<or> en_type n = [])
      \<and> en_features n = map node_of (first_by f_address (e_features e)) \<and> same_entity es n e)
      (map (\<lambda>a. entity_of a es) (first_seen (map e_address es))) (report_entities es)" for es
    using same_entity_built pair unfolding report_entities_def list_all2_map1 list_all2_map2 by (intro list.rel_refl_strong) fastforce
  then show ?thesis unfolding device_trees_eq list_all_iff list_ex_iff using ex by (fastforce simp: image_iff)
qed

end
