(* ===== verification/AnalysisApi.thy ===== *)
theory AnalysisApi
  imports MessageApi DeviceTree Connections Metrics "HOL-Library.List_Lexorder"
begin

text \<open>
  The handlers of \<open>internal/api\<close> that read a trace and answer with an analysis of it: \<open>depgraph.go\<close>,
  \<open>lifecycle.go\<close>, \<open>usecases.go\<close>, \<open>subscriptions.go\<close>, \<open>metrics.go\<close>, \<open>flow.go\<close> and \<open>discovery.go\<close>. An answer is the
  value that is encoded, or the status and text of the error. Where the code ranges over a map to build a list,
  the order of the visit is the argument \<open>visit\<close>. \<open>time.ParseDuration\<close>, which computes in floating point, is the argument
  \<open>parse_duration\<close>.
\<close>

section \<open>Answers\<close>

datatype 'a answer = Refused nat string | Answer 'a

definition for_trace :: "string \<Rightarrow> (int \<Rightarrow> 'a answer) \<Rightarrow> 'a answer" where
  "for_trace idText f = (case parseID idText of None \<Rightarrow> Refused 400 ''invalid trace ID'' | Some i \<Rightarrow> f i)"

definition with_messages :: "web \<Rightarrow> int \<Rightarrow> message_filter \<Rightarrow> store \<Rightarrow> (message list \<Rightarrow> 'a answer) \<Rightarrow> 'a answer" where
  "with_messages w i f s k = (case ListMessages (wb_engine w) i f s of
       None \<Rightarrow> Refused 500 (wb_db_error w)
     | Some msgs \<Rightarrow> k msgs)"

definition all_filter :: message_filter where "all_filter = no_filter\<lparr>mf_limit := 100000\<rparr>"
definition data_only :: message_filter where "data_only = no_filter\<lparr>mf_type := ''data'', mf_limit := 100000\<rparr>"
definition discovery_only :: message_filter where "discovery_only = no_filter\<lparr>mf_fn := discovery_fn, mf_limit := 100000\<rparr>"
definition use_case_filter :: message_filter where
  "use_case_filter = no_filter\<lparr>mf_fn := ''NodeManagementUseCaseData'', mf_type := ''data'', mf_limit := 10000\<rparr>"

definition five_minutes :: duration where "five_minutes = sec 300"

section \<open>Dependency graph and life cycles\<close>

definition handleDependencyGraph ::
  "(nat \<Rightarrow> nat) \<Rightarrow> (string list \<Rightarrow> string list) \<Rightarrow> web \<Rightarrow> string \<Rightarrow> store \<Rightarrow> (device_tree list \<times> dep_edge list) answer" where
  "handleDependencyGraph grow visit w idText s = for_trace idText (\<lambda>i.
     with_messages w i data_only s (\<lambda>allMsgs.
     with_messages w i discovery_only s (\<lambda>discoveryMsgs.
       let found = extractDevicesFromDiscovery grow discoveryMsgs;
           devs = (if found = [] then extractDevicesFromMessages allMsgs else found);
           (subs, binds) = TrackSubscriptionsAndBindings allMsgs five_minutes
       in Answer (BuildDependencyTree visit (DetectUseCases allMsgs) devs subs binds))))"

definition connection_of :: "connection \<Rightarrow> connection_info" where
  "connection_of c = \<lparr>ci_src = cn_src c, ci_dst = cn_dst c, ci_state = cn_current c,
     ci_last = (if cn_states c = [] then 0 else se_id (last (cn_states c)))\<rparr>"

definition handleLifecycle :: "(nat \<Rightarrow> nat) \<Rightarrow> web \<Rightarrow> string \<Rightarrow> store \<Rightarrow> lifecycle list answer" where
  "handleLifecycle grow w idText s = for_trace idText (\<lambda>i.
     with_messages w i data_only s (\<lambda>dataMsgs.
     with_messages w i all_filter s (\<lambda>allMsgs.
     with_messages w i discovery_only s (\<lambda>discoveryMsgs.
       let (subs, binds) = TrackSubscriptionsAndBindings dataMsgs five_minutes
       in Answer (EvaluateLifecycles (map connection_of (buildConnectionStates allMsgs))
            (extractDevicesFromDiscovery grow discoveryMsgs) (DetectUseCases dataMsgs) subs binds)))))"

section \<open>Use cases\<close>

definition handleListUseCases :: "web \<Rightarrow> string \<Rightarrow> query \<Rightarrow> store \<Rightarrow> device_use_cases list answer" where
  "handleListUseCases w idText q s = for_trace idText (\<lambda>i.
     with_messages w i (use_case_filter\<lparr>mf_dev := query_value q ''device''\<rparr>) s (\<lambda>msgs. Answer (DetectUseCases msgs)))"

record uc_context =
  uk_abbr :: string
  uk_name :: string
  uk_devices :: "string list"
  uk_functions :: "string list"

text \<open>\<open>ucMap\<close>: name and set of devices of an abbreviation.\<close>

definition context_step :: "string \<times> use_case \<Rightarrow> (string \<Rightarrow> (string \<times> string set) option) \<Rightarrow> string \<Rightarrow> (string \<times> string set) option" where
  "context_step du m = (let uc = snd du in
     if \<not> uc_available uc then m
     else m(uc_abbr uc \<mapsto> (case m (uc_abbr uc) of None \<Rightarrow> (uc_name uc, {fst du}) | Some (n, ds) \<Rightarrow> (n, insert (fst du) ds))))"

definition device_cases :: "device_use_cases list \<Rightarrow> (string \<times> use_case) list" where
  "device_cases ducs = concat (map (\<lambda>d. map (\<lambda>uc. (du_device d, uc)) (du_cases d)) ducs)"

definition use_case_contexts ::
  "(string set \<Rightarrow> string list) \<Rightarrow> (string set \<Rightarrow> string list) \<Rightarrow> device_use_cases list \<Rightarrow> uc_context list" where
  "use_case_contexts visit visit_devs ducs =
     (let m = fold context_step (device_cases ducs) (\<lambda>_. None);
          keys = visit (uc_abbr ` {uc \<in> set (map snd (device_cases ducs)). uc_available uc})
      in List.map_filter (\<lambda>abbr. case (m abbr, map_of UseCaseFunctionSets abbr) of
            (Some (n, ds), Some spec) \<Rightarrow> if fs_functions spec = [] then None
              else Some \<lparr>uk_abbr = abbr, uk_name = n, uk_devices = visit_devs ds, uk_functions = fs_functions spec\<rparr>
          | _ \<Rightarrow> None) keys)"

definition handleUseCaseContext ::
  "(string set \<Rightarrow> string list) \<Rightarrow> (string set \<Rightarrow> string list) \<Rightarrow> web \<Rightarrow> string \<Rightarrow> store \<Rightarrow> uc_context list answer" where
  "handleUseCaseContext visit visit_devs w idText s = for_trace idText (\<lambda>i.
     with_messages w i use_case_filter s (\<lambda>msgs. Answer (use_case_contexts visit visit_devs (DetectUseCases msgs))))"

section \<open>Subscriptions, metrics, flow\<close>

definition handleListSubscriptions ::
  "(string \<Rightarrow> duration option) \<Rightarrow> web \<Rightarrow> string \<Rightarrow> query \<Rightarrow> store \<Rightarrow> sub_entry list answer" where
  "handleListSubscriptions parse_duration w idText q s = for_trace idText (\<lambda>i.
     let v = query_value q ''staleThreshold'';
         threshold = (if v = [] then five_minutes else (case parse_duration v of None \<Rightarrow> five_minutes | Some d \<Rightarrow> d))
     in with_messages w i data_only s (\<lambda>msgs. Answer (fst (TrackSubscriptionsAndBindings msgs threshold))))"

definition handleListBindings :: "web \<Rightarrow> string \<Rightarrow> store \<Rightarrow> bind_entry list answer" where
  "handleListBindings w idText s = for_trace idText (\<lambda>i.
     with_messages w i data_only s (\<lambda>msgs. Answer (snd (TrackSubscriptionsAndBindings msgs 0))))"

definition handleMetrics :: "web \<Rightarrow> string \<Rightarrow> store \<Rightarrow> jitter list answer" where
  "handleMetrics w idText s = for_trace idText (\<lambda>i. with_messages w i all_filter s (\<lambda>msgs. Answer (ComputeHeartbeatMetrics msgs)))"

text \<open>The CSV text, or the metrics for the JSON encoder.\<close>

definition handleMetricsExport :: "web \<Rightarrow> string \<Rightarrow> query \<Rightarrow> store \<Rightarrow> (string + jitter list) answer" where
  "handleMetricsExport w idText q s = for_trace idText (\<lambda>i. with_messages w i all_filter s (\<lambda>msgs.
     let metrics = ComputeHeartbeatMetrics msgs
     in Answer (if query_value q ''format'' = ''csv'' then Inl (FormatHeartbeatCSV metrics) else Inr metrics)))"

definition with_summaries :: "web \<Rightarrow> int \<Rightarrow> store \<Rightarrow> (summary list \<Rightarrow> 'a) \<Rightarrow> 'a answer" where
  "with_summaries w i s k = (case ListMessageSummaries (wb_engine w) i no_filter s of
       None \<Rightarrow> Refused 500 (wb_db_error w)
     | Some l \<Rightarrow> Answer (k l))"

definition handleFlowParticipants :: "web \<Rightarrow> string \<Rightarrow> store \<Rightarrow> flow_participant list answer" where
  "handleFlowParticipants w idText s = for_trace idText (\<lambda>i. with_summaries w i s ExtractFlowParticipants)"

definition handleFlowCorrelations :: "web \<Rightarrow> string \<Rightarrow> store \<Rightarrow> correlation_pair list answer" where
  "handleFlowCorrelations w idText s = for_trace idText (\<lambda>i. with_summaries w i s BuildCorrelationPairs)"

section \<open>Discovery of chartable data\<close>

record discovered_source =
  dv_fn :: string
  dv_cmd :: string
  dv_array :: string
  dv_id :: string
  dv_samples :: "string list"
  dv_count :: int

fun first_some :: "('a \<Rightarrow> 'b option) \<Rightarrow> 'a list \<Rightarrow> 'b option" where
  "first_some f [] = None"
| "first_some f (x # xs) = (case f x of None \<Rightarrow> first_some f xs | Some y \<Rightarrow> Some y)"

definition isIDField :: "string \<Rightarrow> bool" where
  "isIDField name \<longleftrightarrow> has_suffix ''Id'' name \<or> has_suffix ''id'' name"

definition sample_ids_of :: "string \<Rightarrow> jobj list \<Rightarrow> string list" where
  "sample_ids_of key arr = first_seen (List.map_filter (\<lambda>e. case jget e key of None \<Rightarrow> None | Some raw \<Rightarrow> un_number_val raw) arr)"

type_synonym visit = "string set \<Rightarrow> string list"

definition findIDFieldAndSamples :: "visit \<Rightarrow> jobj list \<Rightarrow> (string \<times> string list) option" where
  "findIDFieldAndSamples visit arr = first_some
     (\<lambda>key. if isIDField key \<and> sample_ids_of key arr \<noteq> [] then Some (key, sample_ids_of key arr) else None)
     (visit (fst ` set (hd arr)))"

definition hasScaledNumberValues :: "jobj list \<Rightarrow> bool" where
  "hasScaledNumberValues arr \<longleftrightarrow>
     list_ex (\<lambda>e. case jget e ''value'' of None \<Rightarrow> False | Some raw \<Rightarrow> ScaledNumberToFloat raw \<noteq> None) arr"

definition array_source :: "visit \<Rightarrow> string \<Rightarrow> int \<Rightarrow> string \<Rightarrow> jobj \<Rightarrow> string \<Rightarrow> discovered_source option" where
  "array_source visit fn cnt cmdKey listData arrayKey = do {
     raw \<leftarrow> jget listData arrayKey;
     arr \<leftarrow> un_list un_map raw;
     if arr = [] then None else do {
       (key, samples) \<leftarrow> findIDFieldAndSamples visit arr;
       if hasScaledNumberValues arr
       then Some \<lparr>dv_fn = fn, dv_cmd = cmdKey, dv_array = arrayKey, dv_id = key, dv_samples = samples, dv_count = cnt\<rparr>
       else None } }"

definition key_source :: "visit \<Rightarrow> string \<Rightarrow> int \<Rightarrow> jobj \<Rightarrow> string \<Rightarrow> discovered_source option" where
  "key_source visit fn cnt cmd cmdKey =
     (if cmdKey = ''cmdClassifier'' \<or> cmdKey = ''function'' then None
      else do { raw \<leftarrow> jget cmd cmdKey; listData \<leftarrow> un_map raw;
        first_some (array_source visit fn cnt cmdKey listData) (visit (fst ` set listData)) })"

definition introspectPayload :: "visit \<Rightarrow> string \<Rightarrow> string \<Rightarrow> int \<Rightarrow> discovered_source option" where
  "introspectPayload visit payload fn cnt = do {
     p \<leftarrow> dg_payload payload;
     cmds \<leftarrow> fld_val un_array [] p ''cmd'';
     first_some (\<lambda>c. case un_map c of None \<Rightarrow> None | Some cmd \<Rightarrow> first_some (key_source visit fn cnt cmd) (visit (fst ` set cmd))) cmds }"

definition function_filter :: "string \<Rightarrow> int \<Rightarrow> message_filter" where
  "function_filter fn n = no_filter\<lparr>mf_fn := fn, mf_type := ''data'', mf_limit := n\<rparr>"

definition function_source :: "visit \<Rightarrow> web \<Rightarrow> int \<Rightarrow> store \<Rightarrow> string \<Rightarrow> discovered_source option" where
  "function_source visit w i s fn = do {
     msgs \<leftarrow> ListMessages (wb_engine w) i (function_filter fn 5) s;
     allMsgs \<leftarrow> ListMessages (wb_engine w) i (function_filter fn 100000) s;
     first_some (\<lambda>m. if m_spine m = [] then None else introspectPayload visit (m_spine m) fn (int (length allMsgs))) msgs }"

definition discoverChartableData :: "visit \<Rightarrow> web \<Rightarrow> int \<Rightarrow> store \<Rightarrow> discovered_source list" where
  "discoverChartableData visit w i s = List.map_filter (function_source visit w i s) (ListDistinctFunctionSets i s)"

definition handleDiscoverTimeseries :: "visit \<Rightarrow> web \<Rightarrow> string \<Rightarrow> store \<Rightarrow> discovered_source list answer" where
  "handleDiscoverTimeseries visit w idText s = for_trace idText (\<lambda>i. Answer (discoverChartableData visit w i s))"

section \<open>Lemmas\<close>

definition enumerates :: "visit \<Rightarrow> bool" where
  "enumerates visit \<longleftrightarrow> (\<forall>A. finite A \<longrightarrow> set (visit A) = A)"

lemma first_some_Some: "first_some f xs = Some y \<Longrightarrow> \<exists>x \<in> set xs. f x = Some y"
  by (induction xs) (auto split: option.splits)

lemma in_map_filter: "y \<in> set (List.map_filter f xs) \<longleftrightarrow> (\<exists>x \<in> set xs. f x = Some y)"
  by (induction xs) (auto simp: List.map_filter_simps split: option.splits)

lemma enumerates_obj: "enumerates visit \<Longrightarrow> k \<in> set (visit (fst ` set (m :: jobj))) \<Longrightarrow> k \<in> fst ` set m"
  by (auto simp: enumerates_def)

definition extraction_for :: "discovered_source \<Rightarrow> string list \<Rightarrow> string \<Rightarrow> extraction" where
  "extraction_for d cls act = \<lparr>x_cmd = dv_cmd d, x_array = dv_array d, x_id = dv_id d, x_classifiers = cls, x_active = act\<rparr>"

lemma introspect_array:
  assumes "introspectPayload visit payload fn cnt = Some d" and "enumerates visit"
  shows "\<exists>cmds c es. ExtractCmdArray payload = Some cmds \<and> c \<in> set cmds \<and> cmd_entries (extraction_for d cls act) c = Some es
    \<and> es \<noteq> [] \<and> isIDField (dv_id d) \<and> dv_samples d = sample_ids_of (dv_id d) es \<and> dv_samples d \<noteq> [] \<and> hasScaledNumberValues es
    \<and> dv_fn d = fn \<and> dv_count d = cnt"
proof -
  obtain p cmds where p: "dg_payload payload = Some p" "fld_val un_array [] p ''cmd'' = Some cmds"
      "first_some (\<lambda>c. case un_map c of None \<Rightarrow> None | Some cmd \<Rightarrow> first_some (key_source visit fn cnt cmd) (visit (fst ` set cmd))) cmds = Some d"
    using assms(1) by (auto simp: introspectPayload_def bind_eq_Some_conv)
  obtain c cmd where c: "c \<in> set cmds" "un_map c = Some cmd" "first_some (key_source visit fn cnt cmd) (visit (fst ` set cmd)) = Some d"
    using first_some_Some [OF p(3)] by (auto split: option.splits)
  obtain k where "key_source visit fn cnt cmd k = Some d" using first_some_Some [OF c(3)] by blast
  then obtain raw l where k: "jget cmd k = Some raw" "un_map raw = Some l" "first_some (array_source visit fn cnt k l) (visit (fst ` set l)) = Some d"
    by (auto simp: key_source_def bind_eq_Some_conv split: if_splits)
  obtain a where "array_source visit fn cnt k l a = Some d" using first_some_Some [OF k(3)] by blast
  then obtain ar es key samples where a: "jget l a = Some ar" "un_list un_map ar = Some es" "es \<noteq> []"
      "findIDFieldAndSamples visit es = Some (key, samples)" "hasScaledNumberValues es"
      "d = \<lparr>dv_fn = fn, dv_cmd = k, dv_array = a, dv_id = key, dv_samples = samples, dv_count = cnt\<rparr>"
    by (auto simp: array_source_def bind_eq_Some_conv split: if_splits)
  have id: "isIDField key" "samples = sample_ids_of key es" "samples \<noteq> []"
    using a(4) by (auto simp: findIDFieldAndSamples_def dest!: first_some_Some split: if_splits)
  have "ExtractCmdArray payload = Some cmds" using p(1,2) c(1) by (cases cmds) (auto simp: ExtractCmdArray_def)
  moreover have "cmd_entries (extraction_for d cls act) c = Some es"
    using c(2) k(1,2) a(1,2) by (simp add: cmd_entries_def extraction_for_def a(6) data_entries_def)
  ultimately show ?thesis using c(1) a id by auto
qed

section \<open>Properties\<close>

text \<open>What is discovered can be charted. When a payload yields a source, the extraction with that source's keys
  finds a command with a data array in the same payload; every value the extraction takes from that array belongs to
  one of the sample identifiers, and when an entry holds both an identifier and a value, the chart has a point.\<close>

theorem discovered_source_charts:
  assumes "introspectPayload visit payload fn cnt = Some d" and "enumerates visit"
  shows "\<exists>cmds c es. ExtractCmdArray payload = Some cmds \<and> c \<in> set cmds \<and> cmd_entries (extraction_for d cls act) c = Some es
    \<and> list_all (\<lambda>i. i_id i \<in> set (dv_samples d)) (cmd_items (extraction_for d cls act) c)
    \<and> (\<forall>k. k \<in> set (dv_samples d) \<longleftrightarrow> (\<exists>e raw. e \<in> set es \<and> jget e (dv_id d) = Some raw \<and> un_number_val raw = Some k))
    \<and> distinct (dv_samples d) \<and> dv_samples d \<noteq> []
    \<and> (list_ex (\<lambda>e. entry_item (extraction_for d cls act) e \<noteq> None) es \<longrightarrow> ExtractGenericData payload (extraction_for d cls act) \<noteq> [])"
proof -
  let ?x = "extraction_for d cls act"
  obtain cmds c es where w: "ExtractCmdArray payload = Some cmds" "c \<in> set cmds" "cmd_entries ?x c = Some es" "es \<noteq> []"
      "dv_samples d = sample_ids_of (dv_id d) es" "dv_samples d \<noteq> []"
    using introspect_array [OF assms, of cls act] by blast
  have ids: "k \<in> set (dv_samples d) \<longleftrightarrow> (\<exists>e raw. e \<in> set es \<and> jget e (dv_id d) = Some raw \<and> un_number_val raw = Some k)" for k
    unfolding w(5) sample_ids_of_def set_first_seen in_map_filter by (auto split: option.splits)
  have items: "cmd_items ?x c = List.map_filter (entry_item ?x) es" by (simp add: cmd_items_def w(3))
  have "i_id i \<in> set (dv_samples d)" if "i \<in> set (cmd_items ?x c)" for i
    using that unfolding items ids in_map_filter by (auto simp: entry_item_def extraction_for_def bind_eq_Some_conv)
  moreover have "ExtractGenericData payload ?x \<noteq> []" if "list_ex (\<lambda>e. entry_item ?x e \<noteq> None) es"
  proof -
    from that obtain e i where "e \<in> set es" "entry_item ?x e = Some i" by (auto simp: list_ex_iff)
    then have "i \<in> set (cmd_items ?x c)" unfolding items in_map_filter by blast
    then have "cmd_items ?x c \<noteq> []" by auto
    then show ?thesis using w(1,2) by (auto simp: ExtractGenericData_def)
  qed
  ultimately show ?thesis using w ids by (intro exI [of _ cmds] exI [of _ c] exI [of _ es]) (simp add: list_all_iff sample_ids_of_def)
qed

definition chart_payload :: string where
  "chart_payload = ''{\"datagram\":{\"payload\":{\"cmd\":[{\"d\":{\"a\":[{\"id\":1,\"value\":{\"number\":2}}]}}]}}}''"

lemma chart_payload_source:
  "introspectPayload sorted_list_of_set chart_payload ''F'' 1
     = Some \<lparr>dv_fn = ''F'', dv_cmd = ''d'', dv_array = ''a'', dv_id = ''id'', dv_samples = [''1''], dv_count = 1\<rparr>"
  by code_simp

theorem discovered_source_charts_witness:
  "\<exists>cmds c es. ExtractCmdArray chart_payload = Some cmds \<and> c \<in> set cmds
     \<and> cmd_entries \<lparr>x_cmd = ''d'', x_array = ''a'', x_id = ''id'', x_classifiers = [], x_active = []\<rparr> c = Some es
     \<and> list_all (\<lambda>i. i_id i \<in> set [''1'']) (cmd_items \<lparr>x_cmd = ''d'', x_array = ''a'', x_id = ''id'', x_classifiers = [], x_active = []\<rparr> c)"
proof -
  have "enumerates sorted_list_of_set" by (simp add: enumerates_def)
  from discovered_source_charts [OF chart_payload_source this, of "[]" "[]"] show ?thesis
    unfolding extraction_for_def discovered_source.select_convs by (elim exE conjE) (intro exI conjI)
qed

definition listed :: "web \<Rightarrow> int \<Rightarrow> (message \<Rightarrow> bool) \<Rightarrow> store \<Rightarrow> message list" where
  "listed w i P s = e_by_seq (wb_engine w) (filter (\<lambda>m. m_trace m = i \<and> P m) (st_messages s))"

lemma listed_rows:
  assumes "orders (wb_engine w)" and "CountMessages i s \<le> 100000"
  shows "ListMessages (wb_engine w) i data_only s = Some (listed w i (\<lambda>m. m_type m = ''data'') s)"
    and "ListMessages (wb_engine w) i discovery_only s = Some (listed w i (\<lambda>m. m_fn m = discovery_fn) s)"
proof -
  have rows: "ListMessages (wb_engine w) i f s = Some (listed w i P s)"
    if "mf_limit f = 100000" "mf_offset f = 0" "mf_search f = []" "\<And>m. matches (wb_engine w) f m \<longleftrightarrow> P m" for f P
  proof -
    have sel: "selected (wb_engine w) i f s = filter (\<lambda>m. m_trace m = i \<and> P m) (st_messages s)" by (simp add: selected_eq that(4))
    have "length (filter (\<lambda>m. m_trace m = i \<and> P m) (st_messages s)) \<le> length (filter (\<lambda>m. m_trace m = i) (st_messages s))"
      using length_filter_le [of P "filter (\<lambda>m. m_trace m = i) (st_messages s)"] by (simp add: conj_commute)
    then have "length (e_by_seq (wb_engine w) (filter (\<lambda>m. m_trace m = i \<and> P m) (st_messages s))) \<le> 100000"
      using assms e_by_seq_perm(2) [OF assms(1)] by (simp add: CountMessages_def)
    then show ?thesis using that(1-3) by (simp add: ListMessages_def query_ok_def sel listed_def)
  qed
  show "ListMessages (wb_engine w) i data_only s = Some (listed w i (\<lambda>m. m_type m = ''data'') s)"
    by (rule rows) (simp_all add: data_only_def no_filter_def matches_def)
  show "ListMessages (wb_engine w) i discovery_only s = Some (listed w i (\<lambda>m. m_fn m = discovery_fn) s)"
    by (rule rows) (simp_all add: discovery_only_def no_filter_def matches_def discovery_fn_def)
qed

lemma note_address_pair:
  "note_address a (ds, seen) = (if a = [] \<or> a \<in> seen then (ds, seen)
     else (ds @ [\<lparr>di_addr = a, di_entities = [], di_last_disc = 0\<rparr>], insert a seen))"
  by (simp add: note_address_def)

lemma note_addresses:
  "fold note_address as (ds, seen) = (ds @ map (\<lambda>a. \<lparr>di_addr = a, di_entities = [], di_last_disc = 0\<rparr>)
     (filter (\<lambda>a. a \<notin> seen) (first_seen (filter (\<lambda>a. a \<noteq> []) as))), seen \<union> set (filter (\<lambda>a. a \<noteq> []) as))"
proof (induction as arbitrary: ds seen)
  case (Cons a as)
  have c: "filter (\<lambda>x. x \<notin> insert a seen) l = filter (\<lambda>x. x \<notin> seen) (filter (\<lambda>x. x \<noteq> a) l)" for l
    unfolding filter_filter by (rule filter_cong) auto
  have d: "a \<in> seen \<Longrightarrow> filter (\<lambda>x. x \<notin> seen) (filter (\<lambda>x. x \<noteq> a) l) = filter (\<lambda>x. x \<notin> seen) l" for l
    unfolding filter_filter by (rule filter_cong) auto
  show ?case
    by (cases "a = []"; cases "a \<in> seen") (auto simp: note_address_pair Cons c [simplified filter_filter] d [simplified filter_filter])
qed simp

text \<open>The nodes and edges of the dependency graph. When no device of the trace sent discovery data, every address that
  occurs in a data message is a node, in the order of appearance and without entities; otherwise only the devices that
  sent discovery data are nodes, with their merged entities, and any other address is left out. The edges are the
  subscriptions and then the bindings of the trace.\<close>

theorem graph_nodes:
  assumes "orders (wb_engine w)" and "parseID idText = Some i" and "CountMessages i s \<le> 100000"
  shows "\<exists>nodes edges. handleDependencyGraph grow visit w idText s = Answer (nodes, edges)
    \<and> (let data = listed w i (\<lambda>m. m_type m = ''data'') s;
           disc = listed w i (\<lambda>m. m_fn m = discovery_fn) s;
           senders = first_seen (map m_dev_src (filter (\<lambda>m. is_snapshot m \<and> m_dev_src m \<noteq> []) disc));
           tracked = TrackSubscriptionsAndBindings data (sec 300)
       in map dt_addr nodes = (if senders = [] then first_seen (filter (\<lambda>a. a \<noteq> []) (concat (map (\<lambda>m. [m_dev_src m, m_dev_dst m]) data))) else senders)
        \<and> map (\<lambda>n. map et_address (dt_entities n)) nodes
            = (if senders = [] then map (\<lambda>_. []) nodes else map (\<lambda>a. first_seen (map e_address (announced_by grow a disc))) senders)
        \<and> edges = map sub_edge (fst tracked) @ map bind_edge (snd tracked))"
proof -
  let ?data = "listed w i (\<lambda>m. m_type m = ''data'') s" and ?disc = "listed w i (\<lambda>m. m_fn m = discovery_fn) s"
  let ?found = "extractDevicesFromDiscovery grow ?disc"
  let ?devs = "if ?found = [] then extractDevicesFromMessages ?data else ?found"
  let ?senders = "first_seen (map m_dev_src (filter (\<lambda>m. is_snapshot m \<and> m_dev_src m \<noteq> []) ?disc))"
  let ?tracked = "TrackSubscriptionsAndBindings ?data five_minutes"
  let ?r = "BuildDependencyTree visit (DetectUseCases ?data) ?devs (fst ?tracked) (snd ?tracked)"
  have h: "handleDependencyGraph grow visit w idText s = Answer ?r"
    using assms(2) by (simp add: handleDependencyGraph_def for_trace_def with_messages_def listed_rows [OF assms(1,3)] case_prod_unfold Let_def)
  have nodes: "map dt_addr (fst ?r) = map di_addr ?devs" "map (\<lambda>n. map et_address (dt_entities n)) (fst ?r) = map (\<lambda>d. map en_address (di_entities d)) ?devs"
    by (simp_all add: BuildDependencyTree_def device_tree_of_def Let_def comp_def)
  have found: "map di_addr ?found = ?senders" "map (\<lambda>d. map en_address (di_entities d)) ?found = map (\<lambda>a. first_seen (map e_address (announced_by grow a ?disc))) ?senders"
    by (simp_all add: device_trees_eq comp_def entity_of_def)
  have bare: "map di_addr (extractDevicesFromMessages ?data) = first_seen (filter (\<lambda>a. a \<noteq> []) (concat (map (\<lambda>m. [m_dev_src m, m_dev_dst m]) ?data)))"
      "map (\<lambda>d. map en_address (di_entities d)) (extractDevicesFromMessages ?data) = map (\<lambda>_. []) (extractDevicesFromMessages ?data)"
    by (simp_all add: extractDevicesFromMessages_def note_addresses comp_def)
  have len: "length (fst ?r) = length ?devs" using nodes(1) by (metis length_map)
  have e: "?found = [] \<longleftrightarrow> ?senders = []" using found(1) by (metis map_is_Nil_conv)
  have edges: "snd ?r = map sub_edge (fst ?tracked) @ map bind_edge (snd ?tracked)" by (rule edges_of_tree)
  have "(let data = ?data; disc = ?disc; senders = ?senders; tracked = TrackSubscriptionsAndBindings data (sec 300)
       in map dt_addr (fst ?r) = (if senders = [] then first_seen (filter (\<lambda>a. a \<noteq> []) (concat (map (\<lambda>m. [m_dev_src m, m_dev_dst m]) data))) else senders)
        \<and> map (\<lambda>n. map et_address (dt_entities n)) (fst ?r)
            = (if senders = [] then map (\<lambda>_. []) (fst ?r) else map (\<lambda>a. first_seen (map e_address (announced_by grow a disc))) senders)
        \<and> snd ?r = map sub_edge (fst tracked) @ map bind_edge (snd tracked))"
    unfolding Let_def nodes edges five_minutes_def [symmetric]
  proof (cases "?senders = []")
    case True
    then have "?found = []" using e by blast
    then have d: "?devs = extractDevicesFromMessages ?data" by (rule if_P)
    show "map di_addr ?devs = (if ?senders = [] then first_seen (filter (\<lambda>a. a \<noteq> []) (concat (map (\<lambda>m. [m_dev_src m, m_dev_dst m]) ?data))) else ?senders)
        \<and> map (\<lambda>d. map en_address (di_entities d)) ?devs
            = (if ?senders = [] then map (\<lambda>_. []) (fst ?r) else map (\<lambda>a. first_seen (map e_address (announced_by grow a ?disc))) ?senders)
        \<and> map sub_edge (fst ?tracked) @ map bind_edge (snd ?tracked) = map sub_edge (fst ?tracked) @ map bind_edge (snd ?tracked)"
      unfolding d if_P [OF True] using bare len [unfolded d] by (simp only: simp_thms map_replicate_const)
  next
    case False
    then have "?found \<noteq> []" using e by blast
    then have d: "?devs = ?found" by (rule if_not_P)
    show "map di_addr ?devs = (if ?senders = [] then first_seen (filter (\<lambda>a. a \<noteq> []) (concat (map (\<lambda>m. [m_dev_src m, m_dev_dst m]) ?data))) else ?senders)
        \<and> map (\<lambda>d. map en_address (di_entities d)) ?devs
            = (if ?senders = [] then map (\<lambda>_. []) (fst ?r) else map (\<lambda>a. first_seen (map e_address (announced_by grow a ?disc))) ?senders)
        \<and> map sub_edge (fst ?tracked) @ map bind_edge (snd ?tracked) = map sub_edge (fst ?tracked) @ map bind_edge (snd ?tracked)"
      unfolding d if_not_P [OF False] using found by (simp only: simp_thms)
  qed
  moreover have "handleDependencyGraph grow visit w idText s = Answer (fst ?r, snd ?r)" unfolding h prod.collapse by (rule refl)
  ultimately show ?thesis unfolding Let_def
    by - (rule exI [of _ "fst ?r"], rule exI [of _ "snd ?r"], rule conjI, assumption+)
qed

definition graph_message :: message where
  "graph_message = eet_sample\<lparr>m_trace := 1, m_dev_src := ''a'', m_dev_dst := ''b''\<rparr>"

definition graph_store :: store where
  "graph_store = snd (the (InsertMessages [graph_message] (snd (CreateTrace eet_sample_trace (migrated (built_in_charts 0))))))"

lemma graph_store_rows: "st_messages graph_store = [graph_message\<lparr>m_id := 1\<rparr>]"
  by (simp add: graph_store_def graph_message_def CreateTrace_def InsertMessage_def trace_exists_def migrated_def Let_def eet_sample_def empty_message_def)

theorem graph_nodes_witness:
  "\<forall>x. \<exists>nodes edges. handleDependencyGraph go_grow id (sample_web x) ''1'' graph_store = Answer (nodes, edges) \<and> map dt_addr nodes = [''a'', ''b'']"
proof
  fix x
  have w: "orders (wb_engine (sample_web x))" by (simp add: sample_web_def test_engine_orders)
  have m: "m_trace graph_message = 1" "m_type graph_message = ''data''" "m_fn graph_message = []" "m_dev_src graph_message = ''a''"
      "m_dev_dst graph_message = ''b''"
    by (simp_all add: graph_message_def eet_sample_def empty_message_def ship_types)
  have n: "CountMessages 1 graph_store \<le> 100000" by (simp add: CountMessages_def graph_store_rows)
  have l: "listed (sample_web x) 1 (\<lambda>m. m_type m = ''data'') graph_store = [graph_message\<lparr>m_id := 1\<rparr>]"
      "listed (sample_web x) 1 (\<lambda>m. m_fn m = discovery_fn) graph_store = []"
    by (simp_all add: listed_def graph_store_rows sample_web_def test_engine_def m discovery_fn_def)
  show "\<exists>nodes edges. handleDependencyGraph go_grow id (sample_web x) ''1'' graph_store = Answer (nodes, edges) \<and> map dt_addr nodes = [''a'', ''b'']"
    using graph_nodes [OF w sample_ids n, of go_grow id] unfolding l Let_def
    by (elim exE conjE) (intro exI conjI, assumption, simp add: m)
qed

end
