(* ===== verification/DeviceRepos.thy ===== *)
theory DeviceRepos
  imports AnalysisApi
begin

text \<open>
  \<open>store/device_repo.go\<close> and \<open>store/mdns_device_repo.go\<close>, the tables of devices seen in traces and of devices found
  by mDNS, and the handlers of \<open>api/devices.go\<close>. The rows stand beside the tables of \<open>Store\<close>; the devices of a trace
  are deleted with it. Two things an upsert leaves to the SQL engine are arguments: how far the \<open>AUTOINCREMENT\<close>
  sequence moves when the row exists already (\<open>gap\<close>), and the row id that \<open>LastInsertId\<close> then reports (\<open>rowid\<close>). The order of
  the devices by their time is the argument \<open>by_first\<close>.
\<close>

section \<open>Devices of traces\<close>

record device_db =
  db_main :: store
  db_devices :: "device list"
  db_next_device :: int

definition device_key :: "device \<Rightarrow> int \<times> string" where "device_key d = (d_trace d, d_addr d)"

text \<open>\<open>CASE WHEN excluded.x != '' THEN excluded.x ELSE devices.x END\<close>.\<close>

definition filled :: "string \<Rightarrow> string \<Rightarrow> string" where "filled new old = (if new \<noteq> [] then new else old)"

definition sighted :: "device \<Rightarrow> device \<Rightarrow> device" where
  "sighted d old = old\<lparr>d_last := d_last d, d_ski := filled (d_ski d) (d_ski old), d_brand := filled (d_brand d) (d_brand old),
     d_model := filled (d_model d) (d_model old), d_type := filled (d_type d) (d_type old)\<rparr>"

text \<open>\<open>None\<close>: the foreign key fails.\<close>

definition UpsertDevice :: "int \<Rightarrow> nat \<Rightarrow> device \<Rightarrow> device_db \<Rightarrow> (device \<times> device_db) option" where
  "UpsertDevice rowid gap d s =
     (if st_fk (db_main s) \<and> \<not> trace_exists (d_trace d) (db_main s) then None
      else if device_key d \<in> set (map device_key (db_devices s))
      then Some (if 0 < rowid then d\<lparr>d_id := rowid\<rparr> else d,
                 s\<lparr>db_devices := map (\<lambda>r. if device_key r = device_key d then sighted d r else r) (db_devices s),
                   db_next_device := db_next_device s + int gap\<rparr>)
      else (let d' = d\<lparr>d_id := db_next_device s\<rparr>
            in Some (d', s\<lparr>db_devices := db_devices s @ [d'], db_next_device := db_next_device s + 1\<rparr>)))"

definition ListDevices :: "(device list \<Rightarrow> device list) \<Rightarrow> int \<Rightarrow> device_db \<Rightarrow> device list" where
  "ListDevices by_first i s = by_first (filter (\<lambda>d. d_trace d = i) (db_devices s))"

definition GetDevice :: "int \<Rightarrow> device_db \<Rightarrow> device option" where
  "GetDevice i s = find (\<lambda>d. d_id d = i) (db_devices s)"

text \<open>The deletion of a trace cascades to its devices, on a connection that enforces foreign keys.\<close>

definition delete_trace :: "int \<Rightarrow> device_db \<Rightarrow> device_db" where
  "delete_trace i s = s\<lparr>db_main := DeleteTrace i (db_main s), 
     db_devices := (if st_fk (db_main s) then filter (\<lambda>d. d_trace d \<noteq> i) (db_devices s) else db_devices s)\<rparr>"

section \<open>Devices found by mDNS\<close>

record 'a stored_record =
  md_id :: int
  md_instance :: string
  md_host :: string
  md_addresses :: 'a
  md_port :: int
  md_ski :: string
  md_brand :: string
  md_model :: string
  md_type :: string
  md_identifier :: string
  md_first :: time
  md_last :: time
  md_online :: bool

text \<open>A row holds the addresses as one text.\<close>

type_synonym stored_device = "string list stored_record"
type_synonym stored_row = "string stored_record"

record mdns_table =
  mt_rows :: "stored_row list"
  mt_next :: int

definition with_addresses :: "'b \<Rightarrow> 'a stored_record \<Rightarrow> 'b stored_record" where
  "with_addresses a d = \<lparr>md_id = md_id d, md_instance = md_instance d, md_host = md_host d, md_addresses = a, md_port = md_port d,
     md_ski = md_ski d, md_brand = md_brand d, md_model = md_model d, md_type = md_type d, md_identifier = md_identifier d,
     md_first = md_first d, md_last = md_last d, md_online = md_online d\<rparr>"

definition row_of :: "int \<Rightarrow> time \<Rightarrow> stored_device \<Rightarrow> stored_row" where
  "row_of i first_seen_at d = (with_addresses (join '','' (md_addresses d)) d)\<lparr>md_id := i, md_first := first_seen_at\<rparr>"

definition Upsert :: "nat \<Rightarrow> stored_device \<Rightarrow> mdns_table \<Rightarrow> mdns_table" where
  "Upsert gap d t =
     (if md_instance d \<in> set (map md_instance (mt_rows t))
      then t\<lparr>mt_rows := map (\<lambda>r. if md_instance r = md_instance d then row_of (md_id r) (md_first r) d else r) (mt_rows t),
             mt_next := mt_next t + int gap\<rparr>
      else t\<lparr>mt_rows := mt_rows t @ [row_of (mt_next t) (md_first d) d], mt_next := mt_next t + 1\<rparr>)"

text \<open>\<open>ORDER BY instance_name\<close>; the names are unique.\<close>

fun insert_row :: "stored_row \<Rightarrow> stored_row list \<Rightarrow> stored_row list" where
  "insert_row r [] = [r]"
| "insert_row r (q # qs) = (if str_less (md_instance r) (md_instance q) then r # q # qs else q # insert_row r qs)"

definition scanned :: "stored_row \<Rightarrow> stored_device" where
  "scanned r = with_addresses (if md_addresses r = [] then [] else split_char (CHR '','') (md_addresses r)) r"

definition List_mdns :: "mdns_table \<Rightarrow> stored_device list" where
  "List_mdns t = map scanned (foldr insert_row (mt_rows t) [])"

definition MarkOffline :: "mdns_table \<Rightarrow> mdns_table" where
  "MarkOffline t = t\<lparr>mt_rows := map (\<lambda>r. r\<lparr>md_online := False\<rparr>) (mt_rows t)\<rparr>"

section \<open>Handlers\<close>

record device_view =
  vw_id :: int
  vw_addr :: string
  vw_ski :: string
  vw_brand :: string
  vw_model :: string
  vw_type :: string
  vw_entities :: "disc_entity list"

definition reply_filter :: "string \<Rightarrow> message_filter" where
  "reply_filter addr = no_filter\<lparr>mf_fn := discovery_fn, mf_classifier := ''reply'', mf_dev_src := addr, mf_limit := 1\<rparr>"

definition replied_entities :: "(nat \<Rightarrow> nat) \<Rightarrow> web \<Rightarrow> int \<Rightarrow> string \<Rightarrow> store \<Rightarrow> disc_entity list" where
  "replied_entities grow w i addr s = (case ListMessages (wb_engine w) i (reply_filter addr) s of
       Some (m # _) \<Rightarrow> if m_spine m \<noteq> [] then parseDiscoveryEntities grow (m_spine m) else []
     | _ \<Rightarrow> [])"

definition view_of :: "(nat \<Rightarrow> nat) \<Rightarrow> web \<Rightarrow> int \<Rightarrow> store \<Rightarrow> device \<Rightarrow> device_view" where
  "view_of grow w i s d = \<lparr>vw_id = d_id d, vw_addr = d_addr d, vw_ski = d_ski d, vw_brand = d_brand d, vw_model = d_model d,
     vw_type = d_type d, vw_entities = replied_entities grow w i (d_addr d) s\<rparr>"

definition handleListDevices ::
  "(nat \<Rightarrow> nat) \<Rightarrow> (device list \<Rightarrow> device list) \<Rightarrow> web \<Rightarrow> string \<Rightarrow> device_db \<Rightarrow> device_view list answer" where
  "handleListDevices grow by_first w idText s = for_trace idText (\<lambda>i.
     Answer (map (view_of grow w i (db_main s)) (ListDevices by_first i s)))"

definition handleGetDevice :: "(nat \<Rightarrow> nat) \<Rightarrow> web \<Rightarrow> string \<Rightarrow> string \<Rightarrow> device_db \<Rightarrow> device_view answer" where
  "handleGetDevice grow w idText didText s = for_trace idText (\<lambda>i.
     case parseID didText of
       None \<Rightarrow> Refused 400 ''invalid device ID''
     | Some j \<Rightarrow> (case GetDevice j s of
         None \<Rightarrow> Refused 404 ''device not found''
       | Some d \<Rightarrow> Answer (view_of grow w i (db_main s) d)))"

section \<open>Lemmas: sightings\<close>

definition device_at :: "int \<times> string \<Rightarrow> device_db \<Rightarrow> device option" where
  "device_at k s = find (\<lambda>d. device_key d = k) (db_devices s)"

fun upserts :: "(int \<times> nat \<times> device) list \<Rightarrow> device_db \<Rightarrow> device_db option" where
  "upserts [] s = Some s"
| "upserts ((rowid, gap, d) # l) s = (case UpsertDevice rowid gap d s of None \<Rightarrow> None | Some (_, s') \<Rightarrow> upserts l s')"

definition sightings_of :: "(int \<times> nat \<times> device) list \<Rightarrow> device list" where
  "sightings_of es = map (\<lambda>e. snd (snd e)) es"

lemma sightings_of_simps [simp]: "sightings_of [] = []" "sightings_of (e # es) = snd (snd e) # sightings_of es"
  by (simp_all add: sightings_of_def)

text \<open>The last text that is not empty, and what a list of sightings says about a device.\<close>

definition last_filled :: "string list \<Rightarrow> string" where
  "last_filled l = (let filled_in = filter (\<lambda>x. x \<noteq> []) l in if filled_in = [] then [] else last filled_in)"

definition device_of_sightings :: "device list \<Rightarrow> device" where
  "device_of_sightings ds = \<lparr>d_id = 0, d_trace = d_trace (hd ds), d_addr = d_addr (hd ds), d_ski = last_filled (map d_ski ds),
     d_brand = last_filled (map d_brand ds), d_model = last_filled (map d_model ds), d_type = last_filled (map d_type ds),
     d_first = d_first (hd ds), d_last = d_last (last ds)\<rparr>"

lemma last_filled_snoc: "last_filled (l @ [x]) = filled x (last_filled l)"
  by (simp add: last_filled_def filled_def Let_def)

lemma last_filled_single: "last_filled [x] = x"
  by (simp add: last_filled_def)

definition anon :: "device \<Rightarrow> device" where "anon d = d\<lparr>d_id := 0\<rparr>"

lemma device_of_one: "device_of_sightings [d] = anon d"
  by (simp add: device_of_sightings_def last_filled_single anon_def)

lemma device_of_snoc: "ds \<noteq> [] \<Longrightarrow> device_of_sightings (ds @ [d]) = sighted d (device_of_sightings ds)"
  by (simp add: device_of_sightings_def last_filled_snoc sighted_def)

lemma device_key_sighted [simp]: "device_key (sighted d r) = device_key r" "d_id (sighted d r) = d_id r" "anon (sighted d r) = sighted d (anon r)"
  by (simp_all add: device_key_def sighted_def anon_def)

lemma device_key_id [simp]: "device_key (d\<lparr>d_id := i\<rparr>) = device_key d" "anon (d\<lparr>d_id := i\<rparr>) = anon d"
  by (simp_all add: device_key_def anon_def)

lemma find_map_at:
  assumes "\<And>r. f r = (if device_key r = k then g r else r)" and "\<And>r. device_key (g r) = device_key r"
  shows "find (\<lambda>d. device_key d = k') (map f l) = (if k' = k then map_option g (find (\<lambda>d. device_key d = k) l) else find (\<lambda>d. device_key d = k') l)"
  by (induction l) (auto simp: assms)

lemma find_app1: "find P (xs @ [x]) = (case find P xs of None \<Rightarrow> if P x then Some x else None | Some y \<Rightarrow> Some y)"
  by (induction xs) auto

lemma upsert_device:
  assumes "trace_exists (d_trace d) (db_main s)"
  shows "\<exists>d' s'. UpsertDevice rowid gap d s = Some (d', s') \<and> db_main s' = db_main s
    \<and> map_option anon (device_at k s') = (if k \<noteq> device_key d then map_option anon (device_at k s)
         else (case map_option anon (device_at k s) of None \<Rightarrow> Some (anon d) | Some r \<Rightarrow> Some (sighted d r)))
    \<and> map device_key (db_devices s') = (if device_key d \<in> set (map device_key (db_devices s)) then map device_key (db_devices s) else map device_key (db_devices s) @ [device_key d])
    \<and> (\<exists>ids. map d_id (db_devices s') = map d_id (db_devices s) @ ids)"
proof (cases "device_key d \<in> set (map device_key (db_devices s))")
  case True
  then have a: "device_at (device_key d) s \<noteq> None" by (auto simp: device_at_def find_None_iff)
  have m: "find (\<lambda>d. device_key d = k) (map (\<lambda>r. if device_key r = device_key d then sighted d r else r) l)
      = (if k = device_key d then map_option (sighted d) (find (\<lambda>d'. device_key d' = device_key d) l) else find (\<lambda>d. device_key d = k) l)" for l
    by (rule find_map_at) simp_all
  show ?thesis using True assms a
    by (auto simp: UpsertDevice_def device_at_def m comp_def if_distrib cong: if_cong split: option.splits)
next
  case False
  then have a: "device_at (device_key d) s = None"
    unfolding device_at_def find_None_iff by (metis (no_types, lifting) image_eqI set_map)
  have "UpsertDevice rowid gap d s = Some (d\<lparr>d_id := db_next_device s\<rparr>,
      s\<lparr>db_devices := db_devices s @ [d\<lparr>d_id := db_next_device s\<rparr>], db_next_device := db_next_device s + 1\<rparr>)"
    using False assms by (simp add: UpsertDevice_def Let_def)
  then show ?thesis using False a by (simp add: device_at_def find_app1 split: option.splits)
qed

lemma upserts_device:
  assumes "\<forall>e \<in> set es. trace_exists (d_trace (snd (snd e))) (db_main s)"
  shows "\<exists>s'. upserts es s = Some s' \<and> db_main s' = db_main s
    \<and> (\<forall>k. map_option anon (device_at k s') = (let seen = filter (\<lambda>d. device_key d = k) (sightings_of es) in
          fold (\<lambda>d r. Some (case r of None \<Rightarrow> anon d | Some r \<Rightarrow> sighted d r)) seen (map_option anon (device_at k s))))
    \<and> map device_key (db_devices s') = map device_key (db_devices s)
        @ filter (\<lambda>k. k \<notin> set (map device_key (db_devices s))) (first_seen (map device_key (sightings_of es)))
    \<and> (\<exists>ids. map d_id (db_devices s') = map d_id (db_devices s) @ ids)"
  using assms
proof (induction es arbitrary: s)
  case (Cons e es)
  obtain rowid gap d where e: "e = (rowid, gap, d)" by (cases e)
  obtain d' s1 where s1: "UpsertDevice rowid gap d s = Some (d', s1)" "db_main s1 = db_main s"
    by (metis Cons.prems e list.set_intros(1) snd_conv upsert_device)
  have at: "map_option anon (device_at k s1) = (if k \<noteq> device_key d then map_option anon (device_at k s)
         else (case map_option anon (device_at k s) of None \<Rightarrow> Some (anon d) | Some r \<Rightarrow> Some (sighted d r)))" for k
    using upsert_device [of d s rowid gap k] Cons.prems e s1 by auto
  have keys: "map device_key (db_devices s1) = (if device_key d \<in> set (map device_key (db_devices s)) then map device_key (db_devices s) else map device_key (db_devices s) @ [device_key d])"
    and ids: "\<exists>ids. map d_id (db_devices s1) = map d_id (db_devices s) @ ids"
    using upsert_device [of d s rowid gap] Cons.prems e s1 by auto
  have "\<forall>e \<in> set es. trace_exists (d_trace (snd (snd e))) (db_main s1)" using Cons.prems s1(2) by simp
  from Cons.IH [OF this] obtain s2 where s2: "upserts es s1 = Some s2" "db_main s2 = db_main s1"
    "\<And>k. map_option anon (device_at k s2) = (let seen = filter (\<lambda>d. device_key d = k) (sightings_of es) in
          fold (\<lambda>d r. Some (case r of None \<Rightarrow> anon d | Some r \<Rightarrow> sighted d r)) seen (map_option anon (device_at k s1)))"
    "map device_key (db_devices s2) = map device_key (db_devices s1)
        @ filter (\<lambda>k. k \<notin> set (map device_key (db_devices s1))) (first_seen (map device_key (sightings_of es)))"
    "\<exists>ids. map d_id (db_devices s2) = map d_id (db_devices s1) @ ids" by blast
  have "upserts (e # es) s = Some s2" using e s1(1) s2(1) by simp
  moreover have "map_option anon (device_at k s2) = (let seen = filter (\<lambda>d. device_key d = k) (sightings_of (e # es)) in
          fold (\<lambda>d r. Some (case r of None \<Rightarrow> anon d | Some r \<Rightarrow> sighted d r)) seen (map_option anon (device_at k s)))" for k
    unfolding s2(3) at by (simp add: e Let_def split: option.splits)
  moreover have "map device_key (db_devices s2) = map device_key (db_devices s)
        @ filter (\<lambda>k. k \<notin> set (map device_key (db_devices s))) (first_seen (map device_key (sightings_of (e # es))))"
  proof -
    have c: "filter (\<lambda>x. x \<notin> set (map device_key (db_devices s))) (filter (\<lambda>x. x \<noteq> device_key d) l)
        = filter (\<lambda>x. x \<notin> set (map device_key (db_devices s1))) l" for l
      unfolding keys filter_filter by (rule filter_cong) auto
    show ?thesis unfolding s2(4) by (cases "device_key d \<in> set (map device_key (db_devices s))") (simp_all only: e sightings_of_simps snd_conv list.map first_seen.simps filter.simps c simp_thms keys if_True if_False append_assoc append_Cons append_Nil)
  qed
  moreover have "\<exists>ids. map d_id (db_devices s2) = map d_id (db_devices s) @ ids" using ids s2(5) by (metis append_assoc)
  moreover have "db_main s2 = db_main s" using s1(2) s2(2) by simp
  ultimately show ?case by (intro exI [of _ s2] conjI allI)
qed simp

lemma fold_sightings:
  "fold (\<lambda>d r. Some (case r of None \<Rightarrow> anon d | Some r \<Rightarrow> sighted d r)) ds (map_option anon r)
     = (let all = (case r of None \<Rightarrow> [] | Some d \<Rightarrow> [d]) @ ds in if all = [] then None else Some (device_of_sightings all))"
proof (induction ds rule: rev_induct)
  case Nil
  then show ?case by (cases r) (simp_all add: device_of_one)
next
  case (snoc d ds)
  have two: "device_of_sightings (q # ds @ [d]) = sighted d (device_of_sightings (q # ds))" for q
    using device_of_snoc [of "q # ds" d] by simp
  show ?case unfolding fold_append comp_def snoc
    using two [where ?q = "the r"] by (cases r; cases "ds = []") (simp_all add: Let_def device_of_one device_of_snoc)
qed

section \<open>Lemmas: the mDNS table\<close>

definition upsert_all :: "(nat \<times> stored_device) list \<Rightarrow> mdns_table" where
  "upsert_all es = fold (\<lambda>e. Upsert (fst e) (snd e)) es \<lparr>mt_rows = [], mt_next = 1\<rparr>"

definition named :: "string \<Rightarrow> 'a stored_record list \<Rightarrow> 'a stored_record list" where
  "named n ds = filter (\<lambda>d. md_instance d = n) ds"

definition rows_at :: "string \<Rightarrow> mdns_table \<Rightarrow> stored_row list" where
  "rows_at n t = map (\<lambda>r. r\<lparr>md_id := 0\<rparr>) (named n (mt_rows t))"

lemma row_of_simps [simp]:
  "md_instance (row_of i f d) = md_instance d" "md_first (row_of i f d) = f" "(row_of i f d)\<lparr>md_id := j\<rparr> = row_of j f d"
  by (simp_all add: row_of_def with_addresses_def)

lemma upsert_row:
  assumes "distinct (map md_instance (mt_rows t))"
  shows "distinct (map md_instance (mt_rows (Upsert gap d t)))"
    and "rows_at n (Upsert gap d t) = (if md_instance d \<noteq> n then rows_at n t
      else [row_of 0 (case rows_at n t of [] \<Rightarrow> md_first d | r # _ \<Rightarrow> md_first r) d])"
proof -
  have u: "named n (map (\<lambda>r. if md_instance r = md_instance d then row_of (md_id r) (md_first r) d else r) l)
      = (if md_instance d \<noteq> n then named n l else map (\<lambda>r. row_of (md_id r) (md_first r) d) (named n l))" for l
    by (induction l) (auto simp: named_def)
  have one: "length (named n l) \<le> 1" if "distinct (map md_instance l)" for l
    using that
  proof (induction l)
    case (Cons q l)
    then show ?case by (cases "md_instance q = n") (auto simp: named_def image_iff filter_empty_conv)
  qed (simp add: named_def)
  show "distinct (map md_instance (mt_rows (Upsert gap d t)))"
    using assms by (simp add: Upsert_def comp_def if_distrib [of md_instance] cong: if_cong)
  show "rows_at n (Upsert gap d t) = (if md_instance d \<noteq> n then rows_at n t
      else [row_of 0 (case rows_at n t of [] \<Rightarrow> md_first d | r # _ \<Rightarrow> md_first r) d])"
  proof (cases "md_instance d \<in> set (map md_instance (mt_rows t))")
    case True
    then have "md_instance d = n \<Longrightarrow> named n (mt_rows t) \<noteq> []" by (auto simp: named_def filter_empty_conv)
    then show ?thesis using True one [OF assms]
      by (cases "named n (mt_rows t)") (auto simp: Upsert_def rows_at_def u comp_def)
  next
    case False
    then have "md_instance d = n \<Longrightarrow> named n (mt_rows t) = []"
      unfolding named_def filter_empty_conv by (metis image_eqI set_map)
    moreover have "Upsert gap d t = t\<lparr>mt_rows := mt_rows t @ [row_of (mt_next t) (md_first d) d], mt_next := mt_next t + 1\<rparr>"
      using False unfolding Upsert_def by (rule if_not_P)
    ultimately show ?thesis by (simp add: rows_at_def named_def)
  qed
qed

lemma upsert_all_rows:
  "distinct (map md_instance (mt_rows (upsert_all es)))
   \<and> rows_at n (upsert_all es) = (let ds = named n (map snd es) in if ds = [] then [] else [row_of 0 (md_first (hd ds)) (last ds)])"
proof (induction es rule: rev_induct)
  case Nil
  then show ?case by (simp add: upsert_all_def rows_at_def named_def)
next
  case (snoc e es)
  have u: "upsert_all (es @ [e]) = Upsert (fst e) (snd e) (upsert_all es)" by (simp add: upsert_all_def)
  show ?case unfolding u using snoc by (auto simp: upsert_row Let_def named_def)
qed

lemma insert_row_mset: "mset (insert_row r qs) = add_mset r (mset qs)"
  by (induction qs) auto

lemma insert_rows_mset: "mset (foldr insert_row rs []) = mset rs"
  by (induction rs) (simp_all add: insert_row_mset)

lemma insert_row_sorted:
  assumes "sorted_wrt str_less (map md_instance qs)" and "md_instance r \<notin> set (map md_instance qs)"
  shows "sorted_wrt str_less (map md_instance (insert_row r qs))"
  using assms
proof (induction qs)
  case (Cons q qs)
  have "set (insert_row r qs) = insert r (set qs)" using insert_row_mset [of r qs] by (metis set_mset_add_mset_insert set_mset_mset)
  moreover have "str_less (md_instance q) (md_instance r)" if "\<not> str_less (md_instance r) (md_instance q)"
    using that str_less_total [of "md_instance r" "md_instance q"] Cons.prems(2) by auto
  ultimately show ?case using Cons by (auto intro: str_less_trans)
qed simp

lemma rows_sorted:
  assumes "distinct (map md_instance rs)"
  shows "sorted_wrt str_less (map md_instance (foldr insert_row rs []))"
  using assms
proof (induction rs)
  case (Cons r rs)
  have "set (foldr insert_row rs []) = set rs" using insert_rows_mset [of rs] by (metis set_mset_mset)
  then show ?case using Cons by (auto intro!: insert_row_sorted)
qed simp

text \<open>Addresses that come back: a comma in one would split it, a single empty one is lost.\<close>

definition clean_addresses :: "stored_device \<Rightarrow> bool" where
  "clean_addresses d \<longleftrightarrow> md_addresses d \<noteq> [[]] \<and> (\<forall>a \<in> set (md_addresses d). CHR '','' \<notin> set a)"

lemma scanned_row: "clean_addresses d \<Longrightarrow> scanned (row_of i f d) = d\<lparr>md_id := i, md_first := f\<rparr>"
proof -
  assume c: "clean_addresses d"
  have j: "join '','' l = [] \<longleftrightarrow> l = [] \<or> l = [[]]" for l by (cases l; cases "tl l") auto
  have "(if join '','' (md_addresses d) = [] then [] else split_char (CHR '','') (join '','' (md_addresses d))) = md_addresses d"
    using c split_char_join [of "md_addresses d" "CHR '',''"] by (auto simp: clean_addresses_def j)
  then have "scanned (row_of i f d) = with_addresses (md_addresses d) (d\<lparr>md_id := i, md_first := f\<rparr>)"
    by (simp add: scanned_def row_of_def with_addresses_def split: if_splits)
  then show ?thesis by (simp add: with_addresses_def)
qed

lemma mdns_listed:
  assumes "\<forall>e \<in> set es. clean_addresses (snd e)"
  shows "sorted_wrt str_less (map md_instance (List_mdns (upsert_all es)))"
    and "map (\<lambda>d. d\<lparr>md_id := 0\<rparr>) (named n (List_mdns (upsert_all es)))
      = (let ds = named n (map snd es) in if ds = [] then [] else [(last ds)\<lparr>md_id := 0, md_first := md_first (hd ds)\<rparr>])"
proof -
  let ?t = "upsert_all es"
  have d: "distinct (map md_instance (mt_rows ?t))" and
    at: "rows_at n ?t = (let ds = named n (map snd es) in if ds = [] then [] else [row_of 0 (md_first (hd ds)) (last ds)])"
    using upsert_all_rows [of es n] by blast+
  have i: "md_instance (scanned r) = md_instance r" "(scanned r)\<lparr>md_id := 0\<rparr> = scanned (r\<lparr>md_id := 0\<rparr>)" for r
    by (simp_all add: scanned_def with_addresses_def)
  show "sorted_wrt str_less (map md_instance (List_mdns ?t))"
    using rows_sorted [OF d] by (simp add: List_mdns_def comp_def i)
  have l: "length (named n (mt_rows ?t)) \<le> 1" using arg_cong [OF at, of length] by (simp add: rows_at_def Let_def split: if_splits)
  have "mset (named n (foldr insert_row (mt_rows ?t) [])) = mset (named n (mt_rows ?t))"
    by (simp add: named_def insert_rows_mset)
  then have s: "named n (foldr insert_row (mt_rows ?t) []) = named n (mt_rows ?t)"
    using l by (cases "named n (mt_rows ?t)") auto
  have "map (\<lambda>d. d\<lparr>md_id := 0\<rparr>) (named n (List_mdns ?t)) = map scanned (rows_at n ?t)"
    using s by (simp add: List_mdns_def named_def filter_map comp_def i rows_at_def)
  moreover have "clean_addresses (last (named n (map snd es)))" if "named n (map snd es) \<noteq> []"
    using last_in_set [OF that] assms by (auto simp: named_def)
  ultimately show "map (\<lambda>d. d\<lparr>md_id := 0\<rparr>) (named n (List_mdns ?t))
      = (let ds = named n (map snd es) in if ds = [] then [] else [(last ds)\<lparr>md_id := 0, md_first := md_first (hd ds)\<rparr>])"
    unfolding at Let_def by (auto simp: scanned_row)
qed

section \<open>Properties\<close>

text \<open>The devices of a trace after any sequence of upserts whose traces exist. No upsert fails; a device is listed once, in
  the order of its first sighting; it has the time of the first and of the last sighting, and of every other field
  the last value that was not empty. Rows keep their ids.\<close>

theorem device_sightings:
  assumes "\<forall>d \<in> set (sightings_of es). trace_exists (d_trace d) (db_main s)"
  shows "\<exists>s'. upserts es s = Some s'
    \<and> (\<forall>k. let all = (case device_at k s of None \<Rightarrow> [] | Some d \<Rightarrow> [d]) @ filter (\<lambda>d. device_key d = k) (sightings_of es)
         in map_option anon (device_at k s') = (if all = [] then None else Some (device_of_sightings all)))
    \<and> map device_key (db_devices s') = map device_key (db_devices s)
        @ filter (\<lambda>k. k \<notin> set (map device_key (db_devices s))) (first_seen (map device_key (sightings_of es)))
    \<and> take (length (db_devices s)) (map d_id (db_devices s')) = map d_id (db_devices s)"
proof -
  have "\<forall>e \<in> set es. trace_exists (d_trace (snd (snd e))) (db_main s)" using assms by (simp add: sightings_of_def)
  from upserts_device [OF this] obtain s' ids where
    s': "upserts es s = Some s'" "map d_id (db_devices s') = map d_id (db_devices s) @ ids"
      "map device_key (db_devices s') = map device_key (db_devices s)
        @ filter (\<lambda>k. k \<notin> set (map device_key (db_devices s))) (first_seen (map device_key (sightings_of es)))"
    and at: "\<And>k. map_option anon (device_at k s') = (let seen = filter (\<lambda>d. device_key d = k) (sightings_of es) in
          fold (\<lambda>d r. Some (case r of None \<Rightarrow> anon d | Some r \<Rightarrow> sighted d r)) seen (map_option anon (device_at k s)))"
    by blast
  have "take (length (db_devices s)) (map d_id (db_devices s')) = map d_id (db_devices s)" unfolding s'(2) by simp
  then show ?thesis using s'(1,3) at unfolding Let_def fold_sightings by (intro exI [of _ s'] conjI allI)
qed

definition meter :: device where
  "meter = \<lparr>d_id = 0, d_trace = 1, d_addr = ''m'', d_ski = ''k'', d_brand = [], d_model = [], d_type = [], d_first = 5, d_last = 5\<rparr>"

definition device_start :: device_db where
  "device_start = \<lparr>db_main = graph_store, db_devices = [], db_next_device = 1\<rparr>"

theorem device_sightings_witness:
  "\<exists>s'. upserts [(9, 0, meter), (9, 1, meter\<lparr>d_ski := [], d_brand := ''b'', d_first := 7, d_last := 7\<rparr>)] device_start = Some s'
     \<and> map_option anon (device_at (1, ''m'') s') = Some (meter\<lparr>d_brand := ''b'', d_last := 7\<rparr>)"
proof -
  let ?es = "[(9, 0, meter), (9, 1, meter\<lparr>d_ski := [], d_brand := ''b'', d_first := 7, d_last := 7\<rparr>)] :: (int \<times> nat \<times> device) list"
  have "st_traces graph_store = [eet_sample_trace\<lparr>t_id := 1\<rparr>]"
    by (simp add: graph_store_def CreateTrace_def InsertMessage_def trace_exists_def migrated_def Let_def graph_message_def)
  then have ex: "\<forall>d \<in> set (sightings_of ?es). trace_exists (d_trace d) (db_main device_start)"
    by (simp add: device_start_def trace_exists_def meter_def)
  have all: "(case device_at (1, ''m'') device_start of None \<Rightarrow> [] | Some d \<Rightarrow> [d]) @ filter (\<lambda>d. device_key d = (1, ''m'')) (sightings_of ?es)
      = [meter, meter\<lparr>d_ski := [], d_brand := ''b'', d_first := 7, d_last := 7\<rparr>]"
    by (simp add: device_at_def device_start_def device_key_def meter_def)
  have d: "device_of_sightings [meter, meter\<lparr>d_ski := [], d_brand := ''b'', d_first := 7, d_last := 7\<rparr>] = meter\<lparr>d_brand := ''b'', d_last := 7\<rparr>"
    by (simp add: device_of_sightings_def last_filled_def meter_def)
  from device_sightings [OF ex] obtain s' where s': "upserts ?es device_start = Some s'"
    "map_option anon (device_at (1, ''m'') s') = (let all = (case device_at (1, ''m'') device_start of None \<Rightarrow> [] | Some d \<Rightarrow> [d])
        @ filter (\<lambda>d. device_key d = (1, ''m'')) (sightings_of ?es) in if all = [] then None else Some (device_of_sightings all))"
    unfolding Let_def by blast
  show ?thesis using s' unfolding all d Let_def by (intro exI [of _ s']) simp
qed

text \<open>The list of stored mDNS devices after any sequence of upserts of devices whose addresses survive the comma-separated
  text: one device for each instance name, in strictly ascending order of the names, with the values of the last
  upsert and the time of the first.\<close>

theorem mdns_stored:
  assumes "\<forall>e \<in> set es. clean_addresses (snd e)"
  shows "sorted_wrt str_less (map md_instance (List_mdns (upsert_all es)))
    \<and> (\<forall>n. map (\<lambda>d. d\<lparr>md_id := 0\<rparr>) (named n (List_mdns (upsert_all es)))
      = (let ds = named n (map snd es) in if ds = [] then [] else [(last ds)\<lparr>md_id := 0, md_first := md_first (hd ds)\<rparr>]))"
  using mdns_listed [OF assms] by blast

definition charger :: stored_device where
  "charger = \<lparr>md_id = 0, md_instance = ''c'', md_host = ''h'', md_addresses = [''1.2.3.4'', ''::1''], md_port = 1, md_ski = [],
     md_brand = [], md_model = [], md_type = [], md_identifier = [], md_first = 5, md_last = 5, md_online = True\<rparr>"

theorem mdns_stored_witness:
  "map (\<lambda>d. d\<lparr>md_id := 0\<rparr>) (named ''c'' (List_mdns (upsert_all [(0, charger), (1, charger\<lparr>md_first := 9, md_last := 9\<rparr>)])))
     = [charger\<lparr>md_last := 9\<rparr>]"
proof -
  let ?es = "[(0, charger), (1, charger\<lparr>md_first := 9, md_last := 9\<rparr>)] :: (nat \<times> stored_device) list"
  have c: "\<forall>e \<in> set ?es. clean_addresses (snd e)" by (simp add: clean_addresses_def charger_def)
  have n: "named ''c'' (map snd ?es) = [charger, charger\<lparr>md_first := 9, md_last := 9\<rparr>]" by (simp add: named_def charger_def)
  show ?thesis using mdns_stored [OF c, THEN conjunct2, rule_format, of "''c''"] unfolding n Let_def by (simp add: charger_def)
qed

end
