(* ===== verification/CaptureApi.thy ===== *)
theory CaptureApi
  imports Capture AnalysisApi
begin

text \<open>
  The handlers of \<open>api/capture_handler.go\<close>. A start request is checked against the engine and its body is read
  (\<open>plan_\<dots>\<close>); then a trace is created and the engine started (\<open>begin_capture\<close>). Between the two nothing is locked, so
  another request may come first; \<open>run_start\<close> is the request that is not disturbed. What becomes of the trace of a start that comes too
  late is followed through all later steps of \<open>Capture\<close>. What the handlers take from
  outside is the record \<open>capture_env\<close>: \<open>os.Stat\<close>, the clock, and the texts of an error and of the current time.
\<close>

section \<open>Requests\<close>

record capture_env =
  cv_stat :: "string \<Rightarrow> string + bool"
  cv_stamp :: string
  cv_started :: time
  cv_created :: time
  cv_filter_error :: "dlt_filter_error \<Rightarrow> string"

text \<open>The members the four request bodies have between them; a body is decoded to those of its handler.\<close>

record start_request =
  rq_host :: string
  rq_port :: int
  rq_path :: string
  rq_filter :: string
  rq_name :: string

definition no_request :: start_request where
  "no_request = \<lparr>rq_host = [], rq_port = 0, rq_path = [], rq_filter = [], rq_name = []\<rparr>"

definition host_request :: "string \<Rightarrow> start_request option" where
  "host_request body = do {
     v \<leftarrow> decoder_value body;
     m \<leftarrow> un_map v;
     h \<leftarrow> fld_val un_string [] m ''host'';
     p \<leftarrow> fld_val un_int 0 m ''port'';
     n \<leftarrow> fld_val un_string [] m ''name'';
     Some (no_request\<lparr>rq_host := h, rq_port := p, rq_name := n\<rparr>) }"

definition path_request :: "string \<Rightarrow> start_request option" where
  "path_request body = do {
     v \<leftarrow> decoder_value body;
     m \<leftarrow> un_map v;
     p \<leftarrow> fld_val un_string [] m ''path'';
     n \<leftarrow> fld_val un_string [] m ''name'';
     Some (no_request\<lparr>rq_path := p, rq_name := n\<rparr>) }"

definition filter_request :: "string \<Rightarrow> start_request option" where
  "filter_request body = do {
     v \<leftarrow> decoder_value body;
     m \<leftarrow> un_map v;
     h \<leftarrow> fld_val un_string [] m ''host'';
     p \<leftarrow> fld_val un_int 0 m ''port'';
     f \<leftarrow> fld_val un_string [] m ''filter'';
     n \<leftarrow> fld_val un_string [] m ''name'';
     Some (no_request\<lparr>rq_host := h, rq_port := p, rq_filter := f, rq_name := n\<rparr>) }"

section \<open>Checking a request\<close>

text \<open>What a checked request asks for.\<close>

record start_plan =
  pl_trace :: trace
  pl_source :: string
  pl_target :: string
  pl_filter :: "dlt_filter option"

definition named_trace :: "capture_env \<Rightarrow> string \<Rightarrow> string \<Rightarrow> trace" where
  "named_trace env kind name = \<lparr>t_id = 0, t_name = (if name = [] then kind @ '' '' @ cv_stamp env else name), t_descr = [],
     t_started = cv_started env, t_stopped = None, t_count = 0, t_created = cv_created env, t_skipped = 0\<rparr>"

definition host_port :: "int \<Rightarrow> start_request \<Rightarrow> string" where
  "host_port def_port r = rq_host r @ '':'' @ int_str (if rq_port r \<le> 0 then def_port else rq_port r)"

definition in_progress :: "'a answer" where "in_progress = Refused 409 ''capture already in progress''"

definition plan_udp :: "capture_env \<Rightarrow> string \<Rightarrow> capture \<Rightarrow> start_plan answer" where
  "plan_udp env body c =
     (if ce_capturing c then in_progress
      else (case host_request body of
          None \<Rightarrow> Refused 400 ''invalid JSON''
        | Some r \<Rightarrow> if rq_host r = [] then Refused 400 ''host is required''
            else Answer \<lparr>pl_trace = named_trace env ''Capture'' (rq_name r), pl_source = ''udp'',
                   pl_target = host_port 4712 r, pl_filter = None\<rparr>))"

definition plan_logtail :: "capture_env \<Rightarrow> string \<Rightarrow> capture \<Rightarrow> start_plan answer" where
  "plan_logtail env body c =
     (if ce_capturing c then in_progress
      else (case path_request body of
          None \<Rightarrow> Refused 400 ''invalid JSON''
        | Some r \<Rightarrow> if rq_path r = [] then Refused 400 ''path is required''
            else (case cv_stat env (rq_path r) of
                Inl e \<Rightarrow> Refused 400 (''file not accessible: '' @ e)
              | Inr is_dir \<Rightarrow> if is_dir then Refused 400 ''path is a directory, not a file''
                  else Answer \<lparr>pl_trace = named_trace env ''Log Tail'' (rq_name r), pl_source = ''logtail'',
                         pl_target = rq_path r, pl_filter = None\<rparr>)))"

definition plan_tcp :: "capture_env \<Rightarrow> string \<Rightarrow> capture \<Rightarrow> start_plan answer" where
  "plan_tcp env body c =
     (if ce_capturing c then in_progress
      else (case host_request body of
          None \<Rightarrow> Refused 400 ''invalid JSON''
        | Some r \<Rightarrow> if rq_host r = [] then Refused 400 ''host is required''
            else Answer \<lparr>pl_trace = named_trace env ''TCP Capture'' (rq_name r), pl_source = ''tcp'',
                   pl_target = host_port 54546 r, pl_filter = None\<rparr>))"

definition plan_dlt :: "capture_env \<Rightarrow> string \<Rightarrow> capture \<Rightarrow> start_plan answer" where
  "plan_dlt env body c =
     (if ce_capturing c then in_progress
      else (case filter_request body of
          None \<Rightarrow> Refused 400 ''invalid JSON''
        | Some r \<Rightarrow> if rq_host r = [] then Refused 400 ''host is required''
            else (case ParseDLTFilter (rq_filter r) of
                Inl e \<Rightarrow> Refused 400 (cv_filter_error env e)
              | Inr f \<Rightarrow> Answer \<lparr>pl_trace = named_trace env ''DLT Capture'' (rq_name r), pl_source = ''dlt'',
                     pl_target = host_port 3490 r, pl_filter = Some f\<rparr>)))"

section \<open>Starting\<close>

text \<open>The answer to a start: trace, target or path, and the filter of a DLT stream as the code prints it.\<close>

record started =
  sr_trace :: int
  sr_target :: string
  sr_filter :: "string option"

definition begin_capture :: "start_plan \<Rightarrow> capture \<Rightarrow> started answer \<times> capture" where
  "begin_capture p c =
     (case CreateTrace (pl_trace p) (ce_db c) of
        (t, db) \<Rightarrow> (case StartWithSource (t_id t) (pl_source p) (pl_target p) (c\<lparr>ce_db := db\<rparr>) of
            Inl e \<Rightarrow> (Refused 500 e, c\<lparr>ce_db := db\<rparr>)
          | Inr c' \<Rightarrow> (Answer \<lparr>sr_trace = t_id t, sr_target = pl_target p, sr_filter = map_option filter_string (pl_filter p)\<rparr>, c')))"

definition run_start :: "(string \<Rightarrow> capture \<Rightarrow> start_plan answer) \<Rightarrow> string \<Rightarrow> capture \<Rightarrow> started answer \<times> capture" where
  "run_start plan body c = (case plan body c of Refused st e \<Rightarrow> (Refused st e, c) | Answer p \<Rightarrow> begin_capture p c)"

section \<open>Status\<close>

record capture_status =
  ct_capturing :: bool
  ct_stats :: capture_stats
  ct_trace :: int
  ct_target :: string
  ct_source :: string

definition handleCaptureStatus :: "capture \<Rightarrow> capture_status" where
  "handleCaptureStatus c = \<lparr>ct_capturing = ce_capturing c, ct_stats = ce_stats c, ct_trace = ce_trace c, ct_target = ce_target c,
     ct_source = ce_source c\<rparr>"

section \<open>Lemmas\<close>

definition start_plans :: "capture_env \<Rightarrow> (string \<Rightarrow> capture \<Rightarrow> start_plan answer) set" where
  "start_plans env = {plan_udp env, plan_logtail env, plan_tcp env, plan_dlt env}"

text \<open>A target is a path or a host and a port.\<close>

definition target_ok :: "start_plan \<Rightarrow> bool" where
  "target_ok p \<longleftrightarrow> pl_target p \<noteq> [] \<and>
     (pl_source p \<noteq> ''logtail'' \<longrightarrow> (\<exists>h n. h \<noteq> [] \<and> 0 < n \<and> pl_target p = h @ '':'' @ int_str n))"

lemma host_port_ok: "rq_host r \<noteq> [] \<Longrightarrow> 0 < d \<Longrightarrow> \<exists>h. h \<noteq> [] \<and> (\<exists>n > 0. host_port d r = h @ CHR '':'' # int_str n)"
  unfolding host_port_def
  by (rule exI [of _ "rq_host r"], rule conjI, assumption, rule exI [of _ "if rq_port r \<le> 0 then d else rq_port r"]) simp

lemma host_port_not_Nil: "host_port d r \<noteq> []"
  by (simp add: host_port_def)

lemma named_trace_fields:
  "kind \<noteq> [] \<Longrightarrow> t_name (named_trace env kind n) \<noteq> []" "t_stopped (named_trace env kind n) = None" "t_count (named_trace env kind n) = 0"
  by (simp_all add: named_trace_def)

lemma plan_refused:
  assumes "plan \<in> start_plans env" and "plan body c = Refused st e"
  shows "st = (if ce_capturing c then 409 else 400)"
  using assms
  by (auto simp: start_plans_def plan_udp_def plan_logtail_def plan_tcp_def plan_dlt_def in_progress_def split: if_splits option.splits sum.splits)

lemma plan_answer:
  assumes "plan \<in> start_plans env" and "plan body c = Answer p"
  shows "\<not> ce_capturing c \<and> target_ok p \<and> t_name (pl_trace p) \<noteq> [] \<and> t_stopped (pl_trace p) = None \<and> t_count (pl_trace p) = 0"
  using assms
  by (auto simp: start_plans_def plan_udp_def plan_logtail_def plan_tcp_def plan_dlt_def in_progress_def target_ok_def
      host_port_not_Nil host_port_ok named_trace_fields split: if_splits option.splits sum.splits)

lemma begin_idle:
  assumes "\<not> ce_capturing c"
  shows "\<exists>c'. begin_capture p c = (Answer \<lparr>sr_trace = st_next_trace (ce_db c), sr_target = pl_target p,
        sr_filter = map_option filter_string (pl_filter p)\<rparr>, c')
    \<and> handleCaptureStart (pl_trace p) (pl_source p) (pl_target p) c = Inr c'
    \<and> handleCaptureStatus c' = \<lparr>ct_capturing = True, ct_stats = no_stats, ct_trace = st_next_trace (ce_db c), ct_target = pl_target p,
        ct_source = pl_source p\<rparr>
    \<and> st_traces (ce_db c') = st_traces (ce_db c) @ [(pl_trace p)\<lparr>t_id := st_next_trace (ce_db c)\<rparr>]
    \<and> st_messages (ce_db c') = st_messages (ce_db c)"
  using assms by (simp add: begin_capture_def handleCaptureStart_def StartWithSource_def CreateTrace_def Let_def handleCaptureStatus_def)

section \<open>Lemmas: abandoned traces\<close>

text \<open>The traces the engine, a message in flight or a request holds on to.\<close>

definition held_traces :: "capture \<Rightarrow> int set" where
  "held_traces c = {ce_trace c} \<union> fl_trace ` set (ce_pending c) \<union> set (ce_created c) \<union> fst ` set (ce_halting c) \<union> fst ` set (ce_writing c)"

text \<open>A step holds on to no other trace than those that were held, except a new one.\<close>

lemma capture_step_holds:
  assumes "capture_step x c c'"
  shows "held_traces c' \<subseteq> insert (st_next_trace (ce_db c)) (held_traces c)
    \<and> st_next_trace (ce_db c) \<le> st_next_trace (ce_db c')
    \<and> (st_next_trace (ce_db c) \<in> held_traces c' \<longrightarrow> st_next_trace (ce_db c) \<in> held_traces c \<or> st_next_trace (ce_db c) < st_next_trace (ce_db c'))"
  using assms
proof (cases rule: capture_step.cases)
  case (start t source target)
  then show ?thesis
    by (auto simp: held_traces_def handleCaptureStart_def StartWithSource_def CreateTrace_def Let_def split: if_splits)
next
  case (stop now)
  then show ?thesis
    by (auto simp: held_traces_def handleCaptureStop_def Stop_def StopTrace_def Let_def split: if_splits)
next
  case (deliver p)
  have p: "fl_trace ` set (remove1 p (ce_pending c)) \<subseteq> fl_trace ` set (ce_pending c)" by (rule image_mono [OF set_remove1_subset])
  have "ce_trace c' = ce_trace c" "ce_pending c' = remove1 p (ce_pending c)" "ce_created c' = ce_created c"
      "ce_halting c' = ce_halting c" "ce_writing c' = ce_writing c" "st_next_trace (ce_db c') = st_next_trace (ce_db c)"
    using deliver(1) by (auto simp: deliver_def InsertMessage_def Let_def split: option.splits prod.splits if_splits)
  then show ?thesis using p by (auto simp: held_traces_def)
next
  case (requested t)
  then show ?thesis by (auto simp: held_traces_def request_start_def CreateTrace_def Let_def)
next
  case (created i source target)
  have "set (remove1 i (ce_created c)) \<subseteq> set (ce_created c)" by (rule set_remove1_subset)
  then show ?thesis using created by (auto simp: held_traces_def start_created_def StartWithSource_def Let_def)
next
  case (halted q)
  have "set (remove1 q (ce_halting c)) \<subseteq> set (ce_halting c)" by (rule set_remove1_subset)
  then show ?thesis using halted by (auto simp: held_traces_def stop_requested_def Stop_def)
next
  case (written q now)
  have "set (remove1 q (ce_writing c)) \<subseteq> set (ce_writing c)" by (rule set_remove1_subset)
  then show ?thesis using written by (auto simp: held_traces_def write_stopped_def StopTrace_def split: prod.splits)
next
  case (uploaded l t db)
  then show ?thesis using upload_rows [OF uploaded(3)] by (auto simp: held_traces_def)
qed (auto simp: held_traces_def receive_def IncTruncated_def source_ended_def request_stop_def DeleteTrace_def UpdateTrace_def on_connection_def Let_def)

lemma held_below: "capture_reachable x c \<Longrightarrow> i \<in> held_traces c \<Longrightarrow> i < st_next_trace (ce_db c)"
proof (induction arbitrary: i rule: capture_reachable.induct)
  case (init now)
  then show ?case by (simp add: held_traces_def NewEngine_def migrated_def)
next
  case (step c c')
  then show ?case using capture_step_holds [OF step(2)] by (metis insertE less_le_trans less_irrefl subsetD)
qed

text \<open>An abandoned trace: nobody holds it, it has no messages, and it has no stop time unless it has been deleted.\<close>

definition abandoned :: "int \<Rightarrow> capture \<Rightarrow> bool" where
  "abandoned j c \<longleftrightarrow> j < st_next_trace (ce_db c) \<and> j \<notin> held_traces c
     \<and> (\<forall>t \<in> set (st_traces (ce_db c)). t_id t = j \<longrightarrow> IsRecording t) \<and> (\<forall>m \<in> set (st_messages (ce_db c)). m_trace m \<noteq> j)"

lemma abandoned_rows:
  assumes "capture_step x c c'" and "abandoned j c"
  shows "(\<forall>t \<in> set (st_traces (ce_db c')). t_id t = j \<longrightarrow> IsRecording t) \<and> (\<forall>m \<in> set (st_messages (ce_db c')). m_trace m \<noteq> j)"
  using assms(1)
proof (cases rule: capture_step.cases)
  case (start t source target)
  then show ?thesis using assms(2)
    by (auto simp: abandoned_def handleCaptureStart_def StartWithSource_def CreateTrace_def Let_def split: if_splits)
next
  case (stop now)
  then show ?thesis using assms(2)
    by (auto simp: abandoned_def held_traces_def handleCaptureStop_def Stop_def StopTrace_def Let_def split: if_splits)
next
  case (deliver p)
  then have "fl_trace p \<noteq> j" using assms(2) by (auto simp: abandoned_def held_traces_def)
  then show ?thesis using deliver(1) assms(2)
    by (auto simp: abandoned_def deliver_def InsertMessage_def Let_def split: option.splits prod.splits if_splits)
next
  case (requested t)
  then show ?thesis using assms(2) by (auto simp: abandoned_def request_start_def CreateTrace_def Let_def)
next
  case (created i source target)
  then show ?thesis using assms(2) by (auto simp: abandoned_def start_created_def StartWithSource_def Let_def)
next
  case (halted q)
  then show ?thesis using assms(2) by (auto simp: abandoned_def stop_requested_def Stop_def)
next
  case (written q now)
  then have "fst q \<noteq> j" using assms(2) by (auto simp: abandoned_def held_traces_def)
  then show ?thesis using written(1) assms(2) by (auto simp: abandoned_def write_stopped_def StopTrace_def split: prod.splits)
next
  case (uploaded l t db)
  then show ?thesis using assms(2) upload_rows [OF uploaded(3)] by (auto simp: abandoned_def)
qed (use assms(2) in \<open>auto simp: abandoned_def IsRecording_def receive_def IncTruncated_def source_ended_def request_stop_def DeleteTrace_def UpdateTrace_def
    on_connection_def Let_def split: if_splits\<close>)

lemma abandoned_step: "capture_step x c c' \<Longrightarrow> abandoned j c \<Longrightarrow> abandoned j c'"
  using capture_step_holds [of x c c'] abandoned_rows [of x c c' j] unfolding abandoned_def
  by (metis insertE less_irrefl less_le_trans subsetD)

lemma abandoned_run: "rtranclp (capture_step x) c c' \<Longrightarrow> abandoned j c \<Longrightarrow> abandoned j c'"
  by (induction rule: rtranclp_induct) (auto intro: abandoned_step)

lemma abandoned_shown:
  "abandoned j c \<Longrightarrow> (case GetTrace j (ce_db c) of None \<Rightarrow> True | Some t \<Rightarrow> IsRecording t) \<and> CountMessages j (ce_db c) = 0 \<and> j \<noteq> ce_trace c"
  by (auto simp: abandoned_def held_traces_def GetTrace_def CountMessages_def find_Some_iff filter_empty_conv split: option.split)

section \<open>Properties\<close>

text \<open>C20: the four start requests, on any engine that can be reached. A request that is refused changes nothing, with
  status 409 exactly when a capture is in progress and 400 otherwise; any other starts a capture: the status shows
  it with its target and empty statistics, and its trace is new, has a name, is recording and holds no message. The
  target of a network source is a host and a positive port.\<close>

theorem start_requests:
  assumes "capture_reachable x c" and "plan \<in> start_plans env"
  shows "case run_start plan body c of
      (Refused st e, c') \<Rightarrow> c' = c \<and> st = (if ce_capturing c then 409 else 400)
    | (Answer a, c') \<Rightarrow> capture_reachable x c' \<and> \<not> ce_capturing c
        \<and> (\<exists>src. handleCaptureStatus c' = \<lparr>ct_capturing = True, ct_stats = no_stats, ct_trace = sr_trace a, ct_target = sr_target a, ct_source = src\<rparr>
            \<and> (src \<noteq> ''logtail'' \<longrightarrow> (\<exists>h n. h \<noteq> [] \<and> 0 < n \<and> sr_target a = h @ '':'' @ int_str n)))
        \<and> (\<exists>t. GetTrace (sr_trace a) (ce_db c') = Some t \<and> t_name t \<noteq> [] \<and> IsRecording t \<and> t_count t = 0)
        \<and> GetTrace (sr_trace a) (ce_db c) = None \<and> CountMessages (sr_trace a) (ce_db c') = 0"
proof (cases "plan body c")
  case (Refused st e)
  then show ?thesis using plan_refused [OF assms(2) Refused] by (simp add: run_start_def)
next
  case (Answer p)
  note p = plan_answer [OF assms(2) Answer]
  let ?i = "st_next_trace (ce_db c)"
  obtain c' where c': "begin_capture p c = (Answer \<lparr>sr_trace = ?i, sr_target = pl_target p, sr_filter = map_option filter_string (pl_filter p)\<rparr>, c')"
    "handleCaptureStart (pl_trace p) (pl_source p) (pl_target p) c = Inr c'"
    "handleCaptureStatus c' = \<lparr>ct_capturing = True, ct_stats = no_stats, ct_trace = ?i, ct_target = pl_target p, ct_source = pl_source p\<rparr>"
    "st_traces (ce_db c') = st_traces (ce_db c) @ [(pl_trace p)\<lparr>t_id := ?i\<rparr>]" "st_messages (ce_db c') = st_messages (ce_db c)"
    using begin_idle [of c p] p by blast
  have fresh: "find (\<lambda>t. t_id t = ?i) (st_traces (ce_db c)) = None" "filter (\<lambda>m. m_trace m = ?i) (st_messages (ce_db c)) = []"
    using fresh_trace [OF assms(1)] by (auto simp: find_None_iff filter_empty_conv)
  have "capture_reachable x c'" using assms(1) capture_step.start [OF c'(2)] by (rule capture_reachable.step)
  moreover have "GetTrace ?i (ce_db c') = Some ((pl_trace p)\<lparr>t_id := ?i\<rparr>)"
    using fresh(1) by (simp add: GetTrace_def c'(4) find_app)
  moreover have "CountMessages ?i (ce_db c') = 0" "GetTrace ?i (ce_db c) = None"
    using fresh by (simp_all add: CountMessages_def c'(5) GetTrace_def)
  ultimately show ?thesis using p c'(3) by (simp add: run_start_def Answer c'(1) target_ok_def IsRecording_def)
qed

definition sample_env :: capture_env where
  "sample_env = \<lparr>cv_stat = \<lambda>_. Inr False, cv_stamp = ''now'', cv_started = 5, cv_created = 5, cv_filter_error = \<lambda>_. []\<rparr>"

definition start_body :: string where "start_body = ''{\"host\":\"ems\"}''"

lemma start_body_request: "host_request start_body = Some (no_request\<lparr>rq_host := ''ems''\<rparr>)"
  by code_simp

theorem start_requests_witness:
  "\<exists>a c'. run_start (plan_udp sample_env) start_body empty_capture = (Answer a, c') \<and> sr_target a = ''ems:4712''
     \<and> CountMessages (sr_trace a) (ce_db c') = 0"
proof -
  have p: "plan_udp sample_env \<in> start_plans sample_env" by (simp add: start_plans_def)
  have n: "int_str 4712 = ''4712''" by code_simp
  obtain a c' where r: "run_start (plan_udp sample_env) start_body empty_capture = (Answer a, c')" "sr_target a = ''ems:4712''"
    by (simp add: run_start_def plan_udp_def start_body_request no_request_def host_port_def n begin_capture_def
        empty_capture_def NewEngine_def StartWithSource_def CreateTrace_def Let_def)
  then show ?thesis using start_requests [OF empty_capture_reachable p, of test_externals start_body] by simp
qed

text \<open>C21: two start requests that overlap. When a capture has begun between the check of a request and its start, the
  request is answered with status 500, and leaves behind a trace that is recording, holds no message and is not the
  trace the engine writes to; otherwise nothing changes. The trace stays so for good: whatever starts, stops, messages, uploads and
  renamings follow, it is never the engine's, never gets a message and is shown as recording until it is deleted.\<close>

theorem start_race:
  assumes "capture_reachable x c0" and "plan \<in> start_plans env" and "plan body c0 = Answer p"
    and "capture_reachable x c" and "ce_capturing c"
  shows "\<exists>t db. begin_capture p c = (Refused 500 ''capture already in progress'', c\<lparr>ce_db := db\<rparr>)
    \<and> GetTrace (t_id t) db = Some t \<and> GetTrace (t_id t) (ce_db c) = None \<and> IsRecording t \<and> CountMessages (t_id t) db = 0
    \<and> t_id t \<noteq> ce_trace c \<and> st_traces db = st_traces (ce_db c) @ [t] \<and> st_messages db = st_messages (ce_db c)
    \<and> (\<forall>c'. rtranclp (capture_step x) (c\<lparr>ce_db := db\<rparr>) c' \<longrightarrow>
          (case GetTrace (t_id t) (ce_db c') of None \<Rightarrow> True | Some t' \<Rightarrow> IsRecording t')
          \<and> CountMessages (t_id t) (ce_db c') = 0 \<and> t_id t \<noteq> ce_trace c')"
proof -
  note p = plan_answer [OF assms(2,3)]
  let ?i = "st_next_trace (ce_db c)"
  let ?t = "(pl_trace p)\<lparr>t_id := ?i\<rparr>" and ?db = "(ce_db c)\<lparr>st_traces := st_traces (ce_db c) @ [(pl_trace p)\<lparr>t_id := ?i\<rparr>], st_next_trace := ?i + 1\<rparr>"
  have fresh: "find (\<lambda>t. t_id t = ?i) (st_traces (ce_db c)) = None" "filter (\<lambda>m. m_trace m = ?i) (st_messages (ce_db c)) = []"
    using fresh_trace [OF assms(4)] by (auto simp: find_None_iff filter_empty_conv)
  have "begin_capture p c = (Refused 500 ''capture already in progress'', c\<lparr>ce_db := ?db\<rparr>)"
    using assms(5) by (simp add: begin_capture_def CreateTrace_def StartWithSource_def Let_def)
  moreover have "GetTrace (t_id ?t) ?db = Some ?t" using fresh(1) by (simp add: GetTrace_def find_app)
  moreover have t: "GetTrace (t_id ?t) (ce_db c) = None" "CountMessages (t_id ?t) ?db = 0" "IsRecording ?t"
    using fresh p by (simp_all add: GetTrace_def CountMessages_def IsRecording_def)
  moreover have "t_id ?t \<noteq> ce_trace c" using numbered_reachable [OF assms(4)] by (simp add: numbered_ok_def)
  moreover have "abandoned ?i (c\<lparr>ce_db := ?db\<rparr>)"
    using held_below [OF assms(4), of ?i] fresh_trace [OF assms(4)] t(3) by (auto simp: abandoned_def held_traces_def)
  then have "abandoned (t_id ?t) c'" if "rtranclp (capture_step x) (c\<lparr>ce_db := ?db\<rparr>) c'" for c'
    using abandoned_run [OF that] by simp
  ultimately show ?thesis using abandoned_shown by (intro exI [of _ ?t] exI [of _ ?db] conjI) auto
qed

text \<open>The capture that came first is stopped afterwards.\<close>

theorem start_race_witness:
  "\<exists>p (t :: trace) db. plan_udp sample_env start_body empty_capture = Answer p
     \<and> begin_capture p started_capture = (Refused 500 ''capture already in progress'', started_capture\<lparr>ce_db := db\<rparr>)
     \<and> (\<exists>c'. handleCaptureStop 9 (started_capture\<lparr>ce_db := db\<rparr>) = Inr c' \<and> CountMessages (t_id t) (ce_db c') = 0 \<and> t_id t \<noteq> ce_trace c')"
proof -
  have m: "plan_udp sample_env \<in> start_plans sample_env" by (simp add: start_plans_def)
  obtain p where p: "plan_udp sample_env start_body empty_capture = Answer p"
    by (simp add: plan_udp_def start_body_request no_request_def empty_capture_def NewEngine_def)
  have on: "ce_capturing started_capture" by (simp add: capture_defs CreateTrace_def Let_def)
  obtain t :: trace and db where t: "begin_capture p started_capture = (Refused 500 ''capture already in progress'', started_capture\<lparr>ce_db := db\<rparr>)"
      "\<forall>c'. rtranclp (capture_step test_externals) (started_capture\<lparr>ce_db := db\<rparr>) c' \<longrightarrow>
          (case GetTrace (t_id t) (ce_db c') of None \<Rightarrow> True | Some t' \<Rightarrow> IsRecording t')
          \<and> CountMessages (t_id t) (ce_db c') = 0 \<and> t_id t \<noteq> ce_trace c'"
    using start_race [OF empty_capture_reachable m p started_capture_reachable [of test_externals] on]
    by (elim exE conjE) (rule that)
  obtain c' where c': "handleCaptureStop 9 (started_capture\<lparr>ce_db := db\<rparr>) = Inr c'"
    using on by (simp add: handleCaptureStop_def Let_def)
  have "rtranclp (capture_step test_externals) (started_capture\<lparr>ce_db := db\<rparr>) c'"
    by (rule r_into_rtranclp) (rule capture_step.stop [OF c'])
  from t(2) [THEN spec, THEN mp, OF this] show ?thesis using p t(1) c' by blast
qed

end
