(* ===== verification/Producers.thy ===== *)
theory Producers
  imports Capture Eet
begin

text \<open>
  Facts about the ways a message or a frame enters the program: the messages of the log and DLT importers and of the live
  sources have a SHIP type and a direction of the enumerations of \<open>internal/model\<close>, with SPINE fields on data messages only,
  while those of an \<open>.eet\<close> file have what the file says, which nothing checks;
  and the loops that read DLT frames end on any bytes, because every frame takes some.
\<close>

section \<open>Typed messages\<close>

definition ship_msg_types :: "ship_msg_type list" where
  "ship_msg_types = [ShipMsgTypeInit, ShipMsgTypeConnectionHello, ShipMsgTypeProtocolHandshake, ShipMsgTypeConnectionPinState,
     ShipMsgTypeAccessMethods, ShipMsgTypeData, ShipMsgTypeConnectionClose, ShipMsgTypeUnknown]"

definition msg_directions :: "direction list" where
  "msg_directions = [DirectionIncoming, DirectionOutgoing, DirectionUnknown]"

definition spine_only_in_data :: "message \<Rightarrow> bool" where
  "spine_only_in_data m \<longleftrightarrow> m_type m = ShipMsgTypeData
     \<or> (m_spine m = [] \<and> m_classifier m = [] \<and> m_fn m = [] \<and> m_ctr m = [] \<and> m_ref m = [])"

definition message_typed :: "message \<Rightarrow> bool" where
  "message_typed m \<longleftrightarrow> m_type m \<in> set ship_msg_types \<and> m_dir m \<in> set msg_directions \<and> spine_only_in_data m"

lemmas typed_defs = message_typed_def ship_msg_types_def msg_directions_def spine_only_in_data_def

lemma class_type: "classifyShipMessage x s = Inr c \<Longrightarrow> c_type c \<in> set ship_msg_types"
  by (auto simp: classifyShipMessage_def checked_class_def plain_class_def ship_msg_types_def split: option.splits if_splits)

lemma ship_parse_type: "ParseShipFromJSON x s = Inr r \<Longrightarrow> sp_type r \<in> set ship_msg_types"
  by (auto simp: ParseShipFromJSON_def dest: class_type split: sum.splits)

lemma ship_parse_spine: "ParseShipFromJSON x s = Inr r \<Longrightarrow> sp_spine r = Some d \<Longrightarrow> sp_type r = ShipMsgTypeData"
  by (auto simp: ParseShipFromJSON_def split: sum.splits if_splits)

lemma peer_typed: "message_typed (fill_peer d p m) \<longleftrightarrow> message_typed m"
  by (simp add: fill_peer_def typed_defs)

lemma filled_typed: "m_type m = ShipMsgTypeData \<Longrightarrow> m_dir m \<in> set msg_directions \<Longrightarrow> message_typed (FillFromSpine r m)"
  by (simp add: FillFromSpine_def typed_defs)

lemma plain_typed:
  "m_type m \<in> set ship_msg_types \<Longrightarrow> m_dir m \<in> set msg_directions \<Longrightarrow> m_spine m = [] \<Longrightarrow> m_classifier m = [] \<Longrightarrow> m_fn m = []
     \<Longrightarrow> m_ctr m = [] \<Longrightarrow> m_ref m = [] \<Longrightarrow> message_typed m"
  by (simp add: message_typed_def spine_only_in_data_def)

lemma listed_types: "ShipMsgTypeData \<in> set ship_msg_types" "ShipMsgTypeUnknown \<in> set ship_msg_types" "ShipMsgTypeInit \<in> set ship_msg_types"
  by (simp_all add: ship_msg_types_def)

lemma listed_directions:
  "DirectionIncoming \<in> set msg_directions" "DirectionOutgoing \<in> set msg_directions" "DirectionUnknown \<in> set msg_directions"
  by (simp_all add: msg_directions_def)

lemmas typing = peer_typed listed_types listed_directions empty_message_def

lemma built_typed: "d \<in> set msg_directions \<Longrightarrow> message_typed (BuildMessageFromJSON x j n t d p)"
  unfolding BuildMessageFromJSON_def Let_def peer_typed
  by (auto simp: typing split: option.splits sum.splits intro!: filled_typed plain_typed dest: ship_parse_spine ship_parse_type)

lemma log_typed: "d \<in> set msg_directions \<Longrightarrow> message_typed (log_message x j n t d p)"
  unfolding log_message_def Let_def peer_typed
  by (auto simp: typing split: option.splits sum.splits intro!: filled_typed plain_typed dest: ship_parse_spine ship_parse_type)

lemma hub_typed: "d \<in> set msg_directions \<Longrightarrow> message_typed (hub_message x j n t d p)"
  unfolding hub_message_def Let_def peer_typed
  by (auto simp: typing split: option.splits sum.splits intro!: filled_typed plain_typed dest: ship_parse_spine ship_parse_type)

lemma evcc_typed: "d \<in> set msg_directions \<Longrightarrow> message_typed (evcc_message x j n t d p)"
  unfolding evcc_message_def Let_def peer_typed by (auto simp: typing intro!: plain_typed built_typed)

lemma extracted_direction: "ExtractEEBusFromDLTPayload a c p = Some (Extracted j d) \<Longrightarrow> d \<in> set msg_directions"
  by (auto simp: ExtractEEBusFromDLTPayload_def generic_scan_def msg_directions_def Let_def split: option.splits if_splits)

lemma frame_typed: "DLTFrameToMessage x f n = FrameMessage m \<Longrightarrow> message_typed m"
  by (auto simp: DLTFrameToMessage_def dest: extracted_direction intro: built_typed split: option.splits dlt_extract.splits if_splits)

lemma entry_typed: "entry_message x b n t d p j = Some m \<Longrightarrow> message_typed m"
  by (auto simp: entry_message_def typing intro!: log_typed split: option.splits)

lemma parsed_typed: "d \<in> set msg_directions \<Longrightarrow> message_typed ((Parse x raw i n ts)\<lparr>m_src_addr := a, m_dir := d\<rparr>)"
  by (auto simp: Parse_def Let_def typed_defs set_spine_def empty_message_def
      dest: class_type [unfolded ship_msg_types_def] split: sum.splits)

text \<open>The messages an import has collected.\<close>

definition import_typed :: "import_state \<Rightarrow> bool" where
  "import_typed st \<longleftrightarrow> list_all message_typed (im_msgs st)"

lemma import_typed_simps [simp]:
  "import_typed import_init" "import_typed (note_time t st) \<longleftrightarrow> import_typed st" "import_typed (skip_truncated st) \<longleftrightarrow> import_typed st"
  "import_typed (st\<lparr>im_seq := n\<rparr>) \<longleftrightarrow> import_typed st" "import_typed (add_message m st) \<longleftrightarrow> import_typed st \<and> message_typed m"
  by (auto simp: import_typed_def import_init_def note_time_def skip_truncated_def add_message_def)

lemma steps_typed:
  assumes "import_typed st"
  shows "import_typed (log_step x b l st)" "import_typed (tester_step x l st)" "import_typed (hub_step x l st)"
    "import_typed (evcc_step x l st)" "import_typed (dlt_text_step x l st)" "import_typed (dlt_frame_step x f st)"
  using assms
  by (auto simp: log_step_def tester_step_def hub_step_def evcc_step_def dlt_text_step_def dlt_frame_step_def Let_def typing
      dest: extracted_direction frame_typed intro!: built_typed hub_typed evcc_typed
      split: option.splits dlt_extract.splits frame_result.splits if_splits)

lemma fold_typed:
  assumes "\<And>l st. import_typed st \<Longrightarrow> import_typed (step l st)"
  shows "import_typed st \<Longrightarrow> import_typed (fold step ls st)"
  by (induction ls arbitrary: st) (simp_all add: assms)

lemma finish_typed: "finish_import e n now st = Inr (t, out) \<Longrightarrow> import_typed st \<Longrightarrow> list_all message_typed out"
  by (auto simp: finish_import_def import_typed_def split: if_splits)

lemma lines_typed:
  assumes "import_lines a b step n now s = Inr (t, out)" and "\<And>l st. import_typed st \<Longrightarrow> import_typed (step l st)"
  shows "list_all message_typed out"
proof -
  obtain ls where "finish_import b n now (fold (\<lambda>l st. if l = [] then st else step l st) ls import_init) = Inr (t, out)"
    using assms(1) by (auto simp: import_lines_def split: option.splits)
  then show ?thesis by (rule finish_typed) (rule fold_typed, simp_all add: assms(2))
qed

lemma import_as_typed: "import_as x now n s f = Some (Inr (t, out)) \<Longrightarrow> list_all message_typed out"
  by (cases f) (auto simp: import_as_def ImportLogFile_def ImportEEBusTesterLogFile_def ImportEEBusHubLogFile_def
      ImportDLTTextLogFile_def ImportEVCCLogFile_def intro: steps_typed elim!: lines_typed)

lemma auto_typed: "ImportLogFileAutoDetect x now n s = Inr (t, out) \<Longrightarrow> list_all message_typed out"
  by (auto simp: ImportLogFileAutoDetect_def intro: import_as_typed split: option.splits)

lemma binary_typed: "ImportDLTBinaryFile x now n s = Inr (t, out) \<Longrightarrow> list_all message_typed out"
  by (auto simp: ImportDLTBinaryFile_def elim!: finish_typed intro!: fold_typed steps_typed
      split: prod.splits option.splits)

lemma map_filter_all: "(\<And>x y. f x = Some y \<Longrightarrow> P y) \<Longrightarrow> list_all P (List.map_filter f xs)"
  by (induction xs) (auto simp: List.map_filter_simps split: option.splits)

lemma tail_typed: "list_all message_typed (LogTailRun x b polls)"
  unfolding LogTailRun_def
  by (rule map_filter_all) (auto simp: processLine_def Let_def intro: entry_typed split: option.splits if_splits)

lemma tcp_typed: "list_all message_typed (TCPRun x b e reads)"
  unfolding TCPRun_def by (rule map_filter_all) (auto intro: entry_typed)

definition stream_typed :: "dlt_stream \<Rightarrow> bool" where
  "stream_typed st \<longleftrightarrow> list_all message_typed (ds_emitted st)"

lemma stream_frame_typed: "stream_typed st \<Longrightarrow> stream_typed (stream_frame x f fr st)"
  by (auto simp: stream_frame_def stream_typed_def Let_def dest: frame_typed split: frame_result.splits)

lemma read_typed: "stream_typed st \<Longrightarrow> stream_typed (readUntilClosed x f now s st)"
proof (induction x f now s st rule: readUntilClosed.induct)
  case (1 x f now s st)
  then have "stream_typed (count_read st)" by (simp add: stream_typed_def count_read_def)
  then show ?case using 1 by (subst readUntilClosed.simps) (auto simp: stream_frame_typed split: sum.splits)
qed

lemma connections_typed: "stream_typed st \<Longrightarrow> stream_typed (snd (dlt_connections x f now b as st))"
  by (induction x f now b as st rule: dlt_connections.induct) (auto simp: read_typed split: prod.splits)

lemma dlt_typed: "list_all message_typed (ds_emitted (snd (DLTRun x f now as)))"
  using connections_typed [of "\<lparr>ds_reads = 0, ds_seq = 0, ds_emitted = [], ds_truncated = 0\<rparr>" x f now "sec 1" as]
  by (simp add: DLTRun_def stream_typed_def)

text \<open>What a source hands to the engine: a typed message or a packet that is still to be parsed.\<close>

definition source_message :: "message \<Rightarrow> bool" where
  "source_message m \<longleftrightarrow> message_typed m \<or> (\<exists>target raw. raw \<noteq> [] \<and> m = udp_message target raw)"

lemma captured_typed: "source_message m \<Longrightarrow> message_typed (captured_message x now i n m)"
proof -
  have e: "[] \<notin> set ship_msg_types" by (simp add: ship_msg_types_def ship_types)
  assume "source_message m"
  then consider (typed) "message_typed m" | (raw) target raw where "raw \<noteq> []" "m = udp_message target raw"
    unfolding source_message_def by blast
  then show ?thesis
  proof cases
    case typed
    then have "m_type m \<noteq> []" using e by (auto simp: message_typed_def)
    then show ?thesis using typed by (simp add: captured_message_def Let_def message_typed_def spine_only_in_data_def)
  next
    case raw
    then have "captured_message x now i n m = (Parse x raw i n now)\<lparr>m_src_addr := target, m_dir := DirectionIncoming\<rparr>"
      by (simp add: captured_message_def udp_message_def empty_message_def)
    then show ?thesis by (simp add: parsed_typed listed_directions)
  qed
qed

text \<open>A trace file: the entries are copied as they are.\<close>

lemma trace_file_entries:
  assumes "ImportTrace x now s = Done (t, out)"
  shows "\<exists>v u tr es. decoder_value s = Some v \<and> un_eet v = Some (u, tr, map Some es) \<and> out = map message_of_eet es"
proof -
  from assms obtain v u tr es where e: "decoder_value s = Some v" "un_eet v = Some (u, tr, es)" "None \<notin> set es"
      "out = map (\<lambda>e. message_of_eet (the e)) es"
    by (auto simp: ImportTrace_def split: option.splits if_splits)
  have "map Some (map the es) = es" using e(3) by (induction es) auto
  then show ?thesis using e(1,2,4) by (metis (no_types, lifting) comp_apply list.map_comp map_eq_conv)
qed

lemma import_as_None: "import_as x now name s f = None \<longleftrightarrow> f = LogFormatUnknown" "import_as x now name s LogFormatUnknown = None"
  by (cases f) (simp_all add: import_as_def)

lemma detected_import:
  "ImportFileAutoDetect x now name s = Done (t, out) \<Longrightarrow>
     if is_dlt_file s \<or> DetectLogFormat (take 4096 s) \<noteq> LogFormatUnknown then list_all message_typed out
     else ImportTrace x now s = Done (t, out)"
  by (auto simp: ImportFileAutoDetect_def of_sum_def import_as_typed binary_typed import_as_None
      split: sum.splits option.splits if_splits)

section \<open>Frames\<close>

text \<open>The two loops over DLT frames as the code writes them, without a measure: the value of such a function is \<open>None\<close> where the loop
  never leaves. The body of the first collects the frame; that of the second is \<open>stream_frame\<close>.\<close>

partial_function (option) frame_loop :: "dlt_message list \<Rightarrow> bytes \<Rightarrow> (read_error option \<times> dlt_message list) option" where
  "frame_loop seen s = (case ReadDLTMessage s of
       Inl e \<Rightarrow> Some (if e = EOF then None else Some e, seen)
     | Inr (f, r) \<Rightarrow> frame_loop (seen @ [f]) r)"

partial_function (option) stream_loop ::
  "externals \<Rightarrow> dlt_filter \<Rightarrow> (nat \<Rightarrow> time) \<Rightarrow> bytes \<Rightarrow> dlt_stream \<Rightarrow> dlt_stream option" where
  "stream_loop x f now s st = (case ReadDLTMessageStream s (now (ds_reads st)) of
       Inl _ \<Rightarrow> Some (count_read st)
     | Inr (fr, r) \<Rightarrow> stream_loop x f now r (stream_frame x f fr (count_read st)))"

lemma frame_loop_ends: "frame_loop seen s = Some (case read_frames s of (e, fs) \<Rightarrow> (e, seen @ fs))"
proof (induction s arbitrary: seen rule: read_frames.induct)
  case (1 s)
  then show ?case
    by (subst frame_loop.simps, subst read_frames.simps) (auto split: sum.splits prod.splits)
qed

lemma stream_loop_ends: "stream_loop x f now s st = Some (readUntilClosed x f now s st)"
proof (induction x f now s st rule: readUntilClosed.induct)
  case (1 x f now s st)
  then show ?case
    by (subst stream_loop.simps, subst readUntilClosed.simps) (auto split: sum.splits prod.splits)
qed

text \<open>The number of reads a connection makes.\<close>

lemma stream_frame_reads: "ds_reads (stream_frame x f fr st) = ds_reads st"
  by (simp add: stream_frame_def Let_def split: frame_result.splits)

lemma ReadStream_takes: "ReadDLTMessageStream s t = Inr (m, r) \<Longrightarrow> length r + 4 \<le> length s"
  by (auto simp: ReadDLTMessageStream_def bind_err_Inr dest!: readStandard_progress)

lemma read_frames_bound: "20 * length (snd (read_frames s)) \<le> length s"
proof (induction s rule: read_frames.induct)
  case (1 s)
  show ?case
  proof (cases "ReadDLTMessage s")
    case (Inl e)
    then show ?thesis by (subst read_frames.simps) simp
  next
    case (Inr p)
    obtain f r where p: "p = (f, r)" by (cases p)
    then have "length r + 20 \<le> length s" using Inr ReadDLTMessage_progress [of s f r] by auto
    then show ?thesis using 1 [OF Inr p [symmetric]] Inr p by (subst read_frames.simps) (auto split: prod.splits)
  qed
qed

lemma readUntilClosed_reads: "ds_reads (readUntilClosed x f now s st) \<le> Suc (ds_reads st + length s div 4)"
proof (induction x f now s st rule: readUntilClosed.induct)
  case (1 x f now s st)
  show ?case
  proof (cases "ReadDLTMessageStream s (now (ds_reads st))")
    case (Inl e)
    then show ?thesis by (subst readUntilClosed.simps) (simp add: count_read_def)
  next
    case (Inr p)
    obtain fr r where p: "p = (fr, r)" by (cases p)
    then have "length r + 4 \<le> length s" using Inr ReadStream_takes by simp
    then have "Suc (length r div 4) \<le> length s div 4" by linarith
    then show ?thesis using 1 [OF Inr p [symmetric]] Inr p
      by (subst readUntilClosed.simps) (simp add: stream_frame_reads count_read_def)
  qed
qed

section \<open>Properties\<close>

text \<open>C29: every message of a log or DLT file that is imported, and every message a log tail, a TCP stream or a DLT stream
  delivers to the engine, has a SHIP type and a direction of the enumerations and SPINE fields only on type \<open>data\<close>. A UDP packet makes
  such a message exactly when it is not empty: an empty packet becomes a message without a type. The import of an
  \<open>.eet\<close> file checks neither: each message has the type and the direction that the file's entry has.\<close>

theorem messages_typed:
  "(ImportLogFileAutoDetect x now name s = Inr (t, out) \<or> ImportDLTBinaryFile x now name s = Inr (t, out) \<longrightarrow> list_all message_typed out)
   \<and> (ImportFileAutoDetect x now name s = Done (t, out) \<longrightarrow>
        (if is_dlt_file s \<or> DetectLogFormat (take 4096 s) \<noteq> LogFormatUnknown then list_all message_typed out
         else \<exists>v u tr es. decoder_value s = Some v \<and> un_eet v = Some (u, tr, map Some es)
           \<and> map m_type out = map em_type es \<and> map m_dir out = map em_dir es))
   \<and> (m \<in> set (LogTailRun x base polls @ TCPRun x base at_end chunks @ ds_emitted (snd (DLTRun x f clock as)))
        \<longrightarrow> message_typed (captured_message x now i k m))
   \<and> (message_typed (captured_message x now i k (udp_message target raw)) \<longleftrightarrow> raw \<noteq> [])"
proof (intro conjI impI)
  show "list_all message_typed out" if "ImportLogFileAutoDetect x now name s = Inr (t, out) \<or> ImportDLTBinaryFile x now name s = Inr (t, out)"
    using that auto_typed binary_typed by blast
  show "if is_dlt_file s \<or> DetectLogFormat (take 4096 s) \<noteq> LogFormatUnknown then list_all message_typed out
      else \<exists>v u tr es. decoder_value s = Some v \<and> un_eet v = Some (u, tr, map Some es)
        \<and> map m_type out = map em_type es \<and> map m_dir out = map em_dir es"
    if "ImportFileAutoDetect x now name s = Done (t, out)"
    using detected_import [OF that] trace_file_entries [of x now s t out]
    by (auto simp: message_of_eet_def)
  show "message_typed (captured_message x now i k m)"
    if "m \<in> set (LogTailRun x base polls @ TCPRun x base at_end chunks @ ds_emitted (snd (DLTRun x f clock as)))"
    by (rule captured_typed, unfold source_message_def, rule disjI1)
      (use that tail_typed [of x base polls] tcp_typed [of x base at_end chunks] dlt_typed [of x f clock as] in \<open>auto simp: list_all_iff\<close>)
  have "\<not> message_typed (captured_message x now i k (udp_message target []))"
    by (simp add: captured_message_def udp_message_def empty_message_def message_typed_def ship_msg_types_def ship_types)
  then show "message_typed (captured_message x now i k (udp_message target raw)) \<longleftrightarrow> raw \<noteq> []"
    using captured_typed [of "udp_message target raw" x now i k] by (auto simp: source_message_def)
qed

theorem messages_typed_witness:
  "m_type (captured_message test_externals 5 1 1 (udp_message ''ems:4712'' [CHR 0x00])) \<in> set ship_msg_types
   \<and> \<not> message_typed (captured_message test_externals 5 1 1 (udp_message ''ems:4712'' []))"
proof -
  note udp = messages_typed [where x = test_externals and now = 5 and i = 1 and k = 1 and target = "''ems:4712''", THEN conjunct2, THEN conjunct2, THEN conjunct2]
  have "message_typed (captured_message test_externals 5 1 1 (udp_message ''ems:4712'' [CHR 0x00]))" unfolding udp by (rule list.distinct(2))
  then have "m_type (captured_message test_externals 5 1 1 (udp_message ''ems:4712'' [CHR 0x00])) \<in> set ship_msg_types"
    unfolding message_typed_def by (rule conjunct1)
  moreover have "\<not> message_typed (captured_message test_externals 5 1 1 (udp_message ''ems:4712'' []))" unfolding udp by (rule notI, erule notE, rule refl)
  ultimately show ?thesis by (rule conjI)
qed

text \<open>C30: the loops over DLT frames return, whatever the bytes are: written as the code has them, with a read, the exits and the next round,
  where a loop that never leaves would have no value, they have the value of \<open>read_frames\<close> and of \<open>readUntilClosed\<close>.
  A file is left after at most one frame for each twenty of its bytes, a connection after at most one read for each four and one more.\<close>

theorem frame_loops_end:
  "frame_loop [] s = Some (read_frames s) \<and> 20 * length (snd (read_frames s)) \<le> length s
   \<and> stream_loop x f clock s st = Some (readUntilClosed x f clock s st)
   \<and> ds_reads (readUntilClosed x f clock s st) \<le> ds_reads st + length s div 4 + 1"
  using readUntilClosed_reads [of x f clock s st]
  by (simp add: frame_loop_ends stream_loop_ends read_frames_bound)

end
