(* ===== verification/EditApi.thy ===== *)
theory EditApi
  imports AnalysisApi TimeSeries
begin

text \<open>
  The handlers that edit what a user keeps beside the traces: \<open>charts.go\<close> (its data request is in \<open>TimeSeries\<close>),
  \<open>bookmarks.go\<close> and \<open>presets.go\<close> of \<open>internal/api\<close>. Each returns its answer and the database. The answer \<open>()\<close> is the
  empty response with status 204; a created object is answered with status 201, anything else with 200. A request is one step: a change of a
  chart reads it and writes all its columns back, and of two changes of a chart that overlap the later write would undo the other.
\<close>

section \<open>Charts\<close>

definition handleListCharts :: "string \<Rightarrow> store \<Rightarrow> chart_definition list answer" where
  "handleListCharts idText s = for_trace idText (\<lambda>i. Answer (ChartList (Some i) s))"

definition unless_empty :: "string \<Rightarrow> string \<Rightarrow> string" where "unless_empty v d = (if v = [] then d else v)"

record chart_request =
  cq_name :: "string option"
  cq_type :: "string option"
  cq_sources :: "string option"

text \<open>The members of both bodies; where a body has plain strings, an absent one is empty.\<close>

definition chart_request_of :: "string \<Rightarrow> chart_request option" where
  "chart_request_of body = do {
     v \<leftarrow> decoder_value body;
     m \<leftarrow> un_map v;
     n \<leftarrow> fld_ptr un_string m ''name'';
     t \<leftarrow> fld_ptr un_string m ''chartType'';
     src \<leftarrow> fld_ptr un_string m ''sources'';
     Some \<lparr>cq_name = n, cq_type = t, cq_sources = src\<rparr> }"

definition plain_text :: "string option \<Rightarrow> string" where "plain_text v = (case v of None \<Rightarrow> [] | Some t \<Rightarrow> t)"

definition new_chart :: "int \<Rightarrow> chart_request \<Rightarrow> chart_definition" where
  "new_chart i r = \<lparr>cd_id = 0, cd_name = plain_text (cq_name r), cd_trace = Some i, cd_type = unless_empty (plain_text (cq_type r)) ''line'',
     cd_built_in = False, cd_sources = unless_empty (plain_text (cq_sources r)) ''[]'', cd_created = zero_time\<rparr>"

definition handleCreateChart :: "web \<Rightarrow> string \<Rightarrow> string \<Rightarrow> store \<Rightarrow> chart_definition answer \<times> store" where
  "handleCreateChart w idText body s = (case parseID idText of
       None \<Rightarrow> (Refused 400 ''invalid trace ID'', s)
     | Some i \<Rightarrow> (case chart_request_of body of
         None \<Rightarrow> (Refused 400 ''invalid JSON'', s)
       | Some r \<Rightarrow> if plain_text (cq_name r) = [] then (Refused 400 ''name is required'', s)
           else (case ChartCreate (wb_now w) (new_chart i r) s of
               None \<Rightarrow> (Refused 500 (wb_db_error w), s)
             | Some (c, s') \<Rightarrow> (Answer c, s'))))"

definition handleGetChart :: "string \<Rightarrow> store \<Rightarrow> chart_definition answer" where
  "handleGetChart idText s = (case parseID idText of
       None \<Rightarrow> Refused 400 ''invalid chart ID''
     | Some i \<Rightarrow> (case ChartGet i s of None \<Rightarrow> Refused 404 ''chart not found'' | Some c \<Rightarrow> Answer c))"

definition edited :: "chart_request \<Rightarrow> chart_definition \<Rightarrow> chart_definition" where
  "edited r c = c\<lparr>cd_name := (case cq_name r of None \<Rightarrow> cd_name c | Some v \<Rightarrow> v),
     cd_type := (case cq_type r of None \<Rightarrow> cd_type c | Some v \<Rightarrow> v),
     cd_sources := (case cq_sources r of None \<Rightarrow> cd_sources c | Some v \<Rightarrow> v)\<rparr>"

definition handleUpdateChart :: "string \<Rightarrow> string \<Rightarrow> store \<Rightarrow> chart_definition answer \<times> store" where
  "handleUpdateChart idText body s = (case parseID idText of
       None \<Rightarrow> (Refused 400 ''invalid chart ID'', s)
     | Some i \<Rightarrow> (case ChartGet i s of
         None \<Rightarrow> (Refused 404 ''chart not found'', s)
       | Some c \<Rightarrow> (case chart_request_of body of
           None \<Rightarrow> (Refused 400 ''invalid JSON'', s)
         | Some r \<Rightarrow> (Answer (edited r c), ChartUpdate (edited r c) s))))"

definition handleDeleteChart :: "string \<Rightarrow> store \<Rightarrow> unit answer \<times> store" where
  "handleDeleteChart idText s = (case parseID idText of
       None \<Rightarrow> (Refused 400 ''invalid chart ID'', s)
     | Some i \<Rightarrow> (case ChartDelete i s of
         Inl e \<Rightarrow> (Refused (if e = ''cannot delete built-in chart'' then 403 else if e = ''chart definition not found'' then 404 else 500) e, s)
       | Inr s' \<Rightarrow> (Answer (), s')))"

section \<open>Bookmarks\<close>

definition handleListBookmarks :: "web \<Rightarrow> string \<Rightarrow> store \<Rightarrow> bookmark list answer" where
  "handleListBookmarks w idText s = for_trace idText (\<lambda>i. Answer (BookmarkList (wb_engine w) i s))"

definition un_bookmark :: "string \<Rightarrow> bookmark option" where
  "un_bookmark body = do {
     v \<leftarrow> decoder_value body;
     m \<leftarrow> un_map v;
     i \<leftarrow> fld_val un_int 0 m ''id'';
     j \<leftarrow> fld_val un_int 0 m ''messageId'';
     t \<leftarrow> fld_val un_int 0 m ''traceId'';
     l \<leftarrow> fld_val un_string [] m ''label'';
     c \<leftarrow> fld_val un_string [] m ''color'';
     n \<leftarrow> fld_val un_string [] m ''note'';
     ts \<leftarrow> fld_val un_time zero_time m ''createdAt'';
     Some \<lparr>b_id = i, b_message = j, b_trace = t, b_label = l, b_color = c, b_note = n, b_created = ts\<rparr> }"

definition handleCreateBookmark :: "web \<Rightarrow> string \<Rightarrow> string \<Rightarrow> store \<Rightarrow> bookmark answer \<times> store" where
  "handleCreateBookmark w idText body s = (case parseID idText of
       None \<Rightarrow> (Refused 400 ''invalid trace ID'', s)
     | Some i \<Rightarrow> (case un_bookmark body of
         None \<Rightarrow> (Refused 400 ''invalid JSON'', s)
       | Some b \<Rightarrow> if b_message b = 0 then (Refused 400 ''messageId is required'', s)
           else (case BookmarkCreate (wb_now w) (b\<lparr>b_trace := i\<rparr>) s of
               None \<Rightarrow> (Refused 500 (wb_db_error w), s)
             | Some (b', s') \<Rightarrow> (Answer b', s'))))"

definition handleDeleteBookmark :: "string \<Rightarrow> store \<Rightarrow> unit answer \<times> store" where
  "handleDeleteBookmark idText s = (case parseID idText of
       None \<Rightarrow> (Refused 400 ''invalid bookmark ID'', s)
     | Some i \<Rightarrow> (Answer (), BookmarkDelete i s))"

section \<open>Filter presets\<close>

definition handleListPresets :: "web \<Rightarrow> store \<Rightarrow> filter_preset list answer" where
  "handleListPresets w s = Answer (PresetList (wb_engine w) s)"

definition un_preset :: "string \<Rightarrow> filter_preset option" where
  "un_preset body = do {
     v \<leftarrow> decoder_value body;
     m \<leftarrow> un_map v;
     i \<leftarrow> fld_val un_int 0 m ''id'';
     n \<leftarrow> fld_val un_string [] m ''name'';
     f \<leftarrow> fld_val un_string [] m ''filter'';
     ts \<leftarrow> fld_val un_time zero_time m ''createdAt'';
     Some \<lparr>fp_id = i, fp_name = n, fp_filter = f, fp_created = ts\<rparr> }"

definition handleCreatePreset :: "web \<Rightarrow> string \<Rightarrow> store \<Rightarrow> filter_preset answer \<times> store" where
  "handleCreatePreset w body s = (case un_preset body of
       None \<Rightarrow> (Refused 400 ''invalid JSON'', s)
     | Some p \<Rightarrow> if fp_name p = [] then (Refused 400 ''name is required'', s)
         else (case PresetCreate (wb_now w) p s of (p', s') \<Rightarrow> (Answer p', s')))"

definition handleDeletePreset :: "string \<Rightarrow> store \<Rightarrow> unit answer \<times> store" where
  "handleDeletePreset idText s = (case parseID idText of
       None \<Rightarrow> (Refused 400 ''invalid preset ID'', s)
     | Some i \<Rightarrow> (Answer (), PresetDelete i s))"

section \<open>Lemmas: charts by id\<close>

lemma get_created:
  assumes "store_ok s" and "ChartCreate now c s = Some (c', s')"
  shows "ChartGet (cd_id c') s = None \<and> c' = c\<lparr>cd_id := cd_id c'\<rparr>
    \<and> ChartGet j s' = (if j = cd_id c' then Some (c'\<lparr>cd_created := now\<rparr>) else ChartGet j s)"
proof -
  have c: "c' = c\<lparr>cd_id := st_next_chart s\<rparr>" "st_charts s' = st_charts s @ [c'\<lparr>cd_created := now\<rparr>]"
    using assms(2) by (auto simp: ChartCreate_def Let_def split: if_splits option.splits)
  have i: "cd_id c' = st_next_chart s" by (simp add: c(1))
  have "cd_id (c'\<lparr>cd_created := now\<rparr>) = st_next_chart s" by (simp add: i)
  note get = charts.lookup_inserted [OF assms(1) c(2) this, of j] charts.lookup_fresh [OF assms(1)]
  have "c' = c\<lparr>cd_id := cd_id c'\<rparr>" by (unfold i) (rule c(1))
  moreover have "ChartGet (cd_id c') s = None" unfolding ChartGet_def i by (rule get(2))
  moreover have "ChartGet j s' = (if j = cd_id c' then Some (c'\<lparr>cd_created := now\<rparr>) else ChartGet j s)"
    unfolding ChartGet_def get(1) by simp
  ultimately show ?thesis by (intro conjI)
qed

lemma get_updated:
  assumes "ChartGet (cd_id c) s = Some old" and "cd_trace c = cd_trace old" "cd_built_in c = cd_built_in old" "cd_created c = cd_created old"
  shows "ChartGet j (ChartUpdate c s) = (if j = cd_id c then Some c else ChartGet j s)"
proof -
  let ?f = "\<lambda>r. r\<lparr>cd_name := cd_name c, cd_type := cd_type c, cd_sources := cd_sources c\<rparr>"
  have "cd_id old = cd_id c" using charts.lookup_key [OF assms(1) [unfolded ChartGet_def]] by (rule conjunct2)
  then have "?f old = c" using assms(2-4) by (cases old; cases c) simp
  moreover have "st_charts (ChartUpdate c s) = map (\<lambda>r. if cd_id r = cd_id c then ?f r else r) (st_charts s)" by (simp add: ChartUpdate_def)
  ultimately show ?thesis using charts.lookup_updated [of "ChartUpdate c s" "cd_id c" ?f s j] assms(1)
    by (cases "j = cd_id c") (simp_all add: ChartGet_def)
qed

lemma get_deleted:
  assumes "ChartDelete i s = Inr s'"
  shows "(\<exists>c. ChartGet i s = Some c \<and> \<not> cd_built_in c) \<and> ChartGet j s' = (if j = i then None else ChartGet j s)"
  using assms charts.lookup_deleted [of s' i s j] by (auto simp: ChartDelete_def ChartGet_def split: option.splits if_splits)

section \<open>Properties\<close>

text \<open>C31: the chart requests implement the operations of a map from ids to charts, on every database that can be reached. A request
  that is refused changes nothing. A created chart has a new id, belongs to the trace of the URL and is found under its id; an
  update puts the given fields into the chart found; a deletion removes a chart that is not built in; the other charts stay as they are.\<close>

theorem chart_editing:
  assumes "store_reachable s"
  shows "(case handleCreateChart w idText body s of
      (Refused _ _, s') \<Rightarrow> s' = s
    | (Answer c, s') \<Rightarrow> store_reachable s' \<and> ChartGet (cd_id c) s = None \<and> cd_name c \<noteq> [] \<and> \<not> cd_built_in c \<and> cd_trace c = parseID idText
        \<and> (\<lambda>j. ChartGet j s') = (\<lambda>j. ChartGet j s)(cd_id c \<mapsto> c\<lparr>cd_created := wb_now w\<rparr>))
   \<and> (case handleUpdateChart idText body s of
      (Refused _ _, s') \<Rightarrow> s' = s
    | (Answer c, s') \<Rightarrow> store_reachable s' \<and> (\<exists>i old r. parseID idText = Some i \<and> ChartGet i s = Some old \<and> chart_request_of body = Some r
        \<and> c = edited r old \<and> (\<lambda>j. ChartGet j s') = (\<lambda>j. ChartGet j s)(i \<mapsto> c)))
   \<and> (case handleDeleteChart idText s of
      (Refused _ _, s') \<Rightarrow> s' = s
    | (Answer _, s') \<Rightarrow> store_reachable s' \<and> (\<exists>i old. parseID idText = Some i \<and> ChartGet i s = Some old \<and> \<not> cd_built_in old
        \<and> (\<lambda>j. ChartGet j s') = (\<lambda>j. ChartGet j s)(i := None)))"
proof -
  note ok = store_reachable_ok [OF assms]
  have create: "store_reachable s' \<and> ChartGet (cd_id c) s = None \<and> cd_name c = cd_name n \<and> cd_trace c = cd_trace n \<and> \<not> cd_built_in c
      \<and> (\<lambda>j. ChartGet j s') = (\<lambda>j. ChartGet j s)(cd_id c \<mapsto> c\<lparr>cd_created := wb_now w\<rparr>)"
    if "ChartCreate (wb_now w) n s = Some (c, s')" "\<not> cd_built_in n" for n c s'
  proof -
    have "c = n\<lparr>cd_id := cd_id c\<rparr>" using get_created [OF ok that(1)] by blast
    then have "cd_name c = cd_name n" "cd_trace c = cd_trace n" "cd_built_in c = cd_built_in n" by (metis chart_definition.select_convs chart_definition.surjective chart_definition.update_convs(1))+
    then show ?thesis using get_created [OF ok that(1)] that(2) store_reachable.step [OF assms store_step.chart [OF that(2,1)]] by (auto simp: fun_eq_iff)
  qed
  have update: "(\<lambda>j. ChartGet j (ChartUpdate (edited r old) s)) = (\<lambda>j. ChartGet j s)(i \<mapsto> edited r old)"
    if "ChartGet i s = Some old" for i old r
  proof -
    have i: "cd_id (edited r old) = i" using that by (auto simp: ChartGet_def edited_def dest: find_Some_in)
    show ?thesis using get_updated [of "edited r old" s old] that unfolding i by (auto simp: edited_def fun_eq_iff)
  qed
  have c: "case handleCreateChart w idText body s of
      (Refused _ _, s') \<Rightarrow> s' = s
    | (Answer c, s') \<Rightarrow> store_reachable s' \<and> ChartGet (cd_id c) s = None \<and> cd_name c \<noteq> [] \<and> \<not> cd_built_in c \<and> cd_trace c = parseID idText
        \<and> (\<lambda>j. ChartGet j s') = (\<lambda>j. ChartGet j s)(cd_id c \<mapsto> c\<lparr>cd_created := wb_now w\<rparr>)"
    by (auto simp: handleCreateChart_def new_chart_def split: option.splits dest!: create)
  have u: "case handleUpdateChart idText body s of
      (Refused _ _, s') \<Rightarrow> s' = s
    | (Answer c, s') \<Rightarrow> store_reachable s' \<and> (\<exists>i old r. parseID idText = Some i \<and> ChartGet i s = Some old \<and> chart_request_of body = Some r
        \<and> c = edited r old \<and> (\<lambda>j. ChartGet j s') = (\<lambda>j. ChartGet j s)(i \<mapsto> c))"
    using store_reachable.step [OF assms store_step.change_chart] update by (simp add: handleUpdateChart_def split: option.splits)
  have d: "case handleDeleteChart idText s of
      (Refused _ _, s') \<Rightarrow> s' = s
    | (Answer _, s') \<Rightarrow> store_reachable s' \<and> (\<exists>i old. parseID idText = Some i \<and> ChartGet i s = Some old \<and> \<not> cd_built_in old
        \<and> (\<lambda>j. ChartGet j s') = (\<lambda>j. ChartGet j s)(i := None))"
    using store_reachable.step [OF assms store_step.drop_chart] get_deleted
    by (fastforce simp: handleDeleteChart_def fun_eq_iff split: option.splits sum.splits)
  from c u d show ?thesis by (intro conjI)
qed

definition chart_body :: string where "chart_body = ''{\"name\":\"n\"}''"

lemma chart_body_request: "chart_request_of chart_body = Some \<lparr>cq_name = Some ''n'', cq_type = None, cq_sources = None\<rparr>"
  by code_simp

theorem chart_editing_witness:
  "\<forall>x. \<exists>c s'. handleCreateChart (sample_web x) ''1'' chart_body (snd (CreateTrace eet_sample_trace (migrated (built_in_charts 0)))) = (Answer c, s')
     \<and> cd_type c = ''line'' \<and> cd_id c = 4 \<and> ChartGet 4 s' = Some (c\<lparr>cd_created := wb_now (sample_web x)\<rparr>)"
proof
  fix x
  let ?s = "snd (CreateTrace eet_sample_trace (migrated (built_in_charts 0)))"
  have r: "store_reachable ?s" by (rule store_reachable.step [OF store_reachable.start store_step.create_trace])
  obtain c s' where c: "handleCreateChart (sample_web x) ''1'' chart_body ?s = (Answer c, s')" "cd_type c = ''line''" "cd_id c = 4"
    by (simp add: handleCreateChart_def sample_ids chart_body_request new_chart_def plain_text_def unless_empty_def ChartCreate_def
        CreateTrace_def trace_exists_def migrated_def built_in_charts_def Let_def)
  have "(\<lambda>j. ChartGet j s') = (\<lambda>j. ChartGet j ?s)(cd_id c \<mapsto> c\<lparr>cd_created := wb_now (sample_web x)\<rparr>)"
    using chart_editing [OF r, where w = "sample_web x" and idText = "''1''" and body = chart_body, THEN conjunct1] unfolding c(1) by simp
  then have "ChartGet 4 s' = Some (c\<lparr>cd_created := wb_now (sample_web x)\<rparr>)" using c(3) by (metis fun_upd_same)
  then show "\<exists>c s'. handleCreateChart (sample_web x) ''1'' chart_body ?s = (Answer c, s')
     \<and> cd_type c = ''line'' \<and> cd_id c = 4 \<and> ChartGet 4 s' = Some (c\<lparr>cd_created := wb_now (sample_web x)\<rparr>)" using c by blast
qed

end
