(* ===== verification/Migrations.thy ===== *)
theory Migrations
  imports Store
begin

text \<open>
  \<open>store/migrations.go\<close>: how a database of any earlier version becomes one of version 7. The schema is what the
  migrations look at and change: the objects that exist with their columns, the chart definitions, the version, the
  messages and which of them the full-text index holds. Each migration is a transaction of statements; one step, the backfill of the
  index, is outside. \<open>fault\<close> says which statements the engine fails to execute; a failed transaction changes nothing.
\<close>

section \<open>Statements\<close>

text \<open>\<open>CREATE \<dots> IF NOT EXISTS\<close> of a table with its columns, of an index, a trigger or the virtual table of the index;
  \<open>ALTER TABLE \<dots> ADD COLUMN\<close>; the rows the migrations insert and update. \<open>Backfill\<close> fills the full-text index.\<close>

datatype statement =
    CreateTable string "string list"
  | CreateOther string
  | AddColumn string string
  | SeedChart string string string
  | SetSources string string
  | InitVersion
  | SetVersion nat
  | Backfill

record schema =
  sm_objects :: "(string \<times> string list) list"
  sm_charts :: "chart_definition list"
  sm_next_chart :: int
  sm_version :: "nat option"
  sm_messages :: "int list"
  sm_indexed :: "int list"

definition execute :: "time \<Rightarrow> (statement \<Rightarrow> bool) \<Rightarrow> statement \<Rightarrow> schema \<Rightarrow> schema option" where
  "execute now fault st s =
     (if fault st then None
      else (case st of
          CreateTable n cols \<Rightarrow> Some (if n \<in> fst ` set (sm_objects s) then s else s\<lparr>sm_objects := sm_objects s @ [(n, cols)]\<rparr>)
        | CreateOther n \<Rightarrow> Some (if n \<in> fst ` set (sm_objects s) then s else s\<lparr>sm_objects := sm_objects s @ [(n, [])]\<rparr>)
        | AddColumn n col \<Rightarrow> (case map_of (sm_objects s) n of
              None \<Rightarrow> None
            | Some cols \<Rightarrow> if col \<in> set cols then None
                else Some (s\<lparr>sm_objects := map (\<lambda>(m, cs). if m = n then (m, cs @ [col]) else (m, cs)) (sm_objects s)\<rparr>))
        | SeedChart n ty src \<Rightarrow> Some (s\<lparr>sm_charts := sm_charts s @ [\<lparr>cd_id = sm_next_chart s, cd_name = n, cd_trace = None, cd_type = ty,
              cd_built_in = True, cd_sources = src, cd_created = now\<rparr>], sm_next_chart := sm_next_chart s + 1\<rparr>)
        | SetSources n src \<Rightarrow> Some (s\<lparr>sm_charts := map (\<lambda>c. if cd_name c = n \<and> cd_built_in c then c\<lparr>cd_sources := src\<rparr> else c) (sm_charts s)\<rparr>)
        | InitVersion \<Rightarrow> Some (s\<lparr>sm_version := Some 0\<rparr>)
        | SetVersion v \<Rightarrow> Some (s\<lparr>sm_version := Some v\<rparr>)
        | Backfill \<Rightarrow> Some (s\<lparr>sm_indexed := sm_indexed s @ sm_messages s\<rparr>)))"

fun run_statements :: "time \<Rightarrow> (statement \<Rightarrow> bool) \<Rightarrow> statement list \<Rightarrow> schema \<Rightarrow> schema option" where
  "run_statements now fault [] s = Some s"
| "run_statements now fault (st # sts) s = (case execute now fault st s of None \<Rightarrow> None | Some s' \<Rightarrow> run_statements now fault sts s')"

text \<open>Success, and the schema afterwards.\<close>

definition execInTx :: "time \<Rightarrow> (statement \<Rightarrow> bool) \<Rightarrow> statement list \<Rightarrow> schema \<Rightarrow> bool \<times> schema" where
  "execInTx now fault sts s = (case run_statements now fault sts s of None \<Rightarrow> (False, s) | Some s' \<Rightarrow> (True, s'))"

section \<open>The migrations\<close>

definition v1_statements :: "statement list" where
  "v1_statements =
     [CreateTable ''traces'' [''id'', ''name'', ''description'', ''started_at'', ''stopped_at'', ''message_count'', ''created_at''],
      CreateTable ''messages'' [''id'', ''trace_id'', ''sequence_num'', ''timestamp'', ''direction'', ''source_addr'', ''dest_addr'',
        ''raw_hex'', ''normalized_json'', ''ship_msg_type'', ''ship_payload'', ''spine_payload'', ''cmd_classifier'', ''function_set'',
        ''msg_counter'', ''msg_counter_ref'', ''device_source'', ''device_dest'', ''entity_source'', ''entity_dest'',
        ''feature_source'', ''feature_dest'', ''parse_error''],
      CreateOther ''idx_messages_trace_id'', CreateOther ''idx_messages_timestamp'', CreateOther ''idx_messages_function_set'',
      CreateOther ''idx_messages_cmd_classifier'', CreateOther ''idx_messages_sequence'',
      CreateTable ''devices'' [''id'', ''trace_id'', ''device_addr'', ''ski'', ''brand'', ''model'', ''device_type'',
        ''first_seen_at'', ''last_seen_at''],
      SetVersion 1]"

definition v2_statements :: "statement list" where
  "v2_statements =
     [CreateOther ''messages_fts'', CreateOther ''messages_fts_insert'', CreateOther ''messages_fts_delete'', CreateOther ''messages_fts_update'',
      CreateTable ''bookmarks'' [''id'', ''message_id'', ''trace_id'', ''label'', ''color'', ''note'', ''created_at''],
      CreateOther ''idx_bookmarks_trace'', CreateOther ''idx_bookmarks_message'',
      CreateTable ''filter_presets'' [''id'', ''name'', ''filter_json'', ''created_at''],
      SetVersion 2]"

definition v3_statements :: "statement list" where
  "v3_statements =
     [CreateTable ''mdns_devices'' [''id'', ''instance_name'', ''host_name'', ''addresses'', ''port'', ''ski'', ''brand'', ''model'',
        ''device_type'', ''identifier'', ''first_seen_at'', ''last_seen_at'', ''online''],
      SetVersion 3]"

definition measurement_sources :: string where
  "measurement_sources = ''[{\"functionSet\":\"MeasurementListData\",\"cmdKey\":\"measurementListData\",\"dataArrayKey\":\"measurementData\",\"idField\":\"measurementId\",\"classifiers\":[\"reply\",\"notify\"]}]''"

definition limit_sources :: string where
  "limit_sources = ''[{\"functionSet\":\"LoadControlLimitListData\",\"cmdKey\":\"loadControlLimitListData\",\"dataArrayKey\":\"loadControlLimitData\",\"idField\":\"limitId\",\"classifiers\":[\"reply\",\"notify\",\"write\"]}]''"

definition setpoint_sources :: string where
  "setpoint_sources = ''[{\"functionSet\":\"SetpointListData\",\"cmdKey\":\"setpointListData\",\"dataArrayKey\":\"setpointData\",\"idField\":\"setpointId\",\"classifiers\":[\"reply\",\"notify\",\"write\"]}]''"

definition v4_statements :: "statement list" where
  "v4_statements =
     [CreateTable ''chart_definitions'' [''id'', ''name'', ''trace_id'', ''chart_type'', ''is_built_in'', ''sources'', ''created_at''],
      SeedChart ''Measurements'' ''line'' measurement_sources,
      SeedChart ''Load Control'' ''step'' limit_sources,
      SeedChart ''Setpoints'' ''line'' setpoint_sources,
      SetVersion 4]"

definition v5_statements :: "statement list" where
  "v5_statements = [CreateOther ''idx_messages_msg_counter'', CreateOther ''idx_messages_msg_counter_ref'', SetVersion 5]"

definition v6_statements :: "statement list" where
  "v6_statements = [SetSources ''Setpoints'' setpoint_sources, SetVersion 6]"

definition v7_statements :: "statement list" where
  "v7_statements = [AddColumn ''traces'' ''skipped_truncated'', SetVersion 7]"

definition migrateV2 :: "time \<Rightarrow> (statement \<Rightarrow> bool) \<Rightarrow> schema \<Rightarrow> bool \<times> schema" where
  "migrateV2 now fault s = (case execInTx now fault v2_statements s of
       (False, s1) \<Rightarrow> (False, s1)
     | (True, s1) \<Rightarrow> (case execute now fault Backfill s1 of None \<Rightarrow> (False, s1) | Some s2 \<Rightarrow> (True, s2)))"

text \<open>The migrations in their order, each with the version it leads to.\<close>

definition migrations :: "time \<Rightarrow> (statement \<Rightarrow> bool) \<Rightarrow> (nat \<times> (schema \<Rightarrow> bool \<times> schema)) list" where
  "migrations now fault =
     [(1, execInTx now fault v1_statements), (2, migrateV2 now fault), (3, execInTx now fault v3_statements),
      (4, execInTx now fault v4_statements), (5, execInTx now fault v5_statements), (6, execInTx now fault v6_statements),
      (7, execInTx now fault v7_statements)]"

fun run_migrations :: "nat \<Rightarrow> (nat \<times> (schema \<Rightarrow> bool \<times> schema)) list \<Rightarrow> schema \<Rightarrow> nat option \<times> schema" where
  "run_migrations version [] s = (None, s)"
| "run_migrations version ((v, f) # fs) s =
     (if version < v
      then (case f s of (False, s') \<Rightarrow> (Some v, s') | (True, s') \<Rightarrow> run_migrations version fs s')
      else run_migrations version fs s)"

text \<open>The version whose migration failed (0 for the version table itself), if one did, and the schema.\<close>

definition migrate :: "time \<Rightarrow> (statement \<Rightarrow> bool) \<Rightarrow> schema \<Rightarrow> nat option \<times> schema" where
  "migrate now fault s =
     (if fault (CreateTable ''schema_version'' [''version'']) then (Some 0, s)
      else (case sm_version s of
          Some v \<Rightarrow> run_migrations v (migrations now fault) s
        | None \<Rightarrow> (case execute now fault InitVersion s of
            None \<Rightarrow> (Some 0, s)
          | Some s' \<Rightarrow> run_migrations 0 (migrations now fault) s')))"

section \<open>Lemmas\<close>

abbreviation no_fault :: "statement \<Rightarrow> bool" where "no_fault \<equiv> \<lambda>_. False"

text \<open>What a statement does to the objects.\<close>

fun on_objects :: "statement \<Rightarrow> (string \<times> string list) list \<Rightarrow> (string \<times> string list) list option" where
  "on_objects (CreateTable n cols) os = Some (if n \<in> fst ` set os then os else os @ [(n, cols)])"
| "on_objects (CreateOther n) os = Some (if n \<in> fst ` set os then os else os @ [(n, [])])"
| "on_objects (AddColumn n col) os = (case map_of os n of
      None \<Rightarrow> None
    | Some cols \<Rightarrow> if col \<in> set cols then None else Some (map (\<lambda>(m, cs). if m = n then (m, cs @ [col]) else (m, cs)) os))"
| "on_objects _ os = Some os"

fun all_on_objects :: "statement list \<Rightarrow> (string \<times> string list) list \<Rightarrow> (string \<times> string list) list option" where
  "all_on_objects [] os = Some os"
| "all_on_objects (st # sts) os = (case on_objects st os of None \<Rightarrow> None | Some os' \<Rightarrow> all_on_objects sts os')"

definition statements_of :: "statement list list" where
  "statements_of = [v1_statements, v2_statements, v3_statements, v4_statements, v5_statements, v6_statements, v7_statements]"

definition objects_at :: "nat \<Rightarrow> (string \<times> string list) list" where
  "objects_at v = the (all_on_objects (concat (take v statements_of)) [])"

definition at_version :: "nat \<Rightarrow> schema \<Rightarrow> bool" where
  "at_version v s \<longleftrightarrow> sm_version s = Some v \<and> sm_objects s = objects_at v"

lemma objects_next: "list_all (\<lambda>v. all_on_objects (statements_of ! v) (objects_at v) = Some (objects_at (Suc v))) [0..<7]"
  by code_simp

lemma execute_objects:
  "execute now no_fault st s = None \<longleftrightarrow> on_objects st (sm_objects s) = None"
  "execute now no_fault st s = Some s' \<Longrightarrow> on_objects st (sm_objects s) = Some (sm_objects s')"
  by (cases st; auto simp: execute_def split: option.splits if_splits)+

lemma run_objects:
  "all_on_objects sts (sm_objects s) = Some os \<Longrightarrow> \<exists>s'. run_statements now no_fault sts s = Some s' \<and> sm_objects s' = os"
proof (induction sts arbitrary: s)
  case (Cons st sts)
  then obtain os' where o: "on_objects st (sm_objects s) = Some os'" "all_on_objects sts os' = Some os" by (auto split: option.splits)
  then obtain s1 where s1: "execute now no_fault st s = Some s1"
    using execute_objects(1) [of now st s] by (cases "execute now no_fault st s") simp_all
  then have "sm_objects s1 = os'" using execute_objects(2) o(1) by fastforce
  then show ?case using Cons.IH [of s1] o(2) s1 by simp
qed simp

lemma run_faulty: "run_statements now fault sts s = None \<or> run_statements now fault sts s = run_statements now no_fault sts s"
proof (induction sts arbitrary: s)
  case (Cons st sts)
  then show ?case by (cases "fault st") (auto simp: execute_def split: option.splits)
qed simp

lemma run_append:
  "run_statements now fault (a @ b) s = (case run_statements now fault a s of None \<Rightarrow> None | Some s' \<Rightarrow> run_statements now fault b s')"
  by (induction a arbitrary: s) (auto split: option.splits)

lemma run_version: "run_statements now fault (a @ [SetVersion v]) s = Some s' \<Longrightarrow> sm_version s' = Some v"
  by (auto simp: run_append execute_def split: option.splits if_splits)

text \<open>All of a schema but the index and the times of the charts.\<close>

definition undated :: "chart_definition \<Rightarrow> chart_definition" where "undated c = c\<lparr>cd_created := 0\<rparr>"

definition core :: "schema \<Rightarrow> (string \<times> string list) list \<times> chart_definition list \<times> int \<times> nat option \<times> int list" where
  "core s = (sm_objects s, map undated (sm_charts s), sm_next_chart s, sm_version s, sm_messages s)"

lemma undated_sources:
  "map undated (map (\<lambda>c. if cd_name c = n \<and> cd_built_in c then c\<lparr>cd_sources := src\<rparr> else c) cs)
     = map (\<lambda>c. if cd_name c = n \<and> cd_built_in c then c\<lparr>cd_sources := src\<rparr> else c) (map undated cs)"
  by (simp add: undated_def)

lemma execute_core:
  assumes "core s = core t"
  shows "map_option core (execute now no_fault st s) = map_option core (execute now' no_fault st t)"
proof (cases st)
  case (SetSources n src)
  then show ?thesis using assms by (simp add: execute_def core_def undated_sources del: map_map)
qed (use assms in \<open>auto simp: execute_def core_def undated_def split: option.splits\<close>)

lemma run_core:
  "core s = core t \<Longrightarrow> map_option core (run_statements now no_fault sts s) = map_option core (run_statements now' no_fault sts t)"
proof (induction sts arbitrary: s t)
  case (Cons st sts)
  from execute_core [OF Cons.prems, of now st now'] show ?case
    by (cases "execute now no_fault st s"; cases "execute now' no_fault st t") (auto intro: Cons.IH)
qed simp

lemma core_index: "core (s\<lparr>sm_indexed := x\<rparr>) = core s" by (simp add: core_def)
lemma at_index: "at_version v (s\<lparr>sm_indexed := x\<rparr>) = at_version v s" by (simp add: at_version_def)

text \<open>One migration: it leads to the next version, or fails and leaves the version it found; the second one may also
  fail with its transaction done.\<close>

definition migration :: "nat \<Rightarrow> time \<Rightarrow> (statement \<Rightarrow> bool) \<Rightarrow> schema \<Rightarrow> bool \<times> schema" where
  "migration v now fault = snd (migrations now fault ! v)"

lemma migration_cases:
  "v < 7 \<Longrightarrow> migration v now fault s = (if v = 1 then migrateV2 now fault s else execInTx now fault (statements_of ! v) s)"
  by (simp add: migration_def migrations_def statements_of_def less_Suc_eq numeral_eq_Suc) auto

lemma set_version_last: "v < 7 \<Longrightarrow> \<exists>a. statements_of ! v = a @ [SetVersion (Suc v)]"
proof -
  have "list_all (\<lambda>v. statements_of ! v = butlast (statements_of ! v) @ [SetVersion (Suc v)]) [0..<7]" by code_simp
  then show "v < 7 \<Longrightarrow> \<exists>a. statements_of ! v = a @ [SetVersion (Suc v)]" by (auto simp: list_all_iff)
qed

lemma tx_next:
  assumes "v < 7" and "at_version v s"
  shows "\<exists>s'. run_statements now no_fault (statements_of ! v) s = Some s' \<and> at_version (Suc v) s'"
proof -
  have "all_on_objects (statements_of ! v) (sm_objects s) = Some (objects_at (Suc v))"
    using objects_next assms by (auto simp: list_all_iff at_version_def)
  from run_objects [OF this, of now] obtain s' where s': "run_statements now no_fault (statements_of ! v) s = Some s'" "sm_objects s' = objects_at (Suc v)"
    by blast
  then show ?thesis using set_version_last [OF assms(1)] run_version by (metis at_version_def)
qed

lemma tx_outcome:
  assumes "run_statements now no_fault sts s = Some s'"
  shows "execInTx now no_fault sts s = (True, s')" and "execInTx now fault sts s = (True, s') \<or> execInTx now fault sts s = (False, s)"
  using assms run_faulty [of now fault sts s] by (auto simp: execInTx_def)

lemma migration_outcome:
  assumes "v < 7" and "at_version v s"
  shows "\<exists>s'. migration v now no_fault s = (True, s') \<and> at_version (Suc v) s'
    \<and> (\<forall>fault. migration v now fault s = (True, s') \<or> migration v now fault s = (False, s)
        \<or> (\<exists>s1. migration v now fault s = (False, s1) \<and> core s1 = core s' \<and> at_version (Suc v) s1))"
proof -
  obtain t where t: "run_statements now no_fault (statements_of ! v) s = Some t" "at_version (Suc v) t" using tx_next [OF assms] by blast
  show ?thesis
  proof (cases "v = 1")
    case False
    then have m: "migration v now fault s = execInTx now fault (statements_of ! v) s" for fault using migration_cases [OF assms(1)] by simp
    show ?thesis unfolding m using tx_outcome [OF t(1)] t(2) by blast
  next
    case True
    have st: "statements_of ! v = v2_statements" using True by (simp add: statements_of_def)
    let ?u = "t\<lparr>sm_indexed := sm_indexed t @ sm_messages t\<rparr>"
    have b: "execute now fault Backfill t = (if fault Backfill then None else Some ?u)" for fault by (simp add: execute_def)
    have m: "migration v now fault s = migrateV2 now fault s" for fault using migration_cases [OF assms(1)] True by simp
    have ok: "migrateV2 now no_fault s = (True, ?u)" using tx_outcome(1) [OF t(1)] by (simp add: migrateV2_def st b)
    have f: "migrateV2 now fault s = (True, ?u) \<or> migrateV2 now fault s = (False, s) \<or> migrateV2 now fault s = (False, t)" for fault
      using tx_outcome(2) [OF t(1), of fault] by (cases "fault Backfill") (auto simp: migrateV2_def st b)
    show ?thesis unfolding m using ok f t(2) at_index core_index by metis
  qed
qed

lemma migration_core:
  assumes "v < 7" and "at_version v s" and "core s = core t"
  shows "core (snd (migration v now no_fault s)) = core (snd (migration v now' no_fault t))"
proof -
  have t: "at_version v t" using assms(2,3) by (simp add: at_version_def core_def)
  obtain s1 t1 where r: "run_statements now no_fault (statements_of ! v) s = Some s1" "run_statements now' no_fault (statements_of ! v) t = Some t1"
    using tx_next [OF assms(1,2)] tx_next [OF assms(1) t] by blast
  then have c: "core s1 = core t1" using run_core [OF assms(3), of now "statements_of ! v" now'] by simp
  show ?thesis
  proof (cases "v = 1")
    case True
    then have st: "statements_of ! v = v2_statements" by (simp add: statements_of_def)
    have "core (s1\<lparr>sm_indexed := x\<rparr>) = core (t1\<lparr>sm_indexed := y\<rparr>)" for x y using c by (simp add: core_index)
    then show ?thesis using True r unfolding migration_cases [OF assms(1)] st
      by (simp add: migrateV2_def execInTx_def execute_def)
  qed (use r c in \<open>simp add: migration_cases [OF assms(1)] execInTx_def\<close>)
qed

text \<open>The migrations from a version on, all of which succeed.\<close>

definition upgraded :: "nat \<Rightarrow> time \<Rightarrow> schema \<Rightarrow> schema" where
  "upgraded v now s = fold (\<lambda>k s. snd (migration k now no_fault s)) [v..<7] s"

lemma upgraded_step: "v < 7 \<Longrightarrow> upgraded v now s = upgraded (Suc v) now (snd (migration v now no_fault s))"
  by (simp add: upgraded_def upt_conv_Cons)

lemma drop_migrations: "v < 7 \<Longrightarrow> drop v (migrations now fault) = (Suc v, migration v now fault) # drop (Suc v) (migrations now fault)"
proof -
  assume v: "v < 7"
  have "fst (migrations now fault ! v) = Suc v"
    using v by (simp add: migrations_def less_Suc_eq numeral_eq_Suc) auto
  then have "migrations now fault ! v = (Suc v, migration v now fault)" by (simp add: migration_def prod_eq_iff)
  moreover have "length (migrations now fault) = 7" by (simp add: migrations_def)
  ultimately show ?thesis using v by (metis Cons_nth_drop_Suc)
qed

lemma upgraded_core: "at_version v s \<Longrightarrow> core s = core t \<Longrightarrow> v \<le> 7 \<Longrightarrow> core (upgraded v now s) = core (upgraded v now' t)"
proof (induction "7 - v" arbitrary: v s t)
  case 0
  then show ?case by (simp add: upgraded_def)
next
  case (Suc n)
  then have v: "v < 7" by simp
  obtain s' where s': "migration v now no_fault s = (True, s')" "at_version (Suc v) s'" using migration_outcome [OF v Suc.prems(1)] by blast
  have "core s' = core (snd (migration v now' no_fault t))" using migration_core [OF v Suc.prems(1,2)] s'(1) by (metis snd_conv)
  then show ?case using Suc.hyps(1) [of "Suc v" s'] Suc.hyps(2) s' v by (simp add: upgraded_step)
qed

lemma run_from:
  assumes "at_version v s" and "v0 \<le> v" and "v \<le> 7"
  shows "run_migrations v0 (drop v (migrations now no_fault)) s = (None, upgraded v now s) \<and> at_version 7 (upgraded v now s)
    \<and> (\<exists>r s1 v1. run_migrations v0 (drop v (migrations now fault)) s = (r, s1) \<and> v \<le> v1 \<and> v1 \<le> 7 \<and> at_version v1 s1
        \<and> (r = None \<longrightarrow> v1 = 7) \<and> core (upgraded v1 now' s1) = core (upgraded v now' s))"
  using assms
proof (induction "7 - v" arbitrary: v s)
  case 0
  then show ?case by (simp add: upgraded_def migrations_def)
next
  case (Suc n)
  then have v: "v < 7" by simp
  obtain s' where s': "migration v now no_fault s = (True, s')" "at_version (Suc v) s'"
    and f: "migration v now fault s = (True, s') \<or> migration v now fault s = (False, s)
        \<or> (\<exists>s1. migration v now fault s = (False, s1) \<and> core s1 = core s' \<and> at_version (Suc v) s1)"
    using migration_outcome [OF v Suc.prems(1)] by blast
  have u: "core (upgraded (Suc v) now' s') = core (upgraded v now' s)"
  proof -
    have "core s' = core (snd (migration v now' no_fault s))" using migration_core [OF v Suc.prems(1) refl, of now now'] s'(1) by simp
    then show ?thesis using upgraded_core [OF s'(2), of _ now' now'] v by (simp add: upgraded_step)
  qed
  have "n = 7 - Suc v" "v0 \<le> Suc v" "Suc v \<le> 7" using Suc.hyps(2) Suc.prems(2) v by simp_all
  note next_ok = Suc.hyps(1) [OF this(1) s'(2) this(2,3)]
  have a: "run_migrations v0 (drop v (migrations now no_fault)) s = (None, upgraded v now s) \<and> at_version 7 (upgraded v now s)"
    using next_ok Suc.prems(2) v s'(1) by (simp add: drop_migrations upgraded_step)
  moreover have "\<exists>r s1 v1. run_migrations v0 (drop v (migrations now fault)) s = (r, s1) \<and> v \<le> v1 \<and> v1 \<le> 7 \<and> at_version v1 s1
        \<and> (r = None \<longrightarrow> v1 = 7) \<and> core (upgraded v1 now' s1) = core (upgraded v now' s)"
    using f
  proof (elim disjE exE conjE)
    assume m: "migration v now fault s = (True, s')"
    then have "run_migrations v0 (drop v (migrations now fault)) s = run_migrations v0 (drop (Suc v) (migrations now fault)) s'"
      using v Suc.prems(2) by (simp add: drop_migrations)
    moreover obtain r s1 v1 where "run_migrations v0 (drop (Suc v) (migrations now fault)) s' = (r, s1)" "Suc v \<le> v1" "v1 \<le> 7" "at_version v1 s1"
        "r = None \<longrightarrow> v1 = 7" "core (upgraded v1 now' s1) = core (upgraded (Suc v) now' s')"
      using next_ok [THEN conjunct2, THEN conjunct2] by (elim exE conjE)
    ultimately show ?thesis using u by (metis Suc_leD)
  next
    assume "migration v now fault s = (False, s)"
    then have "run_migrations v0 (drop v (migrations now fault)) s = (Some (Suc v), s)" using v Suc.prems(2) by (simp add: drop_migrations)
    then show ?thesis using Suc.prems by blast
  next
    fix s1 assume m: "migration v now fault s = (False, s1)" "core s1 = core s'" "at_version (Suc v) s1"
    then have "run_migrations v0 (drop v (migrations now fault)) s = (Some (Suc v), s1)" using v Suc.prems(2) by (simp add: drop_migrations)
    moreover have "core (upgraded (Suc v) now' s1) = core (upgraded v now' s)" using upgraded_core [OF m(3,2), of now' now'] v u by simp
    ultimately show ?thesis using m(3) v
      by (intro exI [of _ "Some (Suc v)"] exI [of _ s1] exI [of _ "Suc v"]) simp
  qed
  ultimately show ?case by blast
qed

lemma skip_migrations: "v \<le> 7 \<Longrightarrow> run_migrations v (migrations now fault) s = run_migrations v (drop v (migrations now fault)) s"
proof -
  have skip: "\<forall>f \<in> set (take k fs). fst f \<le> v \<Longrightarrow> run_migrations v fs s = run_migrations v (drop k fs) s" for k fs
  proof (induction k arbitrary: fs)
    case (Suc k)
    then show ?case
    proof (cases fs)
      case (Cons f fs')
      then have "fst f \<le> v" "\<forall>g \<in> set (take k fs'). fst g \<le> v" using Suc.prems by auto
      then show ?thesis using Suc.IH [of fs'] Cons by (cases f) simp
    qed simp
  qed simp
  have "list_all (\<lambda>v. list_all (\<lambda>f. f \<le> v) (take v (map fst (migrations now fault)))) [0..<8]" by (simp add: migrations_def upt_conv_Cons)
  then show "v \<le> 7 \<Longrightarrow> ?thesis" by (intro skip) (auto simp: list_all_iff take_map)
qed

section \<open>Properties\<close>

text \<open>C13: upgrading a database of any version, whatever statements the engine fails to execute. The upgrade stops between two
  versions, with exactly the objects of the version it recorded, and a success is at version 7. Repeating it without a
  failure brings the same tables, columns, charts and messages as an upgrade that was not interrupted; on a database of
  version 7 it changes nothing.\<close>

theorem migrations_resume:
  assumes "sm_version s = Some v" and "sm_objects s = objects_at v" and "v \<le> 7" and "migrate now fault s = (r, s1)"
  shows "(\<exists>v1. v \<le> v1 \<and> v1 \<le> 7 \<and> sm_version s1 = Some v1 \<and> sm_objects s1 = objects_at v1 \<and> (r = None \<longrightarrow> v1 = 7))
    \<and> fst (migrate now' (\<lambda>_. False) s1) = None \<and> sm_version (snd (migrate now' (\<lambda>_. False) s1)) = Some 7
    \<and> core (snd (migrate now' (\<lambda>_. False) s1)) = core (snd (migrate now' (\<lambda>_. False) s))
    \<and> (v = 7 \<longrightarrow> s1 = s)"
proof -
  have at_v: "at_version v s" using assms(1,2) by (simp add: at_version_def)
  have again: "migrate now' no_fault t = (None, upgraded k now' t) \<and> at_version 7 (upgraded k now' t)" if "at_version k t" "k \<le> 7" for k t
  proof -
    have "migrate now' no_fault t = run_migrations k (migrations now' no_fault) t" using that by (simp add: migrate_def at_version_def)
    then show ?thesis using run_from [OF that(1) order_refl that(2), of now'] skip_migrations [OF that(2), of now' no_fault t] by simp
  qed
  have "\<exists>v1. v \<le> v1 \<and> v1 \<le> 7 \<and> at_version v1 s1 \<and> (r = None \<longrightarrow> v1 = 7) \<and> core (upgraded v1 now' s1) = core (upgraded v now' s)"
  proof (cases "fault (CreateTable ''schema_version'' [''version''])")
    case True
    then show ?thesis using assms(3,4) at_v by (auto simp: migrate_def)
  next
    case False
    then have "run_migrations v (migrations now fault) s = (r, s1)" using assms(1,4) by (simp add: migrate_def)
    then show ?thesis using run_from [OF at_v order_refl assms(3), of now fault now'] skip_migrations [OF assms(3), of now fault s] by auto
  qed
  then obtain v1 where v1: "v \<le> v1" "v1 \<le> 7" "at_version v1 s1" "r = None \<longrightarrow> v1 = 7" "core (upgraded v1 now' s1) = core (upgraded v now' s)" by blast
  have "v = 7 \<longrightarrow> s1 = s" using assms(1,4) by (auto simp: migrate_def migrations_def split: if_splits)
  then show ?thesis using v1 again [OF v1(3,2)] again [OF at_v assms(3)] by (auto simp: at_version_def)
qed

text \<open>A new database, and one of version 1 that holds a message.\<close>

definition new_schema :: schema where
  "new_schema = \<lparr>sm_objects = [], sm_charts = [], sm_next_chart = 1, sm_version = None, sm_messages = [], sm_indexed = []\<rparr>"

definition old_schema :: schema where
  "old_schema = \<lparr>sm_objects = objects_at 1, sm_charts = [], sm_next_chart = 1, sm_version = Some 1, sm_messages = [1], sm_indexed = []\<rparr>"

text \<open>The charts of a new database are the built-in charts of \<open>Store\<close>.\<close>

fun on_charts :: "time \<Rightarrow> statement \<Rightarrow> chart_definition list \<times> int \<Rightarrow> chart_definition list \<times> int" where
  "on_charts now (SeedChart n ty src) (cs, i) = (cs @ [\<lparr>cd_id = i, cd_name = n, cd_trace = None, cd_type = ty, cd_built_in = True,
     cd_sources = src, cd_created = now\<rparr>], i + 1)"
| "on_charts now (SetSources n src) (cs, i) = (map (\<lambda>c. if cd_name c = n \<and> cd_built_in c then c\<lparr>cd_sources := src\<rparr> else c) cs, i)"
| "on_charts now _ cs = cs"

definition charts_of :: "schema \<Rightarrow> chart_definition list \<times> int" where "charts_of s = (sm_charts s, sm_next_chart s)"

lemma run_charts: "run_statements now no_fault sts s = Some s' \<Longrightarrow> charts_of s' = fold (on_charts now) sts (charts_of s)"
proof (induction sts arbitrary: s)
  case (Cons st sts)
  then obtain s1 where s1: "execute now no_fault st s = Some s1" "run_statements now no_fault sts s1 = Some s'" by (auto split: option.splits)
  then have "charts_of s1 = on_charts now st (charts_of s)" by (cases st) (auto simp: execute_def charts_of_def split: option.splits if_splits)
  then show ?case using Cons.IH [OF s1(2)] by simp
qed simp

lemma migration_charts:
  assumes "v < 7" and "at_version v s"
  shows "charts_of (snd (migration v now no_fault s)) = fold (on_charts now) (statements_of ! v) (charts_of s)"
proof -
  obtain t where t: "run_statements now no_fault (statements_of ! v) s = Some t" using tx_next [OF assms] by blast
  have i: "charts_of (t\<lparr>sm_indexed := x\<rparr>) = charts_of t" for x by (simp add: charts_of_def)
  show ?thesis
  proof (cases "v = 1")
    case True
    then have st: "statements_of ! v = v2_statements" by (simp add: statements_of_def)
    have m: "migration v now no_fault s = migrateV2 now no_fault s" using migration_cases [OF assms(1)] True by simp
    show ?thesis using t run_charts [OF t] i unfolding m st by (simp add: migrateV2_def execInTx_def execute_def)
  qed (use t run_charts [OF t] in \<open>simp add: migration_cases [OF assms(1)] execInTx_def\<close>)
qed

lemma upgraded_charts:
  "at_version v s \<Longrightarrow> v \<le> 7 \<Longrightarrow> charts_of (upgraded v now s) = fold (on_charts now) (concat (drop v statements_of)) (charts_of s)"
proof (induction "7 - v" arbitrary: v s)
  case 0
  then show ?case by (simp add: upgraded_def statements_of_def)
next
  case (Suc n)
  then have v: "v < 7" by simp
  obtain s' where s': "migration v now no_fault s = (True, s')" "at_version (Suc v) s'" using migration_outcome [OF v Suc.prems(1)] by blast
  have "drop v statements_of = statements_of ! v # drop (Suc v) statements_of"
    using v Cons_nth_drop_Suc [of v statements_of] by (simp add: statements_of_def [THEN arg_cong, of length])
  then show ?case using Suc.hyps(1) [of "Suc v" s'] Suc.hyps(2) s' v migration_charts [OF v Suc.prems(1), of now] by (simp add: upgraded_step)
qed

lemma new_database: "sm_charts (snd (migrate now no_fault new_schema)) = built_in_charts now"
proof -
  let ?s = "new_schema\<lparr>sm_version := Some 0\<rparr>"
  have a: "at_version 0 ?s" by (simp add: at_version_def objects_at_def new_schema_def)
  have "migrate now no_fault new_schema = run_migrations 0 (migrations now no_fault) ?s"
    by (simp add: migrate_def new_schema_def execute_def)
  also have "\<dots> = (None, upgraded 0 now ?s)" using run_from [OF a order_refl, of now] by simp
  finally have "charts_of (snd (migrate now no_fault new_schema)) = fold (on_charts now) (concat statements_of) ([], 1)"
    using upgraded_charts [OF a, of now] by (simp add: charts_of_def new_schema_def)
  then show ?thesis by (simp add: charts_of_def statements_of_def v1_statements_def v2_statements_def v3_statements_def v4_statements_def
      v5_statements_def v6_statements_def v7_statements_def built_in_charts_def measurement_sources_def limit_sources_def setpoint_sources_def)
qed

text \<open>When the backfill fails, the version is 2 already: the messages of that time never reach the index.\<close>

lemma run_index: "Backfill \<notin> set sts \<Longrightarrow> run_statements now fault sts s = Some s' \<Longrightarrow> sm_indexed s' = sm_indexed s"
proof (induction sts arbitrary: s)
  case (Cons st sts)
  then obtain s1 where s1: "execute now fault st s = Some s1" "run_statements now fault sts s1 = Some s'" by (auto split: option.splits)
  then have "sm_indexed s1 = sm_indexed s" using Cons.prems(1) by (cases st) (auto simp: execute_def split: option.splits if_splits)
  then show ?case using Cons.IH [OF _ s1(2)] Cons.prems(1) by simp
qed simp

lemma run_without: "\<forall>st \<in> set sts. \<not> fault st \<Longrightarrow> run_statements now fault sts s = run_statements now no_fault sts s"
  by (induction sts arbitrary: s) (auto simp: execute_def split: option.splits)

lemma no_backfill: "v < 7 \<Longrightarrow> Backfill \<notin> set (statements_of ! v)"
proof -
  have "list_all (\<lambda>v. Backfill \<notin> set (statements_of ! v)) [0..<7]" by code_simp
  then show "v < 7 \<Longrightarrow> Backfill \<notin> set (statements_of ! v)" by (auto simp: list_all_iff)
qed

lemma upgraded_index: "at_version v s \<Longrightarrow> 2 \<le> v \<Longrightarrow> v \<le> 7 \<Longrightarrow> sm_indexed (upgraded v now s) = sm_indexed s"
proof (induction "7 - v" arbitrary: v s)
  case 0
  then show ?case by (simp add: upgraded_def)
next
  case (Suc n)
  then have v: "v < 7" by simp
  obtain t where t: "run_statements now no_fault (statements_of ! v) s = Some t" "at_version (Suc v) t" using tx_next [OF v Suc.prems(1)] by blast
  then have "migration v now no_fault s = (True, t)" using Suc.prems(2) by (simp add: migration_cases [OF v] execInTx_def)
  then show ?case using Suc.hyps(1) [of "Suc v" t] Suc.hyps(2) Suc.prems(2) t v run_index [OF no_backfill [OF v] t(1)] by (simp add: upgraded_step)
qed

lemma backfill_lost:
  assumes "at_version 1 s"
  shows "\<exists>s1. migrate now (\<lambda>st. st = Backfill) s = (Some 2, s1) \<and> sm_indexed (snd (migrate now' no_fault s1)) = sm_indexed s"
proof -
  let ?f = "\<lambda>st. st = Backfill"
  obtain t where t: "run_statements now no_fault (statements_of ! 1) s = Some t" "at_version 2 t"
    using tx_next [of 1 s now] assms by (auto simp: numeral_2_eq_2)
  have st: "statements_of ! 1 = v2_statements" by (simp add: statements_of_def)
  have "\<forall>st \<in> set v2_statements. \<not> ?f st" using no_backfill [of 1] unfolding st by auto
  then have "run_statements now ?f v2_statements s = Some t" using run_without [of v2_statements ?f] t(1) unfolding st by simp
  then have v2: "migrateV2 now ?f s = (False, t)" by (simp add: migrateV2_def execInTx_def execute_def)
  have "migrate now ?f s = run_migrations 1 (migrations now ?f) s" using assms by (simp add: migrate_def at_version_def)
  also have "\<dots> = (Some 2, t)" using v2 by (simp add: migrations_def)
  finally have m: "migrate now ?f s = (Some 2, t)" .
  have "migrate now' no_fault t = run_migrations 2 (migrations now' no_fault) t" using t(2) by (simp add: migrate_def at_version_def)
  then have "snd (migrate now' no_fault t) = upgraded 2 now' t"
    using run_from [OF t(2) order_refl, of now'] skip_migrations [of 2 now' no_fault t] by simp
  then show ?thesis using m upgraded_index [OF t(2)] run_index [OF no_backfill [of 1] t(1)] by simp
qed

theorem migrations_resume_witness:
  "sm_version (snd (migrate 0 (\<lambda>_. False) (snd (migrate 0 (\<lambda>st. st = Backfill) old_schema)))) = Some 7"
proof -
  have v: "sm_version old_schema = Some 1" "sm_objects old_schema = objects_at 1" "(1 :: nat) \<le> 7" by (simp_all add: old_schema_def)
  show ?thesis using migrations_resume [OF v prod.collapse [symmetric], of 0 "\<lambda>st. st = Backfill" 0] by (elim conjE)
qed

end
