(* ===== verification/Rows.thy ===== *)
theory Rows
  imports Migrations
begin

text \<open>
  How the repositories of \<open>internal/store\<close> write and read the rows of a table: an \<open>INSERT\<close> names its columns and gives
  their values in the same order, a \<open>SELECT\<close> names columns and \<open>Scan\<close> takes them in that order. \<open>Store\<close> keeps the records themselves; here it is
  shown that writing a record and reading it back gives what \<open>Store\<close> keeps. A column has a value of one of SQLite's kinds; reading
  one of another kind than the variable is an error.
\<close>

section \<open>Columns and rows\<close>

datatype sql_value = SqlNull | SqlInt int | SqlText string | SqlTime time | SqlBool bool

type_synonym sql_row = "string \<rightharpoonup> sql_value"

text \<open>The key is the next of the table, \<open>filled\<close> the columns the engine or the statement fills without an argument.\<close>

definition inserted_row :: "int \<Rightarrow> (string \<times> sql_value) list \<Rightarrow> string list \<Rightarrow> sql_value list \<Rightarrow> sql_row option" where
  "inserted_row i filled cols vals =
     (if length cols = length vals then Some (map_of ((''id'', SqlInt i) # zip cols vals @ filled)) else None)"

definition select_row :: "string list \<Rightarrow> sql_row \<Rightarrow> sql_value list option" where
  "select_row cols r = all_some (map r cols)"

text \<open>A destination of \<open>Scan\<close>, as what it does to the record.\<close>

type_synonym 'a scan_dest = "sql_value \<Rightarrow> 'a \<Rightarrow> 'a option"

fun scan_into :: "'a scan_dest list \<Rightarrow> sql_value list \<Rightarrow> 'a \<Rightarrow> 'a option" where
  "scan_into [] [] r = Some r"
| "scan_into (d # ds) (v # vs) r = (case d v r of None \<Rightarrow> None | Some r' \<Rightarrow> scan_into ds vs r')"
| "scan_into _ _ r = None"

definition to_int :: "(int \<Rightarrow> 'a \<Rightarrow> 'a) \<Rightarrow> 'a scan_dest" where
  "to_int f v r = (case v of SqlInt i \<Rightarrow> Some (f i r) | _ \<Rightarrow> None)"
definition to_text :: "(string \<Rightarrow> 'a \<Rightarrow> 'a) \<Rightarrow> 'a scan_dest" where
  "to_text f v r = (case v of SqlText s \<Rightarrow> Some (f s r) | _ \<Rightarrow> None)"
definition to_time :: "(time \<Rightarrow> 'a \<Rightarrow> 'a) \<Rightarrow> 'a scan_dest" where
  "to_time f v r = (case v of SqlTime t \<Rightarrow> Some (f t r) | _ \<Rightarrow> None)"
definition to_bool :: "(bool \<Rightarrow> 'a \<Rightarrow> 'a) \<Rightarrow> 'a scan_dest" where
  "to_bool f v r = (case v of SqlBool b \<Rightarrow> Some (f b r) | _ \<Rightarrow> None)"
definition to_time_ptr :: "(time option \<Rightarrow> 'a \<Rightarrow> 'a) \<Rightarrow> 'a scan_dest" where
  "to_time_ptr f v r = (case v of SqlNull \<Rightarrow> Some (f None r) | SqlTime t \<Rightarrow> Some (f (Some t) r) | _ \<Rightarrow> None)"
definition to_null_int :: "(int option \<Rightarrow> 'a \<Rightarrow> 'a) \<Rightarrow> 'a scan_dest" where
  "to_null_int f v r = (case v of SqlNull \<Rightarrow> Some (f None r) | SqlInt i \<Rightarrow> Some (f (Some i) r) | _ \<Rightarrow> None)"

lemmas dests = to_int_def to_text_def to_time_def to_bool_def to_time_ptr_def to_null_int_def

text \<open>\<open>jsonStr\<close> gives \<open>NULL\<close> for an empty payload, \<open>nullToRawMessage\<close> the empty payload for \<open>NULL\<close> and for the empty text.\<close>

definition jsonStr :: "string \<Rightarrow> sql_value" where "jsonStr d = (if d = [] then SqlNull else SqlText d)"

definition nullToRawMessage :: "string option \<Rightarrow> string" where
  "nullToRawMessage ns = (case ns of None \<Rightarrow> [] | Some s \<Rightarrow> if s = [] then [] else s)"

definition to_raw :: "(string \<Rightarrow> 'a \<Rightarrow> 'a) \<Rightarrow> 'a scan_dest" where
  "to_raw f v r = (case v of SqlNull \<Rightarrow> Some (f (nullToRawMessage None) r) | SqlText s \<Rightarrow> Some (f (nullToRawMessage (Some s)) r) | _ \<Rightarrow> None)"

definition read_row :: "string list \<Rightarrow> 'a scan_dest list \<Rightarrow> 'a \<Rightarrow> sql_row \<Rightarrow> 'a option" where
  "read_row cols dest r0 r = (case select_row cols r of None \<Rightarrow> None | Some vs \<Rightarrow> scan_into dest vs r0)"

section \<open>Messages\<close>

definition message_insert_cols :: "string list" where
  "message_insert_cols = [''trace_id'', ''sequence_num'', ''timestamp'', ''direction'', ''source_addr'', ''dest_addr'',
     ''raw_hex'', ''normalized_json'', ''ship_msg_type'', ''ship_payload'', ''spine_payload'',
     ''cmd_classifier'', ''function_set'', ''msg_counter'', ''msg_counter_ref'',
     ''device_source'', ''device_dest'', ''entity_source'', ''entity_dest'',
     ''feature_source'', ''feature_dest'', ''parse_error'']"

definition message_insert_args :: "message \<Rightarrow> sql_value list" where
  "message_insert_args m = [SqlInt (m_trace m), SqlInt (m_seq m), SqlTime (m_time m), SqlText (m_dir m), SqlText (m_src_addr m), SqlText (m_dst_addr m),
     SqlText (m_raw_hex m), jsonStr (m_norm m), SqlText (m_type m), jsonStr (m_ship m), jsonStr (m_spine m),
     SqlText (m_classifier m), SqlText (m_fn m), SqlText (m_ctr m), SqlText (m_ref m),
     SqlText (m_dev_src m), SqlText (m_dev_dst m), SqlText (m_ent_src m), SqlText (m_ent_dst m),
     SqlText (m_feat_src m), SqlText (m_feat_dst m), SqlText (m_error m)]"

definition messageCols :: "string list" where
  "messageCols = [''id'', ''trace_id'', ''sequence_num'', ''timestamp'', ''direction'', ''source_addr'', ''dest_addr'',
     ''raw_hex'', ''normalized_json'', ''ship_msg_type'', ''ship_payload'', ''spine_payload'',
     ''cmd_classifier'', ''function_set'', ''msg_counter'', ''msg_counter_ref'',
     ''device_source'', ''device_dest'', ''entity_source'', ''entity_dest'', ''feature_source'', ''feature_dest'', ''parse_error'']"

definition message_dests :: "message scan_dest list" where
  "message_dests = [to_int (\<lambda>v m. m\<lparr>m_id := v\<rparr>), to_int (\<lambda>v m. m\<lparr>m_trace := v\<rparr>), to_int (\<lambda>v m. m\<lparr>m_seq := v\<rparr>), to_time (\<lambda>v m. m\<lparr>m_time := v\<rparr>),
     to_text (\<lambda>v m. m\<lparr>m_dir := v\<rparr>), to_text (\<lambda>v m. m\<lparr>m_src_addr := v\<rparr>), to_text (\<lambda>v m. m\<lparr>m_dst_addr := v\<rparr>),
     to_text (\<lambda>v m. m\<lparr>m_raw_hex := v\<rparr>), to_raw (\<lambda>v m. m\<lparr>m_norm := v\<rparr>), to_text (\<lambda>v m. m\<lparr>m_type := v\<rparr>), to_raw (\<lambda>v m. m\<lparr>m_ship := v\<rparr>),
     to_raw (\<lambda>v m. m\<lparr>m_spine := v\<rparr>), to_text (\<lambda>v m. m\<lparr>m_classifier := v\<rparr>), to_text (\<lambda>v m. m\<lparr>m_fn := v\<rparr>), to_text (\<lambda>v m. m\<lparr>m_ctr := v\<rparr>),
     to_text (\<lambda>v m. m\<lparr>m_ref := v\<rparr>), to_text (\<lambda>v m. m\<lparr>m_dev_src := v\<rparr>), to_text (\<lambda>v m. m\<lparr>m_dev_dst := v\<rparr>),
     to_text (\<lambda>v m. m\<lparr>m_ent_src := v\<rparr>), to_text (\<lambda>v m. m\<lparr>m_ent_dst := v\<rparr>), to_text (\<lambda>v m. m\<lparr>m_feat_src := v\<rparr>),
     to_text (\<lambda>v m. m\<lparr>m_feat_dst := v\<rparr>), to_text (\<lambda>v m. m\<lparr>m_error := v\<rparr>)]"

definition message_row :: "int \<Rightarrow> message \<Rightarrow> sql_row option" where
  "message_row i m = inserted_row i [] message_insert_cols (message_insert_args m)"

definition scanMessage :: "sql_row \<Rightarrow> message option" where
  "scanMessage = read_row messageCols message_dests empty_message"

definition summary_cols :: "string list" where
  "summary_cols = [''id'', ''trace_id'', ''sequence_num'', ''timestamp'', ''direction'',
     ''ship_msg_type'', ''cmd_classifier'', ''function_set'', ''msg_counter'', ''msg_counter_ref'',
     ''device_source'', ''device_dest'', ''source_addr'', ''dest_addr'']"

definition summary_dests :: "summary scan_dest list" where
  "summary_dests = [to_int (\<lambda>v m. m\<lparr>s_id := v\<rparr>), to_int (\<lambda>v m. m\<lparr>s_trace := v\<rparr>), to_int (\<lambda>v m. m\<lparr>s_seq := v\<rparr>), to_time (\<lambda>v m. m\<lparr>s_time := v\<rparr>),
     to_text (\<lambda>v m. m\<lparr>s_dir := v\<rparr>), to_text (\<lambda>v m. m\<lparr>s_type := v\<rparr>), to_text (\<lambda>v m. m\<lparr>s_classifier := v\<rparr>), to_text (\<lambda>v m. m\<lparr>s_fn := v\<rparr>),
     to_text (\<lambda>v m. m\<lparr>s_ctr := v\<rparr>), to_text (\<lambda>v m. m\<lparr>s_ref := v\<rparr>), to_text (\<lambda>v m. m\<lparr>s_dev_src := v\<rparr>), to_text (\<lambda>v m. m\<lparr>s_dev_dst := v\<rparr>),
     to_text (\<lambda>v m. m\<lparr>s_src_addr := v\<rparr>), to_text (\<lambda>v m. m\<lparr>s_dst_addr := v\<rparr>)]"

definition scanSummary :: "sql_row \<Rightarrow> summary option" where
  "scanSummary = read_row summary_cols summary_dests (ToSummary empty_message)"

section \<open>Traces\<close>

definition empty_trace :: trace where
  "empty_trace = \<lparr>t_id = 0, t_name = [], t_descr = [], t_started = zero_time, t_stopped = None, t_count = 0, t_created = zero_time, t_skipped = 0\<rparr>"

definition sql_time_ptr :: "time option \<Rightarrow> sql_value" where
  "sql_time_ptr t = (case t of None \<Rightarrow> SqlNull | Some u \<Rightarrow> SqlTime u)"

definition trace_insert_cols :: "string list" where
  "trace_insert_cols = [''name'', ''description'', ''started_at'', ''stopped_at'', ''message_count'', ''created_at'', ''skipped_truncated'']"

definition trace_row :: "int \<Rightarrow> trace \<Rightarrow> sql_row option" where
  "trace_row i t = inserted_row i [] trace_insert_cols
     [SqlText (t_name t), SqlText (t_descr t), SqlTime (t_started t), sql_time_ptr (t_stopped t), SqlInt (t_count t), SqlTime (t_created t),
      SqlInt (t_skipped t)]"

definition trace_cols :: "string list" where
  "trace_cols = [''id'', ''name'', ''description'', ''started_at'', ''stopped_at'', ''message_count'', ''created_at'', ''skipped_truncated'']"

definition trace_dests :: "trace scan_dest list" where
  "trace_dests = [to_int (\<lambda>v t. t\<lparr>t_id := v\<rparr>), to_text (\<lambda>v t. t\<lparr>t_name := v\<rparr>), to_text (\<lambda>v t. t\<lparr>t_descr := v\<rparr>), to_time (\<lambda>v t. t\<lparr>t_started := v\<rparr>),
     to_time_ptr (\<lambda>v t. t\<lparr>t_stopped := v\<rparr>), to_int (\<lambda>v t. t\<lparr>t_count := v\<rparr>), to_time (\<lambda>v t. t\<lparr>t_created := v\<rparr>), to_int (\<lambda>v t. t\<lparr>t_skipped := v\<rparr>)]"

definition scanTrace :: "sql_row \<Rightarrow> trace option" where
  "scanTrace = read_row trace_cols trace_dests empty_trace"

section \<open>Bookmarks and charts\<close>

definition empty_bookmark :: bookmark where
  "empty_bookmark = \<lparr>b_id = 0, b_message = 0, b_trace = 0, b_label = [], b_color = [], b_note = [], b_created = zero_time\<rparr>"

definition bookmark_insert_cols :: "string list" where
  "bookmark_insert_cols = [''message_id'', ''trace_id'', ''label'', ''color'', ''note'']"

definition bookmark_row :: "time \<Rightarrow> int \<Rightarrow> bookmark \<Rightarrow> sql_row option" where
  "bookmark_row now i b = inserted_row i [(''created_at'', SqlTime now)] bookmark_insert_cols
     [SqlInt (b_message b), SqlInt (b_trace b), SqlText (b_label b), SqlText (b_color b), SqlText (b_note b)]"

definition bookmark_cols :: "string list" where
  "bookmark_cols = [''id'', ''message_id'', ''trace_id'', ''label'', ''color'', ''note'', ''created_at'']"

definition bookmark_dests :: "bookmark scan_dest list" where
  "bookmark_dests = [to_int (\<lambda>v b. b\<lparr>b_id := v\<rparr>), to_int (\<lambda>v b. b\<lparr>b_message := v\<rparr>), to_int (\<lambda>v b. b\<lparr>b_trace := v\<rparr>), to_text (\<lambda>v b. b\<lparr>b_label := v\<rparr>),
     to_text (\<lambda>v b. b\<lparr>b_color := v\<rparr>), to_text (\<lambda>v b. b\<lparr>b_note := v\<rparr>), to_time (\<lambda>v b. b\<lparr>b_created := v\<rparr>)]"

definition scanBookmark :: "sql_row \<Rightarrow> bookmark option" where
  "scanBookmark = read_row bookmark_cols bookmark_dests empty_bookmark"

definition empty_chart :: chart_definition where
  "empty_chart = \<lparr>cd_id = 0, cd_name = [], cd_trace = None, cd_type = [], cd_built_in = False, cd_sources = [], cd_created = zero_time\<rparr>"

definition chart_insert_cols :: "string list" where
  "chart_insert_cols = [''name'', ''trace_id'', ''chart_type'', ''is_built_in'', ''sources'']"

definition sql_int_ptr :: "int option \<Rightarrow> sql_value" where
  "sql_int_ptr i = (case i of None \<Rightarrow> SqlNull | Some j \<Rightarrow> SqlInt j)"

definition chart_row :: "time \<Rightarrow> int \<Rightarrow> chart_definition \<Rightarrow> sql_row option" where
  "chart_row now i c = inserted_row i [(''created_at'', SqlTime now)] chart_insert_cols
     [SqlText (cd_name c), sql_int_ptr (cd_trace c), SqlText (cd_type c), SqlBool (cd_built_in c), SqlText (cd_sources c)]"

definition chart_cols :: "string list" where
  "chart_cols = [''id'', ''name'', ''trace_id'', ''chart_type'', ''is_built_in'', ''sources'', ''created_at'']"

definition chart_dests :: "chart_definition scan_dest list" where
  "chart_dests = [to_int (\<lambda>v c. c\<lparr>cd_id := v\<rparr>), to_text (\<lambda>v c. c\<lparr>cd_name := v\<rparr>), to_null_int (\<lambda>v c. c\<lparr>cd_trace := v\<rparr>),
     to_text (\<lambda>v c. c\<lparr>cd_type := v\<rparr>), to_bool (\<lambda>v c. c\<lparr>cd_built_in := v\<rparr>), to_text (\<lambda>v c. c\<lparr>cd_sources := v\<rparr>), to_time (\<lambda>v c. c\<lparr>cd_created := v\<rparr>)]"

definition scanChart :: "sql_row \<Rightarrow> chart_definition option" where
  "scanChart = read_row chart_cols chart_dests empty_chart"

section \<open>Lemmas\<close>

text \<open>The migrations create the columns.\<close>

lemma columns_created:
  "CreateTable ''messages'' messageCols \<in> set v1_statements" "set (message_insert_cols @ summary_cols) \<subseteq> set messageCols"
  "CreateTable ''traces'' (butlast trace_cols) \<in> set v1_statements" "AddColumn ''traces'' (last trace_cols) \<in> set v7_statements"
  "set trace_insert_cols \<subseteq> set trace_cols" "CreateTable ''bookmarks'' bookmark_cols \<in> set v2_statements"
  "set bookmark_insert_cols \<subseteq> set bookmark_cols" "CreateTable ''chart_definitions'' chart_cols \<in> set v4_statements"
  "set chart_insert_cols \<subseteq> set chart_cols"
  by (simp_all add: v1_statements_def v2_statements_def v4_statements_def v7_statements_def messageCols_def message_insert_cols_def
      summary_cols_def trace_cols_def trace_insert_cols_def bookmark_cols_def bookmark_insert_cols_def chart_cols_def chart_insert_cols_def)

lemma raw_roundtrip: "to_raw f (jsonStr d) r = Some (f d r)"
  by (simp add: to_raw_def jsonStr_def nullToRawMessage_def)

lemma pointer_roundtrip:
  "to_time_ptr g (sql_time_ptr t) r = Some (g t r)" "to_null_int h (sql_int_ptr i) r' = Some (h i r')"
  by (simp_all add: dests sql_time_ptr_def sql_int_ptr_def split: option.split)

lemma plain_roundtrip:
  "to_int f1 (SqlInt i) r = Some (f1 i r)" "to_text f2 (SqlText s) r = Some (f2 s r)" "to_time f3 (SqlTime t) r = Some (f3 t r)"
  "to_bool f4 (SqlBool b) r = Some (f4 b r)"
  by (simp_all add: dests)

lemmas roundtrips = raw_roundtrip pointer_roundtrip plain_roundtrip
lemmas row_defs = inserted_row_def read_row_def select_row_def roundtrips

lemma message_row_scanned: "\<exists>r. message_row i m = Some r \<and> scanMessage r = Some (m\<lparr>m_id := i, m_raw := []\<rparr>)"
  by (simp add: message_row_def scanMessage_def row_defs message_insert_cols_def message_insert_args_def messageCols_def message_dests_def empty_message_def)

lemma message_row_summary: "\<exists>r. message_row i m = Some r \<and> scanSummary r = Some (ToSummary (m\<lparr>m_id := i\<rparr>))"
  by (simp add: message_row_def scanSummary_def row_defs message_insert_cols_def message_insert_args_def summary_cols_def summary_dests_def
      empty_message_def ToSummary_def)

lemma message_row_keys: "\<exists>r. message_row i m = Some r \<and> r ''id'' = Some (SqlInt i) \<and> r ''trace_id'' = Some (SqlInt (m_trace m))"
  by (simp add: message_row_def inserted_row_def message_insert_cols_def message_insert_args_def)

lemma trace_row_roundtrip: "\<exists>r. trace_row i t = Some r \<and> scanTrace r = Some (t\<lparr>t_id := i\<rparr>)"
  by (simp add: trace_row_def scanTrace_def row_defs trace_insert_cols_def trace_cols_def trace_dests_def empty_trace_def)

lemma bookmark_row_roundtrip: "\<exists>r. bookmark_row now i b = Some r \<and> scanBookmark r = Some (b\<lparr>b_id := i, b_created := now\<rparr>)"
  by (simp add: bookmark_row_def scanBookmark_def row_defs bookmark_insert_cols_def bookmark_cols_def bookmark_dests_def empty_bookmark_def)

lemma chart_row_roundtrip: "\<exists>r. chart_row now i c = Some r \<and> scanChart r = Some (c\<lparr>cd_id := i, cd_created := now\<rparr>)"
  by (simp add: chart_row_def scanChart_def row_defs chart_insert_cols_def chart_cols_def chart_dests_def empty_chart_def)

lemma scanTrace_iff:
  "scanTrace r = Some t \<longleftrightarrow> r ''id'' = Some (SqlInt (t_id t)) \<and> r ''name'' = Some (SqlText (t_name t)) \<and> r ''description'' = Some (SqlText (t_descr t))
     \<and> r ''started_at'' = Some (SqlTime (t_started t)) \<and> r ''stopped_at'' = Some (sql_time_ptr (t_stopped t))
     \<and> r ''message_count'' = Some (SqlInt (t_count t)) \<and> r ''created_at'' = Some (SqlTime (t_created t))
     \<and> r ''skipped_truncated'' = Some (SqlInt (t_skipped t))"
  by (cases t) (auto simp: scanTrace_def read_row_def select_row_def trace_cols_def trace_dests_def empty_trace_def dests sql_time_ptr_def
      split: option.splits sql_value.splits)

lemma scanChart_iff:
  "scanChart r = Some c \<longleftrightarrow> r ''id'' = Some (SqlInt (cd_id c)) \<and> r ''name'' = Some (SqlText (cd_name c)) \<and> r ''trace_id'' = Some (sql_int_ptr (cd_trace c))
     \<and> r ''chart_type'' = Some (SqlText (cd_type c)) \<and> r ''is_built_in'' = Some (SqlBool (cd_built_in c))
     \<and> r ''sources'' = Some (SqlText (cd_sources c)) \<and> r ''created_at'' = Some (SqlTime (cd_created c))"
  by (cases c) (auto simp: scanChart_def read_row_def select_row_def chart_cols_def chart_dests_def empty_chart_def dests sql_int_ptr_def
      split: option.splits sql_value.splits)

lemma scanBookmark_keys:
  "scanBookmark r = Some b \<Longrightarrow> r ''trace_id'' = Some (SqlInt (b_trace b)) \<and> r ''message_id'' = Some (SqlInt (b_message b))"
  by (auto simp: scanBookmark_def read_row_def select_row_def bookmark_cols_def bookmark_dests_def empty_bookmark_def dests
      split: option.splits sql_value.splits)

section \<open>The tables and the store\<close>

record tables =
  tb_traces :: "sql_row list"
  tb_messages :: "sql_row list"
  tb_bookmarks :: "sql_row list"
  tb_charts :: "sql_row list"

text \<open>A row that is read as the message, whole and in short, and whose keys are those of the message.\<close>

definition message_stored :: "sql_row \<Rightarrow> message \<Rightarrow> bool" where
  "message_stored r m \<longleftrightarrow> scanMessage r = Some m \<and> scanSummary r = Some (ToSummary m)
     \<and> r ''id'' = Some (SqlInt (m_id m)) \<and> r ''trace_id'' = Some (SqlInt (m_trace m))"

definition represents :: "tables \<Rightarrow> store \<Rightarrow> bool" where
  "represents tb s \<longleftrightarrow> list_all2 (\<lambda>r t. scanTrace r = Some t) (tb_traces tb) (st_traces s)
     \<and> list_all2 message_stored (tb_messages tb) (st_messages s)
     \<and> list_all2 (\<lambda>r b. scanBookmark r = Some b) (tb_bookmarks tb) (st_bookmarks s)
     \<and> list_all2 (\<lambda>r c. scanChart r = Some c) (tb_charts tb) (st_charts s)"

text \<open>\<open>INSERT\<close>, \<open>UPDATE \<dots> SET \<dots> WHERE id = ?\<close> and \<open>DELETE\<close> on a table. A value to set may depend on the row.\<close>

definition insert_into :: "sql_row option \<Rightarrow> sql_row list \<Rightarrow> sql_row list" where
  "insert_into r rows = (case r of None \<Rightarrow> rows | Some r' \<Rightarrow> rows @ [r'])"

definition update_where :: "int \<Rightarrow> (sql_row \<Rightarrow> (string \<times> sql_value) list) \<Rightarrow> sql_row list \<Rightarrow> sql_row list" where
  "update_where i sets rows = map (\<lambda>r. if r ''id'' = Some (SqlInt i) then r ++ map_of (sets r) else r) rows"

definition sql_add :: "sql_value option \<Rightarrow> int \<Rightarrow> sql_value" where
  "sql_add v k = (case v of Some (SqlInt n) \<Rightarrow> SqlInt (n + k) | _ \<Rightarrow> SqlNull)"

definition update_trace_sets :: "trace \<Rightarrow> sql_row \<Rightarrow> (string \<times> sql_value) list" where
  "update_trace_sets t r = [(''name'', SqlText (t_name t)), (''description'', SqlText (t_descr t)), (''message_count'', SqlInt (t_count t))]"

definition stop_trace_sets :: "time \<Rightarrow> int \<Rightarrow> int \<Rightarrow> sql_row \<Rightarrow> (string \<times> sql_value) list" where
  "stop_trace_sets stoppedAt messageCount skipped r = [(''stopped_at'', SqlTime stoppedAt), (''message_count'', SqlInt messageCount),
     (''skipped_truncated'', sql_add (r ''skipped_truncated'') skipped)]"

definition update_chart_sets :: "chart_definition \<Rightarrow> sql_row \<Rightarrow> (string \<times> sql_value) list" where
  "update_chart_sets c r = [(''name'', SqlText (cd_name c)), (''chart_type'', SqlText (cd_type c)), (''sources'', SqlText (cd_sources c))]"

lemma list_all2_update:
  assumes "list_all2 P rows xs" and "\<And>r x. P r x \<Longrightarrow> P (f r) (g x)"
  shows "list_all2 P (map f rows) (map g xs)"
  using assms(1) by (induction rule: list_all2_induct) (auto intro: assms(2))

lemma traces_updated:
  assumes "list_all2 (\<lambda>r t. scanTrace r = Some t) rows ts"
  shows "list_all2 (\<lambda>r t. scanTrace r = Some t) (update_where (t_id t) (update_trace_sets t) rows)
      (map (\<lambda>r. if t_id r = t_id t then r\<lparr>t_name := t_name t, t_descr := t_descr t, t_count := t_count t\<rparr> else r) ts)"
    and "list_all2 (\<lambda>r t. scanTrace r = Some t) (update_where i (stop_trace_sets now n k) rows)
      (map (\<lambda>r. if t_id r = i then r\<lparr>t_stopped := Some now, t_count := n, t_skipped := t_skipped r + k\<rparr> else r) ts)"
  unfolding update_where_def
  by (rule list_all2_update [OF assms], simp add: scanTrace_iff update_trace_sets_def stop_trace_sets_def sql_add_def sql_time_ptr_def map_add_def)+

lemma charts_updated:
  assumes "list_all2 (\<lambda>r c. scanChart r = Some c) rows cs"
  shows "list_all2 (\<lambda>r c. scanChart r = Some c) (update_where (cd_id c) (update_chart_sets c) rows)
      (map (\<lambda>r. if cd_id r = cd_id c then r\<lparr>cd_name := cd_name c, cd_type := cd_type c, cd_sources := cd_sources c\<rparr> else r) cs)"
  unfolding update_where_def
  by (rule list_all2_update [OF assms], simp add: scanChart_iff update_chart_sets_def map_add_def)

lemma message_row_stored: "\<exists>r. message_row i m = Some r \<and> message_stored r (m\<lparr>m_id := i, m_raw := []\<rparr>)"
  using message_row_scanned [of i m] message_row_summary [of i m] message_row_keys [of i m]
  by (auto simp: message_stored_def ToSummary_def)

lemma insert_represents:
  assumes "represents tb s"
  shows "list_all2 message_stored (insert_into (message_row i m) (tb_messages tb)) (st_messages s @ [m\<lparr>m_id := i, m_raw := []\<rparr>])"
    and "list_all2 (\<lambda>r t. scanTrace r = Some t) (insert_into (trace_row i t) (tb_traces tb)) (st_traces s @ [t\<lparr>t_id := i\<rparr>])"
    and "list_all2 (\<lambda>r b. scanBookmark r = Some b) (insert_into (bookmark_row now i b) (tb_bookmarks tb)) (st_bookmarks s @ [b\<lparr>b_id := i, b_created := now\<rparr>])"
    and "list_all2 (\<lambda>r c. scanChart r = Some c) (insert_into (chart_row now i c) (tb_charts tb)) (st_charts s @ [c\<lparr>cd_id := i, cd_created := now\<rparr>])"
  using assms message_row_stored [of i m] trace_row_roundtrip [of i t] bookmark_row_roundtrip [of now i b] chart_row_roundtrip [of now i c]
  by (auto simp: insert_into_def represents_def intro: list_all2_appendI)

text \<open>\<open>DELETE FROM traces\<close>, with its cascades where the connection enforces foreign keys.\<close>

definition delete_trace_rows :: "bool \<Rightarrow> int \<Rightarrow> tables \<Rightarrow> tables" where
  "delete_trace_rows fk i tb =
     (let of_trace = (\<lambda>r. r ''trace_id'' = Some (SqlInt i)); gone = map (\<lambda>r. r ''id'') (filter of_trace (tb_messages tb));
          left = tb\<lparr>tb_traces := filter (\<lambda>r. r ''id'' \<noteq> Some (SqlInt i)) (tb_traces tb)\<rparr>
      in if \<not> fk then left
         else left\<lparr>tb_messages := filter (\<lambda>r. \<not> of_trace r) (tb_messages tb),
           tb_bookmarks := filter (\<lambda>r. \<not> of_trace r \<and> r ''message_id'' \<notin> set gone) (tb_bookmarks tb),
           tb_charts := filter (\<lambda>r. \<not> of_trace r) (tb_charts tb)\<rparr>)"

lemma list_all2_filter:
  assumes "list_all2 P rows xs" and "\<And>r x. P r x \<Longrightarrow> f r = g x"
  shows "list_all2 P (filter f rows) (filter g xs)"
  using assms(1) by (induction rule: list_all2_induct) (auto simp: assms(2))

lemma gone_rows:
  assumes "list_all2 message_stored rows ms'"
  shows "map (\<lambda>r. r ''id'') (filter (\<lambda>r. r ''trace_id'' = Some (SqlInt i)) rows)
     = map (\<lambda>j. Some (SqlInt j)) (map m_id (filter (\<lambda>m. m_trace m = i) ms'))"
  using assms by (induction rule: list_all2_induct) (auto simp: message_stored_def)

lemma delete_represents:
  assumes "represents tb s"
  shows "represents (delete_trace_rows (st_fk s) i tb) (DeleteTrace i s)"
proof -
  define gone where "gone = map m_id (filter (\<lambda>m. m_trace m = i) (st_messages s))"
  let ?gone = "map (\<lambda>j. Some (SqlInt j)) gone"
  have t: "list_all2 (\<lambda>r t. scanTrace r = Some t) (tb_traces tb) (st_traces s)" and m: "list_all2 message_stored (tb_messages tb) (st_messages s)"
    and b: "list_all2 (\<lambda>r b. scanBookmark r = Some b) (tb_bookmarks tb) (st_bookmarks s)"
    and c: "list_all2 (\<lambda>r c. scanChart r = Some c) (tb_charts tb) (st_charts s)"
    using assms by (simp_all add: represents_def)
  have "list_all2 (\<lambda>r t. scanTrace r = Some t) (filter (\<lambda>r. r ''id'' \<noteq> Some (SqlInt i)) (tb_traces tb)) (filter (\<lambda>t. t_id t \<noteq> i) (st_traces s))"
    by (rule list_all2_filter [OF t]) (simp add: scanTrace_iff)
  moreover have "list_all2 message_stored (filter (\<lambda>r. \<not> r ''trace_id'' = Some (SqlInt i)) (tb_messages tb)) (filter (\<lambda>m. m_trace m \<noteq> i) (st_messages s))"
    by (rule list_all2_filter [OF m]) (simp add: message_stored_def)
  moreover have "list_all2 (\<lambda>r b. scanBookmark r = Some b) (filter (\<lambda>r. \<not> r ''trace_id'' = Some (SqlInt i) \<and> r ''message_id'' \<notin> set ?gone) (tb_bookmarks tb))
      (filter (\<lambda>b. b_trace b \<noteq> i \<and> b_message b \<notin> set gone) (st_bookmarks s))"
    by (rule list_all2_filter [OF b]) (auto dest!: scanBookmark_keys)
  moreover have "list_all2 (\<lambda>r c. scanChart r = Some c) (filter (\<lambda>r. \<not> r ''trace_id'' = Some (SqlInt i)) (tb_charts tb)) (filter (\<lambda>c. cd_trace c \<noteq> Some i) (st_charts s))"
    by (rule list_all2_filter [OF c]) (auto simp: scanChart_iff sql_int_ptr_def split: option.splits)
  ultimately show ?thesis unfolding represents_def delete_trace_rows_def DeleteTrace_def Let_def gone_rows [OF m] gone_def [symmetric] using m b c by simp
qed

text \<open>C39: The rows of the database are those \<open>Store\<close> keeps. A column is never mixed up with another between the statement that writes it and the one that
  reads it: each write, done on rows column by column in the order of its statement, leaves rows that the readers, taking columns in the order of
  theirs, turn into exactly the records of the store after the operation, messages both whole and as summaries. A deletion takes the rows
  that the schema cascades to when the connection enforces foreign keys, and the row of the trace alone when it does not.\<close>

theorem rows_refine:
  assumes "represents tb s"
  shows "(InsertMessage m s = Some (m', s1) \<longrightarrow> represents (tb\<lparr>tb_messages := insert_into (message_row (st_next_message s) m) (tb_messages tb)\<rparr>) s1)
    \<and> represents (tb\<lparr>tb_traces := insert_into (trace_row (st_next_trace s) t) (tb_traces tb)\<rparr>) (snd (CreateTrace t s))
    \<and> (BookmarkCreate now b s = Some (b', s2) \<longrightarrow> represents (tb\<lparr>tb_bookmarks := insert_into (bookmark_row now (st_next_bookmark s) b) (tb_bookmarks tb)\<rparr>) s2)
    \<and> (ChartCreate now c s = Some (c', s3) \<longrightarrow> represents (tb\<lparr>tb_charts := insert_into (chart_row now (st_next_chart s) c) (tb_charts tb)\<rparr>) s3)
    \<and> represents (tb\<lparr>tb_traces := update_where (t_id t) (update_trace_sets t) (tb_traces tb)\<rparr>) (UpdateTrace t s)
    \<and> represents (tb\<lparr>tb_traces := update_where i (stop_trace_sets now n k) (tb_traces tb)\<rparr>) (StopTrace i now n k s)
    \<and> represents (tb\<lparr>tb_charts := update_where (cd_id c) (update_chart_sets c) (tb_charts tb)\<rparr>) (ChartUpdate c s)
    \<and> represents (delete_trace_rows (st_fk s) i tb) (DeleteTrace i s)"
proof -
  note rows = assms [unfolded represents_def]
  have "represents (tb\<lparr>tb_messages := insert_into (message_row (st_next_message s) m) (tb_messages tb)\<rparr>) s1" if "InsertMessage m s = Some (m', s1)"
    using that rows insert_represents(1) [OF assms, of "st_next_message s" m]
    by (auto simp: represents_def InsertMessage_def Let_def split: if_splits)
  moreover have "represents (tb\<lparr>tb_traces := insert_into (trace_row (st_next_trace s) t) (tb_traces tb)\<rparr>) (snd (CreateTrace t s))"
    using rows insert_represents(2) [OF assms, of "st_next_trace s" t] by (simp add: represents_def CreateTrace_def Let_def)
  moreover have "represents (tb\<lparr>tb_bookmarks := insert_into (bookmark_row now (st_next_bookmark s) b) (tb_bookmarks tb)\<rparr>) s2"
    if "BookmarkCreate now b s = Some (b', s2)"
    using that rows insert_represents(3) [OF assms, of now "st_next_bookmark s" b]
    by (auto simp: represents_def BookmarkCreate_def Let_def split: if_splits)
  moreover have "represents (tb\<lparr>tb_charts := insert_into (chart_row now (st_next_chart s) c) (tb_charts tb)\<rparr>) s3"
    if "ChartCreate now c s = Some (c', s3)"
    using that rows insert_represents(4) [OF assms, of now "st_next_chart s" c]
    by (auto simp: represents_def ChartCreate_def Let_def split: if_splits)
  moreover have "represents (tb\<lparr>tb_traces := update_where (t_id t) (update_trace_sets t) (tb_traces tb)\<rparr>) (UpdateTrace t s)"
    "represents (tb\<lparr>tb_traces := update_where i (stop_trace_sets now n k) (tb_traces tb)\<rparr>) (StopTrace i now n k s)"
    using rows traces_updated [of "tb_traces tb" "st_traces s"] by (simp_all add: represents_def UpdateTrace_def StopTrace_def)
  moreover have "represents (tb\<lparr>tb_charts := update_where (cd_id c) (update_chart_sets c) (tb_charts tb)\<rparr>) (ChartUpdate c s)"
    using rows charts_updated [of "tb_charts tb" "st_charts s"] by (simp add: represents_def ChartUpdate_def)
  ultimately show ?thesis using delete_represents [OF assms] by blast
qed

text \<open>A new database, in which a trace is created and then deleted.\<close>

definition new_tables :: tables where
  "new_tables = \<lparr>tb_traces = [], tb_messages = [], tb_bookmarks = [], tb_charts = map (\<lambda>c. the (chart_row 0 (cd_id c) c)) (built_in_charts 0)\<rparr>"

lemma new_tables_represent: "represents new_tables (migrated (built_in_charts 0))"
proof -
  have "scanChart (the (chart_row 0 (cd_id c) c)) = Some c" if "cd_created c = 0" for c
    using chart_row_roundtrip [of 0 "cd_id c" c] that by auto
  moreover have "\<forall>c \<in> set (built_in_charts 0). cd_created c = 0" by (simp add: built_in_charts_def)
  ultimately have "list_all2 (\<lambda>r c. scanChart r = Some c) (tb_charts new_tables) (built_in_charts 0)"
    by (simp add: new_tables_def list_all2_map1 list.rel_refl_strong)
  then show ?thesis by (simp add: represents_def new_tables_def migrated_def)
qed

theorem rows_refine_witness:
  "represents (delete_trace_rows True 1 (new_tables\<lparr>tb_traces := insert_into (trace_row 1 sample_trace) []\<rparr>))
     (DeleteTrace 1 (snd (CreateTrace sample_trace (migrated (built_in_charts 0)))))"
proof -
  have n: "st_next_trace (migrated (built_in_charts 0)) = 1" "tb_traces new_tables = []" by (simp_all add: migrated_def new_tables_def)
  have "represents (new_tables\<lparr>tb_traces := insert_into (trace_row 1 sample_trace) []\<rparr>) (snd (CreateTrace sample_trace (migrated (built_in_charts 0))))"
    using rows_refine [OF new_tables_represent, where t = sample_trace] unfolding n by blast
  from rows_refine [OF this, where i = 1] have "represents (delete_trace_rows (st_fk (snd (CreateTrace sample_trace (migrated (built_in_charts 0))))) 1
      (new_tables\<lparr>tb_traces := insert_into (trace_row 1 sample_trace) []\<rparr>)) (DeleteTrace 1 (snd (CreateTrace sample_trace (migrated (built_in_charts 0)))))"
    by blast
  moreover have "st_fk (snd (CreateTrace sample_trace (migrated (built_in_charts 0))))" by (simp add: CreateTrace_def migrated_def Let_def)
  ultimately show ?thesis by simp
qed

end
