(* ===== verification/Database.thy ===== *)
theory Database
  imports Store
begin

text \<open>
  \<open>store/db.go\<close>: a database is a pool of connections, as \<open>database/sql\<close> keeps it. A statement takes an idle connection
  or opens one, and gives it back; the pool keeps two idle ones. Whether foreign keys are enforced is a setting of each connection, off when it is
  opened, and \<open>Open\<close> turns it on where its \<open>PRAGMA\<close> happens to run. The operations of \<open>Store\<close> run on one connection; here are the deletions of a pool.
\<close>

section \<open>The pool\<close>

text \<open>The settings of the idle connections, and of those in use with the statement that uses them.\<close>

record conn_pool =
  po_idle :: "bool list"
  po_busy :: "(nat \<times> bool) list"

definition acquire :: "nat \<Rightarrow> conn_pool \<Rightarrow> bool \<times> conn_pool" where
  "acquire k p = (case po_idle p of
       [] \<Rightarrow> (False, p\<lparr>po_busy := (k, False) # po_busy p\<rparr>)
     | fk # rest \<Rightarrow> (fk, \<lparr>po_idle = rest, po_busy = (k, fk) # po_busy p\<rparr>))"

definition give_back :: "nat \<Rightarrow> bool \<Rightarrow> conn_pool \<Rightarrow> conn_pool" where
  "give_back k fk p =
     (let p' = p\<lparr>po_busy := filter (\<lambda>c. fst c \<noteq> k) (po_busy p)\<rparr>
      in if length (po_idle p') < 2 then p'\<lparr>po_idle := fk # po_idle p'\<rparr> else p')"

text \<open>\<open>Open\<close>: the two pragmas run one after the other, the second on the connection the first gave back.\<close>

definition OpenDB :: "string option \<Rightarrow> string option \<Rightarrow> string option \<Rightarrow> string + conn_pool" where
  "OpenDB open_error wal_error fk_error =
     (case open_error of
        Some e \<Rightarrow> Inl (''open database: '' @ e)
      | None \<Rightarrow> (case wal_error of
          Some e \<Rightarrow> Inl (''set WAL mode: '' @ e)
        | None \<Rightarrow>
            (let p0 = \<lparr>po_idle = [], po_busy = []\<rparr>; (fk0, p1) = acquire 0 p0; p2 = give_back 0 fk0 p1; (fk1, p3) = acquire 1 p2
             in case fk_error of Some e \<Rightarrow> Inl (''enable foreign keys: '' @ e) | None \<Rightarrow> Inr (give_back 1 True p3))))"

section \<open>Deleting a trace\<close>

definition delete_on :: "bool \<Rightarrow> int \<Rightarrow> store \<Rightarrow> store" where
  "delete_on enforced i s = DeleteTrace i (on_connection enforced s)"

datatype pool_op = Query nat | Finish nat | Delete int

text \<open>A query keeps its connection until its rows are read; a deletion is over at once.\<close>

fun pool_step :: "pool_op \<Rightarrow> conn_pool \<times> store \<Rightarrow> conn_pool \<times> store" where
  "pool_step (Query k) (p, s) = (snd (acquire k p), s)"
| "pool_step (Finish k) (p, s) = (case map_of (po_busy p) k of None \<Rightarrow> (p, s) | Some fk \<Rightarrow> (give_back k fk p, s))"
| "pool_step (Delete i) (p, s) = (case acquire 0 p of (fk, p') \<Rightarrow> (give_back 0 fk p', delete_on fk i s))"

text \<open>Queries are numbered from 1, and none overlaps another operation.\<close>

fun one_at_a_time :: "pool_op list \<Rightarrow> bool" where
  "one_at_a_time [] = True"
| "one_at_a_time (Delete i # ops) = one_at_a_time ops"
| "one_at_a_time (Query k # Finish k' # ops) = (k = k' \<and> one_at_a_time ops)"
| "one_at_a_time _ = False"

fun deletions :: "pool_op list \<Rightarrow> int list" where
  "deletions [] = []"
| "deletions (Delete i # ops) = i # deletions ops"
| "deletions (_ # ops) = deletions ops"

section \<open>Lemmas\<close>

definition opened :: conn_pool where "opened = \<lparr>po_idle = [True], po_busy = []\<rparr>"

lemma OpenDB_pool: "OpenDB None None None = Inr opened"
  by (simp add: OpenDB_def acquire_def give_back_def opened_def)

lemma delete_opened: "pool_step (Delete i) (opened, s) = (opened, DeleteTrace i (on_connection True s))"
  by (simp add: acquire_def give_back_def opened_def delete_on_def)

lemma query_opened: "pool_step (Finish k) (pool_step (Query k) (opened, s)) = (opened, s)"
  by (simp add: acquire_def give_back_def opened_def)

lemma on_again [simp]: "on_connection a (on_connection b s) = on_connection a s"
  by (simp add: on_connection_def)

lemma delete_enforced: "on_connection True (DeleteTrace i (on_connection True s)) = DeleteTrace i (on_connection True s)"
  by (simp add: on_connection_def DeleteTrace_def Let_def)

lemma sequential_pool:
  "one_at_a_time ops \<Longrightarrow> \<exists>s'. fold pool_step ops (opened, s) = (opened, s')
     \<and> on_connection True s' = fold DeleteTrace (deletions ops) (on_connection True s)"
proof (induction ops arbitrary: s rule: one_at_a_time.induct)
  case (2 i ops)
  then show ?case using "2.IH" [of "DeleteTrace i (on_connection True s)"]
    by (simp only: fold.simps o_apply delete_opened delete_enforced one_at_a_time.simps deletions.simps simp_thms)
qed (simp_all only: fold.simps o_apply query_opened one_at_a_time.simps deletions.simps simp_thms id_apply prod.inject ex_simps)

lemma overlapped:
  "snd (pool_step (Delete i) (pool_step (Query 1) (opened, s))) = s\<lparr>st_fk := False, st_traces := filter (\<lambda>t. t_id t \<noteq> i) (st_traces s)\<rparr>"
  by (simp add: acquire_def give_back_def opened_def delete_on_def on_connection_def DeleteTrace_def Let_def)

text \<open>C40: Foreign keys hold as long as the operations on the database do not overlap: then every deletion cascades. A deletion while a query is being
  read runs on a connection without them, and leaves the messages of the trace behind in a database that is no longer consistent,
  whatever connection looks at it.\<close>

theorem pooled_deletions:
  assumes "OpenDB None None None = Inr p"
  shows "(one_at_a_time ops \<longrightarrow>
        on_connection True (snd (fold pool_step ops (p, s))) = fold DeleteTrace (deletions ops) (on_connection True s))
    \<and> (m \<in> set (st_messages s) \<longrightarrow>
        m \<in> set (st_messages (snd (fold pool_step [Query 1, Delete (m_trace m), Finish 1] (p, s))))
        \<and> \<not> store_ok (on_connection fk (snd (fold pool_step [Query 1, Delete (m_trace m), Finish 1] (p, s)))))"
proof -
  have p: "p = opened" using assms OpenDB_pool by simp
  let ?s' = "s\<lparr>st_fk := False, st_traces := filter (\<lambda>t. t_id t \<noteq> m_trace m) (st_traces s)\<rparr>"
  have finish: "snd (pool_step (Finish 1) q) = snd q" for q by (cases q) (simp split: option.split)
  have s': "snd (fold pool_step [Query 1, Delete (m_trace m), Finish 1] (p, s)) = ?s'"
    using overlapped [of "m_trace m" s] by (simp only: fold.simps o_apply id_apply finish p)
  have "\<not> trace_exists (m_trace m) (on_connection fk ?s')" by (auto simp: trace_exists_def on_connection_def)
  moreover have "st_messages (on_connection fk ?s') = st_messages s" by (simp add: on_connection_def)
  ultimately have "\<not> store_ok (on_connection fk ?s')" if "m \<in> set (st_messages s)" using that unfolding store_ok_def by metis
  moreover have "one_at_a_time ops \<Longrightarrow>
      on_connection True (snd (fold pool_step ops (opened, s))) = fold DeleteTrace (deletions ops) (on_connection True s)"
    using sequential_pool [of ops s] by auto
  ultimately show ?thesis unfolding s' by (simp add: p)
qed

theorem pooled_deletions_witness:
  "let gone = snd (fold pool_step [Query 1, Delete 1, Finish 1] (opened, sample_store))
   in sample_message 1 ''read'' ''7'' []\<lparr>m_id := 1\<rparr> \<in> set (st_messages gone) \<and> \<not> store_ok (on_connection True gone)
     \<and> on_connection True (snd (fold pool_step [Delete 1] (opened, sample_store))) = DeleteTrace 1 sample_store"
proof -
  let ?m = "sample_message 1 ''read'' ''7'' []\<lparr>m_id := 1\<rparr>"
  have "?m \<in> set (st_messages sample_store)" "m_trace ?m = 1" "on_connection True sample_store = sample_store"
    by (simp_all add: sample_defs on_connection_def)
  then show ?thesis using pooled_deletions [OF OpenDB_pool, of "[Delete 1]" sample_store ?m True]
    by (simp only: Let_def deletions.simps one_at_a_time.simps fold_simps simp_thms)
qed

end
