(* ===== verification/CommandLine.thy ===== *)
theory CommandLine
  imports CaptureApi DeviceTree
begin

text \<open>
  The commands of \<open>cmd/eebustracer\<close> that do more than pass flags on: \<open>import_cmd.go\<close>, \<open>analyze.go\<close>, \<open>devices.go\<close> (its report is in
  \<open>DeviceTree\<close>) and \<open>capture.go\<close>. A command is a function of its flags and of the file's content; what it prints is a list of lines
  without their line breaks. The JSON output of an analysis is the value that is encoded. \<open>opened\<close> is \<open>os.Open\<close> with the content
  of the file, or the text of the error. The store a command works on is the one \<open>openDB\<close> has opened and migrated (theories \<open>Database\<close> and \<open>Migrations\<close>);
  a command that already fails there is left out.
\<close>

section \<open>File names\<close>

text \<open>\<open>filepath.Ext\<close> and \<open>filepath.Base\<close> on a system with slashes.\<close>

definition last_element :: "string \<Rightarrow> string" where
  "last_element p = rev (takeWhile (\<lambda>c. c \<noteq> CHR ''/'') (rev p))"

definition file_ext :: "string \<Rightarrow> string" where
  "file_ext p = (case last_index ''.'' (last_element p) of None \<Rightarrow> [] | Some i \<Rightarrow> drop i (last_element p))"

definition file_base :: "string \<Rightarrow> string" where
  "file_base p = (if p = [] then ''.''
     else (let q = trim_right_by (\<lambda>c. c = CHR ''/'') p in if q = [] then ''/'' else last_element q))"

definition trim_suffix :: "string \<Rightarrow> string \<Rightarrow> string" where
  "trim_suffix suf s = (if has_suffix suf s then take (length s - length suf) s else s)"

section \<open>import\<close>

definition truncated_note :: "int \<Rightarrow> string list" where
  "truncated_note n = (if 0 < n
     then [[CHR '' '', CHR '' '', CHR 0xE2, CHR 0x9A, CHR 0xA0] @ '' '' @ int_str n @ '' frame(s) had truncated payloads and were skipped''] else [])"

definition runImport :: "web \<Rightarrow> (string \<Rightarrow> string + bytes) \<Rightarrow> string \<Rightarrow> store \<Rightarrow> string list outcome \<times> store" where
  "runImport w opened path s = (case opened path of
       Inl e \<Rightarrow> (Failed (''open file: '' @ e), s)
     | Inr content \<Rightarrow>
         (case ImportFileAutoDetect (wb_ext w) (wb_now w) (trim_suffix (file_ext path) (file_base path)) content of
            Panicked \<Rightarrow> (Panicked, s)
          | Failed e \<Rightarrow> (Failed (''parse trace file: '' @ e), s)
          | Done (t, msgs) \<Rightarrow> (case CreateTrace t s of (t', s1) \<Rightarrow>
              (case (if msgs \<noteq> [] then InsertMessages (map (\<lambda>m. m\<lparr>m_trace := t_id t'\<rparr>) msgs) s1 else Some ([], s1)) of
                 None \<Rightarrow> (Failed (''insert messages: '' @ wb_db_error w), s1)
               | Some (_, s2) \<Rightarrow> (Done ((''Imported trace '' @ go_quote (t_name t') @ '' (ID: '' @ int_str (t_id t') @ '', ''
                    @ int_str (int (length msgs)) @ '' messages)'') # truncated_note (t_skipped t')), s2)))))"

section \<open>analyze and devices\<close>

text \<open>The extension is put in lower case before it is taken off the name.\<close>

definition read_trace_file :: "web \<Rightarrow> (string \<Rightarrow> string + bytes) \<Rightarrow> string \<Rightarrow> (trace \<times> message list) outcome" where
  "read_trace_file w opened path = (case opened path of
       Inl e \<Rightarrow> Failed (''open file: '' @ e)
     | Inr content \<Rightarrow>
         (let ext = to_lower (file_ext path);
              r = (if ext = ''.log'' then of_sum (ImportLogFileAutoDetect (wb_ext w) (wb_now w) (trim_suffix ext (file_base path)) content)
                   else ImportTrace (wb_ext w) (wb_now w) content)
          in case r of Failed e \<Rightarrow> Failed (''parse trace file: '' @ e) | _ \<Rightarrow> r))"

datatype check_result =
    UseCaseCheck "device_use_cases list"
  | SubscriptionCheck "sub_entry list" "bind_entry list"
  | MetricsCheck "jitter list"

definition contains :: "string list \<Rightarrow> string \<Rightarrow> bool" where
  "contains l item \<longleftrightarrow> list_ex (\<lambda>v. trim_space v = item) l"

definition run_checks :: "string \<Rightarrow> message list \<Rightarrow> (string \<times> check_result) list" where
  "run_checks analyzeCheck msgs =
     (let checks = split_char (CHR '','') analyzeCheck; runAll = contains checks ''all''
      in (if runAll \<or> contains checks ''usecases'' then [(''usecases'', UseCaseCheck (DetectUseCases msgs))] else [])
       @ (if runAll \<or> contains checks ''subscriptions''
          then [(''subscriptions'', case TrackSubscriptionsAndBindings msgs five_minutes of (subs, binds) \<Rightarrow> SubscriptionCheck subs binds)] else [])
       @ (if runAll \<or> contains checks ''metrics'' then [(''metrics'', MetricsCheck (ComputeHeartbeatMetrics msgs))] else []))"

text \<open>\<open>%.0f\<close>\<close>

definition fmt_whole :: "'a :: floor_ceiling \<Rightarrow> string" where
  "fmt_whole x = (if x < 0 then ''-'' else []) @ nat_str (nat (round_even \<bar>x\<bar>))"

definition use_case_line :: "use_case \<Rightarrow> string" where
  "use_case_line uc = ''    ['' @ uc_abbr uc @ ''] '' @ uc_name uc @ '' ('' @ (if uc_available uc then ''available'' else ''unavailable'') @ '')''"

definition sub_line :: "sub_entry \<Rightarrow> string" where
  "sub_line u = ''  ['' @ (if su_stale u then ''STALE'' else if su_active u then ''active'' else ''removed'') @ ''] ''
     @ su_client_dev u @ '':'' @ su_client_feat u @ '' -> '' @ su_server_dev u @ '':'' @ su_server_feat u
     @ '' (notifies: '' @ nat_str (su_count u) @ '')''"

definition bind_line :: "bind_entry \<Rightarrow> string" where
  "bind_line b = ''  ['' @ (if bi_active b then ''active'' else ''removed'') @ ''] binding ''
     @ bi_client_dev b @ '':'' @ bi_client_feat b @ '' -> '' @ bi_server_dev b @ '':'' @ bi_server_feat b"

definition jitter_line :: "jitter \<Rightarrow> string" where
  "jitter_line j = ''  Heartbeat '' @ j_pair j @ '': mean='' @ fmt_whole (j_mean j) @ ''ms stddev='' @ fmt_whole (j_std j)
     @ ''ms min='' @ fmt_whole (j_min j) @ ''ms max='' @ fmt_whole (j_max j) @ ''ms ('' @ nat_str (j_count j) @ '' samples)''"

definition printTextResult :: "string \<Rightarrow> check_result \<Rightarrow> string list" where
  "printTextResult name data = [''=== '' @ to_upper name @ '' ==='', []]
     @ (case data of
          UseCaseCheck v \<Rightarrow> (if v = [] then [''  No use cases detected.''] else [])
            @ concat (map (\<lambda>d. (''  Device: '' @ du_device d @ '' (Actor: '' @ du_actor d @ '')'') # map use_case_line (du_cases d) @ [[]]) v)
        | SubscriptionCheck subs binds \<Rightarrow>
            [''  Subscriptions: '' @ nat_str (length subs) @ '' | Bindings: '' @ nat_str (length binds), []] @ map sub_line subs @ map bind_line binds
        | MetricsCheck js \<Rightarrow> (''  Heartbeat jitter entries: '' @ nat_str (length js)) # map jitter_line js)
     @ [[]]"

text \<open>The lines of the text output, or the object that is encoded.\<close>

definition runAnalyze ::
  "web \<Rightarrow> (string \<Rightarrow> string + bytes) \<Rightarrow> string \<Rightarrow> string \<Rightarrow> string \<Rightarrow> (string list + (string \<times> check_result) list) outcome" where
  "runAnalyze w opened path analyzeCheck analyzeOutput = (case read_trace_file w opened path of
       Panicked \<Rightarrow> Panicked
     | Failed e \<Rightarrow> Failed e
     | Done (t, msgs) \<Rightarrow> (let results = run_checks analyzeCheck msgs in
         Done (if analyzeOutput = ''json'' then Inr results else Inl (concat (map (\<lambda>(n, d). printTextResult n d) results)))))"

definition feature_line :: "disc_feature \<Rightarrow> string" where
  "feature_line f = ''    feat '' @ f_address f @ ''  '' @ f_type f @ '' ['' @ (if f_role f = [] then ''?'' else f_role f) @ '']''
     @ (if f_functions f = [] then [] else ''  fns='' @ nat_str (length (f_functions f)))"

definition entity_lines :: "disc_entity \<Rightarrow> string list" where
  "entity_lines e = (''  entity '' @ e_address e @ ''  type='' @ (if e_type e = [] then ''(no entityType)'' else e_type e)
     @ ''  '' @ nat_str (length (e_features e)) @ '' feature(s)'') # map feature_line (e_features e)"

definition report_lines :: "device_report \<Rightarrow> string list" where
  "report_lines r = [''Device: '' @ dr_addr r @ (if dr_actor r = [] then [] else ''  (actor: '' @ dr_actor r @ '')'')
       @ ''  ['' @ int_str (dr_count r) @ '' msgs from]'']
     @ (if dr_entities r = [] then [''  (no discovery data observed)''] else concat (map entity_lines (dr_entities r)))
     @ (if dr_cases r = [] then [] else ''  use cases:'' # map use_case_line (dr_cases r)) @ [[]]"

definition printDeviceReports :: "device_report list \<Rightarrow> string list" where
  "printDeviceReports reports = (if reports = [] then [''No devices observed.''] else concat (map report_lines reports))"

definition runDevices ::
  "(nat \<Rightarrow> nat) \<Rightarrow> web \<Rightarrow> (string \<Rightarrow> string + bytes) \<Rightarrow> string \<Rightarrow> string \<Rightarrow> (string list + string \<times> device_report list) outcome" where
  "runDevices grow w opened path devicesOutput = (case read_trace_file w opened path of
       Panicked \<Rightarrow> Panicked
     | Failed e \<Rightarrow> Failed e
     | Done (t, msgs) \<Rightarrow> (let reports = buildDeviceReports grow msgs in
         Done (if devicesOutput = ''json'' then Inr (t_name t, reports) else Inl (printDeviceReports reports))))"

section \<open>capture\<close>

text \<open>The three flags that name a source.\<close>

record capture_flags =
  cf_target :: string
  cf_log_file :: string
  cf_tcp :: string

definition chosen_source :: "capture_flags \<Rightarrow> string + string \<times> string" where
  "chosen_source f =
     (let sources = length (filter (\<lambda>v. v \<noteq> []) [cf_target f, cf_log_file f, cf_tcp f]) in
      if sources = 0 then Inl ''one of --target, --log-file, or --tcp is required''
      else if 1 < sources then Inl ''--target, --log-file, and --tcp are mutually exclusive''
      else Inr (if cf_log_file f \<noteq> [] then (''logtail'', cf_log_file f)
                else if cf_tcp f \<noteq> [] then (''tcp'', cf_tcp f) else (''udp'', cf_target f)))"

text \<open>The start of a capture on an engine of its own, and what is done once it is interrupted.\<close>

definition capture_begin :: "capture_env \<Rightarrow> capture_flags \<Rightarrow> store \<Rightarrow> string + capture" where
  "capture_begin env f db = (case chosen_source f of
       Inl e \<Rightarrow> Inl e
     | Inr (source, target) \<Rightarrow> handleCaptureStart (named_trace env ''Capture'' []) source target (NewEngine db))"

definition capture_interrupted :: "time \<Rightarrow> capture \<Rightarrow> capture" where
  "capture_interrupted now c = (let c' = Stop c in
     c'\<lparr>ce_db := StopTrace (ce_trace c) now (cs_parsed (ce_stats c)) (cs_truncated (ce_stats c)) (ce_db c')\<rparr>)"

text \<open>The file written for \<open>--output\<close>, if there is one.\<close>

definition capture_output :: "web \<Rightarrow> trace \<Rightarrow> time \<Rightarrow> int \<Rightarrow> store \<Rightarrow> string outcome" where
  "capture_output w t stop_time i s = (case ListMessages (wb_engine w) i all_filter s of
       None \<Rightarrow> Failed (''list messages for export: '' @ wb_db_error w)
     | Some msgs \<Rightarrow> (case ExportTrace (wb_clock w) (t\<lparr>t_id := i, t_stopped := Some stop_time, t_count := int (length msgs)\<rparr>) msgs of
           None \<Rightarrow> Failed ''export trace''
         | Some file \<Rightarrow> Done file))"

section \<open>Lemmas\<close>

lemma last_index_bound: "last_index p s = Some i \<Longrightarrow> i \<le> length s"
  by (induction p s arbitrary: i rule: last_index.induct) (auto split: option.splits if_splits)

lemma last_element_plain: "CHR ''/'' \<notin> set (last_element p)"
  unfolding last_element_def by (auto dest: set_takeWhileD)

lemma file_base_plain:
  assumes "p \<noteq> []" and "last p \<noteq> CHR ''/''"
  shows "file_base p = last_element p"
proof -
  have "dropWhile (\<lambda>c. c = CHR ''/'') (rev p) = rev p" using assms by (cases "rev p") (auto simp: last_rev)
  then show ?thesis using assms(1) by (simp add: file_base_def trim_right_by_def)
qed

text \<open>The name an import gives the trace is the same on the command line and for an upload.\<close>

lemma import_name:
  assumes "p \<noteq> []" and "last p \<noteq> CHR ''/''"
  shows "trim_suffix (file_ext p) (file_base p) = base_name (file_base p)"
proof -
  let ?e = "last_element p"
  show ?thesis
  proof (cases "last_index ''.'' ?e")
    case None
    then show ?thesis by (simp add: file_base_plain [OF assms] file_ext_def base_name_def trim_suffix_def has_suffix_def)
  next
    case (Some i)
    have "CHR ''/'' \<notin> set (drop i ?e)" using last_element_plain [of p] by (meson in_set_dropD)
    then show ?thesis using Some last_index_bound [OF Some]
      by (simp add: file_base_plain [OF assms] file_ext_def base_name_def trim_suffix_def has_suffix_def)
  qed
qed

section \<open>Properties\<close>

text \<open>C35: a file imported on the command line and the same file uploaded to the server leave the same database, and the one
  succeeds when the other does.\<close>

theorem import_same_as_upload:
  assumes "path \<noteq> []" and "last path \<noteq> CHR ''/''" and "opened path = Inr content"
  shows "snd (runImport w opened path s) = snd (handleImport w (Some (file_base path, content)) s)
    \<and> ((\<exists>out. fst (runImport w opened path s) = Done out) \<longleftrightarrow>
        (\<exists>r. fst (handleImport w (Some (file_base path, content)) s) = Some r \<and> rp_status r = 201))
    \<and> (fst (runImport w opened path s) = Panicked \<longleftrightarrow> fst (handleImport w (Some (file_base path, content)) s) = None)"
proof -
  have e: "(if out \<noteq> [] then InsertMessages (map (\<lambda>m. m\<lparr>m_trace := i\<rparr>) out) s1 else Some ([], s1))
      = InsertMessages (map (\<lambda>m. m\<lparr>m_trace := i\<rparr>) out) s1" for out i s1 by simp
  show ?thesis unfolding runImport_def handleImport_def assms(3) import_name [OF assms(1,2)] e
    by (simp add: writeJSON_def writeError_def split: outcome.splits prod.splits option.splits)
qed

text \<open>A binary log with two frames is imported.\<close>

theorem import_same_as_upload_witness:
  "\<forall>x. (\<exists>out. fst (runImport (sample_web x) (\<lambda>_. Inr (concat (map frame_bytes sample_frames))) ''/tmp/a.dlt'' graph_store) = Done out)
     \<and> (\<exists>r. fst (handleImport (sample_web x) (Some (''a.dlt'', concat (map frame_bytes sample_frames))) graph_store) = Some r \<and> rp_status r = 201)"
proof
  fix x
  let ?c = "concat (map frame_bytes sample_frames)" and ?f = "\<lambda>_ :: string. Inr (concat (map frame_bytes sample_frames)) :: string + bytes"
  have b: "file_base ''/tmp/a.dlt'' = ''a.dlt''" by code_simp
  have p: "''/tmp/a.dlt'' \<noteq> []" "last ''/tmp/a.dlt'' \<noteq> CHR ''/''" by simp_all
  have one: "byte 1 = CHR 0x01" by code_simp
  have dlt: "is_dlt_file ?c" by (simp add: is_dlt_file_def sample_frames_def frame_bytes_def dlt_frame_def dltStorageMagic_def one [simplified])
  have "\<exists>out. fst (runImport (sample_web x) ?f ''/tmp/a.dlt'' graph_store) = Done out"
  proof -
    let ?n = "trim_suffix (file_ext ''/tmp/a.dlt'') (file_base ''/tmp/a.dlt'')"
    obtain t l where i: "ImportDLTBinaryFile (wb_ext (sample_web x)) (wb_now (sample_web x)) ?n ?c = Inr (t, l)" using sample_import by blast
    obtain t' s1 where c: "CreateTrace t graph_store = (t', s1)" by (cases "CreateTrace t graph_store")
    then have "trace_exists (t_id t') s1" by (auto simp: CreateTrace_def Let_def trace_exists_def)
    then have "\<forall>m \<in> set (map (\<lambda>m. m\<lparr>m_trace := t_id t'\<rparr>) l). trace_exists (m_trace m) s1" by simp
    from InsertMessages_total [OF this] show ?thesis
      using i c dlt by (auto simp: runImport_def ImportFileAutoDetect_def of_sum_def)
  qed
  moreover from this have "\<exists>r. fst (handleImport (sample_web x) (Some (''a.dlt'', ?c)) graph_store) = Some r \<and> rp_status r = 201"
    using import_same_as_upload [OF p, of ?f ?c "sample_web x" graph_store, OF refl, THEN conjunct2, THEN conjunct1, unfolded b] by blast
  ultimately show "(\<exists>out. fst (runImport (sample_web x) ?f ''/tmp/a.dlt'' graph_store) = Done out)
     \<and> (\<exists>r. fst (handleImport (sample_web x) (Some (''a.dlt'', ?c)) graph_store) = Some r \<and> rp_status r = 201)" by (rule conjI)
qed

text \<open>The interrupted command writes the end of its trace even when its source has ended by itself, where the stop request
  is refused.\<close>

theorem interrupted_capture:
  assumes "GetTrace (ce_trace c) (ce_db c) = Some t"
  shows "GetTrace (ce_trace c) (ce_db (capture_interrupted now c))
      = Some (t\<lparr>t_stopped := Some now, t_count := cs_parsed (ce_stats c), t_skipped := t_skipped t + cs_truncated (ce_stats c)\<rparr>)
    \<and> \<not> ce_capturing (capture_interrupted now c)
    \<and> (\<not> ce_capturing c \<longrightarrow> handleCaptureStop now c = Inl ''no capture in progress'')"
proof -
  let ?f = "\<lambda>r. r\<lparr>t_stopped := Some now, t_count := cs_parsed (ce_stats c), t_skipped := t_skipped r + cs_truncated (ce_stats c)\<rparr>"
  have "st_traces (ce_db (capture_interrupted now c)) = map (\<lambda>r. if t_id r = ce_trace c then ?f r else r) (st_traces (ce_db c))"
    by (simp add: capture_interrupted_def Let_def StopTrace_def Stop_def)
  from traces.lookup_updated [OF this, of "ce_trace c"] show ?thesis
    using assms by (simp add: GetTrace_def handleCaptureStop_def capture_interrupted_def Let_def Stop_def)
qed

end
