(* ===== verification/UdpSource.thy ===== *)
theory UdpSource
  imports Producers
begin

text \<open>
  \<open>capture/source_udp.go\<close>. The socket appears as the outcome of connecting and of sending the registration, and as its reads up to
  the cancellation, each with the time at which the engine takes its message: a datagram, or \<open>None\<close> for a read that failed.
\<close>

definition maxUDPSize :: nat where "maxUDPSize = 65535"

text \<open>One call of \<open>conn.Read\<close>: what does not fit in the buffer is lost.\<close>

definition udp_read :: "bytes \<Rightarrow> bytes" where "udp_read datagram = take maxUDPSize datagram"

fun udp_loop :: "string \<Rightarrow> (time \<times> bytes option) list \<Rightarrow> (time \<times> message) list" where
  "udp_loop target [] = []"
| "udp_loop target ((now, None) # reads) = udp_loop target reads"
| "udp_loop target ((now, Some d) # reads) = (now, udp_message target (udp_read d)) # udp_loop target reads"

text \<open>The error \<open>Run\<close> returns, and what it emits.\<close>

definition UDPRun :: "string \<Rightarrow> string option \<Rightarrow> string option \<Rightarrow> (time \<times> bytes option) list \<Rightarrow> string option \<times> (time \<times> message) list" where
  "UDPRun target dial_error write_error reads =
     (case dial_error of
        Some e \<Rightarrow> (Some (''connect to '' @ target @ '': '' @ e), [])
      | None \<Rightarrow> (case write_error of
          Some e \<Rightarrow> (Some (''send registration to '' @ target @ '': '' @ e), [])
        | None \<Rightarrow> (None, udp_loop target reads)))"

section \<open>Lemmas\<close>

definition datagrams :: "(time \<times> bytes option) list \<Rightarrow> (time \<times> bytes) list" where
  "datagrams reads = List.map_filter (\<lambda>(t, d). map_option (\<lambda>b. (t, udp_read b)) d) reads"

lemma udp_loop_datagrams: "udp_loop target reads = map (\<lambda>(t, b). (t, udp_message target b)) (datagrams reads)"
  by (induction target reads rule: udp_loop.induct) (simp_all add: datagrams_def List.map_filter_simps)

text \<open>What the engine makes of the datagram number \<open>k\<close>: its parse, unless it is empty.\<close>

lemma captured_datagram:
  "captured_message x now i k (udp_message target b) =
     (if b = [] then (udp_message target [])\<lparr>m_trace := i, m_seq := k, m_time := now\<rparr>
      else (Parse x b i k now)\<lparr>m_src_addr := target, m_dir := DirectionIncoming\<rparr>)"
  by (simp add: captured_message_def udp_message_def empty_message_def Let_def)

lemma udp_typed: "\<forall>d \<in> set (datagrams reads). snd d \<noteq> [] \<Longrightarrow> list_all (\<lambda>(now, m). source_message m) (snd (UDPRun target None None reads))"
  by (fastforce simp: UDPRun_def udp_loop_datagrams list_all_iff source_message_def)

end
