(* ===== verification/Routes.thy ===== *)
theory Routes
  imports CaptureApi
begin

text \<open>
  \<open>Server.Handler\<close> of \<open>api/server.go\<close>: the route table, and what the multiplexer makes of it. The multiplexer is Go's \<open>http.ServeMux\<close>: a pattern has a method and segments, a wildcard matches one segment that is not empty, a
  pattern that ends in a slash matches every path below it, \<open>GET\<close> patterns also match \<open>HEAD\<close>, and of two patterns that match
  a request the more specific one is used. Registering a pattern panics when another one overlaps with it and neither is more specific.
  A path is the list of its segments; a slash at its end gives an empty last segment. As in Go 1.24 a path is cleaned first (empty segments and
  \<open>.\<close> go, \<open>..\<close> takes the segment before it along), except for \<open>CONNECT\<close>, and a request with a path that is not clean is redirected. Paths are taken
  without percent escapes, which the multiplexer cleans as they stand and decodes when it matches.
\<close>

section \<open>Patterns\<close>

datatype http_method = Get | Head | Post | Patch | Delete | Other string

datatype segment = Lit string | Wild

record pattern =
  pt_method :: http_method
  pt_segments :: "segment list"
  pt_below :: bool
  pt_handler :: string

definition route :: "http_method \<Rightarrow> segment list \<Rightarrow> bool \<Rightarrow> string \<Rightarrow> pattern" where
  "route m segs below h = \<lparr>pt_method = m, pt_segments = segs, pt_below = below, pt_handler = h\<rparr>"

definition method_matches :: "http_method \<Rightarrow> http_method \<Rightarrow> bool" where
  "method_matches pm m \<longleftrightarrow> m = pm \<or> (pm = Get \<and> m = Head)"

fun segments_match :: "segment list \<Rightarrow> bool \<Rightarrow> string list \<Rightarrow> bool" where
  "segments_match [] below path = (if below then path \<noteq> [] else path = [])"
| "segments_match (Lit s # ps) below (p # path) = (p = s \<and> segments_match ps below path)"
| "segments_match (Wild # ps) below (p # path) = (p \<noteq> [] \<and> segments_match ps below path)"
| "segments_match (_ # _) _ [] = False"

definition matches_request :: "pattern \<Rightarrow> http_method \<Rightarrow> string list \<Rightarrow> bool" where
  "matches_request p m path \<longleftrightarrow> method_matches (pt_method p) m \<and> segments_match (pt_segments p) (pt_below p) path"

section \<open>The table\<close>

text \<open>The last route is there when the server has templates.\<close>

definition server_routes :: "pattern list" where
  "server_routes =
     [
      route Get [Lit ''api'', Lit ''traces''] False ''handleListTraces'',
      route Post [Lit ''api'', Lit ''traces''] False ''handleCreateTrace'',
      route Get [Lit ''api'', Lit ''traces'', Wild] False ''handleGetTrace'',
      route Patch [Lit ''api'', Lit ''traces'', Wild] False ''handleRenameTrace'',
      route Delete [Lit ''api'', Lit ''traces'', Wild] False ''handleDeleteTrace'',
      route Get [Lit ''api'', Lit ''traces'', Wild, Lit ''messages''] False ''handleListMessages'',
      route Get [Lit ''api'', Lit ''traces'', Wild, Lit ''messages'', Lit ''summaries''] False ''handleListMessageSummaries'',
      route Get [Lit ''api'', Lit ''traces'', Wild, Lit ''messages'', Lit ''export''] False ''handleExportMessages'',
      route Get [Lit ''api'', Lit ''traces'', Wild, Lit ''messages'', Wild] False ''handleGetMessage'',
      route Get [Lit ''api'', Lit ''capture'', Lit ''status''] False ''handleCaptureStatus'',
      route Post [Lit ''api'', Lit ''capture'', Lit ''start''] False ''handleCaptureStart'',
      route Post [Lit ''api'', Lit ''capture'', Lit ''start'', Lit ''logtail''] False ''handleCaptureStartLogTail'',
      route Post [Lit ''api'', Lit ''capture'', Lit ''start'', Lit ''tcp''] False ''handleCaptureStartTCP'',
      route Post [Lit ''api'', Lit ''capture'', Lit ''start'', Lit ''dlt''] False ''handleCaptureStartDLT'',
      route Post [Lit ''api'', Lit ''capture'', Lit ''stop''] False ''handleCaptureStop'',
      route Post [Lit ''api'', Lit ''traces'', Lit ''import''] False ''handleImport'',
      route Get [Lit ''api'', Lit ''traces'', Wild, Lit ''export''] False ''handleExport'',
      route Get [Lit ''api'', Lit ''traces'', Wild, Lit ''live''] False ''handleWebSocket'',
      route Get [Lit ''api'', Lit ''presets''] False ''handleListPresets'',
      route Post [Lit ''api'', Lit ''presets''] False ''handleCreatePreset'',
      route Delete [Lit ''api'', Lit ''presets'', Wild] False ''handleDeletePreset'',
      route Get [Lit ''api'', Lit ''traces'', Wild, Lit ''bookmarks''] False ''handleListBookmarks'',
      route Post [Lit ''api'', Lit ''traces'', Wild, Lit ''bookmarks''] False ''handleCreateBookmark'',
      route Delete [Lit ''api'', Lit ''bookmarks'', Wild] False ''handleDeleteBookmark'',
      route Get [Lit ''api'', Lit ''traces'', Wild, Lit ''devices''] False ''handleListDevices'',
      route Get [Lit ''api'', Lit ''traces'', Wild, Lit ''devices'', Wild] False ''handleGetDevice'',
      route Get [Lit ''api'', Lit ''traces'', Wild, Lit ''connections''] False ''handleListConnections'',
      route Get [Lit ''api'', Lit ''traces'', Wild, Lit ''messages'', Wild, Lit ''related''] False ''handleRelatedMessages'',
      route Get [Lit ''api'', Lit ''traces'', Wild, Lit ''messages'', Wild, Lit ''conversation''] False ''handleConversation'',
      route Get [Lit ''api'', Lit ''traces'', Wild, Lit ''orphaned-requests''] False ''handleOrphanedRequests'',
      route Get [Lit ''api'', Lit ''traces'', Wild, Lit ''usecase-context''] False ''handleUseCaseContext'',
      route Get [Lit ''api'', Lit ''traces'', Wild, Lit ''timeseries''] False ''handleTimeseries'',
      route Get [Lit ''api'', Lit ''traces'', Wild, Lit ''timeseries'', Lit ''discover''] False ''handleDiscoverTimeseries'',
      route Get [Lit ''api'', Lit ''traces'', Wild, Lit ''descriptions''] False ''handleDescriptions'',
      route Get [Lit ''api'', Lit ''traces'', Wild, Lit ''charts''] False ''handleListCharts'',
      route Post [Lit ''api'', Lit ''traces'', Wild, Lit ''charts''] False ''handleCreateChart'',
      route Get [Lit ''api'', Lit ''charts'', Wild] False ''handleGetChart'',
      route Patch [Lit ''api'', Lit ''charts'', Wild] False ''handleUpdateChart'',
      route Delete [Lit ''api'', Lit ''charts'', Wild] False ''handleDeleteChart'',
      route Get [Lit ''api'', Lit ''traces'', Wild, Lit ''charts'', Wild, Lit ''data''] False ''handleChartData'',
      route Get [Lit ''api'', Lit ''traces'', Wild, Lit ''usecases''] False ''handleListUseCases'',
      route Get [Lit ''api'', Lit ''traces'', Wild, Lit ''subscriptions''] False ''handleListSubscriptions'',
      route Get [Lit ''api'', Lit ''traces'', Wild, Lit ''bindings''] False ''handleListBindings'',
      route Get [Lit ''api'', Lit ''traces'', Wild, Lit ''metrics''] False ''handleMetrics'',
      route Get [Lit ''api'', Lit ''traces'', Wild, Lit ''metrics'', Lit ''export''] False ''handleMetricsExport'',
      route Get [Lit ''api'', Lit ''traces'', Wild, Lit ''depgraph''] False ''handleDependencyGraph'',
      route Get [Lit ''api'', Lit ''traces'', Wild, Lit ''writetracking''] False ''handleWriteTracking'',
      route Get [Lit ''api'', Lit ''traces'', Wild, Lit ''lifecycle''] False ''handleLifecycle'',
      route Get [Lit ''api'', Lit ''traces'', Wild, Lit ''flow'', Lit ''participants''] False ''handleFlowParticipants'',
      route Get [Lit ''api'', Lit ''traces'', Wild, Lit ''flow'', Lit ''correlations''] False ''handleFlowCorrelations'',
      route Get [Lit ''api'', Lit ''mdns'', Lit ''devices''] False ''handleMDNSDevices'',
      route Get [Lit ''api'', Lit ''mdns'', Lit ''status''] False ''handleMDNSStatus'',
      route Post [Lit ''api'', Lit ''mdns'', Lit ''start''] False ''handleMDNSStart'',
      route Post [Lit ''api'', Lit ''mdns'', Lit ''stop''] False ''handleMDNSStop'',
      route Get [] True ''handleIndexPage'',
      route Get [Lit ''traces'', Wild] False ''handleTracePage'',
      route Get [Lit ''traces'', Wild, Lit ''charts''] False ''handleChartsPage'',
      route Get [Lit ''traces'', Wild, Lit ''intelligence''] False ''handleIntelligencePage'',
      route Get [Lit ''discovery''] False ''handleDiscoveryPage'',
      route Get [Lit ''about''] False ''handleAboutPage'']"

definition static_route :: pattern where
  "static_route = route Get [Lit ''static''] True ''static files''"

definition all_routes :: "bool \<Rightarrow> pattern list" where
  "all_routes has_templates = server_routes @ (if has_templates then [static_route] else [])"

section \<open>Comparing patterns\<close>

text \<open>Every path the second list of segments matches is matched by the first.\<close>

fun covers :: "segment list \<Rightarrow> bool \<Rightarrow> segment list \<Rightarrow> bool \<Rightarrow> bool" where
  "covers [] below [] below' = (below = below')"
| "covers [] below (_ # _) below' = below"
| "covers (_ # _) below [] below' = False"
| "covers (Lit s # ps) below (Lit t # qs) below' = (s = t \<and> covers ps below qs below')"
| "covers (Wild # ps) below (Lit t # qs) below' = (t \<noteq> [] \<and> covers ps below qs below')"
| "covers (Wild # ps) below (Wild # qs) below' = covers ps below qs below'"
| "covers (Lit s # ps) below (Wild # qs) below' = False"

text \<open>No path is matched by both.\<close>

fun apart :: "segment list \<Rightarrow> bool \<Rightarrow> segment list \<Rightarrow> bool \<Rightarrow> bool" where
  "apart [] below [] below' = (below \<noteq> below')"
| "apart [] below (_ # _) below' = (\<not> below)"
| "apart (_ # _) below [] below' = (\<not> below')"
| "apart (Lit s # ps) below (Lit t # qs) below' = (s \<noteq> t \<or> apart ps below qs below')"
| "apart (_ # ps) below (_ # qs) below' = apart ps below qs below'"

definition method_covers :: "http_method \<Rightarrow> http_method \<Rightarrow> bool" where
  "method_covers m m' \<longleftrightarrow> m' = m \<or> (m = Get \<and> m' = Head)"

definition pattern_covers :: "pattern \<Rightarrow> pattern \<Rightarrow> bool" where
  "pattern_covers p q \<longleftrightarrow> method_covers (pt_method p) (pt_method q) \<and> covers (pt_segments p) (pt_below p) (pt_segments q) (pt_below q)"

definition patterns_apart :: "pattern \<Rightarrow> pattern \<Rightarrow> bool" where
  "patterns_apart p q \<longleftrightarrow> \<not> (method_covers (pt_method p) (pt_method q) \<or> method_covers (pt_method q) (pt_method p))
     \<or> apart (pt_segments p) (pt_below p) (pt_segments q) (pt_below q)"

text \<open>Two patterns conflict when they match a common request and are equal or neither is more specific.\<close>

definition conflicts :: "pattern \<Rightarrow> pattern \<Rightarrow> bool" where
  "conflicts p q \<longleftrightarrow> \<not> patterns_apart p q \<and> pattern_covers p q = pattern_covers q p"

section \<open>The multiplexer\<close>

text \<open>\<open>None\<close>: \<open>HandleFunc\<close> panics.\<close>

fun HandleFunc :: "pattern \<Rightarrow> pattern list option \<Rightarrow> pattern list option" where
  "HandleFunc p None = None"
| "HandleFunc p (Some ps) = (if list_ex (conflicts p) ps then None else Some (ps @ [p]))"

definition Handler :: "bool \<Rightarrow> pattern list option" where
  "Handler has_templates = fold HandleFunc (all_routes has_templates) (Some [])"

text \<open>Of the patterns that match, the one all others cover.\<close>

definition best_match :: "pattern list \<Rightarrow> http_method \<Rightarrow> string list \<Rightarrow> pattern option" where
  "best_match ps m path =
     (let hits = filter (\<lambda>p. matches_request p m path) ps in find (\<lambda>p. list_all (\<lambda>q. pattern_covers q p) hits) hits)"

definition exact_match :: "pattern option \<Rightarrow> string list \<Rightarrow> bool" where
  "exact_match hit path = (case hit of
       None \<Rightarrow> False
     | Some p \<Rightarrow> \<not> pt_below p \<or> (path \<noteq> [] \<and> last path = [] \<and> length path = length (pt_segments p) + 1))"

datatype dispatched = Handled pattern | Redirected "string list" | Wrong_method | Not_found

definition ends_in_slash :: "string list \<Rightarrow> bool" where "ends_in_slash path \<longleftrightarrow> path \<noteq> [] \<and> last path = []"

definition any_method :: "pattern list \<Rightarrow> string list \<Rightarrow> bool" where
  "any_method ps path \<longleftrightarrow> list_ex (\<lambda>p. segments_match (pt_segments p) (pt_below p) path) ps"

text \<open>\<open>cleanPath\<close>: \<open>path.Clean\<close>, with the slash at the end put back. The segments before are kept in reverse.\<close>

fun clean_segments :: "string list \<Rightarrow> string list \<Rightarrow> string list" where
  "clean_segments acc [] = rev acc"
| "clean_segments acc (s # path) =
     (if s = [] \<or> s = ''.'' then clean_segments acc path
      else if s = ''..'' then clean_segments (tl acc) path
      else clean_segments (s # acc) path)"

definition clean_path :: "string list \<Rightarrow> string list" where
  "clean_path path =
     (let segs = clean_segments [] path
      in if segs = [] then [[]] else if ends_in_slash path then segs @ [[]] else segs)"

text \<open>The redirect that adds a slash is tried on the clean path, before the redirect to the clean path itself.\<close>

definition dispatch :: "pattern list \<Rightarrow> http_method \<Rightarrow> string list \<Rightarrow> dispatched" where
  "dispatch ps m path =
     (let q = (if m = Other ''CONNECT'' then path else clean_path path)
      in if \<not> exact_match (best_match ps m q) q \<and> \<not> ends_in_slash q \<and> exact_match (best_match ps m (q @ [[]])) (q @ [[]])
      then Redirected (q @ [[]])
      else if q \<noteq> path then Redirected q
      else (case best_match ps m path of
          Some p \<Rightarrow> Handled p
        | None \<Rightarrow> if any_method ps path \<or> (\<not> ends_in_slash path \<and> any_method ps (path @ [[]])) then Wrong_method else Not_found))"

text \<open>The path values of the wildcards, in order.\<close>

fun path_values :: "segment list \<Rightarrow> string list \<Rightarrow> string list" where
  "path_values (Lit s # ps) (p # path) = path_values ps path"
| "path_values (Wild # ps) (p # path) = p # path_values ps path"
| "path_values _ _ = []"

section \<open>Lemmas\<close>

lemma path_exists: "\<exists>path. segments_match qs b path"
proof (induction qs)
  case Nil
  show ?case by (rule exI [of _ "if b then [''x''] else []"]) simp
next
  case (Cons q qs)
  then obtain path where "segments_match qs b path" by blast
  then show ?case by (cases q) (auto intro: exI [of _ "''x'' # path"] exI [of _ "s # path" for s])
qed

lemma covers_sound: "covers ps b qs b' \<Longrightarrow> segments_match qs b' path \<Longrightarrow> segments_match ps b path"
proof (induction ps b qs b' arbitrary: path rule: covers.induct)
  case (2 b q qs b')
  then show ?case by (cases path; cases q) auto
next
  case (4 s ps b t qs b')
  then show ?case by (cases path) auto
next
  case (5 ps b t qs b')
  then show ?case by (cases path) auto
next
  case (6 ps b qs b')
  then show ?case by (cases path) auto
qed auto

lemma covers_complete: "\<not> covers ps b qs b' \<Longrightarrow> \<exists>path. segments_match qs b' path \<and> \<not> segments_match ps b path"
proof (induction ps b qs b' rule: covers.induct)
  case (1 b b')
  then show ?case by (intro exI [of _ "if b' then [''x''] else []"]) auto
next
  case (2 b q qs b')
  then show ?case using path_exists [of "q # qs" b'] by (metis covers.simps(2) segments_match.simps(1,4) segment.exhaust)
next
  case (3 p ps b b')
  show ?case
  proof (cases p)
    case (Lit s)
    then show ?thesis by (intro exI [of _ "if b' then [s @ ''x''] else []"]) simp
  next
    case Wild
    then show ?thesis by (intro exI [of _ "if b' then [[]] else []"]) simp
  qed
next
  case (4 s ps b t qs b')
  show ?case
  proof (cases "s = t")
    case True
    then obtain path where "segments_match qs b' path \<and> \<not> segments_match ps b path" using 4 by auto
    then show ?thesis using True by (intro exI [of _ "t # path"]) simp
  next
    case False
    obtain path where "segments_match qs b' path" using path_exists by blast
    then show ?thesis using False by (intro exI [of _ "t # path"]) simp
  qed
next
  case (5 ps b t qs b')
  show ?case
  proof (cases "t = []")
    case True
    obtain path where "segments_match qs b' path" using path_exists by blast
    then show ?thesis using True by (intro exI [of _ "[] # path"]) simp
  next
    case False
    then obtain path where "segments_match qs b' path \<and> \<not> segments_match ps b path" using 5 by auto
    then show ?thesis using False by (intro exI [of _ "t # path"]) simp
  qed
next
  case (6 ps b qs b')
  then obtain path where "segments_match qs b' path \<and> \<not> segments_match ps b path" by auto
  then show ?case by (intro exI [of _ "''x'' # path"]) simp
next
  case (7 s ps b qs b')
  obtain path where "segments_match qs b' path" using path_exists by blast
  then show ?case by (intro exI [of _ "(s @ ''x'') # path"]) simp
qed

lemma apart_sound: "apart ps b qs b' \<Longrightarrow> segments_match ps b path \<Longrightarrow> \<not> segments_match qs b' path"
proof (induction ps b qs b' arbitrary: path rule: apart.induct)
  case (3 p ps b b')
  then show ?case by (cases path; cases p) auto
next
  case (4 s ps b t qs b')
  then show ?case by (cases path) auto
qed (auto split: if_splits elim: segments_match.elims)


lemma method_coversI: "method_covers m m' \<Longrightarrow> method_matches m' r \<Longrightarrow> method_matches m r"
  by (auto simp: method_covers_def method_matches_def)

lemma pattern_covers_iff: "pattern_covers p q \<longleftrightarrow> (\<forall>m path. matches_request q m path \<longrightarrow> matches_request p m path)"
proof
  assume "pattern_covers p q"
  then show "\<forall>m path. matches_request q m path \<longrightarrow> matches_request p m path"
    by (auto simp: pattern_covers_def matches_request_def intro: method_coversI covers_sound)
next
  assume all: "\<forall>m path. matches_request q m path \<longrightarrow> matches_request p m path"
  obtain path where path: "segments_match (pt_segments q) (pt_below q) path" using path_exists by blast
  have "method_matches (pt_method q) (pt_method q)" by (simp add: method_matches_def)
  then have "matches_request q (pt_method q) path" "\<And>path'. segments_match (pt_segments q) (pt_below q) path' \<Longrightarrow> matches_request q (pt_method q) path'"
    using path by (simp_all add: matches_request_def)
  then show "pattern_covers p q"
    using all covers_complete [of "pt_segments p" "pt_below p" "pt_segments q" "pt_below q"]
    by (auto simp: pattern_covers_def method_covers_def matches_request_def method_matches_def)
qed

lemma patterns_apart_sound: "patterns_apart p q \<Longrightarrow> matches_request p m path \<Longrightarrow> \<not> matches_request q m path"
  by (auto simp: patterns_apart_def matches_request_def method_covers_def method_matches_def dest: apart_sound)

lemma both_match_compared:
  assumes "\<not> conflicts p q" and "matches_request p m path" and "matches_request q m path"
  shows "pattern_covers p q \<noteq> pattern_covers q p"
  using assms patterns_apart_sound [of p q m path] by (auto simp: conflicts_def)

section \<open>A table without conflicts\<close>

locale route_table =
  fixes ps :: "pattern list"
  assumes no_conflict: "sorted_wrt (\<lambda>q p. \<not> conflicts p q) ps"
begin

lemma compared:
  assumes "p \<in> set ps" "q \<in> set ps" "p \<noteq> q" "matches_request p m path" "matches_request q m path"
  shows "pattern_covers p q \<noteq> pattern_covers q p"
proof -
  obtain i j where ij: "i < length ps" "p = ps ! i" "j < length ps" "q = ps ! j"
    using assms(1,2) by (auto simp: in_set_conv_nth)
  then have "i \<noteq> j" using assms(3) by auto
  then consider "i < j" | "j < i" by linarith
  then have "\<not> conflicts q p \<or> \<not> conflicts p q"
    using no_conflict ij by cases (simp_all add: sorted_wrt_iff_nth_less)
  then show ?thesis using both_match_compared assms(4,5) by metis
qed

lemma least_of:
  assumes "hits \<noteq> []" "set hits \<subseteq> set ps" "\<forall>p\<in>set hits. matches_request p m path"
  shows "\<exists>b\<in>set hits. \<forall>q\<in>set hits. pattern_covers q b"
  using assms
proof (induction hits rule: list_nonempty_induct)
  case (single x)
  then show ?case by (simp add: pattern_covers_iff)
next
  case (cons x xs)
  then obtain b where b: "b \<in> set xs" "\<forall>q\<in>set xs. pattern_covers q b" by auto
  show ?case
  proof (cases "pattern_covers x b")
    case True
    then show ?thesis using b by auto
  next
    case False
    then have "pattern_covers b x" using compared [of x b m path] cons.prems b(1) by (auto simp: pattern_covers_iff)
    then have "\<forall>q\<in>set (x # xs). pattern_covers q x" using b(2) by (auto simp: pattern_covers_iff)
    then show ?thesis by (intro bexI [of _ x]) auto
  qed
qed

lemma best_match_some:
  assumes "best_match ps m path = Some b"
  shows "b \<in> set ps \<and> matches_request b m path \<and> (\<forall>q\<in>set ps. matches_request q m path \<longrightarrow> pattern_covers q b)"
  using find_Some_in [OF assms [unfolded best_match_def Let_def]] by (auto simp: list_all_iff)

lemma best_match_none: "best_match ps m path = None \<longleftrightarrow> (\<forall>p\<in>set ps. \<not> matches_request p m path)"
proof
  assume none: "best_match ps m path = None"
  show "\<forall>p\<in>set ps. \<not> matches_request p m path"
  proof (rule ccontr)
    assume some: "\<not> (\<forall>p\<in>set ps. \<not> matches_request p m path)"
    define hits where "hits = filter (\<lambda>p. matches_request p m path) ps"
    then have "hits \<noteq> []" "set hits \<subseteq> set ps" "\<forall>p\<in>set hits. matches_request p m path"
      using some by (auto simp: filter_empty_conv)
    from least_of [OF this] obtain b where "b \<in> set hits" "\<forall>q\<in>set hits. pattern_covers q b" by (elim bexE)
    moreover have "find (\<lambda>p. list_all (\<lambda>q. pattern_covers q p) hits) hits = None"
      using none unfolding best_match_def Let_def hits_def .
    ultimately show False unfolding find_None_iff list_all_iff by blast
  qed
next
  assume "\<forall>p\<in>set ps. \<not> matches_request p m path"
  then have "filter (\<lambda>p. matches_request p m path) ps = []" by (simp add: filter_empty_conv)
  then show "best_match ps m path = None" by (simp add: best_match_def)
qed

lemma best_match_unique:
  assumes "best_match ps m path = Some b" "q \<in> set ps" "matches_request q m path" "pattern_covers b q"
  shows "q = b"
  using best_match_some [OF assms(1)] compared [of b q m path] assms(2-4) by blast

lemma registered: "fold HandleFunc ps (Some []) = Some ps"
proof -
  have "fold HandleFunc qs (Some rs) = Some (rs @ qs)" if "sorted_wrt (\<lambda>q p. \<not> conflicts p q) (rs @ qs)" for rs qs
    using that
  proof (induction qs arbitrary: rs)
    case (Cons q qs)
    then have "\<not> list_ex (conflicts q) rs" by (auto simp: sorted_wrt_append list_ex_iff)
    then show ?case using Cons.IH [of "rs @ [q]"] Cons.prems by simp
  qed simp
  then show ?thesis using no_conflict by fastforce
qed

end

lemma routes_sorted: "sorted_wrt (\<lambda>q p. \<not> conflicts p q) (all_routes True)"
  by code_simp

interpretation routes: route_table "all_routes has_templates" for has_templates
proof
  show "sorted_wrt (\<lambda>q p. \<not> conflicts p q) (all_routes has_templates)"
    using routes_sorted by (cases has_templates) (simp_all add: all_routes_def sorted_wrt_append)
qed

section \<open>The table of the server\<close>

abbreviation index_route :: pattern where "index_route \<equiv> route Get [] True ''handleIndexPage''"

lemma below_routes: "filter pt_below (all_routes True) = [index_route, static_route]" "filter pt_below (all_routes False) = [index_route]"
  by code_simp+

lemma plain_routes:
  assumes "p \<in> set (all_routes t)" and "pt_below p"
  shows "p = index_route \<or> (t \<and> p = static_route)"
proof -
  have "p \<in> set (filter pt_below (all_routes t))" using assms by simp
  then show ?thesis using below_routes by (cases t) auto
qed

lemma routes_literals: "list_all (\<lambda>p. Lit [] \<notin> set (pt_segments p)) (all_routes True)"
  by code_simp

lemma literals_filled: "p \<in> set (all_routes t) \<Longrightarrow> Lit [] \<notin> set (pt_segments p)"
  using routes_literals by (cases t) (auto simp: list_all_iff all_routes_def)

lemma index_route_in: "index_route \<in> set (all_routes t)"
  by (simp add: all_routes_def server_routes_def)

lemma index_route_matches: "path \<noteq> [] \<Longrightarrow> m = Get \<or> m = Head \<Longrightarrow> matches_request index_route m path"
  by (auto simp: matches_request_def route_def method_matches_def)

lemma slash_needs_below: "Lit [] \<notin> set segs \<Longrightarrow> \<not> segments_match segs False (path @ [[]])"
proof (induction segs arbitrary: path)
  case (Cons seg segs)
  then show ?case by (cases seg; cases path) (auto, (metis segments_match.simps(1))?)
qed simp

lemma redirects: 
  assumes "path \<noteq> []" and "exact_match (best_match (all_routes t) m (path @ [[]])) (path @ [[]])"
  shows "t \<and> (m = Get \<or> m = Head) \<and> path = [''static'']"
proof -
  from assms(2) obtain p where best: "best_match (all_routes t) m (path @ [[]]) = Some p"
    and exact: "\<not> pt_below p \<or> length path = length (pt_segments p)"
    by (auto simp: exact_match_def split: option.splits)
  have p: "p \<in> set (all_routes t)" "matches_request p m (path @ [[]])" using routes.best_match_some [OF best] by simp_all
  have "pt_below p"
    using slash_needs_below [OF literals_filled [OF p(1)]] p(2) by (cases "pt_below p") (simp_all add: matches_request_def)
  moreover have "p \<noteq> index_route" using exact \<open>pt_below p\<close> assms(1) by (auto simp: route_def)
  ultimately have "t" and static: "p = static_route" using plain_routes [OF p(1)] by blast+
  moreover have "length path = 1" using exact \<open>pt_below p\<close> static by (simp add: static_route_def route_def)
  then obtain x where "path = [x]" by (cases path) auto
  ultimately show ?thesis using p(2) by (simp add: matches_request_def static_route_def route_def method_matches_def)
qed

section \<open>Clean paths\<close>

definition plain_segment :: "string \<Rightarrow> bool" where
  "plain_segment s \<longleftrightarrow> s \<noteq> [] \<and> s \<noteq> ''.'' \<and> s \<noteq> ''..''"

lemma clean_segments_plain: "list_all plain_segment acc \<Longrightarrow> list_all plain_segment (clean_segments acc path)"
proof (induction acc path rule: clean_segments.induct)
  case (2 acc s path)
  moreover have "list_all plain_segment (tl acc)" using "2.prems" by (cases acc) simp_all
  ultimately show ?case by (auto simp: plain_segment_def [of s])
qed (simp add: list_all_rev)

lemma clean_segments_id:
  "list_all plain_segment path \<Longrightarrow> clean_segments acc path = rev acc @ path"
  "list_all plain_segment path \<Longrightarrow> clean_segments acc (path @ [[]]) = rev acc @ path"
  by (induction path arbitrary: acc) (simp_all add: plain_segment_def)

lemma plain_clean:
  "list_all plain_segment path \<Longrightarrow> path \<noteq> [] \<Longrightarrow> clean_path path = path"
  "list_all plain_segment path \<Longrightarrow> clean_path (path @ [[]]) = path @ [[]]"
  using last_in_set [of path]
  by (auto simp: clean_path_def clean_segments_id Let_def ends_in_slash_def list_all_iff plain_segment_def)

lemma clean_cases: "\<exists>segs. list_all plain_segment segs \<and> (clean_path path = segs @ [[]] \<or> (segs \<noteq> [] \<and> clean_path path = segs))"
proof -
  have "list_all plain_segment (clean_segments [] path)" by (rule clean_segments_plain) simp
  then show ?thesis by (intro exI [of _ "clean_segments [] path"]) (simp add: clean_path_def Let_def)
qed

lemma clean_path_idem: "clean_path (clean_path path) = clean_path path"
  using clean_cases [of path] plain_clean by auto

lemma clean_slash: "\<not> ends_in_slash (clean_path path) \<Longrightarrow> clean_path (clean_path path @ [[]]) = clean_path path @ [[]]"
  using clean_cases [of path] plain_clean(2) by (auto simp: ends_in_slash_def)

lemma clean_not_Nil: "clean_path path \<noteq> []"
  using clean_cases [of path] by auto

lemma routes_methods: "list_all (\<lambda>p. pt_method p \<noteq> Other ''CONNECT'') (all_routes True)"
  by code_simp

lemma connect_unmatched: "p \<in> set (all_routes t) \<Longrightarrow> \<not> matches_request p (Other ''CONNECT'') path"
  using routes_methods by (cases t) (auto simp: list_all_iff all_routes_def matches_request_def method_matches_def)

text \<open>A redirect is followed by no other.\<close>

lemma one_redirect: "m \<noteq> Other ''CONNECT'' \<Longrightarrow> dispatch ps m path = Redirected to \<Longrightarrow> dispatch ps m to \<noteq> Redirected to'"
  using clean_path_idem [of path] clean_slash [of path]
  by (auto simp: dispatch_def Let_def ends_in_slash_def split: if_splits option.splits)

text \<open>C36: The route table is unambiguous. Registering it does not panic. A request for a clean path is dispatched to a pattern that matches it
  and that is more specific than every other pattern that matches, so that \<open>/messages/export\<close> is never taken for a message
  number, or it is answered with 405, which no \<open>GET\<close> or \<open>HEAD\<close> is; the one redirect of a clean path is that of \<open>/static\<close>. A request for any other path
  is redirected to the clean path (\<open>CONNECT\<close> apart, which gets 405), and no redirect leads to another. The multiplexer itself never answers 404: the
  page of the root matches every path.\<close>

theorem routes_unambiguous:
  assumes "path \<noteq> []"
  shows "Handler t = Some (all_routes t) \<and>
    (case dispatch (all_routes t) m path of
       Handled p \<Rightarrow> p \<in> set (all_routes t) \<and> matches_request p m path \<and> clean_path path = path \<and>
         (\<forall>q\<in>set (all_routes t). matches_request q m path \<longrightarrow> pattern_covers q p \<and> (q \<noteq> p \<longrightarrow> \<not> pattern_covers p q))
     | Redirected to \<Rightarrow> m \<noteq> Other ''CONNECT''
         \<and> (if clean_path path = [''static''] \<and> t \<and> (m = Get \<or> m = Head) then to = [''static'', []] else to = clean_path path \<and> to \<noteq> path)
         \<and> (\<forall>to'. dispatch (all_routes t) m to \<noteq> Redirected to')
     | Wrong_method \<Rightarrow> m \<noteq> Get \<and> m \<noteq> Head \<and> (m = Other ''CONNECT'' \<or> clean_path path = path)
         \<and> (\<forall>q\<in>set (all_routes t). \<not> matches_request q m path)
     | Not_found \<Rightarrow> False)"
proof -
  have registered: "Handler t = Some (all_routes t)" using routes.registered by (simp add: Handler_def)
  have any: "any_method (all_routes t) path"
    using index_route_in assms by (auto simp: any_method_def list_ex_iff intro!: bexI [of _ index_route]) (simp add: route_def)
  let ?q = "if m = Other ''CONNECT'' then path else clean_path path"
  have q: "?q \<noteq> []" using assms clean_not_Nil by simp
  have static: "\<not> exact_match (best_match (all_routes t) m [''static'']) [''static'']
      \<and> exact_match (best_match (all_routes t) m [''static'', []]) [''static'', []] \<and> \<not> ends_in_slash [''static'']"
    if "t" "m = Get \<or> m = Head"
    using that by (elim disjE; simp only:; code_simp)
  have once: "m \<noteq> Other ''CONNECT'' \<Longrightarrow> dispatch (all_routes t) m path = Redirected to \<Longrightarrow> dispatch (all_routes t) m to \<noteq> Redirected to'" for to to'
    by (rule one_redirect)
  show ?thesis
  proof (cases "\<not> exact_match (best_match (all_routes t) m ?q) ?q \<and> \<not> ends_in_slash ?q \<and> exact_match (best_match (all_routes t) m (?q @ [[]])) (?q @ [[]])")
    case True
    then have r: "t" "m = Get \<or> m = Head" "?q = [''static'']" using redirects [OF q] by blast+
    moreover have m: "m \<noteq> Other ''CONNECT''" using r(2) by auto
    moreover have d: "dispatch (all_routes t) m path = Redirected [''static'', []]" using True r(3) by (simp add: dispatch_def Let_def)
    ultimately show ?thesis using registered once [OF m d] by auto
  next
    case slash: False
    then have not_static: "\<not> (?q = [''static''] \<and> t \<and> (m = Get \<or> m = Head))" using static by auto
    show ?thesis
    proof (cases "?q = path")
      case False
      then have m: "m \<noteq> Other ''CONNECT''" by auto
      then have d: "dispatch (all_routes t) m path = Redirected (clean_path path)" using slash False by (simp add: dispatch_def Let_def)
      then show ?thesis using registered once [OF m d] not_static m False by simp
    next
      case same: True
      show ?thesis
      proof (cases "best_match (all_routes t) m path")
        case None
        then have no: "\<forall>q\<in>set (all_routes t). \<not> matches_request q m path" by (simp add: routes.best_match_none)
        then have "m \<noteq> Get" "m \<noteq> Head" using index_route_in index_route_matches [OF assms] by blast+
        moreover have "dispatch (all_routes t) m path = Wrong_method"
          using slash same None any by (simp add: dispatch_def Let_def split: if_splits)
        ultimately show ?thesis using registered no same by (auto split: if_splits)
      next
        case (Some p)
        have b: "p \<in> set (all_routes t)" "matches_request p m path" using routes.best_match_some [OF Some] by simp_all
        then have "m \<noteq> Other ''CONNECT''" using connect_unmatched by blast
        moreover have "dispatch (all_routes t) m path = Handled p" using slash same Some by (simp add: dispatch_def Let_def split: if_splits)
        ultimately show ?thesis
          using registered same b routes.best_match_some [OF Some] routes.best_match_unique [OF Some] by auto
      qed
    qed
  qed
qed

theorem routes_unambiguous_witness:
  "\<exists>export byId. dispatch (all_routes True) Get [''api'', ''traces'', ''1'', ''messages'', ''export''] = Handled export
     \<and> pt_handler export = ''handleExportMessages'' \<and> pt_handler byId = ''handleGetMessage'' \<and> byId \<in> set (all_routes True)
     \<and> matches_request byId Get [''api'', ''traces'', ''1'', ''messages'', ''export''] \<and> \<not> pattern_covers export byId
     \<and> dispatch (all_routes True) Get [[], ''api'', ''traces''] = Redirected [''api'', ''traces'']"
proof -
  let ?path = "[''api'', ''traces'', ''1'', ''messages'', ''export'']"
  let ?export = "route Get [Lit ''api'', Lit ''traces'', Wild, Lit ''messages'', Lit ''export''] False ''handleExportMessages''"
  let ?byId = "route Get [Lit ''api'', Lit ''traces'', Wild, Lit ''messages'', Wild] False ''handleGetMessage''"
  have d: "dispatch (all_routes True) Get ?path = Handled ?export" by code_simp
  have m: "?byId \<in> set (all_routes True)" "matches_request ?byId Get ?path" "?byId \<noteq> ?export"
    by (simp_all add: all_routes_def server_routes_def matches_request_def method_matches_def route_def)
  have "\<not> pattern_covers ?export ?byId" using routes_unambiguous [of ?path True Get] d m by auto
  moreover have "dispatch (all_routes True) Get [[], ''api'', ''traces''] = Redirected [''api'', ''traces'']" by code_simp
  ultimately show ?thesis using d m by (intro exI [of _ ?export] exI [of _ ?byId]) (simp add: route_def)
qed

end
