(* ===== verification/Pages.thy ===== *)
theory Pages
  imports Routes
begin

text \<open>
  \<open>api/templates.go\<close>: the page templates and the requests for pages. Parsing and executing a template are of \<open>html/template\<close>
  and arguments here, as is what the page on the program says of the build. The data of a page is the map the code
  passes, in its order; without templates it is sent as JSON, whose members come in the order of their names.
\<close>

section \<open>Page data\<close>

datatype page_value =
    P_text string
  | P_int int
  | P_bool bool
  | P_trace trace
  | P_traces "trace list"
  | P_map "(string \<times> page_value) list"
  | P_list "page_value list"

type_synonym page_data = "(string \<times> page_value) list"

text \<open>The texts of the members of a map, by name; \<open>None\<close> when one of them cannot be encoded. An empty list of traces is a nil slice.\<close>

definition map_text :: "(string \<times> string option) list \<Rightarrow> string option" where
  "map_text kvs = map_option (\<lambda>vs. plain_obj (sort_key fst (zip (map fst kvs) vs))) (all_some (map snd kvs))"

fun page_json :: "clock \<Rightarrow> page_value \<Rightarrow> string option" where
  "page_json _ (P_text s) = Some (quote s)"
| "page_json _ (P_int i) = Some (int_str i)"
| "page_json _ (P_bool b) = Some (if b then ''true'' else ''false'')"
| "page_json clk (P_trace t) = trace_json clk t"
| "page_json clk (P_traces ts) = (if ts = [] then Some ''null'' else list_json (map (trace_json clk) ts))"
| "page_json clk (P_map kvs) = map_text (map (\<lambda>(k, v). (k, page_json clk v)) kvs)"
| "page_json clk (P_list vs) = list_json (map (page_json clk) vs)"

section \<open>Templates\<close>

text \<open>A template gives what it has written when it ends or fails, and whether it failed.\<close>

type_synonym page_template = "page_data \<Rightarrow> string \<times> bool"

fun load_pages :: "(string list \<Rightarrow> page_template option) \<Rightarrow> string list \<Rightarrow> (string \<rightharpoonup> page_template) \<Rightarrow> (string \<rightharpoonup> page_template) option" where
  "load_pages parse [] pages = Some pages"
| "load_pages parse (pf # files) pages =
     (if pf = ''layout.html'' then load_pages parse files pages
      else (case parse [pf, ''layout.html'', ''partials/*.html''] of
          None \<Rightarrow> None
        | Some t \<Rightarrow> load_pages parse files (pages(pf \<mapsto> t))))"

definition NewTemplateRenderer :: "(string list \<Rightarrow> page_template option) \<Rightarrow> string list \<Rightarrow> (string \<rightharpoonup> page_template) option" where
  "NewTemplateRenderer parse files = load_pages parse files Map.empty"

definition Render :: "(string \<rightharpoonup> page_template) \<Rightarrow> string \<Rightarrow> page_data \<Rightarrow> string \<times> bool" where
  "Render pages name d = (case pages name of None \<Rightarrow> ([], True) | Some t \<Rightarrow> t d)"

section \<open>Pages\<close>

record site =
  si_version :: string
  si_templates :: "(string \<rightharpoonup> page_template) option"
  si_build :: "(string \<times> string) list option"
  si_go :: string
  si_os :: string
  si_arch :: string
  si_cpus :: int

text \<open>\<open>http.Error\<close> and \<open>http.NotFound\<close>.\<close>

definition http_error :: "nat \<Rightarrow> string \<Rightarrow> response" where
  "http_error status msg = \<lparr>rp_status = status, rp_headers = [(''Content-Type'', ''text/plain; charset=utf-8''), (''X-Content-Type-Options'', ''nosniff'')],
     rp_body = msg @ [newline]\<rparr>"

definition not_found :: response where "not_found = http_error 404 ''404 page not found''"

text \<open>The end of every handler: JSON without templates, else the template; its failure is only logged.\<close>

definition send_page :: "site \<Rightarrow> web \<Rightarrow> string \<Rightarrow> page_data \<Rightarrow> response" where
  "send_page si w name d = (case si_templates si of
       None \<Rightarrow> writeJSON [] 200 (page_json (wb_clock w) (P_map d))
     | Some pages \<Rightarrow> \<lparr>rp_status = 200, rp_headers = [(''Content-Type'', ''text/html; charset=utf-8'')], rp_body = fst (Render pages name d)\<rparr>)"

definition state_data :: "site \<Rightarrow> capture \<Rightarrow> page_data" where
  "state_data si c = [(''Capturing'', P_bool (ce_capturing c)), (''TraceID'', P_int (ce_trace c)), (''Version'', P_text (si_version si))]"

definition handleIndexPage :: "site \<Rightarrow> web \<Rightarrow> string list \<Rightarrow> capture \<Rightarrow> response" where
  "handleIndexPage si w path c =
     (if path \<noteq> [[]] then not_found
      else send_page si w ''index.html'' ((''Traces'', P_traces (ListTraces (wb_engine w) (ce_db c))) # state_data si c))"

definition viz_data :: "site \<Rightarrow> trace \<Rightarrow> capture \<Rightarrow> page_data" where
  "viz_data si t c = (''Trace'', P_trace t) # state_data si c"

definition handleVizPage :: "string \<Rightarrow> site \<Rightarrow> web \<Rightarrow> string \<Rightarrow> capture \<Rightarrow> response" where
  "handleVizPage templateName si w idText c = (case parseID idText of
       None \<Rightarrow> http_error 400 ''invalid trace ID''
     | Some i \<Rightarrow> (case GetTrace i (ce_db c) of
          None \<Rightarrow> not_found
        | Some t \<Rightarrow> send_page si w templateName (viz_data si t c)))"

definition handleChartsPage :: "site \<Rightarrow> web \<Rightarrow> string \<Rightarrow> capture \<Rightarrow> response" where
  "handleChartsPage = handleVizPage ''charts.html''"

definition handleIntelligencePage :: "site \<Rightarrow> web \<Rightarrow> string \<Rightarrow> capture \<Rightarrow> response" where
  "handleIntelligencePage = handleVizPage ''intelligence.html''"

definition handleDiscoveryPage :: "site \<Rightarrow> web \<Rightarrow> capture \<Rightarrow> response" where
  "handleDiscoveryPage si w c = send_page si w ''discovery.html'' ((''Title'', P_text ''Discovery'') # state_data si c)"

definition trace_page_data :: "site \<Rightarrow> web \<Rightarrow> trace \<Rightarrow> capture \<Rightarrow> page_data" where
  "trace_page_data si w t c = (''Trace'', P_trace t) # (''Traces'', P_traces (ListTraces (wb_engine w) (ce_db c))) # state_data si c"

definition handleTracePage :: "site \<Rightarrow> web \<Rightarrow> string \<Rightarrow> capture \<Rightarrow> response" where
  "handleTracePage si w idText c = (case parseID idText of
       None \<Rightarrow> http_error 400 ''invalid trace ID''
     | Some i \<Rightarrow> (case GetTrace i (ce_db c) of
          None \<Rightarrow> not_found
        | Some t \<Rightarrow> send_page si w ''trace.html'' (trace_page_data si w t c)))"

definition directDeps :: "string list" where
  "directDeps = [''github.com/enbility/ship-go'', ''github.com/enbility/spine-go'', ''github.com/gorilla/websocket'', ''github.com/spf13/cobra'',
     ''github.com/mattn/go-sqlite3'', ''modernc.org/sqlite'', ''github.com/grandcat/zeroconf'']"

definition about_deps :: "(string \<times> string) list option \<Rightarrow> page_value" where
  "about_deps deps = P_list (map (\<lambda>(path, v). P_map [(''Name'', P_text path), (''Version'', P_text v)])
     (filter (\<lambda>(path, v). path \<in> set directDeps) (case deps of None \<Rightarrow> [] | Some ds \<Rightarrow> ds)))"

definition handleAboutPage :: "site \<Rightarrow> web \<Rightarrow> capture \<Rightarrow> response" where
  "handleAboutPage si w c = send_page si w ''about.html'' ((''Title'', P_text ''About'') # state_data si c @
     [(''Project'', P_map [(''Name'', P_text ''EEBus Tracer''), (''Version'', P_text (si_version si)),
        (''Description'', P_text ''Cross-platform trace recording and analysis tool for the EEBus protocol stack (SHIP + SPINE)''),
        (''License'', P_text ''MIT''), (''Author'', P_text ''Andreas Ertel'')]),
      (''Dependencies'', about_deps (si_build si)),
      (''System'', P_map [(''GoVersion'', P_text (si_go si)), (''OS'', P_text (si_os si)), (''Arch'', P_text (si_arch si)), (''CPUs'', P_int (si_cpus si))])])"

text \<open>A \<open>GET\<close> of a path, when its pattern is that of a page.\<close>

definition page_request :: "site \<Rightarrow> web \<Rightarrow> string list \<Rightarrow> capture \<Rightarrow> response option" where
  "page_request si w path c =
     (case dispatch (all_routes (si_templates si \<noteq> None)) Get path of
        Handled p \<Rightarrow>
          (let h = pt_handler p; idText = hd (path_values (pt_segments p) path)
           in if h = ''handleIndexPage'' then Some (handleIndexPage si w path c)
           else if h = ''handleTracePage'' then Some (handleTracePage si w idText c)
           else if h = ''handleChartsPage'' then Some (handleChartsPage si w idText c)
           else if h = ''handleIntelligencePage'' then Some (handleIntelligencePage si w idText c)
           else if h = ''handleDiscoveryPage'' then Some (handleDiscoveryPage si w c)
           else if h = ''handleAboutPage'' then Some (handleAboutPage si w c)
           else None)
      | _ \<Rightarrow> None)"

section \<open>Lemmas\<close>

lemma load_pages_dom: "load_pages parse files pages = Some pages' \<Longrightarrow> dom pages' = dom pages \<union> (set files - {''layout.html''})"
  by (induction files arbitrary: pages) (auto split: if_splits option.splits)

lemma renderer_pages: "NewTemplateRenderer parse files = Some pages \<Longrightarrow> (pages name \<noteq> None) = (name \<in> set files \<and> name \<noteq> ''layout.html'')"
  using load_pages_dom [of parse files Map.empty pages] by (auto simp: NewTemplateRenderer_def)

definition page_names :: "string list" where
  "page_names = [''handleIndexPage'', ''handleTracePage'', ''handleChartsPage'', ''handleIntelligencePage'', ''handleDiscoveryPage'', ''handleAboutPage'']"

abbreviation trace_route :: pattern where "trace_route \<equiv> route Get [Lit ''traces'', Wild] False ''handleTracePage''"
abbreviation charts_route :: pattern where "charts_route \<equiv> route Get [Lit ''traces'', Wild, Lit ''charts''] False ''handleChartsPage''"
abbreviation intelligence_route :: pattern where
  "intelligence_route \<equiv> route Get [Lit ''traces'', Wild, Lit ''intelligence''] False ''handleIntelligencePage''"
abbreviation discovery_route :: pattern where "discovery_route \<equiv> route Get [Lit ''discovery''] False ''handleDiscoveryPage''"
abbreviation about_route :: pattern where "about_route \<equiv> route Get [Lit ''about''] False ''handleAboutPage''"

lemma page_routes:
  "filter (\<lambda>p. pt_handler p \<in> set page_names) (all_routes t) =
     [index_route, trace_route, charts_route, intelligence_route, discovery_route, about_route]"
  by (cases t) (simp only:, code_simp)+

lemma page_route_cases:
  assumes "p \<in> set (all_routes t)" and "pt_handler p \<in> set page_names"
  shows "p \<in> {index_route, trace_route, charts_route, intelligence_route, discovery_route, about_route}"
proof -
  have "p \<in> set (filter (\<lambda>p. pt_handler p \<in> set page_names) (all_routes t))" using assms by simp
  then show ?thesis unfolding page_routes by simp
qed

lemma most_specific:
  assumes "filter (pattern_covers r) (all_routes t) = [r]" and "matches_request r m path"
  shows "best_match (all_routes t) m path = Some r"
proof -
  have r: "r \<in> set (all_routes t)" using arg_cong [OF assms(1), of set] by auto
  then obtain p where p: "best_match (all_routes t) m path = Some p"
    using assms(2) routes.best_match_none by (meson not_Some_eq)
  then have "p \<in> set (filter (pattern_covers r) (all_routes t))" using routes.best_match_some [OF p] r assms(2) by simp
  then show ?thesis using p assms(1) by simp
qed

lemma specific_routes:
  "filter (pattern_covers trace_route) (all_routes t) = [trace_route]"
  "filter (pattern_covers charts_route) (all_routes t) = [charts_route]"
  "filter (pattern_covers intelligence_route) (all_routes t) = [intelligence_route]"
  "filter (pattern_covers discovery_route) (all_routes t) = [discovery_route]"
  "filter (pattern_covers about_route) (all_routes t) = [about_route]"
  by (cases t; simp only:; code_simp)+

lemma root_best: "best_match (all_routes t) Get [[]] = Some index_route"
  by (cases t; simp only:; code_simp)

lemma dispatch_best:
  "best_match ps m path = Some p \<Longrightarrow> exact_match (Some p) path \<Longrightarrow> clean_path path = path \<Longrightarrow> dispatch ps m path = Handled p"
  by (cases "m = Other ''CONNECT''") (simp_all add: dispatch_def Let_def)

lemmas specific_dispatch = dispatch_best [OF most_specific [OF specific_routes(1)]] dispatch_best [OF most_specific [OF specific_routes(2)]]
  dispatch_best [OF most_specific [OF specific_routes(3)]] dispatch_best [OF most_specific [OF specific_routes(4)]]
  dispatch_best [OF most_specific [OF specific_routes(5)]] dispatch_best [OF root_best]

lemma segments_match_Cons:
  "segments_match (Lit a # segs) b path \<longleftrightarrow> (\<exists>rest. path = a # rest \<and> segments_match segs b rest)"
  "segments_match (Wild # segs) b path \<longleftrightarrow> (\<exists>x rest. x \<noteq> [] \<and> path = x # rest \<and> segments_match segs b rest)"
  by (cases path; auto)+

lemma parsed_plain: "parseID idText = Some i \<Longrightarrow> plain_segment idText"
  by (auto simp: parseID_def atoi_def plain_segment_def is_digit_def split: if_splits)

lemma page_paths_clean:
  "clean_path [[]] = [[]]" "clean_path [''discovery''] = [''discovery'']" "clean_path [''about''] = [''about'']"
  "plain_segment idText \<Longrightarrow> clean_path [''traces'', idText] = [''traces'', idText]"
  "plain_segment idText \<Longrightarrow> clean_path [''traces'', idText, ''charts''] = [''traces'', idText, ''charts'']"
  "plain_segment idText \<Longrightarrow> clean_path [''traces'', idText, ''intelligence''] = [''traces'', idText, ''intelligence'']"
  by (simp add: clean_path_def) (rule plain_clean(1); simp add: plain_segment_def)+

lemmas page_defs = page_request_def specific_dispatch route_def matches_request_def method_matches_def exact_match_def page_paths_clean

lemma page_request_of:
  "page_request si w [[]] c = Some (handleIndexPage si w [[]] c)"
  "page_request si w [''discovery''] c = Some (handleDiscoveryPage si w c)"
  "page_request si w [''about''] c = Some (handleAboutPage si w c)"
  "plain_segment idText \<Longrightarrow> page_request si w [''traces'', idText] c = Some (handleTracePage si w idText c)"
  "plain_segment idText \<Longrightarrow> page_request si w [''traces'', idText, ''charts''] c = Some (handleChartsPage si w idText c)"
  "plain_segment idText \<Longrightarrow> page_request si w [''traces'', idText, ''intelligence''] c = Some (handleIntelligencePage si w idText c)"
  by (simp_all add: page_defs plain_segment_def [THEN iffD1, THEN conjunct1])

lemma page_request_handled:
  assumes "dispatch (all_routes (si_templates si \<noteq> None)) Get path = Handled p"
  shows
    "p = index_route \<Longrightarrow> page_request si w path c = Some (handleIndexPage si w path c)"
    "p = trace_route \<Longrightarrow> page_request si w path c = Some (handleTracePage si w (hd (path_values [Lit ''traces'', Wild] path)) c)"
    "p = charts_route \<Longrightarrow> page_request si w path c
       = Some (handleVizPage ''charts.html'' si w (hd (path_values [Lit ''traces'', Wild, Lit ''charts''] path)) c)"
    "p = intelligence_route \<Longrightarrow> page_request si w path c
       = Some (handleVizPage ''intelligence.html'' si w (hd (path_values [Lit ''traces'', Wild, Lit ''intelligence''] path)) c)"
  unfolding page_request_def assms by (simp_all add: route_def handleChartsPage_def handleIntelligencePage_def)

lemma page_status:
  "rp_status (send_page si w name d) = 200" "rp_status not_found = 404"
  "rp_status (handleIndexPage si w path c) = (if path = [[]] then 200 else 404)"
  "rp_status (handleDiscoveryPage si w c) = 200" "rp_status (handleAboutPage si w c) = 200"
  by (simp_all add: send_page_def writeJSON_def not_found_def http_error_def handleIndexPage_def handleDiscoveryPage_def
      handleAboutPage_def split: option.split)

lemma trace_page_status:
  "rp_status (handleTracePage si w idText c) = 200 \<longleftrightarrow> (\<exists>i t. parseID idText = Some i \<and> GetTrace i (ce_db c) = Some t)"
  "rp_status (handleVizPage name si w idText c) = 200 \<longleftrightarrow> (\<exists>i t. parseID idText = Some i \<and> GetTrace i (ce_db c) = Some t)"
  by (auto simp: handleTracePage_def handleVizPage_def page_status http_error_def split: option.splits)

lemmas all_page_status = page_status trace_page_status handleChartsPage_def handleIntelligencePage_def

lemma page_sent_only:
  assumes "page_request si w path c = Some r" and "rp_status r = 200"
  shows "path = [[]] \<or> path = [''discovery''] \<or> path = [''about''] \<or>
     (\<exists>idText i t. parseID idText = Some i \<and> GetTrace i (ce_db c) = Some t
        \<and> path \<in> {[''traces'', idText], [''traces'', idText, ''charts''], [''traces'', idText, ''intelligence'']})"
proof -
  note r = assms
  then obtain p where d: "dispatch (all_routes (si_templates si \<noteq> None)) Get path = Handled p"
    and h: "pt_handler p \<in> set page_names"
    by (auto simp: page_request_def page_names_def Let_def split: dispatched.splits if_splits)
  then have best: "best_match (all_routes (si_templates si \<noteq> None)) Get path = Some p"
    by (auto simp: dispatch_def Let_def split: if_splits option.splits)
  note p = routes.best_match_some [OF best]
  have "p \<in> {index_route, trace_route, charts_route, intelligence_route, discovery_route, about_route}"
    using page_route_cases p h by blast
  then consider (index) "p = index_route" | (trace) "p = trace_route" | (charts) "p = charts_route"
    | (intelligence) "p = intelligence_route" | (others) "p = discovery_route \<or> p = about_route" by blast
  moreover have m: "segments_match (pt_segments p) (pt_below p) path" using p by (simp add: matches_request_def)
  ultimately show ?thesis
  proof cases
    case index
    have "rp_status (handleIndexPage si w path c) = 200" using page_request_handled(1) [OF d index] r by simp
    then show ?thesis by (simp add: page_status split: if_splits)
  next
    case trace
    from m obtain idText where path: "path = [''traces'', idText]" by (auto simp: trace route_def segments_match_Cons)
    have "rp_status (handleTracePage si w idText c) = 200" using page_request_handled(2) [OF d trace] r path by simp
    then show ?thesis using path by (auto simp: trace_page_status)
  next
    case charts
    from m obtain idText where path: "path = [''traces'', idText, ''charts'']" by (auto simp: charts route_def segments_match_Cons)
    have "rp_status (handleVizPage ''charts.html'' si w idText c) = 200" using page_request_handled(3) [OF d charts] r path by simp
    then show ?thesis using path by (auto simp: trace_page_status)
  next
    case intelligence
    from m obtain idText where path: "path = [''traces'', idText, ''intelligence'']"
      by (auto simp: intelligence route_def segments_match_Cons)
    have "rp_status (handleVizPage ''intelligence.html'' si w idText c) = 200"
      using page_request_handled(4) [OF d intelligence] r path by simp
    then show ?thesis using path by (auto simp: trace_page_status)
  next
    case others
    then show ?thesis using m by (auto simp: route_def segments_match_Cons)
  qed
qed

text \<open>A \<open>GET\<close> is answered with a page, status 200, exactly for the root, the discovery page, the page on the program, and the three
  pages of a trace whose number is a decimal of 64 bits and which is in the database.\<close>

theorem page_requests:
  "(\<exists>r. page_request si w path c = Some r \<and> rp_status r = 200) \<longleftrightarrow>
     path = [[]] \<or> path = [''discovery''] \<or> path = [''about''] \<or>
     (\<exists>idText i t. parseID idText = Some i \<and> GetTrace i (ce_db c) = Some t
        \<and> path \<in> {[''traces'', idText], [''traces'', idText, ''charts''], [''traces'', idText, ''intelligence'']})"
  using page_sent_only [of si w path c] parsed_plain by (auto simp: page_request_of all_page_status)

end
