(* ===== verification/LiveUpdates.thy ===== *)
theory LiveUpdates
  imports Hub CaptureApi
begin

text \<open>
  \<open>NewServer\<close> of \<open>api/server.go\<close>, which joins the capture engine and the WebSocket hub: the engine calls one callback for every
  captured message, and the callback broadcasts its summary. \<open>handleWebSocket\<close> of \<open>websocket.go\<close> registers a client. The steps are
  those of the engine, those of the hub, and the calls of the callback; a source may go on here while its callback still
  runs, which the code does not allow, so every run of the code is a run of these steps.
\<close>

section \<open>State\<close>

text \<open>\<open>lv_todo\<close>: messages whose callback has not broadcast yet. The rest is history: the messages whose callback has,
  the events broadcast, marked when they are messages, and how many there were when a client came.\<close>

record live =
  lv_capture :: capture
  lv_hub :: hub
  lv_todo :: "message list"
  lv_told :: "message list"
  lv_events :: "(bool \<times> string) list"
  lv_since :: "nat \<Rightarrow> nat"

definition NewServer :: "store \<Rightarrow> live" where
  "NewServer db = \<lparr>lv_capture = NewEngine db, lv_hub = NewHub, lv_todo = [], lv_told = [], lv_events = [], lv_since = \<lambda>_. 0\<rparr>"

text \<open>A broadcast with its trace in the history; a value that cannot be encoded is not broadcast.\<close>

definition tell :: "string \<Rightarrow> string option \<Rightarrow> live \<Rightarrow> live" where
  "tell eventType payload s = s\<lparr>lv_hub := BroadcastEvent eventType payload (lv_hub s),
     lv_events := lv_events s @ (case payload of None \<Rightarrow> [] | Some p \<Rightarrow> [(eventType = ''message'', ws_event eventType p)])\<rparr>"

definition message_payload :: "clock \<Rightarrow> message \<Rightarrow> string option" where
  "message_payload clk m = summary_json clk (ToSummary m)"

definition message_callback :: "clock \<Rightarrow> message \<Rightarrow> live \<Rightarrow> live" where
  "message_callback clk m s = (tell ''message'' (message_payload clk m) s)\<lparr>lv_todo := remove1 m (lv_todo s), lv_told := lv_told s @ [m]\<rparr>"

definition engine_delivers :: "externals \<Rightarrow> in_flight \<Rightarrow> live \<Rightarrow> live" where
  "engine_delivers x p s = (let c = deliver x p (lv_capture s) in s\<lparr>lv_capture := c, lv_todo := lv_todo s @ [last (ce_notified c)]\<rparr>)"

definition hub_moves :: "hub \<Rightarrow> live \<Rightarrow> live" where
  "hub_moves h s = s\<lparr>lv_hub := h, lv_since := \<lambda>c. if c < hu_next (lv_hub s) then lv_since s c else length (lv_events s)\<rparr>"

text \<open>The upgrade may fail.\<close>

definition handleWebSocket :: "bool \<Rightarrow> live \<Rightarrow> live" where
  "handleWebSocket upgraded s = (if upgraded then hub_moves (Register (lv_hub s)) s else s)"

section \<open>Steps\<close>

text \<open>\<open>engine\<close>: a step other than a delivery; \<open>hub\<close>: a step that broadcasts nothing.\<close>

inductive live_step :: "externals \<Rightarrow> clock \<Rightarrow> live \<Rightarrow> live \<Rightarrow> bool" for x :: externals and clk :: clock where
  engine: "capture_step x (lv_capture s) c \<Longrightarrow> ce_notified c = ce_notified (lv_capture s) \<Longrightarrow> live_step x clk s (s\<lparr>lv_capture := c\<rparr>)"
| delivered: "p \<in> set (ce_pending (lv_capture s)) \<Longrightarrow> live_step x clk s (engine_delivers x p s)"
| callback: "m \<in> set (lv_todo s) \<Longrightarrow> live_step x clk s (message_callback clk m s)"
| other_event: "t \<noteq> ''message'' \<Longrightarrow> live_step x clk s (tell t p s)"
| connect: "hu_casts (lv_hub s) = [] \<Longrightarrow> live_step x clk s (handleWebSocket b s)"
| hub: "socket_step (lv_hub s) h \<Longrightarrow> hu_next h = hu_next (lv_hub s) \<Longrightarrow> (\<forall>c. wc_due (hu_conn h c) = wc_due (hu_conn (lv_hub s) c))
    \<Longrightarrow> live_step x clk s (hub_moves h s)"

inductive live_reachable :: "externals \<Rightarrow> clock \<Rightarrow> live \<Rightarrow> bool" for x :: externals and clk :: clock where
  init: "live_reachable x clk (NewServer (migrated (built_in_charts now)))"
| step: "live_reachable x clk s \<Longrightarrow> live_step x clk s s' \<Longrightarrow> live_reachable x clk s'"

section \<open>Lemmas\<close>

definition message_events :: "clock \<Rightarrow> message list \<Rightarrow> string list" where
  "message_events clk ms' = map (\<lambda>m. ws_event ''message'' (the (message_payload clk m))) (filter (\<lambda>m. message_payload clk m \<noteq> None) ms')"

definition live_ok :: "clock \<Rightarrow> live \<Rightarrow> bool" where
  "live_ok clk s \<longleftrightarrow>
     mset (lv_told s) + mset (lv_todo s) = mset (ce_notified (lv_capture s))
     \<and> map snd (filter fst (lv_events s)) = message_events clk (lv_told s)
     \<and> (\<forall>c \<in> set (hu_clients (lv_hub s)). wc_due (hu_conn (lv_hub s) c) = map snd (drop (lv_since s c) (lv_events s)) \<and> lv_since s c \<le> length (lv_events s))"

text \<open>What a client has been sent, what a failed write lost, and what waits in its channel.\<close>

definition client_data :: "ws_client \<Rightarrow> string list" where
  "client_data cl = wc_sent cl @ wc_lost cl @ in_hand cl @ wc_buffer cl"

lemma deliver_notifies: "\<exists>m. ce_notified (deliver x p c) = ce_notified c @ [m]"
  by (simp add: deliver_def Let_def split: option.split prod.split)

lemma tell_ok: "live_ok clk s \<Longrightarrow> t \<noteq> ''message'' \<Longrightarrow> live_ok clk (tell t p s)"
  by (cases p) (auto simp: live_ok_def tell_def BroadcastEvent_def Let_def)

lemma message_callback_ok:
  assumes "live_ok clk s" and "m \<in> set (lv_todo s)"
  shows "live_ok clk (message_callback clk m s)"
proof -
  have "add_mset m (mset (lv_told s) + (mset (lv_todo s) - {#m#})) = mset (lv_told s) + mset (lv_todo s)"
    using assms(2) by (metis insert_DiffM set_mset_mset union_mset_add_mset_right)
  also have "\<dots> = mset (ce_notified (lv_capture s))" using assms(1) unfolding live_ok_def by blast
  finally show ?thesis using assms(1)
    by (cases "message_payload clk m") (auto simp: live_ok_def message_callback_def tell_def BroadcastEvent_def Let_def message_events_def)
qed

lemma hub_clients_known: "hub_reachable h \<Longrightarrow> c \<in> set (hu_clients h) \<Longrightarrow> c < hu_next h"
  using hub_reachable_ok by (auto simp: hub_ok_def)

lemma socket_step_clients:
  "socket_step h h' \<Longrightarrow> hu_next h' = hu_next h \<Longrightarrow> set (hu_clients h') \<subseteq> set (hu_clients h)"
  by (induction rule: socket_step.induct)
    (auto simp: Register_def BroadcastEvent_def broadcast_to_def broadcast_end_def unregister_def Let_def
      split: option.splits prod.splits if_splits dest: set_remove1_subset [THEN subsetD])

lemma live_step_ok:
  assumes "live_step x clk s s'" and "live_ok clk s" and "hub_reachable (lv_hub s)"
  shows "live_ok clk s' \<and> hub_reachable (lv_hub s')"
  using assms
proof (induction rule: live_step.induct)
  case (delivered p s)
  obtain m where "ce_notified (deliver x p (lv_capture s)) = ce_notified (lv_capture s) @ [m]" using deliver_notifies by blast
  then show ?case using delivered by (auto simp: live_ok_def engine_delivers_def Let_def)
next
  case (callback m s)
  have "hub_reachable (lv_hub (message_callback clk m s))"
    using callback(3) by (auto simp: message_callback_def tell_def intro: hub_reachable.step socket_step.broadcast)
  then show ?case using callback message_callback_ok by blast
next
  case (other_event t s p)
  have "hub_reachable (lv_hub (tell t p s))"
    using other_event(3) by (auto simp: tell_def intro: hub_reachable.step socket_step.broadcast)
  then show ?case using other_event tell_ok by blast
next
  case (connect s b)
  have "hub_reachable (Register (lv_hub s))" using connect(1,3) by (auto intro: hub_reachable.step socket_step.register)
  moreover have "live_ok clk (hub_moves (Register (lv_hub s)) s)"
    using connect(2) hub_clients_known [OF connect(3)] by (auto simp: live_ok_def hub_moves_def Register_def new_client_def)
  ultimately show ?case using connect by (auto simp: handleWebSocket_def) (simp add: hub_moves_def)
next
  case (hub s h)
  have "hub_reachable h" using hub(1,5) by (rule hub_reachable.step [rotated])
  moreover have "live_ok clk (hub_moves h s)"
    using hub(2,3,4) socket_step_clients [OF hub(1,2)] hub_clients_known [OF hub(5)] by (auto simp: live_ok_def hub_moves_def)
  ultimately show ?case by (simp add: hub_moves_def)
qed (auto simp: live_ok_def)

lemma live_reachable_ok: "live_reachable x clk s \<Longrightarrow> live_ok clk s \<and> hub_reachable (lv_hub s)"
proof (induction rule: live_reachable.induct)
  case (init now)
  show ?case by (simp add: live_ok_def NewServer_def NewEngine_def NewHub_def message_events_def hub_reachable.init [unfolded NewHub_def])
next
  case (step s s')
  then show ?case using live_step_ok by blast
qed

lemma client_takes_all:
  assumes "client_ok cl" and "length (wc_offered cl) \<le> clientBufferSize"
  shows "client_data cl = map fst (wc_offered cl)"
proof -
  have "filter snd (wc_offered cl) = wc_offered cl" using assms by (simp add: client_ok_def list_all_iff)
  then show ?thesis using assms(1) by (simp add: client_ok_def accepted_def client_data_def)
qed

text \<open>C37: What a browser sees of a capture. Whatever captures start and stop, traces are deleted and other clients come, fail and leave at the same
  time: once no callback and no broadcast is under way, a client that has been offered no more than 256 events since it
  came has been sent, or lost with its connection, or has on the way, each event broadcast since then exactly once, and the events that are messages are the summaries
  of the messages the engine has captured, each once, save those whose time has no JSON form.\<close>

theorem live_updates:
  assumes "live_reachable x clk s" and "lv_todo s = []" and "hu_casts (lv_hub s) = []" and "c \<in> set (hu_clients (lv_hub s))"
    and "length (lv_events s) \<le> lv_since s c + 256"
  shows "mset (client_data (hu_conn (lv_hub s) c)) = mset (map snd (drop (lv_since s c) (lv_events s)))
    \<and> mset (map snd (filter fst (lv_events s))) = mset (message_events clk (ce_notified (lv_capture s)))"
proof
  let ?cl = "hu_conn (lv_hub s) c"
  note ok = live_reachable_ok [OF assms(1)]
  have due: "wc_due ?cl = map snd (drop (lv_since s c) (lv_events s))" using ok assms(4) by (simp add: live_ok_def)
  from hub_reachable_ok [OF conjunct2 [OF ok]] have h: "client_ok ?cl"
    and m: "mset (map fst (wc_offered ?cl)) = mset (wc_due ?cl)"
    using assms(3) by (auto simp: hub_ok_def owed_def)
  have "length (wc_offered ?cl) = length (wc_due ?cl)" using arg_cong [OF m, of size] by simp
  then have "length (wc_offered ?cl) \<le> clientBufferSize" using due assms(5) by (simp add: clientBufferSize_def)
  then have "client_data ?cl = map fst (wc_offered ?cl)" using h by (rule client_takes_all [rotated])
  then show "mset (client_data ?cl) = mset (map snd (drop (lv_since s c) (lv_events s)))" using m due by simp
  have "mset (lv_told s) = mset (ce_notified (lv_capture s))" using ok assms(2) by (simp add: live_ok_def)
  then have "mset (message_events clk (lv_told s)) = mset (message_events clk (ce_notified (lv_capture s)))"
    by (simp add: message_events_def mset_filter)
  then show "mset (map snd (filter fst (lv_events s))) = mset (message_events clk (ce_notified (lv_capture s)))"
    using ok by (simp add: live_ok_def)
qed

section \<open>One source at a time\<close>

text \<open>A source waits for its callback, and the callback for its broadcast. With one source, and no broadcast of another kind at the same
  time, a step delivers only when no callback is due, and broadcasts only when no broadcast is in progress.\<close>

definition calm_step :: "externals \<Rightarrow> clock \<Rightarrow> live \<Rightarrow> live \<Rightarrow> bool" where
  "calm_step x clk s s' \<longleftrightarrow> live_step x clk s s'
     \<and> (ce_notified (lv_capture s') = ce_notified (lv_capture s) \<or> lv_todo s = [])
     \<and> (length (hu_casts (lv_hub s')) \<le> 1)"

inductive calm_reachable :: "externals \<Rightarrow> clock \<Rightarrow> live \<Rightarrow> bool" for x :: externals and clk :: clock where
  init: "calm_reachable x clk (NewServer (migrated (built_in_charts now)))"
| step: "calm_reachable x clk s \<Longrightarrow> calm_step x clk s s' \<Longrightarrow> calm_reachable x clk s'"

text \<open>What the one broadcast in progress still owes a client.\<close>

definition owed_list :: "hub \<Rightarrow> nat \<Rightarrow> string list" where
  "owed_list h c = map fst (filter (\<lambda>k. c \<in> set (snd k)) (hu_casts h))"

definition in_order :: "hub \<Rightarrow> bool" where
  "in_order h \<longleftrightarrow> (\<forall>c. map fst (wc_offered (hu_conn h c)) @ owed_list h c = wc_due (hu_conn h c))"

lemma calm_live: "calm_reachable x clk s \<Longrightarrow> live_reachable x clk s"
  by (induction rule: calm_reachable.induct) (auto simp: calm_step_def intro: live_reachable.intros)

lemma in_order_broadcast: "in_order h \<Longrightarrow> length (hu_casts (BroadcastEvent t p h)) \<le> 1 \<Longrightarrow> in_order (BroadcastEvent t p h)"
  by (cases p) (auto simp: in_order_def BroadcastEvent_def Let_def owed_list_def)

lemma in_order_reach:
  assumes "in_order h" and "hub_ok h" and "k < length (hu_casts h)" and "c \<in> set (snd (hu_casts h ! k))" and "length (hu_casts h) \<le> 1"
  shows "in_order (broadcast_to k c h)"
proof -
  obtain data todo where casts: "hu_casts h = [(data, todo)]" "k = 0"
    using assms(3,5) by (cases "hu_casts h") (auto simp: le_Suc_eq)
  then have t: "c \<in> set todo" "distinct todo" "\<not> wc_closed (hu_conn h c)" using assms(2,4) by (auto simp: hub_ok_def)
  have all: "map fst (wc_offered (hu_conn h d)) @ (if d \<in> set todo then [data] else []) = wc_due (hu_conn h d)" for d
    using spec [OF assms(1) [unfolded in_order_def], of d] casts(1) by (simp add: owed_list_def split: if_splits)
  have "map fst (wc_offered (hu_conn (broadcast_to k c h) d)) @ owed_list (broadcast_to k c h) d = wc_due (hu_conn (broadcast_to k c h) d)" for d
  proof (cases "d = c")
    case True
    then show ?thesis using all [of c] t casts by (simp add: broadcast_to_def owed_list_def offer_def)
  next
    case False
    then show ?thesis using all [of d] t casts by (cases "d \<in> set todo") (simp_all add: broadcast_to_def owed_list_def)
  qed
  then show ?thesis by (simp add: in_order_def)
qed

lemma in_order_step:
  assumes "socket_step h h'" and "in_order h" and "hub_ok h" and "length (hu_casts h) \<le> 1" and "length (hu_casts h') \<le> 1"
  shows "in_order h'"
  using assms
proof (induction rule: socket_step.induct)
  case (register h)
  then show ?case by (simp add: in_order_def Register_def owed_list_def new_client_def)
next
  case (broadcast h t p)
  then show ?case using in_order_broadcast by blast
next
  case (reach k h c)
  then show ?case using in_order_reach by blast
next
  case (finish k h)
  then obtain data where casts: "hu_casts h = [(data, [])]" "k = 0" by (cases "hu_casts h") (auto simp: le_Suc_eq prod_eq_iff)
  then have "owed_list h c = []" "owed_list (broadcast_end k h) c = []" for c by (simp_all add: owed_list_def broadcast_end_def)
  then show ?case using finish(3) by (simp add: in_order_def broadcast_end_def)
next
  case (pump_leaves c h)
  then show ?case by (auto simp: in_order_def unregister_def owed_list_def)
next
  case (reader_leaves c h)
  then show ?case by (auto simp: in_order_def unregister_def owed_list_def)
qed (simp_all add: in_order_def owed_list_def)

lemma live_step_hub: "live_step x clk s s' \<Longrightarrow> lv_hub s' = lv_hub s \<or> socket_step (lv_hub s) (lv_hub s')"
  by (induction rule: live_step.induct)
    (auto simp: engine_delivers_def message_callback_def tell_def handleWebSocket_def hub_moves_def Let_def
      intro: socket_step.broadcast socket_step.register)

lemma calm_step_told:
  assumes "live_step x clk s s'" and "ce_notified (lv_capture s') = ce_notified (lv_capture s) \<or> lv_todo s = []"
    and "lv_told s @ lv_todo s = ce_notified (lv_capture s)" and "length (lv_todo s) \<le> 1"
  shows "lv_told s' @ lv_todo s' = ce_notified (lv_capture s') \<and> length (lv_todo s') \<le> 1"
  using assms
proof (induction rule: live_step.induct)
  case (delivered p s)
  obtain m where m: "ce_notified (deliver x p (lv_capture s)) = ce_notified (lv_capture s) @ [m]" using deliver_notifies by blast
  then have "lv_todo s = []" using delivered(2) by (simp add: engine_delivers_def Let_def)
  then show ?case using delivered(3) m by (simp add: engine_delivers_def Let_def)
next
  case (callback m s)
  then have "lv_todo s = [m]" by (cases "lv_todo s") auto
  then show ?case using callback(3) by (simp add: message_callback_def tell_def)
qed (simp_all add: tell_def handleWebSocket_def hub_moves_def)

lemma calm_reachable_ok:
  "calm_reachable x clk s \<Longrightarrow> in_order (lv_hub s) \<and> length (hu_casts (lv_hub s)) \<le> 1
     \<and> lv_told s @ lv_todo s = ce_notified (lv_capture s) \<and> length (lv_todo s) \<le> 1"
proof (induction rule: calm_reachable.induct)
  case (init now)
  show ?case by (simp add: in_order_def owed_list_def NewServer_def NewHub_def NewEngine_def) (simp add: new_client_def)
next
  case (step s s')
  then have ok: "hub_ok (lv_hub s)" using live_reachable_ok [OF calm_live] hub_reachable_ok by blast
  from step(2) have l: "live_step x clk s s'" and d: "ce_notified (lv_capture s') = ce_notified (lv_capture s) \<or> lv_todo s = []"
    and k: "length (hu_casts (lv_hub s')) \<le> 1" by (simp_all add: calm_step_def)
  have "in_order (lv_hub s')" using live_step_hub [OF l] in_order_step [OF _ _ ok _ k] step.IH by auto
  then show ?case using calm_step_told [OF l d] step.IH k by simp
qed

text \<open>C38: The order in which a browser sees a capture. With one source, whose callback the engine waits for, and no other broadcast at the same time, a
  client that has been offered no more than 256 events since it came gets exactly the events broadcast since then, in their order, and those that are
  messages are the summaries of the captured messages in the order of their capture.\<close>

theorem live_order:
  assumes "calm_reachable x clk s" and "lv_todo s = []" and "hu_casts (lv_hub s) = []" and "c \<in> set (hu_clients (lv_hub s))"
    and "length (lv_events s) \<le> lv_since s c + 256"
  shows "client_data (hu_conn (lv_hub s) c) = map snd (drop (lv_since s c) (lv_events s))
    \<and> map snd (filter fst (lv_events s)) = message_events clk (ce_notified (lv_capture s))"
proof -
  let ?cl = "hu_conn (lv_hub s) c"
  note calm = calm_reachable_ok [OF assms(1)] and ok = live_reachable_ok [OF calm_live [OF assms(1)]]
  have due: "wc_due ?cl = map snd (drop (lv_since s c) (lv_events s))" and events: "map snd (filter fst (lv_events s)) = message_events clk (lv_told s)"
    using ok assms(4) by (simp_all add: live_ok_def)
  have offered: "map fst (wc_offered ?cl) = wc_due ?cl" using calm assms(3) by (simp add: in_order_def owed_list_def)
  then have "length (wc_offered ?cl) = length (wc_due ?cl)" by (metis length_map)
  then have "length (wc_offered ?cl) \<le> clientBufferSize" using due assms(5) by (simp add: clientBufferSize_def)
  then have "client_data ?cl = map fst (wc_offered ?cl)"
    using hub_reachable_ok [OF conjunct2 [OF ok]] by (intro client_takes_all) (simp_all add: hub_ok_def)
  then show ?thesis using offered due events calm assms(2) by simp
qed

text \<open>A client comes, a packet is captured, and its summary is broadcast.\<close>

definition sample_receive :: capture where
  "sample_receive = receive 5 0 (udp_message ''ems:4712'' [CHR 0x00]) started_capture"

definition sample_flight :: in_flight where "sample_flight = hd (ce_pending sample_receive)"

definition sample_live :: live where
  "sample_live = engine_delivers test_externals sample_flight
     ((handleWebSocket True (NewServer (migrated (built_in_charts 0))))\<lparr>lv_capture := sample_receive\<rparr>)"

lemma calm_next: "calm_reachable x clk s \<Longrightarrow> live_step x clk s s' \<Longrightarrow>
    ce_notified (lv_capture s') = ce_notified (lv_capture s) \<or> lv_todo s = [] \<Longrightarrow> length (hu_casts (lv_hub s')) \<le> 1 \<Longrightarrow> calm_reachable x clk s'"
  by (rule calm_reachable.step) (simp_all add: calm_step_def)

lemma sample_live_reachable: "calm_reachable test_externals clk sample_live"
proof -
  let ?s0 = "NewServer (migrated (built_in_charts 0))"
  let ?s1 = "handleWebSocket True ?s0"
  let ?s2 = "?s1\<lparr>lv_capture := started_capture\<rparr>" and ?s3 = "?s1\<lparr>lv_capture := sample_receive\<rparr>"
  note server = handleWebSocket_def hub_moves_def NewServer_def NewHub_def Register_def
  have c: "lv_capture ?s1 = empty_capture" "hu_casts (lv_hub ?s0) = []" "hu_casts (lv_hub ?s1) = []" "lv_todo ?s1 = []" "lv_todo ?s0 = []"
    by (simp_all add: server empty_capture_def)
  have n: "ce_notified started_capture = ce_notified empty_capture" "ce_notified sample_receive = ce_notified started_capture"
    by (simp_all add: capture_defs CreateTrace_def sample_receive_def receive_def Let_def)
  have idle: "idle_run 0 started_capture" by (simp add: idle_run_def capture_defs CreateTrace_def Let_def)
  have flight: "sample_flight \<in> set (ce_pending sample_receive)"
    by (simp add: sample_flight_def sample_receive_def receive_def capture_defs CreateTrace_def Let_def)
  have "calm_reachable test_externals clk ?s0" by (rule calm_reachable.init)
  moreover have "live_step test_externals clk ?s0 ?s1" by (rule live_step.connect) (rule c(2))
  ultimately have "calm_reachable test_externals clk ?s1" by (rule calm_next) (simp_all only: c simp_thms list.size zero_le_one)
  moreover have "live_step test_externals clk ?s1 ?s2"
    using live_step.engine [of test_externals ?s1 started_capture clk] capture_step.start [OF started_capture] n(1) c(1) by simp
  ultimately have "calm_reachable test_externals clk ?s2" by (rule calm_next) (simp_all add: n(1) c)
  moreover have "live_step test_externals clk ?s2 ?s3"
    using live_step.engine [of test_externals ?s2 sample_receive clk] capture_step.receive [OF idle] n(2) by (simp add: sample_receive_def)
  ultimately have "calm_reachable test_externals clk ?s3" by (rule calm_next) (simp_all add: n(2) c)
  moreover have "live_step test_externals clk ?s3 sample_live" unfolding sample_live_def by (rule live_step.delivered) (simp add: flight)
  ultimately show ?thesis by (rule calm_next) (simp_all add: sample_live_def engine_delivers_def Let_def c)
qed

lemma sample_broadcast:
  defines "clk \<equiv> \<lambda>_. Some ''t''"
  shows "\<exists>s m. calm_reachable test_externals clk s \<and> ce_notified (lv_capture s) = [m] \<and> lv_todo s = [] \<and> hu_casts (lv_hub s) = []
    \<and> 0 \<in> set (hu_clients (lv_hub s)) \<and> lv_events s = [(True, ws_event ''message'' (the (message_payload clk m)))] \<and> lv_since s 0 = 0"
proof -
  obtain m where n: "ce_notified (lv_capture sample_live) = [m]" "lv_todo sample_live = [m]"
    using deliver_notifies [of test_externals sample_flight sample_receive]
    by (auto simp: sample_live_def engine_delivers_def Let_def handleWebSocket_def hub_moves_def NewServer_def
        sample_receive_def receive_def capture_defs CreateTrace_def)
  obtain p where p: "message_payload clk m = Some p" by (simp add: message_payload_def summary_json_def clk_def)
  let ?s1 = "message_callback clk m sample_live"
  let ?s2 = "hub_moves (broadcast_to 0 0 (lv_hub ?s1)) ?s1"
  let ?s3 = "hub_moves (broadcast_end 0 (lv_hub ?s2)) ?s2"
  note hub = message_callback_def tell_def p BroadcastEvent_def sample_live_def engine_delivers_def Let_def handleWebSocket_def hub_moves_def
    NewServer_def NewHub_def Register_def new_client_def broadcast_to_def broadcast_end_def offer_def clientBufferSize_def
  have "live_step test_externals clk sample_live ?s1" using n(2) by (intro live_step.callback) simp
  then have "calm_reachable test_externals clk ?s1" by (rule calm_next [OF sample_live_reachable]) (simp_all add: hub)
  moreover have "live_step test_externals clk ?s1 ?s2" by (intro live_step.hub socket_step.reach; simp add: hub)
  ultimately have "calm_reachable test_externals clk ?s2" by (rule calm_next) (simp_all add: hub)
  moreover have "live_step test_externals clk ?s2 ?s3" by (intro live_step.hub socket_step.finish; simp add: hub)
  ultimately have r: "calm_reachable test_externals clk ?s3" by (rule calm_next) (simp_all add: hub)
  have "ce_notified (lv_capture ?s3) = [m]" "lv_todo ?s3 = []" using n by (simp_all add: message_callback_def tell_def hub_moves_def)
  moreover have "hu_casts (lv_hub ?s3) = []" "0 \<in> set (hu_clients (lv_hub ?s3))"
    "lv_events ?s3 = [(True, ws_event ''message'' p)]" "lv_since ?s3 0 = 0"
    by (simp_all add: hub)
  ultimately show ?thesis using r p by (intro exI [of _ ?s3] exI [of _ m]) simp
qed

theorem live_updates_witness:
  "\<exists>(s :: live) m. ce_notified (lv_capture s) = [m]
     \<and> mset (client_data (hu_conn (lv_hub s) 0)) = {#ws_event ''message'' (the (message_payload (\<lambda>_. Some ''t'') m))#}"
proof -
  obtain s m where s: "calm_reachable test_externals (\<lambda>_. Some ''t'') s" "ce_notified (lv_capture s) = [m]" "lv_todo s = []" "hu_casts (lv_hub s) = []"
      "0 \<in> set (hu_clients (lv_hub s))" "lv_events s = [(True, ws_event ''message'' (the (message_payload (\<lambda>_. Some ''t'') m)))]" "lv_since s 0 = 0"
    using sample_broadcast by blast
  have "mset (client_data (hu_conn (lv_hub s) 0)) = {#ws_event ''message'' (the (message_payload (\<lambda>_. Some ''t'') m))#}"
    using live_updates [OF calm_live [OF s(1)], of 0] s by simp
  then show ?thesis using s(2) by blast
qed

theorem live_order_witness:
  "\<exists>(s :: live) m. ce_notified (lv_capture s) = [m]
     \<and> client_data (hu_conn (lv_hub s) 0) = [ws_event ''message'' (the (message_payload (\<lambda>_. Some ''t'') m))]"
proof -
  obtain s m where s: "calm_reachable test_externals (\<lambda>_. Some ''t'') s" "ce_notified (lv_capture s) = [m]" "lv_todo s = []" "hu_casts (lv_hub s) = []"
      "0 \<in> set (hu_clients (lv_hub s))" "lv_events s = [(True, ws_event ''message'' (the (message_payload (\<lambda>_. Some ''t'') m)))]" "lv_since s 0 = 0"
    using sample_broadcast by blast
  have "client_data (hu_conn (lv_hub s) 0) = [ws_event ''message'' (the (message_payload (\<lambda>_. Some ''t'') m))]"
    using live_order [OF s(1), of 0] s by simp
  then show ?thesis using s(2) by blast
qed

end
