(* ===== verification/ReadApi.thy ===== *)
theory ReadApi
  imports AnalysisApi Writes Mdns
begin

text \<open>
  Requests that only read: the messages related to one and the requests without an answer (\<open>correlation.go\<close>), the connections
  (\<open>connections.go\<close>), the descriptions (\<open>descriptions.go\<close>), the devices on the network (\<open>mdns_handler.go\<close>); and the discover command of
  \<open>cmd/eebustracer/mdns.go\<close>, which prints the latter as a table of \<open>text/tabwriter\<close>. The cells of the table are taken to be without
  tabs and line breaks and one column wide for each of their characters.
\<close>

section \<open>Handlers\<close>

definition for_message :: "string \<Rightarrow> string \<Rightarrow> (int \<Rightarrow> int \<Rightarrow> string + 'a) \<Rightarrow> 'a answer" where
  "for_message idText midText f = (case parseID idText of
       None \<Rightarrow> Refused 400 ''invalid trace ID''
     | Some i \<Rightarrow> (case parseID midText of
          None \<Rightarrow> Refused 400 ''invalid message ID''
        | Some j \<Rightarrow> (case f i j of Inl e \<Rightarrow> Refused 404 e | Inr a \<Rightarrow> Answer a)))"

definition related_request :: "web \<Rightarrow> string \<Rightarrow> string \<Rightarrow> store \<Rightarrow> related_message list answer" where
  "related_request w idText midText s = for_message idText midText (\<lambda>i j. handleRelatedMessages (wb_engine w) i j s)"

definition conversation_request :: "web \<Rightarrow> string \<Rightarrow> string \<Rightarrow> query \<Rightarrow> store \<Rightarrow> (message list \<times> int) answer" where
  "conversation_request w idText midText q s = for_message idText midText
     (\<lambda>i j. handleConversation (wb_engine w) i j (query_value q ''limit'') (query_value q ''offset'') s)"

definition handleOrphanedRequests :: "string \<Rightarrow> store \<Rightarrow> int list answer" where
  "handleOrphanedRequests idText s = for_trace idText (\<lambda>i. Answer (FindOrphanedRequestIDs i s))"

definition first_ten_thousand :: message_filter where "first_ten_thousand = no_filter\<lparr>mf_limit := 10000\<rparr>"

definition handleListConnections :: "web \<Rightarrow> string \<Rightarrow> store \<Rightarrow> connection list answer" where
  "handleListConnections w idText s = for_trace idText (\<lambda>i.
     with_messages w i first_ten_thousand s (\<lambda>msgs. Answer (buildConnectionStates msgs)))"

definition handleDescriptions :: "web \<Rightarrow> string \<Rightarrow> store \<Rightarrow> description_context answer" where
  "handleDescriptions w idText s = for_trace idText (\<lambda>i. Answer (loadDescriptionContext (wb_engine w) i s))"

text \<open>The monitor may be absent.\<close>

definition handleMDNSDevices :: "(string list \<Rightarrow> string list) \<Rightarrow> monitor option \<Rightarrow> mdns_device list" where
  "handleMDNSDevices visit m = (case m of None \<Rightarrow> [] | Some mo \<Rightarrow> Devices visit mo)"

section \<open>The discover command\<close>

definition column_widths :: "string list list \<Rightarrow> nat list" where
  "column_widths rows = map (\<lambda>j. Max (set (map (\<lambda>r. length (r ! j)) rows)) + 2) [0..<length (hd rows) - 1]"

definition pad_cell :: "nat \<Rightarrow> string \<Rightarrow> string" where
  "pad_cell n s = s @ replicate (n - length s) (CHR '' '')"

definition table_line :: "nat list \<Rightarrow> string list \<Rightarrow> string" where
  "table_line widths r = concat (map2 pad_cell widths (butlast r)) @ last r"

definition table_text :: "string list list \<Rightarrow> string list" where
  "table_text rows = map (table_line (column_widths rows)) rows"

definition device_cells :: "mdns_device \<Rightarrow> string list" where
  "device_cells d = [md_instance d, join '','' (md_addrs d), int_str (md_port d), md_brand d, md_model d, md_type d, md_ski d]"

definition discover_header :: "string list" where
  "discover_header = [''NAME'', ''ADDRESS'', ''PORT'', ''BRAND'', ''MODEL'', ''TYPE'', ''SKI'']"

datatype discover_output = As_json "mdns_device list" | As_text "string list"

text \<open>What happens on the network until the time is over are the events \<open>es\<close>.\<close>

definition runDiscover :: "(string list \<Rightarrow> string list) \<Rightarrow> bool \<Rightarrow> mdns_event list \<Rightarrow> string + discover_output" where
  "runDiscover visit json es =
     (case StartMonitor NewMonitor of
        Inl e \<Rightarrow> Inl (''start mDNS discovery: '' @ e)
      | Inr m \<Rightarrow>
          (let devices = Devices visit (StopMonitor (fold mdns_step es m))
           in Inr (if json then As_json devices
              else if devices = [] then As_text [''No EEBus devices found.'']
              else As_text (table_text (discover_header # map device_cells devices)))))"

section \<open>Lemmas\<close>

lemma pad_cell_length: "length s \<le> n \<Longrightarrow> length (pad_cell n s) = n"
  by (simp add: pad_cell_def)

lemma column_fits:
  assumes "r \<in> set rows" and "j < length (column_widths rows)"
  shows "length (r ! j) + 2 \<le> column_widths rows ! j"
  using assms by (simp add: column_widths_def)

text \<open>In every line of a table whose rows have equal length, the cells of a column start at the same place.\<close>

lemma cells_aligned:
  assumes "r \<in> set rows" and "\<forall>q \<in> set rows. length q = length (hd rows)" and "r \<noteq> []" and "k < length r"
  shows "take (length (r ! k)) (drop (sum_list (take k (column_widths rows))) (table_line (column_widths rows) r)) = r ! k"
proof -
  let ?w = "column_widths rows"
  have len: "length ?w = length (butlast r)" using assms(1,2) by (simp add: column_widths_def)
  have aligned: "drop (sum_list (take k ws)) (concat (map2 pad_cell ws cs) @ l) = concat (map2 pad_cell (drop k ws) (drop k cs)) @ l"
    if "length ws = length cs" "\<forall>j < length cs. length (cs ! j) \<le> ws ! j" "k \<le> length cs" for ws cs l
    using that
  proof (induction ws cs arbitrary: k rule: list_induct2)
    case (Cons v vs c cs)
    then have "length c \<le> v" "\<forall>j < length cs. length (cs ! j) \<le> vs ! j" by (auto dest: spec [of _ "Suc _"])
    then show ?case using Cons.IH [of "k - 1"] Cons.prems(2) by (cases k) (simp_all add: pad_cell_length)
  qed simp
  have fits: "\<forall>j < length (butlast r). length (butlast r ! j) \<le> ?w ! j"
    using column_fits [OF assms(1)] len by (fastforce simp: nth_butlast)
  have "drop (sum_list (take k ?w)) (table_line ?w r) = concat (map2 pad_cell (drop k ?w) (drop k (butlast r))) @ last r"
    unfolding table_line_def using aligned [OF len fits, of "last r"] assms(4) by simp
  moreover have "take (length (r ! k)) (concat (map2 pad_cell (drop k ?w) (drop k (butlast r))) @ last r) = r ! k"
  proof (cases "k < length (butlast r)")
    case True
    then have "drop k ?w = ?w ! k # drop (Suc k) ?w" "drop k (butlast r) = r ! k # drop (Suc k) (butlast r)"
      using len by (metis Cons_nth_drop_Suc, metis Cons_nth_drop_Suc nth_butlast)
    then show ?thesis by (simp add: pad_cell_def)
  next
    case False
    then have "k = length r - 1" using assms(4) by simp
    then show ?thesis using assms(3) False by (simp add: last_conv_nth)
  qed
  ultimately show ?thesis by simp
qed

text \<open>A request is reported as orphaned exactly when nothing is listed as related to it.\<close>

lemma orphan_unrelated:
  assumes "store_reachable s" and "orders (wb_engine w)" and "parseID idText = Some i" and "parseID midText = Some j"
    and "GetMessage i j s = Some m" and "m_type m = ShipMsgTypeData" and "m_classifier m \<in> set [''read'', ''write'', ''call'']"
    and "m_ctr m \<noteq> []" and "m_ref m = []"
  shows "(\<exists>ids. handleOrphanedRequests idText s = Answer ids \<and> j \<in> set ids) \<longleftrightarrow> related_request w idText midText s = Answer []"
  using orphaned_requests [OF assms(1,2), of j i] assms(3-9)
  by (auto simp: handleOrphanedRequests_def for_trace_def related_request_def for_message_def handleRelatedMessages_def)

end
