(* ===== verification/Spec2Isabelle.thy ===== *)
theory Spec2Isabelle
  imports LpcConformance LogDetect Capture Connections Writes Mdns Hub MessageApi AnalysisApi DeviceRepos CaptureApi Producers EditApi
    Migrations Rows Database CommandLine UdpSource Pages LiveUpdates ReadApi
begin

text \<open>
  EEBus Tracer (\<open>github.com/eebustracer/eebustracer\<close>) records the traffic of EEBus devices (SHIP frames with SPINE datagrams in
  them), from live sources or from log files, keeps it in an SQLite database and serves analyses of it over HTTP and on the
  command line. This library models its Go code and proves what makes it correct.

  \<^bold>\<open>The program.\<close> A frame or a line of a log becomes a \<open>model.Message\<close> (\<open>internal/parser\<close>, \<open>internal/spineparse\<close>). Messages come
  from importers (\<open>internal/store/logimport.go\<close>, \<open>fileio.go\<close>) or from a source that runs under the capture engine
  (\<open>internal/capture\<close>); both insert them into the repositories of \<open>internal/store\<close>, the engine also hands them to the WebSocket
  hub. The analyses (\<open>internal/analysis\<close>) are functions from the messages of a trace; the handlers of \<open>internal/api\<close> select the
  messages, call them and answer. \<open>internal/mdns\<close> watches the network for devices beside all this.

  \<^bold>\<open>Theories and files.\<close> The library below the components:
  \<^item> \<open>GoPrelude\<close> (strings, \<open>strconv\<close>), \<open>GoTime\<close> (\<open>time\<close>), \<open>Json\<close> and \<open>JsonFacts\<close> (\<open>encoding/json\<close> and its scanner), \<open>Indent\<close> (the
    encoder's layout, the decoder's first value), \<open>Regex\<close> (\<open>regexp\<close>), each the part of Go's library the program uses;
  \<^item> \<open>OrderedMap\<close>: the maps with a slice of keys beside them that most analyses keep; \<open>KeyedTable\<close>: a table with a growing key.

  The components, in the order of the calls:
  \<^item> \<open>Model\<close>: \<open>internal/model\<close>; \<open>Producers\<close> proves which ways in give messages of its enumerations (log and DLT files and the live
    sources do, a trace file gives what it says);
  \<^item> \<open>ParserCore\<close> (\<open>normalize.go\<close>, \<open>ship.go\<close>, \<open>spine.go\<close>, \<open>parser.go\<close>), \<open>Spineparse\<close>, \<open>Dlt\<close> (\<open>dlt.go\<close>, \<open>dltbin.go\<close>), \<open>LogFormat\<close> and \<open>LogDetect\<close>
    (\<open>logformat.go\<close>);
  \<^item> \<open>Subscriptions\<close>, \<open>Metrics\<close>, \<open>UseCases\<close> (with \<open>depgraph.go\<close>), \<open>Lifecycle\<close> (with \<open>flow.go\<close>), \<open>LpcConformance\<close>: \<open>internal/analysis\<close>;
  \<^item> \<open>Store\<close> (tables and queries), \<open>Rows\<close> (the statements, column by column), \<open>Database\<close> (\<open>db.go\<close>), \<open>Migrations\<close>, \<open>DeviceRepos\<close>, \<open>LogImport\<close>, \<open>Eet\<close> and \<open>LineShape\<close> (trace files and why they are never taken
    for logs): \<open>internal/store\<close>;
  \<^item> \<open>Sources\<close>, \<open>UdpSource\<close> and \<open>Capture\<close>: \<open>internal/capture\<close>; \<open>Mdns\<close>: \<open>internal/mdns\<close> with its handlers; \<open>Hub\<close>: \<open>api/hub.go\<close>;
  \<^item> \<open>Connections\<close>, \<open>Descriptions\<close>, \<open>TimeSeries\<close>, \<open>Writes\<close> (with \<open>correlation.go\<close>), \<open>DeviceTree\<close> (\<open>depgraph.go\<close> and the report of
    \<open>cmd/eebustracer/devices.go\<close>), \<open>MessageApi\<close>, \<open>AnalysisApi\<close>, \<open>CaptureApi\<close>, \<open>EditApi\<close>, \<open>Routes\<close> (\<open>server.go\<close>), \<open>Pages\<close>
    (\<open>templates.go\<close>), \<open>ReadApi\<close> (the requests that only read, and the discover command): \<open>internal/api\<close>;
  \<^item> \<open>LiveUpdates\<close>: the server that joins the engine and the hub;
  \<^item> \<open>CommandLine\<close>: the commands of \<open>cmd/eebustracer\<close>.

  A definition has the name of the Go function it models; a group that has no name in the code (a loop body, the part of a handler
  between two locks) has a name of its own. A struct is a record whose fields carry the struct's initials. An error is \<open>None\<close>,
  \<open>Inl\<close> its text, or an answer with a status. The state is explicit: \<open>store\<close> (the tables), \<open>capture\<close> (the engine with its
  database), the monitor of \<open>Mdns\<close>, the hub of \<open>Hub\<close>, \<open>schema\<close>.

  \<^bold>\<open>Concurrency.\<close> The engine, the monitor and the hub are step relations: a step is what the code does under one lock, so the callback
  of a source is two steps (\<open>receive\<close>, \<open>deliver\<close>), a start request creates its trace and then asks the engine, a stop reads the engine, stops it and
  writes the trace (each request is also one step, for when nothing disturbs it), and a broadcast is one step
  per client. Uploads, renamings and deletions of traces are steps beside the engine, on connections with and without foreign keys; an upload and an edit of a chart are one step each. \<open>LiveUpdates\<close> runs the engine and the hub together. Invariants hold in every reachable state, whatever interleaves.

  \<^bold>\<open>Interfaces.\<close> \<open>ordered_store\<close> states what the clients of a map with an order rely on; \<open>ordered_accumulator\<close> extends it with a
  fold that adds to the value of a key. Both are interpreted on the pair of map and key list (\<open>om\<close>), and the second for the heartbeat
  pairs (\<open>hb\<close>), the series of a chart (\<open>item_series\<close>), the entities of a device and the devices of a trace (\<open>entities\<close>, \<open>devices\<close>).
  \<open>keyed_table\<close> states what a lookup returns after an insertion, an update and a deletion; \<open>Store\<close> interprets it for traces, messages and
  charts under its invariant. \<open>route_table\<close> states that no two patterns of a multiplexer conflict, and gives the pattern that serves a
  request; \<open>Routes\<close> interprets it on the table of the server.

  \<^bold>\<open>What the lemmas show.\<close>
  \<^item> Parsing: what a parsed message holds on every branch; normalization puts back the brackets of arrays and changes nothing else;
    array and flattened forms of a payload give the same values; DLT frames are read back in both byte orders; a truncated JSON text is never
    taken for a whole one.
  \<^item> Analyses: tracking all subscriptions refines one state machine per key; the lists are in the order of first announcement; which
    response belongs to which request; how long a write was in force; which nodes, edges and series an answer has.
  \<^item> Database: no row refers to a row that is gone, in every database that connections with foreign keys reach, and keys stay unique on any connections; which messages a filter selects and how pages fit
    together; an interrupted upgrade can be repeated; the chart requests are operations of a map; the statements write and read the
    columns of the same record; what a deletion does on a pool of connections, of which only one has foreign keys.
  \<^item> Import and export: importers collect one message per matching line; which broken ends of a binary log lose everything and which nothing; the loops over
    frames return on any bytes; a trace exported to a file and imported elsewhere is the same
    trace; the text of a trace file is never taken for a log; detection agrees with the importers.
  \<^item> Capture: numbers are never given twice; a log tail gives the same messages however the polls cut the file; reconnecting delays are
    bounded; what a session leaves in the database; what requests that overlap leave behind.
  \<^item> Network: which devices the monitor knows and when a silent one goes offline; the hub never sends on a closed channel, keeps the
    order and loses only what does not fit a buffer, and what a buffer took is sent in every fair run without a failed write; a browser gets every captured message once,
    and in order when one source runs.
  \<^item> Requests: the route table is unambiguous and total on \<open>GET\<close>, and only paths that are not clean and \<open>/static\<close> are redirected; which paths are pages; importing a file by request and on the command
    line is the same.

  \<^bold>\<open>Bounds and fuel.\<close> Recursion is structural where the loop is over a list. \<open>read_frames\<close> and \<open>readUntilClosed\<close> terminate because every
  frame takes at least twenty or four bytes; \<open>Producers\<close> has the same loops as partial functions, without a measure, and shows that they have the same values on any bytes. The regular expressions repeat
  only character classes, so their matcher is structural. Other recursions carry a termination proof; the one bound left, on the matches of a pattern in a text (\<open>rx_all\<close>), is shown to be enough. Counters of a trace are unbounded integers: they
  come from slice lengths and database keys; durations saturate at 64 bits as in Go, and DLT flags and JSON integers are checked
  at their width.

  \<^bold>\<open>Parameters.\<close> Code that is not in this repository is an argument: ship-go and spine-go (\<open>externals\<close>), the SQL engine where it
  decides more than the query says (\<open>engine\<close>: full-text match, comparison of stored times, order of equal keys, which is taken to be the same in every query), the growth of
  slices (\<open>grow\<close>), the order in which Go visits a map (\<open>visit\<close>) and sorts equal elements, the clock and the text of a time (\<open>clock\<close>, with
  what \<open>time\<close> documents in \<open>clock_ok\<close>), \<open>time.ParseDuration\<close>, \<open>os.Stat\<close>, zeroconf and gorilla/websocket (as events).

  \<^bold>\<open>Not modelled.\<close> Floating point: heartbeat figures and values of series are exact numbers, printed as the exact value rounds. The
  parsing and execution of HTML templates, the scripts of the web pages, the WebSocket upgrade, logging and the flags of the
  command line: they pass values between the parts above and the outside. JSON answers of the analyses are the values that are
  encoded, not their text. Times have no location. Percent escapes in the path of a request are not taken apart. The SQL engine executes the statements of \<open>Rows\<close> as they say; the queries of \<open>Store\<close> are on
  records.
\<close>

end
